(* ===== verification/Prelude.thy ===== *)
theory Prelude
  imports Main "HOL-Library.Word"
begin

text \<open>
  Shared vocabulary of the development: the machine integer types of the sources, byte strings and
  their conversion to character strings, the error-or-value type of fallible code, generic lemmas on
  lists and words, and the named collections the component theories extend.
\<close>

unbundle bit_operations_syntax

section \<open>Types\<close>

type_synonym u8 = "8 word"
type_synonym u16 = "16 word"
type_synonym u32 = "32 word"
type_synonym u64 = "64 word"
type_synonym i32 = "32 word"
type_synonym bytes = "u8 list"

text \<open>
  A \<^verbatim>\<open>float\<close> of the sources is only ever copied and compared, so it is kept as its IEEE-754 bit
  pattern. \<open>float_eq\<close> is C++'s \<^verbatim>\<open>==\<close> on two binary32 patterns: NaN equals nothing, the two zeros
  are equal, everything else is equal when the patterns are.
\<close>

type_synonym float32 = "32 word"

definition float_is_nan :: "float32 \<Rightarrow> bool" where
  "float_is_nan x \<longleftrightarrow> (x AND 0x7F800000) = 0x7F800000 \<and> (x AND 0x007FFFFF) \<noteq> 0"

definition float_eq :: "float32 \<Rightarrow> float32 \<Rightarrow> bool" where
  "float_eq x y \<longleftrightarrow> \<not> float_is_nan x \<and> \<not> float_is_nan y \<and>
     (x = y \<or> (x AND 0x7FFFFFFF) = 0 \<and> (y AND 0x7FFFFFFF) = 0)"

section \<open>Named collections\<close>

named_theorems codec_defs \<open>definitions of the byte level readers and writers\<close>
named_theorems roundtrip \<open>decode after encode\<close>
named_theorems inv_intros \<open>operations keep their component's invariant\<close>

section \<open>Error or value\<close>

definition bindE :: "'e + 'a \<Rightarrow> ('a \<Rightarrow> 'e + 'b) \<Rightarrow> 'e + 'b" where
  "bindE x f = (case x of Inl e \<Rightarrow> Inl e | Inr a \<Rightarrow> f a)"

lemma bindE_simps [simp]: "bindE (Inl e) f = Inl e" "bindE (Inr a) f = f a"
  by (simp_all add: bindE_def)

lemma bindE_assoc [simp]: "bindE (bindE x f) g = bindE x (\<lambda>a. bindE (f a) g)"
  by (cases x) simp_all

lemma bindE_eq_Inr: "bindE x f = Inr b \<longleftrightarrow> (\<exists>a. x = Inr a \<and> f a = Inr b)"
  by (cases x) auto

lemma bindE_eq_Inl: "bindE x f = Inl e \<longleftrightarrow> x = Inl e \<or> (\<exists>a. x = Inr a \<and> f a = Inl e)"
  by (cases x) auto

section \<open>Strings and bytes\<close>

definition bytes_of :: "string \<Rightarrow> bytes" where
  "bytes_of s = map (\<lambda>c. word_of_nat (of_char c)) s"

definition chars_of :: "bytes \<Rightarrow> string" where
  "chars_of bs = map (\<lambda>b. char_of (unat b)) bs"

lemma length_bytes_of [simp]: "length (bytes_of s) = length s"
  by (simp add: bytes_of_def)

lemma length_chars_of [simp]: "length (chars_of bs) = length bs"
  by (simp add: chars_of_def)

lemma bytes_of_simps [simp]:
  "bytes_of [] = []" "bytes_of (c # s) = word_of_nat (of_char c) # bytes_of s"
  by (simp_all add: bytes_of_def)

lemma chars_of_simps [simp]:
  "chars_of [] = []" "chars_of (b # bs) = char_of (unat b) # chars_of bs"
  by (simp_all add: chars_of_def)

lemma bytes_of_append [simp]: "bytes_of (s @ t) = bytes_of s @ bytes_of t"
  by (simp add: bytes_of_def)

lemma chars_of_append [simp]: "chars_of (s @ t) = chars_of s @ chars_of t"
  by (simp add: chars_of_def)

lemma chars_of_bytes_of [roundtrip, simp]: "chars_of (bytes_of s) = s"
  by (induction s) (simp_all add: unat_of_nat)

lemma bytes_of_chars_of [roundtrip, simp]: "bytes_of (chars_of bs) = bs"
proof (induction bs)
  case (Cons b bs)
  have "unat b < 256" using unsigned_less [of b] by simp
  with Cons show ?case by simp
qed simp

lemma bytes_of_inject: "bytes_of s = bytes_of t \<longleftrightarrow> s = t"
  using chars_of_bytes_of by metis

lemma set_bytes_of_iff: "word_of_nat (of_char c) \<in> set (bytes_of s) \<longleftrightarrow> c \<in> set s"
proof
  assume "(word_of_nat (of_char c) :: u8) \<in> set (bytes_of s)"
  then obtain d where "d \<in> set s" and eq: "(word_of_nat (of_char d) :: u8) = word_of_nat (of_char c)"
    by (auto simp: bytes_of_def)
  from eq have "chars_of [word_of_nat (of_char d)] = chars_of [word_of_nat (of_char c) :: u8]"
    by (simp only:)
  then have "c = d" by (simp add: unat_of_nat)
  with \<open>d \<in> set s\<close> show "c \<in> set s" by simp
qed (simp add: bytes_of_def)

section \<open>Lists\<close>

lemma take_drop_nth_eq:
  "\<lbrakk> take n xs = take n ys; i < n; n \<le> length xs; n \<le> length ys \<rbrakk> \<Longrightarrow> xs ! i = ys ! i"
  by (metis nth_take)

lemma nth_append_right: "length xs \<le> i \<Longrightarrow> (xs @ ys) ! i = ys ! (i - length xs)"
  by (simp add: nth_append)

lemma drop_eq_ConsD: "drop n xs = x # ys \<Longrightarrow> n < length xs \<and> xs ! n = x"
  by (metis Cons_nth_drop_Suc drop_all linorder_not_le list.distinct(1) list.inject)

section \<open>Words\<close>

lemma not_bit_u8 [simp]: "8 \<le> n \<Longrightarrow> \<not> bit (b :: u8) n"
  using bit_imp_le_length [of b n] by auto

lemma unat_u8_lt [simp]: "unat (b :: u8) < 256"
  using unsigned_less [of b] by simp

section \<open>Copies\<close>

text \<open>\<open>memcpy\<close> of \<open>data\<close> to offset \<open>off\<close> of a vector; the callers keep the copy inside it.\<close>

definition memcpy_at :: "'a list \<Rightarrow> nat \<Rightarrow> 'a list \<Rightarrow> 'a list" where
  "memcpy_at buf off data = take off buf @ data @ drop (off + length data) buf"

lemma length_memcpy_at [simp]:
  "off + length data \<le> length buf \<Longrightarrow> length (memcpy_at buf off data) = length buf"
  by (simp add: memcpy_at_def)

lemma take_memcpy_at:
  "off + length data \<le> length buf \<Longrightarrow>
   take (off + length data) (memcpy_at buf off data) = take off buf @ data"
  by (simp add: memcpy_at_def)

end
