(* ===== verification/Byte_Util.thy ===== *)
theory Byte_Util
  imports Prelude
begin

text \<open>
  \<^verbatim>\<open>common/include/byte_util.h\<close>: unaligned big- and little-endian loads and stores. A pointer argument
  is the list of the bytes from that address on. A load from a list that is too short would be a read
  outside the object: the value is then meaningless (\<open>byte_at\<close> is 0), and every reader built on top
  turns the access into an explicit fault before the value can be used.
\<close>

section \<open>Loads\<close>

definition byte_at :: "bytes \<Rightarrow> nat \<Rightarrow> u8" where
  "byte_at p i = (if i < length p then p ! i else 0)"

definition LoadBigU16 :: "bytes \<Rightarrow> u16" where
  "LoadBigU16 p = push_bit 8 (ucast (byte_at p 0)) OR ucast (byte_at p 1)"

definition LoadBigU32 :: "bytes \<Rightarrow> u32" where
  "LoadBigU32 p = push_bit 24 (ucast (byte_at p 0)) OR push_bit 16 (ucast (byte_at p 1)) OR
                  push_bit 8 (ucast (byte_at p 2)) OR ucast (byte_at p 3)"

definition LoadLittleU16 :: "bytes \<Rightarrow> u16" where
  "LoadLittleU16 p = ucast (byte_at p 0) OR push_bit 8 (ucast (byte_at p 1))"

definition LoadLittleU32 :: "bytes \<Rightarrow> u32" where
  "LoadLittleU32 p = ucast (byte_at p 0) OR push_bit 8 (ucast (byte_at p 1)) OR
                     push_bit 16 (ucast (byte_at p 2)) OR push_bit 24 (ucast (byte_at p 3))"

definition LoadLittleU64 :: "bytes \<Rightarrow> u64" where
  "LoadLittleU64 p = ucast (LoadLittleU32 p) OR push_bit 32 (ucast (LoadLittleU32 (drop 4 p)))"

section \<open>Stores\<close>

definition StoreBigU16 :: "u16 \<Rightarrow> bytes" where
  "StoreBigU16 v = [ucast (drop_bit 8 v), ucast v]"

definition StoreBigU32 :: "u32 \<Rightarrow> bytes" where
  "StoreBigU32 v = [ucast (drop_bit 24 v), ucast (drop_bit 16 v), ucast (drop_bit 8 v), ucast v]"

section \<open>Round trips\<close>

lemma byte_at_simps [simp]:
  "byte_at (b # bs) 0 = b" "byte_at (b # bs) (Suc n) = byte_at bs n"
  by (simp_all add: byte_at_def)

lemma byte_at_numeral [simp]: "byte_at (b # bs) (numeral k) = byte_at bs (pred_numeral k)"
  by (simp add: numeral_eq_Suc)

lemma byte_at_append: "i < length xs \<Longrightarrow> byte_at (xs @ ys) i = byte_at xs i"
  by (simp add: byte_at_def nth_append)

lemma length_StoreBig [simp]: "length (StoreBigU16 v) = 2" "length (StoreBigU32 w) = 4"
  by (simp_all add: StoreBigU16_def StoreBigU32_def)

lemma LoadBigU16_StoreBigU16 [roundtrip, simp]: "LoadBigU16 (StoreBigU16 v @ rest) = v"
  unfolding LoadBigU16_def StoreBigU16_def
  by (rule bit_word_eqI) (auto simp: bit_simps)

lemma join_u32:
  "push_bit 24 (ucast (ucast (drop_bit 24 v) :: u8)) OR push_bit 16 (ucast (ucast (drop_bit 16 v) :: u8)) OR
   push_bit 8 (ucast (ucast (drop_bit 8 v) :: u8)) OR ucast (ucast v :: u8) = (v :: u32)"
proof (rule bit_word_eqI)
  fix n assume "n < LENGTH(32)"
  then consider "n < 8" | "8 \<le> n" "n < 16" | "16 \<le> n" "n < 24" | "24 \<le> n" "n < 32"
    using not_le_imp_less by fastforce
  then show "bit (push_bit 24 (ucast (ucast (drop_bit 24 v) :: u8)) OR
      push_bit 16 (ucast (ucast (drop_bit 16 v) :: u8)) OR
      push_bit 8 (ucast (ucast (drop_bit 8 v) :: u8)) OR ucast (ucast v :: u8) :: u32) n = bit v n"
  proof cases
    case 3
    then show ?thesis by (cases "n - 8 < 8") (auto simp: bit_simps)
  next
    case 4
    then show ?thesis by (cases "n - 8 < 8"; cases "n - 16 < 8") (auto simp: bit_simps)
  qed (auto simp: bit_simps)
qed

lemma LoadBigU32_StoreBigU32 [roundtrip, simp]: "LoadBigU32 (StoreBigU32 v @ rest) = v"
  unfolding LoadBigU32_def StoreBigU32_def by (simp add: join_u32)

lemma StoreBigU16_LoadBigU16 [roundtrip]: "StoreBigU16 (LoadBigU16 [a, b]) = [a, b]"
  unfolding LoadBigU16_def StoreBigU16_def
  by (auto intro!: bit_word_eqI simp: bit_simps)

lemma StoreBigU32_LoadBigU32 [roundtrip]: "StoreBigU32 (LoadBigU32 [a, b, c, d]) = [a, b, c, d]"
  unfolding LoadBigU32_def StoreBigU32_def
  by (auto intro!: bit_word_eqI simp: bit_simps)

text \<open>A load looks at its first two, four or eight bytes only.\<close>

lemma byte_at_take: "i < n \<Longrightarrow> byte_at (take n p) i = byte_at p i"
  by (simp add: byte_at_def)

lemma LoadBigU16_take: "2 \<le> n \<Longrightarrow> LoadBigU16 (take n p) = LoadBigU16 p"
  by (simp add: LoadBigU16_def byte_at_take)

lemma LoadBigU32_take: "4 \<le> n \<Longrightarrow> LoadBigU32 (take n p) = LoadBigU32 p"
  by (simp add: LoadBigU32_def byte_at_take)

lemma LoadBigU32_append: "4 \<le> length p \<Longrightarrow> LoadBigU32 (p @ q) = LoadBigU32 p"
  unfolding LoadBigU32_def by (subst byte_at_append, linarith)+ simp

lemma LoadBigU16_append: "2 \<le> length p \<Longrightarrow> LoadBigU16 (p @ q) = LoadBigU16 p"
  unfolding LoadBigU16_def by (subst byte_at_append, linarith)+ simp

end
