(* ===== verification/Cola_B.thy ===== *)
theory Cola_B
  imports Byte_Util
begin

text \<open>
  \<^verbatim>\<open>lms4xxx_driver/include/cola_b.h\<close> and \<^verbatim>\<open>src/cola_b.cpp\<close>: the CoLa B telegram codec (STX, big-endian
  length, data, XOR checksum), the message record and the SOPAS error texts, and the error codes of
  \<^verbatim>\<open>include/error.h\<close>. Log lines are not modelled. The lemmas show that decoding inverts encoding,
  that the frame layout is the one the receiver expects, and which inputs are refused.
\<close>

section \<open>Error codes\<close>

datatype ErrorCode =
    kCrcError | kProtocolError | kUnexpectedResponse | kFrameTooShort | kFrameTooLong
  | kAccessDenied | kCommandRejected | kSopasError | kReadbackMismatch | kDeviceNotReady
  | kInvalidConfig
  | kNotConnected | kAlreadyScanning | kNotScanning | kStopMeasurementUnconfirmed

fun error_value :: "ErrorCode \<Rightarrow> int" where
  "error_value kCrcError = 200"
| "error_value kProtocolError = 201"
| "error_value kUnexpectedResponse = 202"
| "error_value kFrameTooShort = 203"
| "error_value kFrameTooLong = 204"
| "error_value kAccessDenied = 301"
| "error_value kCommandRejected = 302"
| "error_value kSopasError = 303"
| "error_value kReadbackMismatch = 304"
| "error_value kDeviceNotReady = 305"
| "error_value kInvalidConfig = 400"
| "error_value kNotConnected = 501"
| "error_value kAlreadyScanning = 503"
| "error_value kNotScanning = 504"
| "error_value kStopMeasurementUnconfirmed = 505"

fun error_message :: "ErrorCode \<Rightarrow> string" where
  "error_message kCrcError = ''CRC8 checksum mismatch''"
| "error_message kProtocolError = ''invalid CoLa B response''"
| "error_message kUnexpectedResponse = ''unexpected response type''"
| "error_message kFrameTooShort = ''frame too short''"
| "error_message kFrameTooLong = ''frame exceeds max length''"
| "error_message kAccessDenied = ''access denied (login required)''"
| "error_message kCommandRejected = ''command rejected by device''"
| "error_message kSopasError = ''device answered sFA''"
| "error_message kReadbackMismatch = ''device stores a different value than written''"
| "error_message kDeviceNotReady = ''device did not reach the ready state''"
| "error_message kInvalidConfig = ''invalid configuration parameter''"
| "error_message kNotConnected = ''not connected''"
| "error_message kAlreadyScanning = ''already scanning''"
| "error_message kNotScanning = ''not scanning''"
| "error_message kStopMeasurementUnconfirmed = ''device stop measurement was not confirmed''"

definition SopasErrorText :: "u16 \<Rightarrow> string" where
  "SopasErrorText code =
     (if code = 0 then ''no error'' else
      if code = 1 then ''wrong user level, access to method not allowed'' else
      if code = 2 then ''unknown method index'' else
      if code = 3 then ''unknown variable index'' else
      if code = 4 then ''local condition failed (value out of range)'' else
      if code = 5 then ''invalid data'' else
      if code = 6 then ''unknown error'' else
      if code = 7 then ''buffer overflow'' else
      if code = 8 then ''buffer underflow'' else
      if code = 9 then ''unknown type'' else
      if code = 10 then ''variable is read-only'' else
      if code = 11 then ''unknown command for name server'' else
      if code = 12 then ''unknown CoLa command'' else
      if code = 13 then ''server busy'' else
      if code = 14 then ''flex array out of bounds'' else
      if code = 15 then ''unknown event index'' else
      if code = 16 then ''CoLa A value overflow'' else
      if code = 17 then ''CoLa A invalid character'' else
      if code = 18 then ''OSAI no message'' else
      if code = 19 then ''OSAI no answer message'' else
      if code = 20 then ''internal firmware error'' else
      if code = 21 then ''hub address corrupted'' else
      if code = 22 then ''hub address decoding'' else
      if code = 23 then ''hub address exceeded'' else
      if code = 24 then ''hub address blank expected'' else
      if code = 25 then ''async methods suppressed'' else
      if code = 26 then ''complex arrays not supported''
      else ''unknown SOPAS error code'')"

section \<open>Messages\<close>

text \<open>The command types of \<^verbatim>\<open>CommandType\<close>.\<close>

abbreviation "kReadByName \<equiv> ''sRN''"
abbreviation "kWriteByName \<equiv> ''sWN''"
abbreviation "kMethodByName \<equiv> ''sMN''"
abbreviation "kEventByName \<equiv> ''sEN''"
abbreviation "kReadAnswer \<equiv> ''sRA''"
abbreviation "kWriteAnswer \<equiv> ''sWA''"
abbreviation "kMethodAnswer \<equiv> ''sAN''"
abbreviation "kEventAnswer \<equiv> ''sEA''"
abbreviation "kEventNotify \<equiv> ''sSN''"
abbreviation "kErrorAnswer \<equiv> ''sFA''"

definition kColaBStx :: bytes where
  "kColaBStx = [0x02, 0x02, 0x02, 0x02]"

definition kColaBSpace :: u8 where
  "kColaBSpace = 0x20"

record ColaBMessage =
  command_type :: string
  command_name :: string
  payload :: bytes

definition IsScanMessage :: "ColaBMessage \<Rightarrow> bool" where
  "IsScanMessage message \<longleftrightarrow> command_name message = ''LMDscandata'' \<and>
     (command_type message = kEventNotify \<or> command_type message = kReadAnswer)"

section \<open>Codec\<close>

definition ComputeChecksum :: "bytes \<Rightarrow> u8" where
  "ComputeChecksum data = foldl (XOR) 0 data"

definition EncodeUint32 :: "u32 \<Rightarrow> bytes" where
  "EncodeUint32 value = StoreBigU32 value"

definition EncodeUint16 :: "u16 \<Rightarrow> bytes" where
  "EncodeUint16 value = [ucast (drop_bit 8 value AND 0xFF), ucast (value AND 0xFF)]"

text \<open>An \<^verbatim>\<open>int32_t\<close> is its two's complement word; the cast to \<^verbatim>\<open>uint32_t\<close> keeps the bits.\<close>

definition EncodeInt32 :: "i32 \<Rightarrow> bytes" where
  "EncodeInt32 value = EncodeUint32 value"

definition EncodeFloat :: "float32 \<Rightarrow> bytes" where
  "EncodeFloat value = EncodeUint32 value"

definition encode_data :: "string \<Rightarrow> string \<Rightarrow> bytes \<Rightarrow> bytes" where
  "encode_data ctype cname params =
     bytes_of ctype @ [kColaBSpace] @ bytes_of cname @
     (if params \<noteq> [] then kColaBSpace # params else [])"

definition Encode :: "string \<Rightarrow> string \<Rightarrow> bytes \<Rightarrow> bytes" where
  "Encode ctype cname params =
     (let data = encode_data ctype cname params;
          len_bytes = EncodeUint32 (word_of_nat (length data));
          checksum = ComputeChecksum data
      in kColaBStx @ len_bytes @ data @ [checksum])"

definition DecodeUint32 :: "bytes \<Rightarrow> u32" where
  "DecodeUint32 buf = LoadBigU32 buf"

definition DecodeUint16 :: "bytes \<Rightarrow> u16" where
  "DecodeUint16 buf = LoadBigU16 buf"

definition DecodeInt32 :: "bytes \<Rightarrow> i32" where
  "DecodeInt32 buf = DecodeUint32 buf"

definition DecodeFloat :: "bytes \<Rightarrow> float32" where
  "DecodeFloat buf = DecodeUint32 buf"

definition DecodeString :: "bytes \<Rightarrow> nat \<Rightarrow> string" where
  "DecodeString buf len = chars_of (take len buf)"

text \<open>
  The data part of a frame: three type characters, a space, then (unless the type is \<^verbatim>\<open>sFA\<close>) the name
  up to the next space or the end, and the payload after that space. The output message is only
  meaningful on success, and every caller drops it otherwise.
\<close>

definition Decode :: "bytes \<Rightarrow> ErrorCode + ColaBMessage" where
  "Decode data =
     (if length data < 4 then Inl kFrameTooShort
      else let ctype = chars_of (take 3 data) in
        if data ! 3 \<noteq> kColaBSpace then Inl kProtocolError
        else if ctype = kErrorAnswer then
          Inr \<lparr>command_type = ctype, command_name = [], payload = drop 4 data\<rparr>
        else let rest = drop 4 data;
                 name = takeWhile (\<lambda>b. b \<noteq> kColaBSpace) rest;
                 tail = dropWhile (\<lambda>b. b \<noteq> kColaBSpace) rest in
          if name = [] then Inl kProtocolError
          else Inr \<lparr>command_type = ctype, command_name = chars_of name, payload = drop 1 tail\<rparr>)"

definition ParamsOf :: "bytes \<Rightarrow> nat \<Rightarrow> bytes" where
  "ParamsOf frame name_len =
     (let start = 8 + 3 + 1 + name_len + 1 in
      if length frame < 2 \<or> start \<ge> length frame - 1 then []
      else take (length frame - 1 - start) (drop start frame))"

lemmas codec_unfold =
  EncodeUint32_def EncodeUint16_def EncodeInt32_def EncodeFloat_def
  DecodeUint32_def DecodeUint16_def DecodeInt32_def DecodeFloat_def DecodeString_def

section \<open>Facts about the codec\<close>

lemma ComputeChecksum_snoc: "ComputeChecksum (xs @ [x]) = ComputeChecksum xs XOR x"
  by (simp add: ComputeChecksum_def)

lemma ucast_low_byte: "(ucast (v AND 0xFF) :: u8) = ucast (v :: u16)"
proof -
  have m: "(0xFF :: u16) = mask 8" by (simp add: mask_eq_exp_minus_1)
  show ?thesis unfolding m
    by (rule bit_word_eqI) (simp only: bit_ucast_iff bit_and_iff bit_mask_iff, simp)
qed

lemma EncodeUint16_Store: "EncodeUint16 v = StoreBigU16 v"
  unfolding EncodeUint16_def StoreBigU16_def ucast_low_byte ..

lemma length_encode_fields [simp]:
  "length (EncodeUint16 v) = 2" "length (EncodeUint32 w) = 4" "length (EncodeInt32 i) = 4"
  "length (EncodeFloat f) = 4"
  by (simp_all add: EncodeUint16_Store EncodeUint32_def EncodeInt32_def EncodeFloat_def)

lemma DecodeUint32_Encode [roundtrip, simp]: "DecodeUint32 (EncodeUint32 v @ rest) = v"
  by (simp add: DecodeUint32_def EncodeUint32_def)

lemma DecodeUint16_Encode [roundtrip, simp]: "DecodeUint16 (EncodeUint16 v @ rest) = v"
  by (simp add: DecodeUint16_def EncodeUint16_Store)

lemma DecodeInt32_Encode [roundtrip, simp]: "DecodeInt32 (EncodeInt32 v @ rest) = v"
  by (simp add: DecodeInt32_def EncodeInt32_def)

lemma DecodeFloat_Encode [roundtrip, simp]: "DecodeFloat (EncodeFloat v @ rest) = v"
  by (simp add: DecodeFloat_def EncodeFloat_def)

lemma length_encode_data:
  "length (encode_data t n p) = length t + 1 + length n + (if p = [] then 0 else 1 + length p)"
  by (simp add: encode_data_def)

lemma length_Encode [simp]: "length (Encode t n p) = 9 + length (encode_data t n p)"
  by (simp add: Encode_def Let_def kColaBStx_def)

lemma Encode_split:
  "Encode t n p = kColaBStx @ EncodeUint32 (word_of_nat (length (encode_data t n p))) @
                  encode_data t n p @ [ComputeChecksum (encode_data t n p)]"
  by (simp add: Encode_def Let_def)

lemma Encode_data: "take (length (Encode t n p) - 9) (drop 8 (Encode t n p)) = encode_data t n p"
  by (simp add: Encode_split kColaBStx_def)

text \<open>The characters of a name never collide with the separator when the name has no blank.\<close>

lemma space_bytes_of: "kColaBSpace \<in> set (bytes_of s) \<longleftrightarrow> CHR '' '' \<in> set s"
  using set_bytes_of_iff [of "CHR '' ''" s] by (simp add: kColaBSpace_def)

lemma takeWhile_name:
  "\<lbrakk> CHR '' '' \<notin> set n; ys = [] \<or> hd ys = kColaBSpace \<rbrakk> \<Longrightarrow>
   takeWhile (\<lambda>b. b \<noteq> kColaBSpace) (bytes_of n @ ys) = bytes_of n \<and>
   dropWhile (\<lambda>b. b \<noteq> kColaBSpace) (bytes_of n @ ys) = ys"
proof -
  assume n: "CHR '' '' \<notin> set n" and ys: "ys = [] \<or> hd ys = kColaBSpace"
  from n have ne: "b \<noteq> kColaBSpace" if "b \<in> set (bytes_of n)" for b
    using that space_bytes_of by metis
  show ?thesis
    using ys ne by (cases ys) (auto simp: takeWhile_append2 dropWhile_append2)
qed

lemma Decode_encode_data:
  assumes "length t = 3" "t \<noteq> kErrorAnswer" "n \<noteq> []" "CHR '' '' \<notin> set n"
  shows "Decode (encode_data t n p) = Inr \<lparr>command_type = t, command_name = n, payload = p\<rparr>"
proof -
  let ?ys = "if p \<noteq> [] then kColaBSpace # p else []"
  have split: "encode_data t n p = bytes_of t @ kColaBSpace # bytes_of n @ ?ys"
    by (simp add: encode_data_def)
  have "take 3 (encode_data t n p) = bytes_of t" "encode_data t n p ! 3 = kColaBSpace"
    "drop 4 (encode_data t n p) = bytes_of n @ ?ys"
    using assms(1) by (simp_all add: split nth_append)
  moreover have "\<not> length (encode_data t n p) < 4"
    using assms(1) by (simp add: length_encode_data)
  moreover have "bytes_of n \<noteq> []"
    using assms(3) by (cases n) simp_all
  moreover have "takeWhile (\<lambda>b. b \<noteq> kColaBSpace) (bytes_of n @ ?ys) = bytes_of n"
    "dropWhile (\<lambda>b. b \<noteq> kColaBSpace) (bytes_of n @ ?ys) = ?ys"
    using takeWhile_name [OF assms(4), of ?ys] by auto
  ultimately show ?thesis
    using assms(2) by (simp add: Decode_def Let_def)
qed

lemma ParamsOf_Encode:
  assumes "length t = 3"
  shows "ParamsOf (Encode t n p) (length n) = p"
proof (cases "p = []")
  case True
  then show ?thesis using assms by (simp add: ParamsOf_def Let_def length_encode_data)
next
  case False
  let ?pre = "kColaBStx @ EncodeUint32 (word_of_nat (length (encode_data t n p))) @ bytes_of t @
    [kColaBSpace] @ bytes_of n @ [kColaBSpace]"
  have "Encode t n p = ?pre @ p @ [ComputeChecksum (encode_data t n p)]"
    using False by (simp add: Encode_split) (simp add: encode_data_def)
  moreover have "length ?pre = 8 + 3 + 1 + length n + 1" using assms by (simp add: kColaBStx_def)
  ultimately have "drop (8 + 3 + 1 + length n + 1) (Encode t n p) =
      p @ [ComputeChecksum (encode_data t n p)]"
    by (metis append_eq_conv_conj)
  then show ?thesis using False assms
    by (simp add: ParamsOf_def Let_def length_encode_data)
qed

text \<open>
  C19: decoding inverts encoding: the data part of an encoded telegram decodes to its type, its name
  and its parameters, and \<^verbatim>\<open>ParamsOf\<close> cuts the same parameters out of the frame, for every three
  character command type but the error answer and every name without a blank.
\<close>

theorem Decode_Encode:
  fixes p :: bytes
  assumes "length t = 3" "t \<noteq> kErrorAnswer" "n \<noteq> []" "CHR '' '' \<notin> set n"
  defines "f \<equiv> Encode t n p"
  shows "Decode (take (length f - 9) (drop 8 f)) =
           Inr \<lparr>command_type = t, command_name = n, payload = p\<rparr> \<and>
         ParamsOf f (length n) = p"
  using Decode_encode_data [OF assms(1-4)] ParamsOf_Encode [OF assms(1)] Encode_data [of t n p]
  by (simp add: f_def)

theorem Decode_Encode_witness:
  "Decode (take (length (Encode ''sMN'' ''Run'' [1, 2]) - 9) (drop 8 (Encode ''sMN'' ''Run'' [1, 2]))) =
     Inr \<lparr>command_type = ''sMN'', command_name = ''Run'', payload = [1, 2]\<rparr> \<and>
   ParamsOf (Encode ''sMN'' ''Run'' [1, 2]) (length ''Run'') = [1, 2]"
  using Decode_Encode [of "''sMN''" "''Run''" "[1, 2]"] by simp

lemma Decode_name:
  assumes "4 \<le> length data" "data ! 3 = kColaBSpace"
  shows "data = take 3 data @ [kColaBSpace] @ takeWhile (\<lambda>b. b \<noteq> kColaBSpace) (drop 4 data) @
                dropWhile (\<lambda>b. b \<noteq> kColaBSpace) (drop 4 data)"
proof -
  have "data = take 3 data @ data ! 3 # drop 4 data"
    using assms(1) id_take_nth_drop [of 3 data] by simp
  then show ?thesis using assms(2) by simp
qed

text \<open>
  The decoder accepts nothing but telegrams: what decodes to a message other than an error answer
  is the encoding of exactly that message, up to one blank after a name without parameters.
\<close>

lemma Decode_sound:
  assumes "Decode data = Inr msg" "command_type msg \<noteq> kErrorAnswer"
  shows "data = encode_data (command_type msg) (command_name msg) (payload msg) \<or>
         payload msg = [] \<and>
           data = encode_data (command_type msg) (command_name msg) [] @ [kColaBSpace]"
proof -
  define nm where "nm = takeWhile (\<lambda>b. b \<noteq> kColaBSpace) (drop 4 data)"
  define tl where "tl = dropWhile (\<lambda>b. b \<noteq> kColaBSpace) (drop 4 data)"
  have ok: "4 \<le> length data" "data ! 3 = kColaBSpace" "chars_of (take 3 data) \<noteq> kErrorAnswer"
    using assms by (auto simp: Decode_def Let_def split: if_splits)
  then have msg: "msg = \<lparr>command_type = chars_of (take 3 data), command_name = chars_of nm,
      payload = drop 1 tl\<rparr>"
    using assms(1) by (auto simp: Decode_def Let_def nm_def tl_def split: if_splits)
  have tl: "tl = [] \<or> tl = kColaBSpace # drop 1 tl"
  proof (cases tl)
    case (Cons a l)
    then have "a = kColaBSpace" by (simp add: tl_def dropWhile_eq_Cons_conv)
    with Cons show ?thesis by simp
  qed simp
  have "data = take 3 data @ [kColaBSpace] @ nm @ tl"
    using Decode_name [OF ok(1,2)] by (simp only: nm_def tl_def)
  then show ?thesis using tl
    by (cases "drop 1 tl = []") (auto simp: msg encode_data_def)
qed

section \<open>The checksum\<close>

lemma foldl_xor: "foldl (XOR) (a :: u8) xs = a XOR foldl (XOR) 0 xs"
proof (induction xs arbitrary: a)
  case (Cons x xs)
  from Cons [of "a XOR x"] Cons [of x] show ?case by (simp add: ac_simps)
qed simp

lemma ComputeChecksum_simps [simp]:
  "ComputeChecksum [] = 0" "ComputeChecksum (x # xs) = x XOR ComputeChecksum xs"
  "ComputeChecksum (xs @ ys) = ComputeChecksum xs XOR ComputeChecksum ys"
  using foldl_xor [of x xs] foldl_xor [of "foldl (XOR) 0 xs" ys] by (simp_all add: ComputeChecksum_def)

lemma xor_cancel_left: "(a :: u8) XOR b = a XOR c \<Longrightarrow> b = c"
proof -
  assume "a XOR b = a XOR c"
  then have "a XOR (a XOR b) = a XOR (a XOR c)" by simp
  then show ?thesis by (simp flip: xor.assoc)
qed

text \<open>
  The checksum detects every corruption of a single byte of the data, whatever the byte becomes.
\<close>

lemma ComputeChecksum_detects:
  assumes "i < length data" "b \<noteq> data ! i"
  shows "ComputeChecksum (data[i := b]) \<noteq> ComputeChecksum data"
proof
  assume eq: "ComputeChecksum (data[i := b]) = ComputeChecksum data"
  have "data = take i data @ data ! i # drop (Suc i) data"
    using assms(1) by (rule id_take_nth_drop)
  then have "ComputeChecksum data = ComputeChecksum (take i data) XOR
      (data ! i XOR ComputeChecksum (drop (Suc i) data))"
    by (metis (no_types) ComputeChecksum_simps(2,3))
  moreover have "ComputeChecksum (data[i := b]) = ComputeChecksum (take i data) XOR
      (b XOR ComputeChecksum (drop (Suc i) data))"
    using assms(1) by (simp add: upd_conv_take_nth_drop)
  ultimately have "ComputeChecksum (take i data) XOR (b XOR ComputeChecksum (drop (Suc i) data)) =
      ComputeChecksum (take i data) XOR (data ! i XOR ComputeChecksum (drop (Suc i) data))"
    using eq by simp
  then have "b XOR ComputeChecksum (drop (Suc i) data) = data ! i XOR ComputeChecksum (drop (Suc i) data)"
    by (rule xor_cancel_left)
  then have "b = data ! i"
    unfolding xor.commute [of _ "ComputeChecksum (drop (Suc i) data)"] by (rule xor_cancel_left)
  with assms(2) show False ..
qed

end
