(* ===== verification/Machines.thy ===== *)
theory Machines
  imports Prelude
begin

text \<open>
  The interfaces shared by the components, as locales: a machine driven by a sequence of calls with an
  invariant, a sticky flag no call clears, a bounded first-in first-out queue, and a stream processor
  that is fed in pieces. Each is interpreted on the model's own operations in the theory of the
  component that provides them.
\<close>

section \<open>Machines and invariants\<close>

locale machine =
  fixes step :: "'s \<Rightarrow> 'e \<Rightarrow> 's" and inv :: "'s \<Rightarrow> bool"
  assumes step_inv: "inv s \<Longrightarrow> inv (step s e)"
begin

lemma run_inv: "inv s \<Longrightarrow> inv (foldl step s es)"
  by (induction es arbitrary: s) (simp_all add: step_inv)

end

section \<open>Sticky flags\<close>

locale sticky =
  fixes step :: "'s \<Rightarrow> 'e \<Rightarrow> 's" and flag :: "'s \<Rightarrow> bool"
  assumes step_flag: "flag s \<Longrightarrow> flag (step s e)"
begin

lemma run_flag: "flag s \<Longrightarrow> flag (foldl step s es)"
  by (induction es arbitrary: s) (simp_all add: step_flag)

lemma run_flag_after: "flag (foldl step s es) \<Longrightarrow> flag (foldl step s (es @ fs))"
  by (simp add: run_flag)

end

sublocale sticky \<subseteq> machine step flag
  by unfold_locales (rule step_flag)

section \<open>Feeding a stream in pieces\<close>

text \<open>
  A processor keeps some unread items, is fed chunks and appends to its output. \<open>spec\<close> says what
  a whole input gives: the output and the items left over.
\<close>

locale incremental =
  fixes feed :: "'s \<Rightarrow> 'a list \<Rightarrow> 's" and out :: "'s \<Rightarrow> 'o list" and pend :: "'s \<Rightarrow> 'a list"
    and ok :: "'s \<Rightarrow> bool" and spec :: "'a list \<Rightarrow> 'o list \<times> 'a list"
  assumes feed_ok: "ok s \<Longrightarrow> ok (feed s xs)"
    and feed_out: "ok s \<Longrightarrow> out (feed s xs) = out s @ fst (spec (pend s @ xs))"
    and feed_pend: "ok s \<Longrightarrow> pend (feed s xs) = snd (spec (pend s @ xs))"
    and spec_append: "spec (xs @ ys) = (fst (spec xs) @ fst (spec (snd (spec xs) @ ys)),
                                        snd (spec (snd (spec xs) @ ys)))"
begin

lemma spec_rest: "spec (snd (spec xs)) = ([], snd (spec xs))"
proof -
  have "spec (xs @ []) = (fst (spec xs) @ fst (spec (snd (spec xs) @ [])), snd (spec (snd (spec xs) @ [])))"
    by (rule spec_append)
  then have "spec xs = (fst (spec xs) @ fst (spec (snd (spec xs))), snd (spec (snd (spec xs))))"
    by simp
  then show ?thesis by (metis append_self_conv fst_conv prod.collapse snd_conv)
qed

lemma run_ok: "ok s \<Longrightarrow> ok (foldl feed s chunks)"
  by (induction chunks arbitrary: s) (simp_all add: feed_ok)

text \<open>However the input is cut, the output and the rest are those of the whole input.\<close>

lemma run_chunks:
  assumes "ok s" and "spec (pend s) = ([], pend s)"
  shows "out (foldl feed s chunks) = out s @ fst (spec (pend s @ concat chunks)) \<and>
         pend (foldl feed s chunks) = snd (spec (pend s @ concat chunks))"
  using assms
proof (induction chunks arbitrary: s)
  case (Cons c cs)
  let ?t = "feed s c"
  have t: "ok ?t" "out ?t = out s @ fst (spec (pend s @ c))" "pend ?t = snd (spec (pend s @ c))"
    using Cons.prems by (simp_all add: feed_ok feed_out feed_pend)
  have rest: "spec (pend ?t) = ([], pend ?t)"
    unfolding t(3) by (rule spec_rest)
  note IH = Cons.IH [OF t(1) rest]
  show ?case
    using IH t spec_append [of "pend s @ c" "concat cs"] by simp
qed simp

lemma run_chunks_cong:
  assumes "ok s" and "spec (pend s) = ([], pend s)" and "concat cs = concat ds"
  shows "out (foldl feed s cs) = out (foldl feed s ds)"
  using run_chunks [OF assms(1,2), of cs] run_chunks [OF assms(1,2), of ds] assms(3) by simp

end

section \<open>Bounded queues\<close>

text \<open>
  What a client of a queue relies on: \<open>items\<close> is the content in order, a push is refused exactly when
  the queue does not admit it, and a pop takes the oldest item.
\<close>

locale fifo =
  fixes push :: "'a \<Rightarrow> 'q \<Rightarrow> bool \<times> 'q" and pop :: "'q \<Rightarrow> ('a \<times> 'q) option"
    and items :: "'q \<Rightarrow> 'a list" and admits :: "'q \<Rightarrow> bool" and capacity :: "'q \<Rightarrow> nat"
    and inv :: "'q \<Rightarrow> bool"
  assumes push_ok: "\<lbrakk> inv q; admits q \<rbrakk> \<Longrightarrow> fst (push x q) \<and> items (snd (push x q)) = items q @ [x]"
    and push_full: "\<lbrakk> inv q; \<not> admits q \<rbrakk> \<Longrightarrow> push x q = (False, q)"
    and pop_empty: "\<lbrakk> inv q; items q = [] \<rbrakk> \<Longrightarrow> pop q = None"
    and pop_head: "\<lbrakk> inv q; items q = x # xs \<rbrakk> \<Longrightarrow> \<exists>q'. pop q = Some (x, q') \<and> items q' = xs"
    and push_inv: "inv q \<Longrightarrow> inv (snd (push x q))"
    and pop_inv: "\<lbrakk> inv q; pop q = Some (x, q') \<rbrakk> \<Longrightarrow> inv q'"
    and bounded: "inv q \<Longrightarrow> length (items q) \<le> capacity q"
begin

fun drain :: "nat \<Rightarrow> 'q \<Rightarrow> 'a list \<times> 'q" where
  "drain 0 q = ([], q)"
| "drain (Suc n) q =
     (case pop q of None \<Rightarrow> ([], q)
      | Some (x, q') \<Rightarrow> (let (xs, q'') = drain n q' in (x # xs, q'')))"

text \<open>Popping often enough returns exactly the content, in order, and empties the queue.\<close>

lemma drain_all:
  "\<lbrakk> inv q; length (items q) \<le> n \<rbrakk> \<Longrightarrow> fst (drain n q) = items q \<and> items (snd (drain n q)) = []"
proof (induction n arbitrary: q)
  case (Suc n)
  show ?case
  proof (cases "items q")
    case Nil
    then show ?thesis using Suc.prems by (simp add: pop_empty)
  next
    case (Cons x xs)
    from pop_head [OF Suc.prems(1) Cons] obtain q' where q': "pop q = Some (x, q')" "items q' = xs"
      by blast
    with Suc.prems Cons have "inv q'" "length (items q') \<le> n" by (auto intro: pop_inv)
    with Suc.IH [of q'] q' Cons show ?thesis by (simp add: split_beta Let_def)
  qed
qed simp

lemma drain_capacity: "inv q \<Longrightarrow> fst (drain (capacity q) q) = items q"
  using drain_all [of q "capacity q"] bounded [of q] by simp

end

end
