(* ===== verification/Clock_Quality.thy ===== *)
theory Clock_Quality
  imports Machines
begin

text \<open>
  \<^verbatim>\<open>lms4xxx_driver/include/clock_quality.h\<close>: the comparison of the device's UTC time with its uptime
  counter from scan to scan. UTC values are \<^verbatim>\<open>int64_t\<close> microseconds, kept as \<open>int\<close> (the differences
  of two device times stay far inside 64 bits, see \<^verbatim>\<open>Scan_Time\<close>); the uptime counter is a 32 bit word
  and its difference wraps. The lemmas show that a rollover of the counter is invisible and that every
  reported anomaly is also logged.
\<close>

definition kAssessed :: u16 where "kAssessed = 0x001"
definition kInvalidTimestamp :: u16 where "kInvalidTimestamp = 0x002"
definition kFirstSample :: u16 where "kFirstSample = 0x004"
definition kRepeatedUtc :: u16 where "kRepeatedUtc = 0x008"
definition kBackwardUtc :: u16 where "kBackwardUtc = 0x010"
definition kStepExceeded :: u16 where "kStepExceeded = 0x020"
definition kNtpDisabled :: u16 where "kNtpDisabled = 0x040"
definition kDeviceNoNtp :: u16 where "kDeviceNoNtp = 0x080"
definition kDeviceNtpUnknown :: u16 where "kDeviceNtpUnknown = 0x100"
definition kUptimeDiscontinuity :: u16 where "kUptimeDiscontinuity = 0x200"
definition kAbsoluteTimeUnverified :: u16 where "kAbsoluteTimeUnverified = 0x400"

lemmas clock_flags =
  kAssessed_def kInvalidTimestamp_def kFirstSample_def kRepeatedUtc_def kBackwardUtc_def
  kStepExceeded_def kNtpDisabled_def kDeviceNoNtp_def kDeviceNtpUnknown_def
  kUptimeDiscontinuity_def kAbsoluteTimeUnverified_def

record ClockObservation =
  flags :: u16
  step_us :: int
  utc_delta_us :: int
  uptime_delta_us :: u32

definition new_ClockObservation :: ClockObservation where
  "new_ClockObservation = \<lparr>flags = 0, step_us = 0, utc_delta_us = 0, uptime_delta_us = 0\<rparr>"

definition kClockStepLogThresholdUs :: int where "kClockStepLogThresholdUs = 1000"
definition kUtcRegressionAnomalyThresholdUs :: int where "kUtcRegressionAnomalyThresholdUs = 1000"
definition kClockStepAnomalyThresholdUs :: int where "kClockStepAnomalyThresholdUs = 10000"

lemmas clock_thresholds =
  kClockStepLogThresholdUs_def kUtcRegressionAnomalyThresholdUs_def kClockStepAnomalyThresholdUs_def

text \<open>\<open>has o f\<close> is the test \<^verbatim>\<open>o.flags & f\<close> used as a condition.\<close>

abbreviation has :: "ClockObservation \<Rightarrow> u16 \<Rightarrow> bool" where
  "has ob f \<equiv> flags ob AND f \<noteq> 0"

definition IsTimeAnomaly :: "ClockObservation \<Rightarrow> bool" where
  "IsTimeAnomaly observation =
     (if \<not> has observation kAssessed \<or>
         has observation (kFirstSample OR kInvalidTimestamp OR kNtpDisabled) then False
      else if utc_delta_us observation < - kUtcRegressionAnomalyThresholdUs then True
      else if has observation kUptimeDiscontinuity then False
      else step_us observation > kClockStepAnomalyThresholdUs \<or>
           step_us observation < - kClockStepAnomalyThresholdUs)"

definition ShouldLogClockChange :: "ClockObservation \<Rightarrow> bool" where
  "ShouldLogClockChange observation =
     (if \<not> has observation kAssessed \<or>
         has observation (kFirstSample OR kInvalidTimestamp OR kNtpDisabled) then False
      else if has observation kBackwardUtc then True
      else if has observation kUptimeDiscontinuity then False
      else step_us observation \<ge> kClockStepLogThresholdUs \<or>
           step_us observation \<le> - kClockStepLogThresholdUs)"

record ClockQualityTracker =
  previous_valid :: bool
  previous_utc :: int
  previous_uptime :: u32

definition new_ClockQualityTracker :: ClockQualityTracker where
  "new_ClockQualityTracker = \<lparr>previous_valid = False, previous_utc = 0, previous_uptime = 0\<rparr>"

definition Observe ::
    "int \<Rightarrow> bool \<Rightarrow> u32 \<Rightarrow> u32 \<Rightarrow> ClockQualityTracker \<Rightarrow> ClockObservation \<times> ClockQualityTracker" where
  "Observe utc plausible uptime max_step_ms t =
     (let ob = new_ClockObservation\<lparr>flags := kAssessed OR kAbsoluteTimeUnverified\<rparr> in
      if \<not> plausible then
        (ob\<lparr>flags := flags ob OR kInvalidTimestamp\<rparr>, t\<lparr>previous_valid := False\<rparr>)
      else
        let ob = (if \<not> previous_valid t then ob\<lparr>flags := flags ob OR kFirstSample\<rparr>
          else
            let du = uptime - previous_uptime t;
                dt = utc - previous_utc t;
                ob = ob\<lparr>utc_delta_us := dt, uptime_delta_us := du\<rparr>;
                ob = (if dt < 0 then ob\<lparr>flags := flags ob OR kBackwardUtc\<rparr> else ob);
                ob = (if dt = 0 then ob\<lparr>flags := flags ob OR kRepeatedUtc\<rparr> else ob)
            in if du = 0 \<or> du > 0x7fffffff then ob\<lparr>flags := flags ob OR kUptimeDiscontinuity\<rparr>
               else
                 let step = dt - uint du; magnitude = (if step < 0 then - step else step);
                     ob = ob\<lparr>step_us := step\<rparr>
                 in if magnitude > uint max_step_ms * 1000
                    then ob\<lparr>flags := flags ob OR kStepExceeded\<rparr> else ob)
        in (ob, t\<lparr>previous_valid := True, previous_utc := utc, previous_uptime := uptime\<rparr>))"

section \<open>Facts\<close>

text \<open>What one observation after a valid one says, with its flags spelled out.\<close>

lemma Observe_second:
  fixes uptime max_step_ms :: u32 and utc :: int
  assumes "previous_valid t"
  defines "du \<equiv> uptime - previous_uptime t" and "dt \<equiv> utc - previous_utc t"
  defines "ob \<equiv> fst (Observe utc True uptime max_step_ms t)"
  shows "utc_delta_us ob = dt" "uptime_delta_us ob = du" "has ob kAssessed"
    "\<not> has ob (kFirstSample OR kInvalidTimestamp OR kNtpDisabled)"
    "has ob kBackwardUtc \<longleftrightarrow> dt < 0" "has ob kRepeatedUtc \<longleftrightarrow> dt = 0"
    "has ob kUptimeDiscontinuity \<longleftrightarrow> du = 0 \<or> du > 0x7fffffff"
    "step_us ob = (if du = 0 \<or> du > 0x7fffffff then 0 else dt - uint du)"
    "has ob kStepExceeded \<longleftrightarrow>
       \<not> (du = 0 \<or> du > 0x7fffffff) \<and> \<bar>dt - uint du\<bar> > uint max_step_ms * 1000"
  using assms(1)
  by (auto simp: ob_def Observe_def Let_def du_def dt_def new_ClockObservation_def clock_flags abs_if)

lemma Observe_not_second:
  assumes "\<not> (plausible \<and> previous_valid t)"
  shows "has (fst (Observe utc plausible uptime max_step_ms t))
           (kFirstSample OR kInvalidTimestamp OR kNtpDisabled)"
  using assms by (auto simp: Observe_def Let_def new_ClockObservation_def clock_flags)

text \<open>
  A rollover of the device's 32 bit microsecond counter is invisible: between two plausible
  samples less than \<open>2 ^ 31\<close> microseconds of uptime apart, the reported uptime difference is the true one and the
  clock step is the UTC difference minus it, whatever value the counter started from.
\<close>

lemma Observe_rollover:
  fixes a e :: nat and utc :: int and max_step_ms :: u32
  assumes "previous_valid t" "previous_uptime t = word_of_nat a" "0 < e" "e < 2 ^ 31"
  defines "ob \<equiv> fst (Observe utc True (word_of_nat (a + e)) max_step_ms t)"
  shows "uptime_delta_us ob = word_of_nat e \<and> step_us ob = (utc - previous_utc t) - int e \<and>
         \<not> has ob kUptimeDiscontinuity \<and>
         (has ob kStepExceeded \<longleftrightarrow> \<bar>(utc - previous_utc t) - int e\<bar> > uint max_step_ms * 1000)"
proof -
  let ?du = "word_of_nat (a + e) - previous_uptime t"
  have du: "?du = word_of_nat e" using assms(2) by simp
  have un: "unat (word_of_nat e :: u32) = e" using assms(4) by (simp add: unat_of_nat)
  then have "(word_of_nat e :: u32) \<noteq> 0" "\<not> (word_of_nat e :: u32) > 0x7fffffff"
    using assms(3,4) by (auto simp: word_less_nat_alt)
  moreover have "uint (word_of_nat e :: u32) = int e" using un by (metis uint_nat)
  ultimately show ?thesis
    using Observe_second [OF assms(1), of utc "word_of_nat (a + e)" max_step_ms]
    unfolding ob_def du by simp
qed

text \<open>
  Every observation that counts as a time anomaly is also written to the log of clock changes,
  although the two tests use different limits and read different fields.
\<close>

lemma anomaly_is_logged:
  assumes "IsTimeAnomaly (fst (Observe utc plausible uptime max_step_ms t))"
  shows "ShouldLogClockChange (fst (Observe utc plausible uptime max_step_ms t))"
proof (cases "plausible \<and> previous_valid t")
  case True
  with assms Observe_second [of t utc uptime max_step_ms] show ?thesis
    by (auto simp: IsTimeAnomaly_def ShouldLogClockChange_def clock_thresholds split: if_splits)
next
  case False
  with assms Observe_not_second [OF False, of utc uptime max_step_ms] show ?thesis
    by (simp add: IsTimeAnomaly_def)
qed

end
