(* ===== verification/Scan_Data.thy ===== *)
theory Scan_Data
  imports Cola_B Clock_Quality
begin

text \<open>
  \<^verbatim>\<open>lms4xxx_driver/include/scan_data.h\<close>: one \<^verbatim>\<open>LMDscandata\<close> telegram. The two channel structs differ
  only in the width of a sample and the content enumeration. Device states are bytes: the source casts
  any byte to the enumeration.
\<close>

definition kMaxPointsPerScan :: nat where "kMaxPointsPerScan = 841"

type_synonym DeviceStatus = u8

datatype ChannelContent16 = kDist1 | kRssi1 | kRefl1 | kAngl1 | kUnknown16

datatype ChannelContent8 = kQlty1 | kUnknown8

record ChannelData16 =
  content16 :: ChannelContent16
  scale_factor16 :: float32
  scale_offset16 :: float32
  start_angle16 :: i32
  angle_step16 :: u16
  num_data16 :: u16
  data16 :: "u16 list"

record ChannelData8 =
  content8 :: ChannelContent8
  scale_factor8 :: float32
  scale_offset8 :: float32
  start_angle8 :: i32
  angle_step8 :: u16
  num_data8 :: u16
  data8 :: "u8 list"

record ScanTimestamp =
  ts_year :: u16
  ts_month :: u8
  ts_day :: u8
  ts_hour :: u8
  ts_minute :: u8
  ts_second :: u8
  ts_microsecond :: u32

record ScanDeviceInfo =
  version_number :: u16
  device_number :: u16
  serial_number :: u32
  device_status_1 :: DeviceStatus
  device_status_2 :: DeviceStatus

record ScanData =
  clock_observation :: ClockObservation
  host_receive_monotonic_us :: u64
  device_info :: ScanDeviceInfo
  telegram_counter :: u16
  scan_counter :: u16
  time_since_startup_us :: u32
  transmission_time_us :: u32
  digital_input_1 :: u8
  digital_input_2 :: u8
  digital_output_1 :: u8
  digital_output_2 :: u8
  scan_frequency :: u32
  measurement_frequency :: u32
  has_encoder :: bool
  encoder_position :: u32
  channels_16bit :: "ChannelData16 list"
  channels_8bit :: "ChannelData8 list"
  y_rotation :: float32
  has_device_name :: bool
  device_name :: string
  has_timestamp :: bool
  timestamp :: ScanTimestamp

definition new_ScanData :: ScanData where
  "new_ScanData =
     \<lparr>clock_observation = new_ClockObservation, host_receive_monotonic_us = 0,
      device_info = \<lparr>version_number = 0, device_number = 0, serial_number = 0,
                     device_status_1 = 0, device_status_2 = 0\<rparr>,
      telegram_counter = 0, scan_counter = 0, time_since_startup_us = 0, transmission_time_us = 0,
      digital_input_1 = 0, digital_input_2 = 0, digital_output_1 = 0, digital_output_2 = 0,
      scan_frequency = 0, measurement_frequency = 0, has_encoder = False, encoder_position = 0,
      channels_16bit = [], channels_8bit = [], y_rotation = 0, has_device_name = False,
      device_name = [], has_timestamp = False,
      timestamp = \<lparr>ts_year = 0, ts_month = 0, ts_day = 0, ts_hour = 0, ts_minute = 0,
                   ts_second = 0, ts_microsecond = 0\<rparr>\<rparr>"

text \<open>The channel lookups; \<open>None\<close> is the null pointer.\<close>

definition DistanceChannel :: "ScanData \<Rightarrow> ChannelData16 option" where
  "DistanceChannel s = find (\<lambda>ch. content16 ch = kDist1) (channels_16bit s)"

definition RssiChannel :: "ScanData \<Rightarrow> ChannelData16 option" where
  "RssiChannel s = find (\<lambda>ch. content16 ch = kRssi1) (channels_16bit s)"

definition ReflectanceChannel :: "ScanData \<Rightarrow> ChannelData16 option" where
  "ReflectanceChannel s = find (\<lambda>ch. content16 ch = kRefl1) (channels_16bit s)"

definition AngleCorrectionChannel :: "ScanData \<Rightarrow> ChannelData16 option" where
  "AngleCorrectionChannel s = find (\<lambda>ch. content16 ch = kAngl1) (channels_16bit s)"

definition QualityChannel :: "ScanData \<Rightarrow> ChannelData8 option" where
  "QualityChannel s = find (\<lambda>ch. content8 ch = kQlty1) (channels_8bit s)"

definition NumPoints :: "ScanData \<Rightarrow> u16" where
  "NumPoints s = (case DistanceChannel s of Some dist \<Rightarrow> num_data16 dist | None \<Rightarrow> 0)"

lemmas channel_lookups =
  DistanceChannel_def RssiChannel_def ReflectanceChannel_def AngleCorrectionChannel_def
  QualityChannel_def

end
