(* ===== verification/Scan_Verify.thy ===== *)
theory Scan_Verify
  imports Scan_Data "HOL-Library.Multiset"
begin

text \<open>
  \<^verbatim>\<open>VerifyScanContent\<close> of \<^verbatim>\<open>lms4xxx_driver/src/scan_verify.cpp\<close> with the fixed measurement setup of
  \<^verbatim>\<open>include/app_config.h\<close>: the proof, on the first telegram, that the device was configured. The
  returned text is the list of its entries, one constructor per message; the empty text is the empty
  list. Floats are compared as C++ does (\<open>float_eq\<close>) with the bit patterns of the literals.
\<close>

datatype Remission = kRefl | kRssi

definition RemissionName :: "Remission \<Rightarrow> string" where
  "RemissionName r = (if r = kRefl then ''refl'' else ''rssi'')"

definition RemissionChannel :: "Remission \<Rightarrow> string" where
  "RemissionChannel r = (if r = kRefl then ''REFL1'' else ''RSSI1'')"

definition kStartAngle1e4 :: i32 where "kStartAngle1e4 = 550000"
definition kStopAngle1e4 :: i32 where "kStopAngle1e4 = 1250000"
definition kAngularResolution1e4 :: u32 where "kAngularResolution1e4 = 833"
definition kPointsPerScan :: u16 where "kPointsPerScan = 841"
definition kOutputRate :: u16 where "kOutputRate = 1"
definition kScanFrequencyCentiHz :: u32 where "kScanFrequencyCentiHz = 60000"
definition kTimezoneUtc :: u8 where "kTimezoneUtc = 34"
definition kCubicMaxDist1e4mm :: u32 where "kCubicMaxDist1e4mm = 91776"
definition kCubicExpansion1e4mm :: i32 where "kCubicExpansion1e4mm = 45000"
definition kFrontendEdgeFilterOff :: u8 where "kFrontendEdgeFilterOff = 0"
definition kCubicAreaFilterOff :: u8 where "kCubicAreaFilterOff = 0"

lemmas scan_fixed =
  kStartAngle1e4_def kStopAngle1e4_def kAngularResolution1e4_def kPointsPerScan_def kOutputRate_def
  kScanFrequencyCentiHz_def kTimezoneUtc_def kCubicMaxDist1e4mm_def kCubicExpansion1e4mm_def
  kFrontendEdgeFilterOff_def kCubicAreaFilterOff_def

text \<open>The binary32 patterns of 0.1f, 0.01f, 1.0f, 0.0f and -32768.0f.\<close>

definition f_0_1 :: float32 where "f_0_1 = 0x3DCCCCCD"
definition f_0_01 :: float32 where "f_0_01 = 0x3C23D70A"
definition f_1 :: float32 where "f_1 = 0x3F800000"
definition f_0 :: float32 where "f_0 = 0"
definition f_m32768 :: float32 where "f_m32768 = 0xC7000000"

datatype problem =
    Missing string
  | ChannelCount16 nat
  | ChannelCount8 nat
  | PayloadCount16
  | PayloadCount8
  | Points string u16
  | Step string u16
  | Start string i32
  | TimestampMissing
  | TimestampUnexpected
  | EncoderUnexpected
  | NameUnexpected
  | Scale string float32 float32

definition bad :: "bool \<Rightarrow> problem \<Rightarrow> problem list" where
  "bad cond what = (if cond then [what] else [])"

definition check_geometry :: "string \<Rightarrow> u16 \<Rightarrow> u16 \<Rightarrow> i32 \<Rightarrow> problem list" where
  "check_geometry name num step start =
     bad (num \<noteq> kPointsPerScan) (Points name num) @
     bad (ucast step \<noteq> kAngularResolution1e4) (Step name step) @
     bad (start \<noteq> kStartAngle1e4) (Start name start)"

definition scale_bad :: "float32 \<Rightarrow> float32 \<Rightarrow> float32 \<Rightarrow> float32 \<Rightarrow> bool" where
  "scale_bad sf so factor off \<longleftrightarrow> \<not> float_eq sf factor \<or> \<not> float_eq so off"

definition check_scale16 :: "ChannelData16 option \<Rightarrow> string \<Rightarrow> float32 \<Rightarrow> float32 \<Rightarrow> problem list" where
  "check_scale16 channel name factor off =
     (case channel of None \<Rightarrow> []
      | Some ch \<Rightarrow> bad (scale_bad (scale_factor16 ch) (scale_offset16 ch) factor off)
                      (Scale name (scale_factor16 ch) (scale_offset16 ch)))"

definition check_scale8 :: "ChannelData8 option \<Rightarrow> string \<Rightarrow> float32 \<Rightarrow> float32 \<Rightarrow> problem list" where
  "check_scale8 channel name factor off =
     (case channel of None \<Rightarrow> []
      | Some ch \<Rightarrow> bad (scale_bad (scale_factor8 ch) (scale_offset8 ch) factor off)
                      (Scale name (scale_factor8 ch) (scale_offset8 ch)))"

definition VerifyScanContent :: "ScanData \<Rightarrow> Remission \<Rightarrow> bool \<Rightarrow> problem list" where
  "VerifyScanContent scan remission_cfg ntp_enabled =
     (let refl = (remission_cfg = kRefl);
          remission_name = RemissionChannel remission_cfg;
          remission = (if refl then ReflectanceChannel scan else RssiChannel scan)
      in bad (DistanceChannel scan = None) (Missing ''DIST1'') @
         bad (remission = None) (Missing remission_name) @
         bad (AngleCorrectionChannel scan = None) (Missing ''ANGL1'') @
         bad (QualityChannel scan = None) (Missing ''QLTY1'') @
         bad (length (channels_16bit scan) \<noteq> 3) (ChannelCount16 (length (channels_16bit scan))) @
         bad (length (channels_8bit scan) \<noteq> 1) (ChannelCount8 (length (channels_8bit scan))) @
         concat (map (\<lambda>ch.
           bad (length (data16 ch) \<noteq> unat (num_data16 ch)) PayloadCount16 @
           check_geometry (if content16 ch = kDist1 then ''DIST1''
                           else if content16 ch = kAngl1 then ''ANGL1'' else remission_name)
             (num_data16 ch) (angle_step16 ch) (start_angle16 ch)) (channels_16bit scan)) @
         concat (map (\<lambda>ch.
           bad (length (data8 ch) \<noteq> unat (num_data8 ch)) PayloadCount8 @
           check_geometry ''QLTY1'' (num_data8 ch) (angle_step8 ch) (start_angle8 ch))
           (channels_8bit scan)) @
         (if ntp_enabled then bad (\<not> has_timestamp scan) TimestampMissing
          else bad (has_timestamp scan) TimestampUnexpected) @
         bad (has_encoder scan) EncoderUnexpected @
         bad (has_device_name scan) NameUnexpected @
         check_scale16 (DistanceChannel scan) ''DIST1'' f_0_1 f_0 @
         check_scale16 remission remission_name (if refl then f_0_01 else f_1) f_0 @
         check_scale16 (AngleCorrectionChannel scan) ''ANGL1'' f_1 f_m32768 @
         check_scale8 (QualityChannel scan) ''QLTY1'' f_1 f_0)"

section \<open>Properties\<close>

lemma bad_Nil [simp]: "bad c p = [] \<longleftrightarrow> \<not> c"
  by (simp add: bad_def)

lemma find_None_iff_set: "find P xs = None \<longleftrightarrow> (\<forall>x\<in>set xs. \<not> P x)"
  by (auto simp: find_None_iff)

lemma find_kind: "find (\<lambda>ch. f ch = k) xs \<noteq> None \<Longrightarrow> k \<in> set (map f xs)"
  by (auto simp: find_None_iff_set)

lemma check_geometry_Nil:
  "check_geometry name num step start = [] \<longleftrightarrow> num = 841 \<and> step = 833 \<and> start = 550000"
proof -
  have "ucast step = (833 :: u32) \<longleftrightarrow> step = 833"
  proof
    assume "ucast step = (833 :: u32)"
    then have "(ucast (ucast step :: u32) :: u16) = ucast (833 :: u32)" by simp
    moreover have "(ucast (ucast step :: u32) :: u16) = step"
      by (rule bit_word_eqI) (simp add: bit_ucast_iff)
    ultimately show "step = 833" by simp
  qed simp
  then show ?thesis by (simp add: check_geometry_def scan_fixed)
qed

text \<open>Three channels that contain three different kinds are exactly one of each.\<close>

lemma three_kinds:
  assumes "length xs = 3" "a \<in> set xs" "b \<in> set xs" "c \<in> set xs" "a \<noteq> b" "a \<noteq> c" "b \<noteq> c"
  shows "mset xs = {#a, b, c#}"
proof -
  from assms(1) obtain x y z where "xs = [x, y, z]"
    by (auto simp: numeral_3_eq_3 length_Suc_conv)
  with assms(2-) show ?thesis by auto
qed

text \<open>
  A first telegram without complaint carries exactly one channel each of distance, the configured
  remission and angle correction, and exactly one quality channel, each with 841 samples at the fixed
  start angle and resolution; the time stamp is there exactly when NTP is on, and no optional block is.
\<close>

lemma VerifyScanContent_sound:
  assumes "VerifyScanContent scan cfg ntp = []"
  shows "mset (map content16 (channels_16bit scan)) =
           {#kDist1, (if cfg = kRefl then kRefl1 else kRssi1), kAngl1#} \<and>
         map content8 (channels_8bit scan) = [kQlty1] \<and>
         (\<forall>ch\<in>set (channels_16bit scan). length (data16 ch) = 841 \<and>
            start_angle16 ch = 550000 \<and> angle_step16 ch = 833) \<and>
         (\<forall>ch\<in>set (channels_8bit scan). length (data8 ch) = 841 \<and>
            start_angle8 ch = 550000 \<and> angle_step8 ch = 833) \<and>
         (has_timestamp scan \<longleftrightarrow> ntp) \<and> \<not> has_encoder scan \<and> \<not> has_device_name scan"
proof -
  let ?r = "if cfg = kRefl then kRefl1 else kRssi1"
  let ?cs = "map content16 (channels_16bit scan)"
  have raw: "DistanceChannel scan \<noteq> None" "AngleCorrectionChannel scan \<noteq> None"
    "(if cfg = kRefl then ReflectanceChannel scan else RssiChannel scan) \<noteq> None"
    "QualityChannel scan \<noteq> None" "length (channels_16bit scan) = 3" "length (channels_8bit scan) = 1"
    "has_timestamp scan \<longleftrightarrow> ntp" "\<not> has_encoder scan" "\<not> has_device_name scan"
    using assms by (simp_all add: VerifyScanContent_def Let_def split: if_splits)
  have geometry: "\<forall>ch\<in>set (channels_16bit scan). length (data16 ch) = 841 \<and> start_angle16 ch = 550000 \<and>
      angle_step16 ch = 833"
    "\<forall>ch\<in>set (channels_8bit scan). length (data8 ch) = 841 \<and> start_angle8 ch = 550000 \<and>
      angle_step8 ch = 833"
    using assms by (simp_all add: VerifyScanContent_def Let_def check_geometry_Nil)
  have kinds: "kDist1 \<in> set ?cs" "?r \<in> set ?cs" "kAngl1 \<in> set ?cs" "length ?cs = 3"
    using find_kind [OF raw(1) [unfolded channel_lookups]]
      find_kind [OF raw(2) [unfolded channel_lookups]] raw(3,5)
      find_kind [of content16 kRefl1 "channels_16bit scan"]
      find_kind [of content16 kRssi1 "channels_16bit scan"]
    by (simp_all add: channel_lookups split: if_splits)
  then have "mset ?cs = {#kDist1, ?r, kAngl1#}"
    by (intro three_kinds) auto
  moreover have "map content8 (channels_8bit scan) = [kQlty1]"
    using find_kind [OF raw(4) [unfolded channel_lookups]] raw(6)
    by (cases "channels_8bit scan") auto
  ultimately show ?thesis using geometry raw(7-9) by blast
qed

definition sample_channel :: "ChannelContent16 \<Rightarrow> float32 \<Rightarrow> float32 \<Rightarrow> ChannelData16" where
  "sample_channel c sf so = \<lparr>content16 = c, scale_factor16 = sf, scale_offset16 = so,
     start_angle16 = 550000, angle_step16 = 833, num_data16 = 841, data16 = replicate 841 0\<rparr>"

definition configured_scan :: ScanData where
  "configured_scan = new_ScanData\<lparr>
     channels_16bit := [sample_channel kDist1 f_0_1 f_0, sample_channel kRssi1 f_1 f_0,
                        sample_channel kAngl1 f_1 f_m32768],
     channels_8bit := [\<lparr>content8 = kQlty1, scale_factor8 = f_1, scale_offset8 = f_0,
       start_angle8 = 550000, angle_step8 = 833, num_data8 = 841, data8 = replicate 841 0\<rparr>]\<rparr>"

end
