(* ===== verification/Command_Builder.thy ===== *)
theory Command_Builder
  imports Cola_B Scan_Verify
begin

text \<open>
  \<^verbatim>\<open>lms4xxx_driver/src/command_builder.cpp\<close>: the CoLa B telegrams the driver sends, each a complete frame,
  with the default arguments of the header passed by the callers. The lemmas show that the
  frames carry their parameters in the documented layout.
\<close>

definition kAuthorizedClientLevel :: u8 where "kAuthorizedClientLevel = 0x03"
definition kAuthorizedClientPassword :: u32 where "kAuthorizedClientPassword = 0xF4724744"

definition Append16 :: "bytes \<Rightarrow> u16 \<Rightarrow> bytes" where
  "Append16 out v = out @ EncodeUint16 v"

definition Append32 :: "bytes \<Rightarrow> u32 \<Rightarrow> bytes" where
  "Append32 out v = out @ EncodeUint32 v"

definition Flag :: "bool \<Rightarrow> u8" where
  "Flag on = (if on then 0x01 else 0x00)"

fun remission_unit :: "Remission \<Rightarrow> u8" where
  "remission_unit kRssi = 0"
| "remission_unit kRefl = 1"

definition BuildLogin :: bytes where
  "BuildLogin = Encode kMethodByName ''SetAccessMode'' (Append32 [kAuthorizedClientLevel] kAuthorizedClientPassword)"

definition BuildRun :: bytes where
  "BuildRun = Encode kMethodByName ''Run'' []"

definition scan_data_params :: "Remission \<Rightarrow> bool \<Rightarrow> u8 \<Rightarrow> bool \<Rightarrow> bool \<Rightarrow> u16 \<Rightarrow> bytes" where
  "scan_data_params unit time further_channels encoder with_name output_rate =
     Append16 [0x01, 0x00, further_channels, 0x01, remission_unit unit, Flag encoder, 0x00, 0x00,
               Flag with_name, 0x00, Flag time] output_rate"

definition BuildScanDataConfig :: "Remission \<Rightarrow> bool \<Rightarrow> u8 \<Rightarrow> bool \<Rightarrow> bool \<Rightarrow> u16 \<Rightarrow> bytes" where
  "BuildScanDataConfig unit time further_channels encoder with_name output_rate =
     Encode kWriteByName ''LMDscandatacfg''
       (scan_data_params unit time further_channels encoder with_name output_rate)"

definition output_range_params :: "u32 \<Rightarrow> i32 \<Rightarrow> i32 \<Rightarrow> bytes" where
  "output_range_params resolution_1e4 start_1e4 stop_1e4 =
     Append32 (Append32 (Append32 (Append16 [] 0x0001) resolution_1e4) start_1e4) stop_1e4"

definition BuildOutputRange :: "u32 \<Rightarrow> i32 \<Rightarrow> i32 \<Rightarrow> bytes" where
  "BuildOutputRange resolution_1e4 start_1e4 stop_1e4 =
     Encode kWriteByName ''LMPoutputRange'' (output_range_params resolution_1e4 start_1e4 stop_1e4)"

definition BuildStartStream :: bytes where
  "BuildStartStream = Encode kEventByName ''LMDscandata'' [0x01]"

definition BuildStopStream :: bytes where
  "BuildStopStream = Encode kEventByName ''LMDscandata'' [0x00]"

definition BuildReadVariable :: "string \<Rightarrow> bytes" where
  "BuildReadVariable name = Encode kReadByName name []"

definition BuildStartMeasurement :: bytes where
  "BuildStartMeasurement = Encode kMethodByName ''LMCstartmeas'' []"

definition BuildStopMeasurement :: bytes where
  "BuildStopMeasurement = Encode kMethodByName ''LMCstopmeas'' []"

definition BuildLoadAppDefaults :: bytes where
  "BuildLoadAppDefaults = Encode kMethodByName ''mSCloadappdef'' []"

definition BuildSetTimeSyncRole :: "u8 \<Rightarrow> bytes" where
  "BuildSetTimeSyncRole role = Encode kWriteByName ''TSCRole'' [role]"

definition BuildSetNtpServer :: "bytes \<Rightarrow> bytes" where
  "BuildSetNtpServer ip_bytes = Encode kWriteByName ''TSCTCSrvAddr'' ip_bytes"

definition BuildSetNtpUpdateTime :: "u32 \<Rightarrow> bytes" where
  "BuildSetNtpUpdateTime seconds = Encode kWriteByName ''TSCTCupdatetime'' (Append32 [] seconds)"

definition BuildSetNtpTimezone :: "u8 \<Rightarrow> bytes" where
  "BuildSetNtpTimezone timezone = Encode kWriteByName ''TSCTCtimezone'' [timezone]"

definition BuildMeanFilter :: "bool \<Rightarrow> u16 \<Rightarrow> bytes" where
  "BuildMeanFilter enable num_scans =
     Encode kWriteByName ''LFPmeanfilter'' (Append16 [Flag enable] num_scans @ [0x00])"

definition BuildMedianFilter :: "bool \<Rightarrow> bytes" where
  "BuildMedianFilter enable = Encode kWriteByName ''LFPmedianfilter'' (Append16 [Flag enable] 0x0003)"

definition BuildFrontendEdgeFilter :: "u8 \<Rightarrow> bytes" where
  "BuildFrontendEdgeFilter status = Encode kWriteByName ''LFPfrontendEdgefilter'' [status, 0x01]"

definition BuildEdgeFilter :: "bool \<Rightarrow> bytes" where
  "BuildEdgeFilter enable = Encode kWriteByName ''LFPedgefilter'' [Flag enable]"

definition cubic_params :: "u8 \<Rightarrow> u32 \<Rightarrow> u32 \<Rightarrow> i32 \<Rightarrow> i32 \<Rightarrow> bytes" where
  "cubic_params status min_dist max_dist neg_expansion pos_expansion =
     Append32 (Append32 (Append32 (Append32 [status] min_dist) max_dist) neg_expansion) pos_expansion"

definition BuildCubicAreaFilter :: "u8 \<Rightarrow> u32 \<Rightarrow> u32 \<Rightarrow> i32 \<Rightarrow> i32 \<Rightarrow> bytes" where
  "BuildCubicAreaFilter status min_dist max_dist neg_expansion pos_expansion =
     Encode kWriteByName ''LFPcubicareafilter'' (cubic_params status min_dist max_dist neg_expansion pos_expansion)"

definition BuildGlossFilter :: "bool \<Rightarrow> bytes" where
  "BuildGlossFilter enable = Encode kWriteByName ''LFPglossfilter'' [Flag enable]"

lemmas append_defs = Append16_def Append32_def

lemmas build_defs =
  BuildLogin_def BuildRun_def BuildScanDataConfig_def BuildOutputRange_def BuildStartStream_def
  BuildStopStream_def BuildReadVariable_def BuildStartMeasurement_def BuildStopMeasurement_def
  BuildLoadAppDefaults_def BuildSetTimeSyncRole_def BuildSetNtpServer_def BuildSetNtpUpdateTime_def
  BuildSetNtpTimezone_def BuildMeanFilter_def BuildMedianFilter_def BuildFrontendEdgeFilter_def
  BuildEdgeFilter_def BuildCubicAreaFilter_def BuildGlossFilter_def

text \<open>The device reads the fields back at the documented offsets (manual p. 85, 86 and 110).\<close>

lemma scan_data_layout:
  "length (scan_data_params u t f e d r) = 13 \<and> scan_data_params u t f e d r ! 2 = f \<and>
   scan_data_params u t f e d r ! 4 = remission_unit u \<and> (scan_data_params u t f e d r ! 10 = 1 \<longleftrightarrow> t) \<and>
   DecodeUint16 (drop 11 (scan_data_params u t f e d r)) = r"
  using DecodeUint16_Encode [of r "[]"] by (simp add: scan_data_params_def append_defs Flag_def)

lemma output_range_layout:
  "DecodeUint16 (output_range_params a b c) = 1 \<and> DecodeUint32 (drop 2 (output_range_params a b c)) = a \<and>
   DecodeInt32 (drop 6 (output_range_params a b c)) = b \<and> DecodeInt32 (drop 10 (output_range_params a b c)) = c"
  using DecodeUint16_Encode [of 1 "EncodeUint32 a @ EncodeUint32 b @ EncodeUint32 c"]
    DecodeUint32_Encode [of a "EncodeUint32 b @ EncodeUint32 c"] DecodeUint32_Encode [of b "EncodeUint32 c"]
    DecodeUint32_Encode [of c "[]"]
  by (simp add: output_range_params_def append_defs DecodeInt32_def)

lemma cubic_layout:
  "cubic_params s a b c d ! 0 = s \<and> DecodeUint32 (drop 1 (cubic_params s a b c d)) = a \<and>
   DecodeUint32 (drop 5 (cubic_params s a b c d)) = b \<and> DecodeInt32 (drop 9 (cubic_params s a b c d)) = c \<and>
   DecodeInt32 (drop 13 (cubic_params s a b c d)) = d"
  using DecodeUint32_Encode [of a "EncodeUint32 b @ EncodeUint32 c @ EncodeUint32 d"]
    DecodeUint32_Encode [of b "EncodeUint32 c @ EncodeUint32 d"] DecodeUint32_Encode [of c "EncodeUint32 d"]
    DecodeUint32_Encode [of d "[]"]
  by (simp add: cubic_params_def append_defs DecodeInt32_def)

end
