(* ===== verification/Tcp_Client.thy ===== *)
theory Tcp_Client
  imports Byte_Util
begin

text \<open>
  \<^verbatim>\<open>lms4xxx_driver/src/tcp_client.cpp\<close>: the TCP client, a synchronous interface over non-blocking socket
  calls and a bounded poll. The operating system and the peer are the parameter \<open>os\<close>, functions on a
  world \<open>'w\<close> nothing is assumed about. The steady clock counts nanoseconds and every call of \<^verbatim>\<open>poll\<close> takes at least
  one, so every loop ends at its deadline. \<open>tcp_in\<close> and \<open>tcp_out\<close> only observe: the bytes taken off and put on
  the wire. Log lines are not modelled.
\<close>

section \<open>Errors and options\<close>

datatype TcpError =
    kSuccess | kConnectionFailed | kConnectionTimeout | kConnectionLost | kResponseTimeout
  | kNotConnected | kAlreadyConnected | kReceiveShutdown

fun tcp_message :: "TcpError \<Rightarrow> string" where
  "tcp_message kSuccess = ''success''"
| "tcp_message kConnectionFailed = ''TCP connection failed''"
| "tcp_message kConnectionTimeout = ''connection timed out''"
| "tcp_message kConnectionLost = ''connection lost unexpectedly''"
| "tcp_message kResponseTimeout = ''response timeout''"
| "tcp_message kNotConnected = ''not connected''"
| "tcp_message kAlreadyConnected = ''already connected''"
| "tcp_message kReceiveShutdown = ''receive side shut down locally''"

record Options =
  opt_host :: string
  opt_port :: u16
  opt_recv_buffer_bytes :: nat
  opt_tcp_keepalive :: bool
  opt_keepalive_idle_s :: int
  opt_keepalive_interval_s :: int
  opt_keepalive_count :: int
  opt_recv_timeout_ms :: int
  opt_send_timeout_ms :: int
  opt_quiet_connect_errors :: bool

section \<open>The operating system\<close>

datatype poll_answer = PollReady | PollInvalid | PollTimeout | PollInterrupted | PollFailed

text \<open>The error codes of Boost.Asio the code tells apart; \<^verbatim>\<open>would_block\<close> is \<open>TryAgain\<close> as well.\<close>

datatype bec = NoError | TryAgain | Eof | ConnectionReset | BrokenPipe | OtherError

datatype connect_answer = ConnectPending | ConnectDone bec

datatype sockopt =
    TCP_NODELAY | SO_RCVBUF int | SO_KEEPALIVE | TCP_KEEPIDLE int | TCP_KEEPINTVL int | TCP_KEEPCNT int
  | SO_RCVTIMEO int int | SO_SNDTIMEO int int

text \<open>\<open>os_poll\<close> is given the direction and the wait in milliseconds and also tells how long it took.\<close>

record 'w os =
  os_poll :: "bool \<Rightarrow> nat \<Rightarrow> 'w \<Rightarrow> poll_answer \<times> nat \<times> 'w"
  os_read :: "nat \<Rightarrow> 'w \<Rightarrow> bytes \<times> bec \<times> 'w"
  os_write :: "bytes \<Rightarrow> 'w \<Rightarrow> nat \<times> bec \<times> 'w"
  os_address_ok :: "string \<Rightarrow> bool"
  os_connect :: "string \<Rightarrow> u16 \<Rightarrow> int \<Rightarrow> 'w \<Rightarrow> connect_answer \<times> nat \<times> 'w"
  os_setsockopt :: "sockopt \<Rightarrow> 'w \<Rightarrow> 'w"
  os_non_blocking :: "'w \<Rightarrow> bec \<times> 'w"
  os_shutdown_receive :: "'w \<Rightarrow> 'w"
  os_shutdown_both :: "'w \<Rightarrow> 'w"
  os_close :: "'w \<Rightarrow> 'w"

record 'w tcp =
  tcp_options :: Options
  tcp_open :: bool
  tcp_connected :: bool
  tcp_receive_shutdown :: bool
  tcp_now :: nat
  tcp_world :: 'w
  tcp_in :: bytes
  tcp_out :: bytes

definition new_TcpClient :: "Options \<Rightarrow> nat \<Rightarrow> 'w \<Rightarrow> 'w tcp" where
  "new_TcpClient opts now w = \<lparr>tcp_options = opts, tcp_open = False, tcp_connected = False,
     tcp_receive_shutdown = False, tcp_now = now, tcp_world = w, tcp_in = [], tcp_out = []\<rparr>"

definition ms :: "int \<Rightarrow> nat" where
  "ms t = nat t * 1000000"

section \<open>Waiting\<close>

function Wait :: "'w os \<Rightarrow> bool \<Rightarrow> nat \<Rightarrow> 'w tcp \<Rightarrow> TcpError option \<times> 'w tcp" where
  "Wait os rd deadline c =
     (if \<not> tcp_connected c then (Some kNotConnected, c)
      else if tcp_now c \<ge> deadline then (Some kResponseTimeout, c)
      else
        let left = (deadline - tcp_now c) div 1000000;
            (answer, dt, w) = os_poll os rd (min (left + 1) 50) (tcp_world c);
            c' = c\<lparr>tcp_now := tcp_now c + 1 + dt, tcp_world := w\<rparr>
        in case answer of
             PollReady \<Rightarrow> (None, c')
           | PollInvalid \<Rightarrow> (Some kConnectionLost, c')
           | PollFailed \<Rightarrow> (Some kConnectionFailed, c')
           | PollTimeout \<Rightarrow> Wait os rd deadline c'
           | PollInterrupted \<Rightarrow> Wait os rd deadline c')"
  by pat_completeness auto
termination
  by (relation "measure (\<lambda>(os, rd, deadline, c). deadline - tcp_now c)") auto

declare Wait.simps [simp del]

lemma Wait_step:
  assumes "tcp_connected c" "tcp_now c < deadline"
    and "os_poll os rd (min ((deadline - tcp_now c) div 1000000 + 1) 50) (tcp_world c) = (answer, dt, w)"
    and "d = c\<lparr>tcp_now := tcp_now c + 1 + dt, tcp_world := w\<rparr>"
  shows "Wait os rd deadline c = (case answer of
             PollReady \<Rightarrow> (None, d) | PollInvalid \<Rightarrow> (Some kConnectionLost, d)
           | PollFailed \<Rightarrow> (Some kConnectionFailed, d) | PollTimeout \<Rightarrow> Wait os rd deadline d
           | PollInterrupted \<Rightarrow> Wait os rd deadline d)"
proof -
  have go: "\<not> \<not> tcp_connected c" "\<not> tcp_now c \<ge> deadline" using assms(1,2) by auto
  show ?thesis
    using go by (simp only: Wait.simps [of os rd deadline c, unfolded Let_def assms(3) prod.case] if_False assms(4))
qed

text \<open>Waiting only moves the clock and the world; when it succeeds it was called before the deadline.\<close>

definition only_time :: "'w tcp \<Rightarrow> 'w tcp \<Rightarrow> bool" where
  "only_time c c' \<longleftrightarrow> (\<exists>n w. c' = c\<lparr>tcp_now := n, tcp_world := w\<rparr> \<and> tcp_now c \<le> n)"

lemma only_time_refl [simp]: "only_time c c"
  unfolding only_time_def by (rule exI [of _ "tcp_now c"], rule exI [of _ "tcp_world c"]) simp

lemma only_time_trans: "\<lbrakk> only_time a b; only_time b c \<rbrakk> \<Longrightarrow> only_time a c"
  by (force simp: only_time_def)

lemma Wait_frame:
  "Wait os rd deadline c = (r, c') \<Longrightarrow>
   only_time c c' \<and> (r = None \<longrightarrow> tcp_connected c \<and> tcp_now c < deadline \<and> tcp_now c < tcp_now c')"
proof (induction os rd deadline c rule: Wait.induct)
  case (1 os rd deadline c)
  obtain answer dt w where p: "os_poll os rd (min ((deadline - tcp_now c) div 1000000 + 1) 50) (tcp_world c) = (answer, dt, w)"
    by (metis prod.exhaust)
  let ?c = "c\<lparr>tcp_now := tcp_now c + 1 + dt, tcp_world := w\<rparr>"
  have t: "only_time c ?c" by (force simp: only_time_def)
  note step = Wait.simps [of os rd deadline c, unfolded Let_def p prod.case]
  show ?case
  proof (cases "tcp_connected c \<and> tcp_now c < deadline")
    case True
    then have go: "\<not> \<not> tcp_connected c" "\<not> tcp_now c \<ge> deadline" by auto
    have poll: "Wait os rd deadline c = (case answer of
             PollReady \<Rightarrow> (None, ?c) | PollInvalid \<Rightarrow> (Some kConnectionLost, ?c)
           | PollFailed \<Rightarrow> (Some kConnectionFailed, ?c) | PollTimeout \<Rightarrow> Wait os rd deadline ?c
           | PollInterrupted \<Rightarrow> Wait os rd deadline ?c)" using True p by (intro Wait_step) simp_all
    have again: ?thesis if w: "answer = PollTimeout \<or> answer = PollInterrupted"
    proof -
      have "Wait os rd deadline ?c = (r, c')" using 1(3) poll w by auto
      then have ih: "only_time ?c c'" "r = None \<longrightarrow> tcp_now ?c < tcp_now c'"
        using w 1(1) [OF go refl p [symmetric] refl refl] 1(2) [OF go refl p [symmetric] refl refl] by blast+
      have "r = None \<longrightarrow> tcp_now c < tcp_now c'" using ih(2) by auto
      then show ?thesis using True only_time_trans [OF t ih(1)] by blast
    qed
    show ?thesis
    proof (cases answer)
      case PollReady
      then have "r = None" "c' = ?c" using 1(3) poll by simp_all
      then show ?thesis using True t by simp
    next
      case PollInvalid
      then have "r \<noteq> None" "c' = ?c" using 1(3) poll by auto
      then show ?thesis using t by auto
    next
      case PollFailed
      then have "r \<noteq> None" "c' = ?c" using 1(3) poll by auto
      then show ?thesis using t by auto
    qed (use again in blast)+
  next
    case False
    then have "Wait os rd deadline c = (Some (if tcp_connected c then kResponseTimeout else kNotConnected), c)"
      by (cases "tcp_connected c") (simp_all add: step)
    then show ?thesis using 1(3) by auto
  qed
qed

lemma Wait_progress:
  "Wait os rd deadline c = (None, c') \<Longrightarrow> deadline - tcp_now c' < deadline - tcp_now c"
  using Wait_frame by fastforce

section \<open>Reading\<close>

definition lost :: "'w tcp \<Rightarrow> 'w tcp" where
  "lost c = c\<lparr>tcp_connected := False\<rparr>"

definition read_some :: "'w os \<Rightarrow> nat \<Rightarrow> 'w tcp \<Rightarrow> bytes \<times> bec \<times> 'w tcp" where
  "read_some os n c =
     (let (bs, e, w) = os_read os n (tcp_world c); bs = take n bs
      in (bs, e, c\<lparr>tcp_world := w, tcp_in := tcp_in c @ bs\<rparr>))"

text \<open>The classification of a read error shared by \<^verbatim>\<open>Read\<close> and \<^verbatim>\<open>ReadSome\<close>.\<close>

definition read_error :: "bec \<Rightarrow> 'w tcp \<Rightarrow> TcpError \<times> 'w tcp" where
  "read_error e c =
     (if e = Eof \<and> tcp_receive_shutdown c then (kReceiveShutdown, c)
      else if e = Eof \<or> e = ConnectionReset then (kConnectionLost, lost c)
      else (kConnectionFailed, c))"

function read_loop :: "'w os \<Rightarrow> nat \<Rightarrow> nat \<Rightarrow> bytes \<Rightarrow> 'w tcp \<Rightarrow> bytes \<times> TcpError option \<times> 'w tcp" where
  "read_loop os deadline len got c =
     (if length got \<ge> len then (got, None, c)
      else case Wait os True deadline c of
        (Some e, c) \<Rightarrow> (got, Some e, c)
      | (None, c) \<Rightarrow>
          (case read_some os (len - length got) c of
             (bs, e, c) \<Rightarrow>
               if e = NoError then read_loop os deadline len (got @ bs) c
               else if e = TryAgain then
                 if tcp_now c \<ge> deadline then (got @ bs, Some kResponseTimeout, c)
                 else read_loop os deadline len (got @ bs) c
               else let (err, c) = read_error e c in (got @ bs, Some err, c)))"
  by pat_completeness auto

lemma read_some_frame:
  "read_some os n c = (bs, e, c') \<Longrightarrow>
   length bs \<le> n \<and> (\<exists>w. c' = c\<lparr>tcp_world := w, tcp_in := tcp_in c @ bs\<rparr>)"
  by (auto simp: read_some_def Let_def split: prod.splits)

lemma read_some_now: "read_some os n c = (bs, e, c') \<Longrightarrow> tcp_now c' = tcp_now c"
  using read_some_frame by fastforce

termination read_loop
proof (relation "measure (\<lambda>(os, deadline, len, got, c). deadline - tcp_now c)", goal_cases)
  case (2 os deadline len got c x a b aa ba)
  then show ?case by (auto dest!: Wait_progress [OF sym] read_some_now [OF sym])
next
  case (3 os deadline len got c x a b aa ba)
  then show ?case by (auto dest!: Wait_progress [OF sym] read_some_now [OF sym])
qed simp

declare read_loop.simps [simp del]

lemma read_loop_full [simp]: "length got \<ge> len \<Longrightarrow> read_loop os deadline len got c = (got, None, c)"
  by (subst read_loop.simps) simp

definition Read :: "'w os \<Rightarrow> nat \<Rightarrow> int \<Rightarrow> 'w tcp \<Rightarrow> bytes \<times> TcpError option \<times> 'w tcp" where
  "Read os len timeout_ms c =
     (if \<not> tcp_connected c then ([], Some kNotConnected, c)
      else if timeout_ms \<le> 0 then ([], Some kResponseTimeout, c)
      else read_loop os (tcp_now c + ms timeout_ms) len [] c)"

definition ReadSome :: "'w os \<Rightarrow> nat \<Rightarrow> 'w tcp \<Rightarrow> bytes \<times> TcpError option \<times> 'w tcp" where
  "ReadSome os max_len c =
     (if \<not> tcp_connected c then ([], Some kNotConnected, c)
      else case Wait os True (tcp_now c + ms (max 1 (opt_recv_timeout_ms (tcp_options c)))) c of
        (Some e, c) \<Rightarrow> (if e = kResponseTimeout then ([], None, c) else ([], Some e, c))
      | (None, c) \<Rightarrow>
          (case read_some os max_len c of
             (bs, e, c) \<Rightarrow>
               if e = NoError then (bs, None, c)
               else if e = TryAgain then ([], None, c)
               else let (err, c) = read_error e c in ([], Some err, c)))"

section \<open>Writing\<close>

definition write_some :: "'w os \<Rightarrow> bytes \<Rightarrow> 'w tcp \<Rightarrow> nat \<times> bec \<times> 'w tcp" where
  "write_some os bs c =
     (let (n, e, w) = os_write os bs (tcp_world c); n = min n (length bs)
      in (n, e, c\<lparr>tcp_world := w, tcp_out := tcp_out c @ take n bs\<rparr>))"

function write_loop :: "'w os \<Rightarrow> nat \<Rightarrow> bytes \<Rightarrow> 'w tcp \<Rightarrow> TcpError option \<times> 'w tcp" where
  "write_loop os deadline left c =
     (if left = [] then (None, c)
      else case Wait os False deadline c of
        (Some e, c) \<Rightarrow> (Some e, lost c)
      | (None, c) \<Rightarrow>
          (case write_some os left c of
             (n, e, c) \<Rightarrow>
               if e = NoError \<or> e = TryAgain then write_loop os deadline (drop n left) c
               else (Some (if e \<in> {Eof, ConnectionReset, BrokenPipe} then kConnectionLost else kConnectionFailed), lost c)))"
  by pat_completeness auto

lemma write_some_frame:
  "write_some os bs c = (n, e, c') \<Longrightarrow> n \<le> length bs \<and> (\<exists>w. c' = c\<lparr>tcp_world := w, tcp_out := tcp_out c @ take n bs\<rparr>)"
  by (auto simp: write_some_def Let_def split: prod.splits)

lemma write_some_now: "write_some os bs c = (n, e, c') \<Longrightarrow> tcp_now c' = tcp_now c"
  using write_some_frame by fastforce

termination write_loop
proof (relation "measure (\<lambda>(os, deadline, left, c). deadline - tcp_now c)", goal_cases)
  case (2 os deadline left c x a b aa ba)
  then show ?case by (auto dest!: Wait_progress [OF sym] write_some_now [OF sym])
qed simp

declare write_loop.simps [simp del]

lemma write_loop_nil [simp]: "write_loop os deadline [] c = (None, c)"
  by (subst write_loop.simps) simp

definition Write :: "'w os \<Rightarrow> bytes \<Rightarrow> 'w tcp \<Rightarrow> TcpError option \<times> 'w tcp" where
  "Write os bs c =
     (if \<not> tcp_connected c then (Some kNotConnected, c)
      else write_loop os (tcp_now c + ms (max 1 (opt_send_timeout_ms (tcp_options c)))) bs c)"

section \<open>Connecting\<close>

text \<open>The socket options in the order they are set; a failure is only logged.\<close>

definition timeval :: "int \<Rightarrow> int \<times> int" where
  "timeval t = (t div 1000, (t mod 1000) * 1000)"

definition socket_options :: "Options \<Rightarrow> sockopt list" where
  "socket_options opts =
     [TCP_NODELAY] @
     (if opt_recv_buffer_bytes opts > 0 then [SO_RCVBUF (signed_take_bit 31 (int (opt_recv_buffer_bytes opts)))] else []) @
     (if opt_tcp_keepalive opts
      then [SO_KEEPALIVE, TCP_KEEPIDLE (opt_keepalive_idle_s opts), TCP_KEEPINTVL (opt_keepalive_interval_s opts),
            TCP_KEEPCNT (opt_keepalive_count opts)]
      else []) @
     (if opt_recv_timeout_ms opts > 0
      then [case timeval (opt_recv_timeout_ms opts) of (s, us) \<Rightarrow> SO_RCVTIMEO s us] else []) @
     (if opt_send_timeout_ms opts > 0
      then [case timeval (opt_send_timeout_ms opts) of (s, us) \<Rightarrow> SO_SNDTIMEO s us] else [])"

definition ConfigureSocket :: "'w os \<Rightarrow> 'w tcp \<Rightarrow> 'w tcp" where
  "ConfigureSocket os c = c\<lparr>tcp_world := fold (os_setsockopt os) (socket_options (tcp_options c)) (tcp_world c)\<rparr>"

definition close_socket :: "'w os \<Rightarrow> 'w tcp \<Rightarrow> 'w tcp" where
  "close_socket os c = c\<lparr>tcp_world := os_close os (tcp_world c), tcp_open := False\<rparr>"

definition Disconnect :: "'w os \<Rightarrow> 'w tcp \<Rightarrow> 'w tcp" where
  "Disconnect os c =
     (if \<not> tcp_open c then c
      else lost (close_socket os (c\<lparr>tcp_world := os_shutdown_both os (tcp_world c)\<rparr>)))"

definition ShutdownReceive :: "'w os \<Rightarrow> 'w tcp \<Rightarrow> 'w tcp" where
  "ShutdownReceive os c =
     (if \<not> tcp_connected c then c
      else c\<lparr>tcp_receive_shutdown := True, tcp_world := os_shutdown_receive os (tcp_world c)\<rparr>)"

definition Connect :: "'w os \<Rightarrow> int \<Rightarrow> 'w tcp \<Rightarrow> TcpError option \<times> 'w tcp" where
  "Connect os timeout_ms c =
     (if tcp_connected c then (Some kAlreadyConnected, c)
      else
        let c = (Disconnect os c)\<lparr>tcp_receive_shutdown := False\<rparr> in
        if \<not> os_address_ok os (opt_host (tcp_options c)) then (Some kConnectionFailed, c)
        else
          let (answer, dt, w) = os_connect os (opt_host (tcp_options c)) (opt_port (tcp_options c)) timeout_ms (tcp_world c);
              c = c\<lparr>tcp_now := tcp_now c + dt, tcp_world := w, tcp_open := True\<rparr>
          in case answer of
               ConnectPending \<Rightarrow> (Some kConnectionTimeout, close_socket os c)
             | ConnectDone e \<Rightarrow>
                 if e \<noteq> NoError then (Some kConnectionFailed, c)
                 else
                   let c = ConfigureSocket os c;
                       (e, w) = os_non_blocking os (tcp_world c);
                       c = c\<lparr>tcp_world := w\<rparr>
                   in if e \<noteq> NoError then (Some kConnectionFailed, close_socket os c)
                      else (None, c\<lparr>tcp_connected := True\<rparr>))"

section \<open>What the operations do\<close>

definition tcp_inv :: "'w tcp \<Rightarrow> bool" where
  "tcp_inv c \<longleftrightarrow> (tcp_connected c \<longrightarrow> tcp_open c)"

definition reads :: "bytes \<Rightarrow> 'w tcp \<Rightarrow> 'w tcp \<Rightarrow> bool" where
  "reads bs c c' \<longleftrightarrow> tcp_in c' = tcp_in c @ bs \<and> tcp_out c' = tcp_out c \<and> tcp_options c' = tcp_options c \<and>
     tcp_open c' = tcp_open c \<and> (tcp_connected c' \<longrightarrow> tcp_connected c) \<and> tcp_now c \<le> tcp_now c'"

lemma reads_trans: "\<lbrakk> reads xs a b; reads ys b c \<rbrakk> \<Longrightarrow> reads (xs @ ys) a c"
  by (auto simp: reads_def)

lemma reads_time: "only_time a b \<Longrightarrow> reads [] a b"
  by (auto simp: reads_def only_time_def)

lemma reads_some: "read_some os n a = (bs, e, b) \<Longrightarrow> reads bs a b"
  by (auto dest!: read_some_frame simp: reads_def)

lemma reads_error: "read_error e a = (x, b) \<Longrightarrow> reads [] a b"
  by (auto simp: read_error_def reads_def lost_def split: if_splits)

text \<open>One round of the read loop: it ends, or it goes on with the bytes just read.\<close>

lemma read_loop_step:
  obtains (full) "length got \<ge> len" "read_loop os deadline len got c = (got, None, c)"
  | (stop) bs err c' where "length got < len" "reads bs c c'" "length (got @ bs) \<le> len"
      "read_loop os deadline len got c = (got @ bs, Some err, c')"
      "tcp_now c' = tcp_now (snd (Wait os True deadline c))"
  | (more) bs c' where "length got < len" "reads bs c c'" "length (got @ bs) \<le> len"
      "deadline - tcp_now c' < deadline - tcp_now c"
      "read_loop os deadline len got c = read_loop os deadline len (got @ bs) c'"
      "tcp_now c' = tcp_now (snd (Wait os True deadline c))"
proof (cases "length got \<ge> len")
  case True
  then have "read_loop os deadline len got c = (got, None, c)" by simp
  with True show ?thesis by (rule full)
next
  case False
  obtain r c1 where w: "Wait os True deadline c = (r, c1)" by fastforce
  have t1: "reads [] c c1" using Wait_frame [OF w] reads_time by blast
  show ?thesis
  proof (cases r)
    case (Some e)
    then have "read_loop os deadline len got c = (got @ [], Some e, c1)"
      using False w by (subst read_loop.simps) simp
    then show ?thesis using False t1 w by (intro stop [of "[]"]) simp_all
  next
    case None
    obtain bs e c2 where s: "read_some os (len - length got) c1 = (bs, e, c2)" by (metis prod.exhaust)
    have t2: "reads bs c c2" using reads_trans [OF t1 reads_some [OF s]] by simp
    have l: "length (got @ bs) \<le> len" using read_some_frame [OF s] False by auto
    have d: "deadline - tcp_now c2 < deadline - tcp_now c"
      using Wait_progress [OF w [unfolded None]] read_some_now [OF s] by simp
    obtain err c3 where r: "read_error e c2 = (err, c3)" by fastforce
    have t3: "reads bs c c3" using reads_trans [OF t2 reads_error [OF r]] by simp
    have n: "tcp_now c2 = tcp_now (snd (Wait os True deadline c))" "tcp_now c3 = tcp_now c2"
      using w read_some_now [OF s] r by (auto simp: read_error_def lost_def split: if_splits)
    have eq: "read_loop os deadline len got c =
        (if e = NoError then read_loop os deadline len (got @ bs) c2
         else if e = TryAgain then
           if tcp_now c2 \<ge> deadline then (got @ bs, Some kResponseTimeout, c2)
           else read_loop os deadline len (got @ bs) c2
         else (got @ bs, Some err, c3))"
      using False w None s r by (subst read_loop.simps) simp
    show ?thesis
    proof (cases "e = NoError \<or> e = TryAgain \<and> \<not> tcp_now c2 \<ge> deadline")
      case True
      then have "read_loop os deadline len got c = read_loop os deadline len (got @ bs) c2" unfolding eq by auto
      with False t2 l d n show ?thesis by (intro more [of bs c2]) simp_all
    next
      case no: False
      show ?thesis
      proof (cases "e = TryAgain")
        case True
        then have "read_loop os deadline len got c = (got @ bs, Some kResponseTimeout, c2)" using no unfolding eq by auto
        with False t2 l n show ?thesis by (intro stop [of bs c2]) simp_all
      next
        case other: False
        then have "read_loop os deadline len got c = (got @ bs, Some err, c3)" using no unfolding eq by auto
        with False t3 l n show ?thesis by (intro stop [of bs c3]) simp_all
      qed
    qed
  qed
qed

lemma read_loop_frame:
  "\<lbrakk> read_loop os deadline len got c = (got', ec, c'); length got \<le> len \<rbrakk> \<Longrightarrow>
   \<exists>bs. got' = got @ bs \<and> reads bs c c' \<and> length got' \<le> len \<and> (ec = None \<longrightarrow> length got' = len)"
proof (induction "deadline - tcp_now c" arbitrary: got c got' ec c' rule: less_induct)
  case less
  show ?case
  proof (cases rule: read_loop_step [of len got os deadline c])
    case full
    then show ?thesis using less.prems reads_time [of c c] by auto
  next
    case (stop bs err c2)
    then show ?thesis using less.prems by auto
  next
    case (more bs c2)
    from less.hyps [OF more(4) less.prems(1) [unfolded more(5)] more(3)]
    obtain bs' where "got' = (got @ bs) @ bs'" "reads bs' c2 c'" "length got' \<le> len" "ec = None \<longrightarrow> length got' = len"
      by blast
    then show ?thesis using reads_trans [OF more(2)] by (intro exI [of _ "bs @ bs'"]) simp
  qed
qed

text \<open>What a caller of \<^verbatim>\<open>Read\<close> relies on: no byte is taken off the wire without being returned, and
  success means exactly as many as were asked for.\<close>

lemma Read_frame:
  assumes "Read os len timeout_ms c = (got, ec, c')"
  shows "reads got c c' \<and> length got \<le> len \<and> (ec = None \<longrightarrow> length got = len)"
proof (cases "tcp_connected c \<and> 0 < timeout_ms")
  case True
  then have "read_loop os (tcp_now c + ms timeout_ms) len [] c = (got, ec, c')" using assms by (simp add: Read_def)
  from read_loop_frame [OF this] show ?thesis by simp
next
  case False
  then show ?thesis using assms reads_time [of c c] by (auto simp: Read_def split: if_splits)
qed

lemma ReadSome_frame:
  assumes "ReadSome os n c = (got, ec, c')"
  shows "\<exists>bs. reads bs c c' \<and> length bs \<le> n \<and> (got = bs \<or> got = [])"
proof (cases "tcp_connected c")
  case False
  then show ?thesis using assms reads_time [of c c] by (auto simp: ReadSome_def)
next
  case True
  obtain r c1 where w: "Wait os True (tcp_now c + ms (max 1 (opt_recv_timeout_ms (tcp_options c)))) c = (r, c1)" by fastforce
  have t1: "reads [] c c1" using Wait_frame [OF w] reads_time by blast
  obtain bs e c2 where s: "read_some os n c1 = (bs, e, c2)" by (metis prod.exhaust)
  have t2: "reads bs c c2" using reads_trans [OF t1 reads_some [OF s]] by simp
  obtain err c3 where r: "read_error e c2 = (err, c3)" by fastforce
  have t3: "reads bs c c3" using reads_trans [OF t2 reads_error [OF r]] by simp
  have "c' = c1 \<and> got = [] \<or> (c' = c2 \<or> c' = c3) \<and> (got = bs \<or> got = [])"
    using assms True by (cases r) (auto simp: ReadSome_def w s r split: if_splits)
  then show ?thesis using t1 t2 t3 read_some_frame [OF s] by auto
qed

definition writes :: "bytes \<Rightarrow> 'w tcp \<Rightarrow> 'w tcp \<Rightarrow> bool" where
  "writes bs c c' \<longleftrightarrow> tcp_out c' = tcp_out c @ bs \<and> tcp_in c' = tcp_in c \<and> tcp_options c' = tcp_options c \<and>
     tcp_open c' = tcp_open c \<and> (tcp_connected c' \<longrightarrow> tcp_connected c) \<and> tcp_now c \<le> tcp_now c'"

lemma write_loop_frame:
  "write_loop os deadline left c = (ec, c') \<Longrightarrow>
   \<exists>k \<le> length left. writes (take k left) c c' \<and>
     (if ec = None then k = length left \<and> tcp_connected c' = tcp_connected c else \<not> tcp_connected c')"
proof (induction "deadline - tcp_now c" arbitrary: left c ec c' rule: less_induct)
  case less
  show ?case
  proof (cases "left = []")
    case True
    then have "write_loop os deadline left c = (None, c)" by simp
    then show ?thesis using less.prems True by (auto simp: writes_def)
  next
    case False
    obtain r c1 where w: "Wait os False deadline c = (r, c1)" by fastforce
    have t1: "only_time c c1" using Wait_frame [OF w] by blast
    show ?thesis
    proof (cases r)
      case (Some e)
      then have "ec = Some e" "c' = lost c1" using less.prems False w by (simp_all add: write_loop.simps [of os deadline left c])
      then show ?thesis using t1 by (intro exI [of _ 0]) (auto simp: writes_def lost_def only_time_def)
    next
      case None
      obtain n e c2 where s: "write_some os left c1 = (n, e, c2)" by (metis prod.exhaust)
      from write_some_frame [OF s] t1 have t2: "n \<le> length left" "writes (take n left) c c2" "tcp_connected c2 = tcp_connected c"
        by (auto simp: writes_def only_time_def)
      have d: "deadline - tcp_now c2 < deadline - tcp_now c"
        using Wait_progress [OF w [unfolded None]] write_some_now [OF s] by simp
      have eq: "write_loop os deadline left c =
          (if e = NoError \<or> e = TryAgain then write_loop os deadline (drop n left) c2
           else (Some (if e \<in> {Eof, ConnectionReset, BrokenPipe} then kConnectionLost else kConnectionFailed), lost c2))"
        using False w s None by (subst write_loop.simps) simp
      show ?thesis
      proof (cases "e = NoError \<or> e = TryAgain")
        case True
        then have rest: "write_loop os deadline (drop n left) c2 = (ec, c')" using less.prems eq by simp
        from less.hyps [OF d rest] obtain k where k: "k \<le> length (drop n left)" "writes (take k (drop n left)) c2 c'"
          "if ec = None then k = length (drop n left) \<and> tcp_connected c' = tcp_connected c2 else \<not> tcp_connected c'" by blast
        have "take (n + k) left = take n left @ take k (drop n left)" by (rule take_add)
        then have "writes (take (n + k) left) c c'" using k(2) t2(2) by (auto simp: writes_def)
        then show ?thesis using k t2 by (intro exI [of _ "n + k"]) (auto split: if_splits)
      next
        case no: False
        then have "ec \<noteq> None" "c' = lost c2" using less.prems eq by auto
        then show ?thesis using t2 by (intro exI [of _ n]) (auto simp: writes_def lost_def)
      qed
    qed
  qed
qed

lemma Write_frame:
  assumes "Write os bs c = (ec, c')"
  shows "\<exists>k \<le> length bs. writes (take k bs) c c' \<and>
     (if ec = None then k = length bs \<and> tcp_connected c' = tcp_connected c else \<not> tcp_connected c')"
proof (cases "tcp_connected c")
  case True
  then have "write_loop os (tcp_now c + ms (max 1 (opt_send_timeout_ms (tcp_options c)))) bs c = (ec, c')"
    using assms by (simp add: Write_def)
  then show ?thesis by (rule write_loop_frame)
next
  case False
  then have "c' = c" "ec \<noteq> None" using assms by (auto simp: Write_def)
  then show ?thesis using False by (intro exI [of _ 0]) (auto simp: writes_def)
qed

section \<open>The invariant of the client\<close>

lemma tcp_inv_ops [inv_intros]:
  "tcp_inv (new_TcpClient opts now w)"
  "tcp_inv c \<Longrightarrow> Read os len t c = (got, ec, c') \<Longrightarrow> tcp_inv c'"
  "tcp_inv c \<Longrightarrow> ReadSome os len c = (got, ec, c') \<Longrightarrow> tcp_inv c'"
  "tcp_inv c \<Longrightarrow> Write os bs c = (ec, c') \<Longrightarrow> tcp_inv c'"
  "tcp_inv c \<Longrightarrow> tcp_inv (Disconnect os c)" "tcp_inv c \<Longrightarrow> tcp_inv (ShutdownReceive os c)"
  by (auto simp: tcp_inv_def new_TcpClient_def Disconnect_def ShutdownReceive_def close_socket_def lost_def
      reads_def writes_def dest!: Read_frame ReadSome_frame Write_frame)

lemma Disconnect_closed: "tcp_inv c \<Longrightarrow> \<not> tcp_connected (Disconnect os c) \<and> \<not> tcp_open (Disconnect os c)"
  by (auto simp: Disconnect_def lost_def close_socket_def tcp_inv_def)

lemma Connect_result:
  assumes "tcp_inv c" "Connect os t c = (ec, c')"
  shows "tcp_inv c' \<and> (ec = None \<longrightarrow> tcp_connected c' \<and> \<not> tcp_receive_shutdown c') \<and>
         (tcp_connected c' \<longrightarrow> ec = None \<or> ec = Some kAlreadyConnected) \<and> tcp_in c' = tcp_in c \<and> tcp_out c' = tcp_out c"
proof (cases "tcp_connected c")
  case True
  then show ?thesis using assms by (auto simp: Connect_def)
next
  case False
  define d where "d = (Disconnect os c)\<lparr>tcp_receive_shutdown := False\<rparr>"
  have d: "\<not> tcp_connected d" "\<not> tcp_receive_shutdown d" "tcp_inv d" "tcp_in d = tcp_in c" "tcp_out d = tcp_out c"
    using assms(1) False by (auto simp: d_def Disconnect_def lost_def close_socket_def tcp_inv_def)
  have "Connect os t c = (if \<not> os_address_ok os (opt_host (tcp_options d)) then (Some kConnectionFailed, d)
        else
          let (answer, dt, w) = os_connect os (opt_host (tcp_options d)) (opt_port (tcp_options d)) t (tcp_world d);
              c = d\<lparr>tcp_now := tcp_now d + dt, tcp_world := w, tcp_open := True\<rparr>
          in case answer of
               ConnectPending \<Rightarrow> (Some kConnectionTimeout, close_socket os c)
             | ConnectDone e \<Rightarrow>
                 if e \<noteq> NoError then (Some kConnectionFailed, c)
                 else
                   let c = ConfigureSocket os c;
                       (e, w) = os_non_blocking os (tcp_world c);
                       c = c\<lparr>tcp_world := w\<rparr>
                   in if e \<noteq> NoError then (Some kConnectionFailed, close_socket os c)
                      else (None, c\<lparr>tcp_connected := True\<rparr>))"
    using False by (simp only: Connect_def d_def if_False Let_def)
  with assms(2) d show ?thesis
    by (auto simp: Let_def tcp_inv_def close_socket_def ConfigureSocket_def
        split: if_splits prod.splits connect_answer.splits)
qed

text \<open>A \<^verbatim>\<open>timeval\<close> carries exactly the milliseconds asked for, in normal form.\<close>

lemma timeval_exact:
  "timeval t = (s, us) \<Longrightarrow> s * 1000 + us div 1000 = t \<and> 0 \<le> us \<and> us < 1000000"
  by (auto simp: timeval_def)

section \<open>Deadlines\<close>

text \<open>\<^verbatim>\<open>poll\<close> returns at the latest \<open>slack\<close> nanoseconds after the wait it was given.\<close>

definition poll_bounded :: "'w os \<Rightarrow> nat \<Rightarrow> bool" where
  "poll_bounded os slack \<longleftrightarrow> (\<forall>rd t w. fst (snd (os_poll os rd t w)) \<le> t * 1000000 + slack)"

lemma Wait_deadline:
  "poll_bounded os slack \<Longrightarrow>
   tcp_now (snd (Wait os rd deadline c)) \<le> max (tcp_now c) (deadline + 1000001 + slack)"
proof (induction "deadline - tcp_now c" arbitrary: c rule: less_induct)
  case less
  show ?case
  proof (cases "tcp_connected c \<and> tcp_now c < deadline")
    case False
    then show ?thesis by (subst Wait.simps) auto
  next
    case True
    let ?l = "(deadline - tcp_now c) div 1000000"
    obtain answer dt w where p: "os_poll os rd (min (?l + 1) 50) (tcp_world c) = (answer, dt, w)"
      by (metis prod.exhaust)
    let ?c = "c\<lparr>tcp_now := tcp_now c + 1 + dt, tcp_world := w\<rparr>"
    have "dt \<le> min (?l + 1) 50 * 1000000 + slack"
      using less.prems p by (auto simp: poll_bounded_def dest!: spec [of _ rd] spec [of _ "min (?l + 1) 50"] spec [of _ "tcp_world c"])
    also have "\<dots> \<le> (?l + 1) * 1000000 + slack" by simp
    also have "\<dots> \<le> (deadline - tcp_now c) + 1000000 + slack"
      using div_times_less_eq_dividend [of "deadline - tcp_now c" 1000000] by (simp only: add_mult_distrib)
    finally have dt: "tcp_now ?c \<le> deadline + 1000001 + slack" using conjunct2 [OF True] by simp
    have now: "tcp_now c < tcp_now ?c" by simp
    have IH: "tcp_now (snd (Wait os rd deadline ?c)) \<le> max (tcp_now ?c) (deadline + 1000001 + slack)"
      by (rule less.hyps) (use True now less.prems in auto)
    have eq: "Wait os rd deadline c = (case answer of
             PollReady \<Rightarrow> (None, ?c) | PollInvalid \<Rightarrow> (Some kConnectionLost, ?c)
           | PollFailed \<Rightarrow> (Some kConnectionFailed, ?c) | PollTimeout \<Rightarrow> Wait os rd deadline ?c
           | PollInterrupted \<Rightarrow> Wait os rd deadline ?c)"
      using True p by (intro Wait_step) simp_all
    show ?thesis unfolding eq using dt IH by (cases answer) auto
  qed
qed

lemma read_loop_deadline:
  "poll_bounded os slack \<Longrightarrow>
   tcp_now (snd (snd (read_loop os deadline len got c))) \<le> max (tcp_now c) (deadline + 1000001 + slack)"
proof (induction "deadline - tcp_now c" arbitrary: got c rule: less_induct)
  case less
  show ?case
  proof (cases rule: read_loop_step [of len got os deadline c])
    case full
    then show ?thesis by simp
  next
    case (stop bs err c2)
    then show ?thesis using Wait_deadline [OF less.prems, of True deadline c] by simp
  next
    case (more bs c2)
    show ?thesis using less.hyps [OF more(4) less.prems, of "got @ bs"] more(5,6)
        Wait_deadline [OF less.prems, of True deadline c] by simp
  qed
qed

section \<open>Properties of the client\<close>

text \<open>A peer that has already sent its bytes and accepts everything: the example of the witnesses.\<close>

definition sample_os :: "bytes os" where
  "sample_os = \<lparr>os_poll = \<lambda>rd t w. (PollReady, 0, w),
     os_read = \<lambda>n w. if w = [] then ([], TryAgain, w) else (take n w, NoError, drop n w),
     os_write = \<lambda>bs w. (length bs, NoError, w), os_address_ok = \<lambda>a. True,
     os_connect = \<lambda>a p t w. (ConnectDone NoError, 0, w), os_setsockopt = \<lambda>p w. w,
     os_non_blocking = \<lambda>w. (NoError, w), os_shutdown_receive = \<lambda>w. w, os_shutdown_both = \<lambda>w. w, os_close = \<lambda>w. w\<rparr>"

definition sample_options :: Options where
  "sample_options = \<lparr>opt_host = ''10.0.0.2'', opt_port = 2111, opt_recv_buffer_bytes = 0, opt_tcp_keepalive = False,
     opt_keepalive_idle_s = 5, opt_keepalive_interval_s = 1, opt_keepalive_count = 3, opt_recv_timeout_ms = 100,
     opt_send_timeout_ms = 1000, opt_quiet_connect_errors = False\<rparr>"

definition sample_tcp :: "bytes \<Rightarrow> bytes tcp" where
  "sample_tcp w = (new_TcpClient sample_options 0 w)\<lparr>tcp_open := True, tcp_connected := True\<rparr>"

lemma sample_Read:
  "Read sample_os 2 1000 (sample_tcp [1, 2, 3]) = ([1, 2], None, (sample_tcp [3])\<lparr>tcp_now := 1, tcp_in := [1, 2]\<rparr>)"
  by (simp add: Read_def ms_def sample_tcp_def new_TcpClient_def read_loop.simps Wait.simps read_some_def sample_os_def Let_def)

lemma sample_Write:
  "Write sample_os [7] (sample_tcp []) = (None, (sample_tcp [])\<lparr>tcp_now := 1, tcp_out := [7]\<rparr>)"
  by (simp add: Write_def ms_def sample_tcp_def new_TcpClient_def write_loop.simps Wait.simps write_some_def Let_def
      sample_os_def sample_options_def)

text \<open>
  A read loses no byte of the stream: whatever the socket does, the bytes it returns are exactly the
  bytes taken off the wire, on errors too; it never returns more than asked for, and success means
  exactly as many.
\<close>

lemma Read_exact:
  assumes "Read os len timeout_ms c = (got, ec, c')"
  shows "tcp_in c' = tcp_in c @ got \<and> tcp_out c' = tcp_out c \<and> length got \<le> len \<and> (ec = None \<longrightarrow> length got = len)"
  using Read_frame [OF assms] by (simp add: reads_def)

text \<open>
  A write puts the whole command on the wire or gives the connection up: success means that every byte
  was sent, in order and once; after any failure only a prefix may have been sent and the client no longer
  counts as connected, so the cut command is never continued.
\<close>

lemma Write_all_or_lost:
  assumes "Write os bs c = (ec, c')"
  shows "(if ec = None then tcp_out c' = tcp_out c @ bs
          else \<not> tcp_connected c' \<and> (\<exists>k \<le> length bs. tcp_out c' = tcp_out c @ take k bs)) \<and> tcp_in c' = tcp_in c"
  using Write_frame [OF assms] by (auto simp: writes_def split: if_splits)

text \<open>
  C26: a read always returns, and in time: if \<^verbatim>\<open>poll\<close> keeps its own timeout up to a slack, \<^verbatim>\<open>Read\<close> is over at
  the latest one millisecond, one nanosecond and the slack after its deadline, however the peer dribbles
  its bytes, and however often the poll is interrupted.
\<close>

theorem Read_deadline:
  assumes "poll_bounded os slack" "0 < timeout_ms"
  shows "tcp_now (snd (snd (Read os len timeout_ms c))) \<le> tcp_now c + ms timeout_ms + 1000001 + slack"
proof (cases "tcp_connected c")
  case True
  then have "Read os len timeout_ms c = read_loop os (tcp_now c + ms timeout_ms) len [] c"
    using assms(2) by (simp add: Read_def)
  then show ?thesis using read_loop_deadline [OF assms(1), of "tcp_now c + ms timeout_ms" len "[]" c] by simp
qed (simp add: Read_def)

theorem Read_deadline_witness:
  "tcp_now (snd (snd (Read sample_os 2 1000 (sample_tcp [1, 2, 3])))) \<le> 1001000001"
  using Read_deadline [of sample_os 0 1000 2 "sample_tcp [1, 2, 3]"]
  by (simp add: poll_bounded_def sample_os_def ms_def sample_tcp_def new_TcpClient_def)

end
