(* ===== verification/Command_Channel.thy ===== *)
theory Command_Channel
  imports Command_Builder Tcp_Client Machines
begin

text \<open>
  \<^verbatim>\<open>lms4xxx_driver/src/command_channel.cpp\<close>: synchronous CoLa B transactions over the TCP client: one
  command frame out, one answer frame in, with the checks in the order of the code and the flag
  \<^verbatim>\<open>uncertain_\<close> that says that the answer stream may be out of step. An error code is one of the driver, of
  the TCP client or of the system. The argument \<^verbatim>\<open>quiet_sfa\<close> only selects a log level. \<open>ch_tcp = None\<close> is the
  null client.
\<close>

datatype error_code = Drv ErrorCode | Tcp TcpError | Sys int

record 'w chan =
  ch_tcp :: "'w tcp option"
  ch_uncertain :: bool
  ch_response_timeout_ms :: int

definition kMaxFrameBytes :: nat where "kMaxFrameBytes = 64 * 1024"
definition kMaxDrain :: nat where "kMaxDrain = 64 * 1024"
definition kMethodTimeoutMs :: int where "kMethodTimeoutMs = 5000"
definition kStartMeasurementTimeoutMs :: int where "kStartMeasurementTimeoutMs = 60000"

definition new_CommandChannel :: "int \<Rightarrow> 'w tcp option \<Rightarrow> 'w chan" where
  "new_CommandChannel t c = \<lparr>ch_tcp = c, ch_uncertain = False, ch_response_timeout_ms = t\<rparr>"

definition MethodTimeout :: "string \<Rightarrow> 'w chan \<Rightarrow> int" where
  "MethodTimeout name ch = max (ch_response_timeout_ms ch)
     (if name = ''LMCstartmeas'' then kStartMeasurementTimeoutMs else kMethodTimeoutMs)"

definition Uncertain :: "'w chan \<Rightarrow> bool" where
  "Uncertain ch = ch_uncertain ch"

definition Reset :: "'w chan \<Rightarrow> 'w chan" where
  "Reset ch = ch\<lparr>ch_uncertain := False\<rparr>"

function DrainStaleBytes :: "'w os \<Rightarrow> nat \<Rightarrow> 'w tcp \<Rightarrow> 'w tcp" where
  "DrainStaleBytes os dropped c =
     (if dropped \<ge> kMaxDrain then c
      else case ReadSome os 1024 c of
        (bs, ec, c) \<Rightarrow> if ec \<noteq> None \<or> bs = [] then c else DrainStaleBytes os (dropped + length bs) c)"
  by pat_completeness auto
termination by (relation "measure (\<lambda>(os, dropped, c). kMaxDrain - dropped)") (auto intro!: diff_less_mono2)

declare DrainStaleBytes.simps [simp del]

section \<open>One transaction\<close>

definition put :: "'w tcp \<Rightarrow> 'w chan \<Rightarrow> 'w chan" where
  "put c ch = ch\<lparr>ch_tcp := Some c\<rparr>"

definition failed :: "error_code \<Rightarrow> 'w chan \<Rightarrow> (error_code + 'a) \<times> 'w chan" where
  "failed ec ch = (Inl ec, ch\<lparr>ch_uncertain := True\<rparr>)"

definition sfa_code :: "ColaBMessage \<Rightarrow> u16" where
  "sfa_code msg = (if length (payload msg) \<ge> 2 then DecodeUint16 (payload msg) else 0xFFFF)"

definition accept_body :: "nat \<Rightarrow> bytes \<Rightarrow> 'w chan \<Rightarrow> (error_code + ColaBMessage) \<times> 'w chan" where
  "accept_body data_len body ch =
     (if length body < data_len + 1 then failed (Drv kFrameTooShort) ch
      else if ComputeChecksum (take data_len body) \<noteq> body ! data_len then failed (Drv kCrcError) ch
      else case Decode (take data_len body) of
        Inl e \<Rightarrow> failed (Drv e) ch
      | Inr response \<Rightarrow>
          if command_type response = kErrorAnswer
          then (Inl (Drv (if sfa_code response = 1 then kAccessDenied else kSopasError)), ch)
          else (Inr response, ch))"

definition receive_answer :: "'w os \<Rightarrow> int \<Rightarrow> 'w tcp \<Rightarrow> 'w chan \<Rightarrow> (error_code + ColaBMessage) \<times> 'w chan" where
  "receive_answer os timeout_ms c ch =
     (case Read os 8 timeout_ms c of
        (header, Some e, c) \<Rightarrow>
          failed (Tcp e) (put (if header \<noteq> [] then DrainStaleBytes os 0 c else c) ch)
      | (header, None, c) \<Rightarrow>
          if length header < 8 then failed (Drv kFrameTooShort) (put c ch)
          else if take 4 header \<noteq> kColaBStx then failed (Drv kProtocolError) (put (DrainStaleBytes os 0 c) ch)
          else
            let data_len = unat (DecodeUint32 (drop 4 header)) in
            if data_len > kMaxFrameBytes then failed (Drv kFrameTooLong) (put (DrainStaleBytes os 0 c) ch)
            else case Read os (data_len + 1) timeout_ms c of
              (body, Some e, c) \<Rightarrow>
                failed (Tcp e) (put (if body \<noteq> [] \<and> length body < data_len + 1 then DrainStaleBytes os 0 c else c) ch)
            | (body, None, c) \<Rightarrow> accept_body data_len body (put c ch))"

definition SendAndReceive ::
    "'w os \<Rightarrow> bytes \<Rightarrow> int \<Rightarrow> 'w chan \<Rightarrow> (error_code + ColaBMessage) \<times> 'w chan" where
  "SendAndReceive os frame timeout_ms ch =
     (case ch_tcp ch of
        None \<Rightarrow> failed (Drv ErrorCode.kNotConnected) ch
      | Some c \<Rightarrow>
          if \<not> tcp_connected c then failed (Drv ErrorCode.kNotConnected) ch
          else case Write os frame c of
            (Some e, c) \<Rightarrow> failed (Tcp e) (put c ch)
          | (None, c) \<Rightarrow> receive_answer os timeout_ms c ch)"

definition ValidateResponse :: "ColaBMessage \<Rightarrow> string \<Rightarrow> string \<Rightarrow> 'w chan \<Rightarrow> error_code option \<times> 'w chan" where
  "ValidateResponse msg expected_type expected_name ch =
     (if command_type msg \<noteq> expected_type \<or> command_name msg \<noteq> expected_name
      then (Some (Drv kUnexpectedResponse), ch\<lparr>ch_uncertain := True\<rparr>)
      else (None, ch))"

definition ReadVariable :: "'w os \<Rightarrow> string \<Rightarrow> int \<Rightarrow> 'w chan \<Rightarrow> (error_code + bytes) \<times> 'w chan" where
  "ReadVariable os name timeout_ms ch =
     (case SendAndReceive os (BuildReadVariable name) timeout_ms ch of
        (Inl ec, ch) \<Rightarrow> (Inl ec, ch)
      | (Inr r, ch) \<Rightarrow>
          (case ValidateResponse r kReadAnswer name ch of
             (Some ec, ch) \<Rightarrow> (Inl ec, ch)
           | (None, ch) \<Rightarrow> (Inr (payload r), ch)))"

definition CallMethod ::
    "'w os \<Rightarrow> bytes \<Rightarrow> string \<Rightarrow> u8 option \<Rightarrow> 'w chan \<Rightarrow> error_code option \<times> 'w chan" where
  "CallMethod os frame name ok_byte ch =
     (case SendAndReceive os frame (MethodTimeout name ch) ch of
        (Inl ec, ch) \<Rightarrow> (Some ec, ch)
      | (Inr r, ch) \<Rightarrow>
          (case ValidateResponse r kMethodAnswer name ch of
             (Some ec, ch) \<Rightarrow> (Some ec, ch)
           | (None, ch) \<Rightarrow>
               (case ok_byte of
                  None \<Rightarrow> (None, ch)
                | Some b \<Rightarrow>
                    if payload r = [] \<or> payload r ! 0 \<noteq> b then (Some (Drv kCommandRejected), ch) else (None, ch))))"

section \<open>What a transaction does to the stream\<close>

lemma Drain_frame: "\<exists>bs. reads bs c (DrainStaleBytes os dropped c)"
proof (induction os dropped c rule: DrainStaleBytes.induct)
  case (1 os dropped c)
  show ?case
  proof (cases "dropped \<ge> kMaxDrain")
    case True
    then show ?thesis using reads_time [of c c] by (auto simp: DrainStaleBytes.simps [of os dropped c])
  next
    case False
    obtain bs ec c1 where r: "ReadSome os 1024 c = (bs, ec, c1)" by (metis prod.exhaust)
    from ReadSome_frame [OF r] obtain xs where xs: "reads xs c c1" by blast
    show ?thesis
    proof (cases "ec \<noteq> None \<or> bs = []")
      case True
      then show ?thesis using xs False r by (auto simp: DrainStaleBytes.simps [of os dropped c])
    next
      case go: False
      from 1 [OF False r [symmetric] refl go] obtain ys where "reads ys c1 (DrainStaleBytes os (dropped + length bs) c1)" by blast
      from reads_trans [OF xs this] show ?thesis using False go r by (auto simp: DrainStaleBytes.simps [of os dropped c])
    qed
  qed
qed

text \<open>The channel keeps its client and its settings; the flag is only ever raised.\<close>

definition grows :: "'w chan \<Rightarrow> 'w chan \<Rightarrow> bool" where
  "grows a b \<longleftrightarrow> (ch_uncertain a \<longrightarrow> ch_uncertain b) \<and> ch_response_timeout_ms b = ch_response_timeout_ms a \<and>
     (case ch_tcp a of None \<Rightarrow> ch_tcp b = None
      | Some c \<Rightarrow> \<exists>c' i out. ch_tcp b = Some c' \<and> tcp_in c' = tcp_in c @ i \<and> tcp_out c' = tcp_out c @ out \<and>
          tcp_options c' = tcp_options c \<and> tcp_open c' = tcp_open c \<and> (tcp_connected c' \<longrightarrow> tcp_connected c) \<and>
          tcp_now c \<le> tcp_now c')"

lemma grows_refl [simp]: "grows a a"
  by (auto simp: grows_def split: option.splits)

lemma grows_trans: "\<lbrakk> grows a b; grows b c \<rbrakk> \<Longrightarrow> grows a c"
  by (force simp: grows_def split: option.splits)

lemma grows_uncertain: "grows a b \<Longrightarrow> grows a (b\<lparr>ch_uncertain := True\<rparr>)"
  by (auto simp: grows_def split: option.splits)

lemma grows_put:
  assumes "ch_tcp ch = Some c" "tcp_out d = tcp_out c @ out" "tcp_in d = tcp_in c @ i"
    "tcp_options d = tcp_options c" "tcp_open d = tcp_open c" "tcp_connected d \<longrightarrow> tcp_connected c" "tcp_now c \<le> tcp_now d"
  shows "grows ch (put d ch)"
  using assms by (auto simp: grows_def put_def)

text \<open>A complete answer as it stands on the wire.\<close>

definition wire :: "bytes \<Rightarrow> bytes" where
  "wire data = kColaBStx @ EncodeUint32 (word_of_nat (length data)) @ data @ [ComputeChecksum data]"

lemma wire_encode: "wire (encode_data t n p) = Encode t n p"
  by (simp add: wire_def Encode_split)

lemma wire_read:
  assumes "length header = 8" "take 4 header = kColaBStx" "n = unat (DecodeUint32 (drop 4 header))"
    and "length body = n + 1" "ComputeChecksum (take n body) = body ! n"
  shows "header @ body = wire (take n body)"
proof -
  have four: "\<exists>a b c d. xs = [a, b, c, d]" if "length xs = 4" for xs :: bytes
    using that by (auto simp: numeral_eq_Suc length_Suc_conv)
  have "length (drop 4 header) = 4" using assms(1) by simp
  from four [OF this] obtain a b c d where h: "drop 4 header = [a, b, c, d]" by blast
  have "EncodeUint32 (word_of_nat n) = drop 4 header"
    unfolding assms(3) h by (simp add: EncodeUint32_def DecodeUint32_def StoreBigU32_LoadBigU32)
  moreover have "body = take n body @ [body ! n]" using assms(4) by (metis take_Suc_conv_app_nth lessI Suc_eq_plus1 take_all order_refl)
  ultimately show ?thesis using assms append_take_drop_id [of 4 header]
    by (simp add: wire_def)
qed

definition answered :: "bytes \<Rightarrow> error_code + ColaBMessage \<Rightarrow> bool" where
  "answered bs r \<longleftrightarrow> (\<exists>data msg. bs = wire data \<and> length data \<le> kMaxFrameBytes \<and> Decode data = Inr msg \<and>
     (if command_type msg = kErrorAnswer
      then r = Inl (Drv (if sfa_code msg = 1 then kAccessDenied else kSopasError)) else r = Inr msg))"

text \<open>
  After an answer the client has taken some bytes; either the flag was raised and the result is an
  error, or the bytes are exactly one well formed answer and the result is what it says.
\<close>

definition outcome :: "'w tcp \<Rightarrow> 'w chan \<Rightarrow> error_code + ColaBMessage \<Rightarrow> 'w chan \<Rightarrow> bool" where
  "outcome c ch r ch' \<longleftrightarrow> (\<exists>d bs. reads bs c d \<and>
     (ch' = (put d ch)\<lparr>ch_uncertain := True\<rparr> \<and> (\<exists>e. r = Inl e) \<or> ch' = put d ch \<and> answered bs r))"

lemma outcome_failed: "reads bs c d \<Longrightarrow> outcome c ch (fst (failed e (put d ch))) (snd (failed e (put d ch)))"
  by (auto simp: outcome_def failed_def)

lemma outcome_drained:
  assumes "reads bs c d"
  shows "outcome c ch (fst (failed e (put (DrainStaleBytes os 0 d) ch))) (snd (failed e (put (DrainStaleBytes os 0 d) ch)))"
proof -
  obtain ys where "reads ys d (DrainStaleBytes os 0 d)" using Drain_frame by blast
  from reads_trans [OF assms this] show ?thesis by (rule outcome_failed)
qed

lemma outcome_body:
  assumes h: "length header = 8" "take 4 header = kColaBStx" "n = unat (DecodeUint32 (drop 4 header))" "n \<le> kMaxFrameBytes"
    and b: "length body = n + 1" and r: "reads (header @ body) c d"
  shows "outcome c ch (fst (accept_body n body (put d ch))) (snd (accept_body n body (put d ch)))"
proof (cases "ComputeChecksum (take n body) = body ! n")
  case False
  then show ?thesis using b outcome_failed [OF r] by (simp add: accept_body_def)
next
  case True
  have w: "header @ body = wire (take n body)" by (rule wire_read [OF h(1-3) b True])
  show ?thesis
  proof (cases "Decode (take n body)")
    case (Inl e)
    then show ?thesis using b True outcome_failed [OF r] by (simp add: accept_body_def)
  next
    case (Inr msg)
    let ?r = "fst (accept_body n body (put d ch))"
    have "answered (header @ body) ?r" "snd (accept_body n body (put d ch)) = put d ch"
      using b True Inr h(4) by (auto simp: answered_def w accept_body_def intro!: exI [of _ "take n body"])
    then show ?thesis using r unfolding outcome_def by metis
  qed
qed

lemma receive_answer_outcome:
  "outcome c ch (fst (receive_answer os t c ch)) (snd (receive_answer os t c ch))"
proof -
  obtain header ec c1 where h: "Read os 8 t c = (header, ec, c1)" by (metis prod.exhaust)
  note rh = Read_frame [OF h]
  show ?thesis
  proof (cases ec)
    case (Some e)
    from rh have r: "reads header c c1" by blast
    show ?thesis by (simp add: Some receive_answer_def h outcome_failed [OF r] outcome_drained [OF r])
  next
    case None
    then have l: "length header = 8" "reads header c c1" using rh by auto
    define n where "n = unat (DecodeUint32 (drop 4 header))"
    obtain body e2 c2 where b: "Read os (n + 1) t c1 = (body, e2, c2)" by (metis prod.exhaust)
    note rb = Read_frame [OF b]
    have r2: "reads (header @ body) c c2" using reads_trans [OF l(2)] rb by blast
    have eq: "receive_answer os t c ch =
       (if take 4 header \<noteq> kColaBStx then failed (Drv kProtocolError) (put (DrainStaleBytes os 0 c1) ch)
        else if n > kMaxFrameBytes then failed (Drv kFrameTooLong) (put (DrainStaleBytes os 0 c1) ch)
        else case e2 of
            Some e \<Rightarrow> failed (Tcp e) (put (if body \<noteq> [] \<and> length body < n + 1 then DrainStaleBytes os 0 c2 else c2) ch)
          | None \<Rightarrow> accept_body n body (put c2 ch))"
      using l None by (simp add: receive_answer_def h Let_def n_def [symmetric] b del: One_nat_def)
    consider "take 4 header \<noteq> kColaBStx \<or> n > kMaxFrameBytes" | e where "take 4 header = kColaBStx" "n \<le> kMaxFrameBytes" "e2 = Some e"
      | "take 4 header = kColaBStx" "n \<le> kMaxFrameBytes" "e2 = None"
      by (cases e2; cases "n > kMaxFrameBytes") (auto simp: not_less)
    then show ?thesis
    proof cases
      case 1
      then show ?thesis unfolding eq by (auto simp: outcome_drained [OF l(2)])
    next
      case (2 e)
      then show ?thesis unfolding eq by (auto simp: outcome_drained [OF r2] outcome_failed [OF r2])
    next
      case 3
      then show ?thesis using outcome_body [OF l(1) _ n_def, of body c c2 ch] rb r2 unfolding eq by simp
    qed
  qed
qed

lemma put_put [simp]: "put d (put c ch) = put d ch"
  by (simp add: put_def)

text \<open>What the caller of a transaction sees: the client it had, the bytes sent and the bytes taken.\<close>

lemma SendAndReceive_outcome:
  assumes "SendAndReceive os frame t ch = (r, ch')"
  shows "(\<exists>e. r = Inl e) \<and> ch_uncertain ch' \<and> grows ch ch' \<or>
         (\<exists>c d bs. ch_tcp ch = Some c \<and> ch' = put d ch \<and> tcp_out d = tcp_out c @ frame \<and> tcp_in d = tcp_in c @ bs \<and>
            answered bs r \<and> grows ch ch')"
proof (cases "\<exists>c. ch_tcp ch = Some c \<and> tcp_connected c")
  case False
  then show ?thesis using assms
    by (auto simp: SendAndReceive_def failed_def intro!: grows_uncertain split: option.splits)
next
  case True
  then obtain c where c: "ch_tcp ch = Some c" "tcp_connected c" by blast
  obtain e c1 where w: "Write os frame c = (e, c1)" by fastforce
  from Write_frame [OF w] obtain k where k: "writes (take k frame) c c1" "e = None \<longrightarrow> k = length frame"
    by (auto split: if_splits)
  have g1: "grows ch (put c1 ch)" by (rule grows_put [OF c(1)]) (use k(1) in \<open>auto simp: writes_def\<close>)
  show ?thesis
  proof (cases e)
    case (Some x)
    then show ?thesis using assms c w g1 by (auto simp: SendAndReceive_def failed_def intro: grows_uncertain)
  next
    case None
    then have "receive_answer os t c1 ch = (r, ch')" using assms c w by (simp add: SendAndReceive_def)
    from receive_answer_outcome [of c1 ch os t, unfolded this fst_conv snd_conv] obtain d bs where
      d: "reads bs c1 d" "ch' = (put d ch)\<lparr>ch_uncertain := True\<rparr> \<and> (\<exists>e. r = Inl e) \<or> ch' = put d ch \<and> answered bs r"
      unfolding outcome_def by blast
    have "grows ch (put d ch)" by (rule grows_put [OF c(1)]) (use k(1) d(1) in \<open>auto simp: writes_def reads_def\<close>)
    moreover have "tcp_out d = tcp_out c @ frame" "tcp_in d = tcp_in c @ bs"
      using k None d(1) by (auto simp: writes_def reads_def)
    ultimately show ?thesis using d(2) c(1) by (auto intro: grows_uncertain)
  qed
qed

lemma SendAndReceive_grows: "grows ch (snd (SendAndReceive os frame t ch))"
  using SendAndReceive_outcome [of os frame t ch] by (cases "SendAndReceive os frame t ch") auto

lemma ValidateResponse_grows: "grows ch (snd (ValidateResponse msg a b ch))"
  by (auto simp: ValidateResponse_def intro: grows_uncertain)

lemma ReadVariable_grows: "grows ch (snd (ReadVariable os name t ch))"
  using SendAndReceive_grows [of ch os "BuildReadVariable name" t]
  by (auto simp: ReadVariable_def ValidateResponse_def intro: grows_uncertain split: sum.splits prod.splits)

lemma CallMethod_grows: "grows ch (snd (CallMethod os frame name ok ch))"
  using SendAndReceive_grows [of ch os frame "MethodTimeout name ch"]
  by (auto simp: CallMethod_def ValidateResponse_def intro: grows_uncertain split: sum.splits prod.splits option.splits)

section \<open>The flag\<close>

datatype chan_op = Transact bytes int | ReadVar string int | Call bytes string "u8 option" | Validate ColaBMessage string string

fun chan_step :: "'w os \<Rightarrow> 'w chan \<Rightarrow> chan_op \<Rightarrow> 'w chan" where
  "chan_step os ch (Transact frame t) = snd (SendAndReceive os frame t ch)"
| "chan_step os ch (ReadVar name t) = snd (ReadVariable os name t ch)"
| "chan_step os ch (Call frame name ok) = snd (CallMethod os frame name ok ch)"
| "chan_step os ch (Validate msg a b) = snd (ValidateResponse msg a b ch)"

lemma grows_flag: "\<lbrakk> grows a b; Uncertain a \<rbrakk> \<Longrightarrow> Uncertain b"
  by (simp add: grows_def Uncertain_def)

interpretation channel_flag: sticky "chan_step os" Uncertain for os
proof
  fix ch :: "'a chan" and op assume "Uncertain ch"
  then show "Uncertain (chan_step os ch op)"
    by (cases op) (auto intro: grows_flag [OF SendAndReceive_grows] grows_flag [OF ReadVariable_grows]
        grows_flag [OF CallMethod_grows] grows_flag [OF ValidateResponse_grows])
qed

section \<open>A prompt device\<close>

text \<open>With a peer that has its answer ready a transaction succeeds: the example behind the witnesses.\<close>

lemma sample_Read_ready:
  assumes "tcp_connected c" "0 < t" "0 < n" "n \<le> length (tcp_world c)"
  shows "Read sample_os n t c = (take n (tcp_world c), None,
     c\<lparr>tcp_now := Suc (tcp_now c), tcp_world := drop n (tcp_world c), tcp_in := tcp_in c @ take n (tcp_world c)\<rparr>)"
proof -
  have ms: "0 < ms t" using assms(2) by (simp add: ms_def)
  have W: "Wait sample_os True (tcp_now c + ms t) c = (None, c\<lparr>tcp_now := Suc (tcp_now c)\<rparr>)"
    using assms(1) ms by (subst Wait.simps) (simp add: sample_os_def)
  have R: "read_some sample_os n (c\<lparr>tcp_now := Suc (tcp_now c)\<rparr>) = (take n (tcp_world c), NoError,
     c\<lparr>tcp_now := Suc (tcp_now c), tcp_world := drop n (tcp_world c), tcp_in := tcp_in c @ take n (tcp_world c)\<rparr>)"
    using assms(3,4) by (auto simp: read_some_def sample_os_def Let_def)
  have "Read sample_os n t c = read_loop sample_os (tcp_now c + ms t) n [] c"
    using assms(1,2) by (simp add: Read_def)
  also have "\<dots> = (take n (tcp_world c), None,
     c\<lparr>tcp_now := Suc (tcp_now c), tcp_world := drop n (tcp_world c), tcp_in := tcp_in c @ take n (tcp_world c)\<rparr>)"
    using assms(3,4) by (simp add: read_loop.simps [of sample_os "tcp_now c + ms t" n "[]" c] W R)
  finally show ?thesis .
qed

lemma sample_Write_ready:
  assumes "tcp_connected c" "bs \<noteq> []"
  shows "Write sample_os bs c = (None, c\<lparr>tcp_now := Suc (tcp_now c), tcp_out := tcp_out c @ bs\<rparr>)"
proof -
  define dl where "dl = tcp_now c + ms (max 1 (opt_send_timeout_ms (tcp_options c)))"
  have ms: "tcp_now c < dl" by (simp add: ms_def dl_def)
  have W: "Wait sample_os False dl c = (None, c\<lparr>tcp_now := Suc (tcp_now c)\<rparr>)"
    using assms(1) ms by (subst Wait.simps) (simp add: sample_os_def)
  have "write_loop sample_os dl bs c = (None, c\<lparr>tcp_now := Suc (tcp_now c), tcp_out := tcp_out c @ bs\<rparr>)"
    using assms(2) by (simp add: write_loop.simps [of sample_os dl bs c] W write_some_def Let_def)
      (simp add: sample_os_def)
  then show ?thesis using assms(1) by (simp add: Write_def dl_def)
qed

lemma Encode_nonempty: "Encode t n p \<noteq> []"
  by (simp add: Encode_split kColaBStx_def)

lemma sample_exchange:
  assumes c: "tcp_connected c" "tcp_world c = wire data @ rest" and t: "0 < t" and f: "frame \<noteq> []"
    and d: "length data \<le> kMaxFrameBytes" "Decode data = Inr msg" "command_type msg \<noteq> kErrorAnswer"
    and ch: "ch_tcp ch = Some c"
  shows "SendAndReceive sample_os frame t ch = (Inr msg, put (c\<lparr>tcp_now := tcp_now c + 3, tcp_out := tcp_out c @ frame,
     tcp_world := rest, tcp_in := tcp_in c @ wire data\<rparr>) ch)"
proof -
  let ?h = "kColaBStx @ EncodeUint32 (word_of_nat (length data))" and ?b = "data @ [ComputeChecksum data]"
  define c1 where "c1 = c\<lparr>tcp_now := Suc (tcp_now c), tcp_out := tcp_out c @ frame\<rparr>"
  define c2 where "c2 = c1\<lparr>tcp_now := Suc (tcp_now c1), tcp_world := ?b @ rest, tcp_in := tcp_in c1 @ ?h\<rparr>"
  define c3 where "c3 = c2\<lparr>tcp_now := Suc (tcp_now c2), tcp_world := rest, tcp_in := tcp_in c2 @ ?b\<rparr>"
  have h8: "length ?h = 8" by (simp add: kColaBStx_def)
  have w: "wire data @ rest = ?h @ ?b @ rest" by (simp add: wire_def)
  have "length data < 2 ^ 32" using d(1) by (simp add: kMaxFrameBytes_def)
  then have n: "unat (DecodeUint32 (drop 4 ?h)) = length data"
    using DecodeUint32_Encode [of "word_of_nat (length data)" "[]"] by (simp add: kColaBStx_def unat_of_nat take_bit_nat_eq_self)
  have r1: "Write sample_os frame c = (None, c1)" unfolding c1_def by (rule sample_Write_ready [OF c(1) f])
  have "Read sample_os 8 t c1 = (take 8 (tcp_world c1), None, c1\<lparr>tcp_now := Suc (tcp_now c1),
      tcp_world := drop 8 (tcp_world c1), tcp_in := tcp_in c1 @ take 8 (tcp_world c1)\<rparr>)"
    by (rule sample_Read_ready) (use c t w h8 in \<open>simp_all add: c1_def\<close>)
  then have r2: "Read sample_os 8 t c1 = (?h, None, c2)"
    using c(2) w h8 by (simp add: c1_def c2_def)
  have "Read sample_os (length data + 1) t c2 = (take (length data + 1) (tcp_world c2), None, c2\<lparr>tcp_now := Suc (tcp_now c2),
      tcp_world := drop (length data + 1) (tcp_world c2), tcp_in := tcp_in c2 @ take (length data + 1) (tcp_world c2)\<rparr>)"
    by (rule sample_Read_ready) (use c t in \<open>simp_all add: c1_def c2_def\<close>)
  then have r3: "Read sample_os (length data + 1) t c2 = (?b, None, c3)" by (simp add: c2_def c3_def)
  have body: "accept_body (length data) ?b (put c3 ch) = (Inr msg, put c3 ch)"
    using d by (simp add: accept_body_def nth_append)
  have stx: "take 4 ?h = kColaBStx" by (simp add: kColaBStx_def)
  have "receive_answer sample_os t c1 ch = (Inr msg, put c3 ch)"
    unfolding receive_answer_def r2 by (simp only: prod.case option.case h8 stx n Let_def r3 body) (use d(1) in simp)
  moreover have "c3 = c\<lparr>tcp_now := tcp_now c + 3, tcp_out := tcp_out c @ frame, tcp_world := rest, tcp_in := tcp_in c @ wire data\<rparr>"
    by (simp add: c1_def c2_def c3_def wire_def)
  ultimately show ?thesis using ch c(1) r1 by (simp add: SendAndReceive_def)
qed

section \<open>Properties of the channel\<close>

text \<open>
  A transaction that succeeds is in step with the device: exactly the command frame went out, and exactly
  one complete answer frame with a good checksum, of at most 64 KiB, came in; the message returned is its decoding,
  and it is not an error answer.
\<close>

lemma SendAndReceive_success:
  assumes "SendAndReceive os frame t ch = (Inr msg, ch')"
  shows "\<exists>c d data. ch_tcp ch = Some c \<and> ch' = put d ch \<and> tcp_out d = tcp_out c @ frame \<and>
     tcp_in d = tcp_in c @ wire data \<and> length data \<le> kMaxFrameBytes \<and> Decode data = Inr msg \<and>
     command_type msg \<noteq> kErrorAnswer"
  using SendAndReceive_outcome [OF assms] by (auto simp: answered_def split: if_splits)

definition sample_msg :: ColaBMessage where
  "sample_msg = \<lparr>command_type = ''sRA'', command_name = ''SCdevicestate'', payload = [1]\<rparr>"

definition sample_link :: "bytes chan" where
  "sample_link = new_CommandChannel 200 (Some (sample_tcp (wire (encode_data ''sRA'' ''SCdevicestate'' [1]))))"

lemma sample_read_state:
  "SendAndReceive sample_os (BuildReadVariable ''SCdevicestate'') 200 sample_link =
   (Inr sample_msg, put ((sample_tcp [])\<lparr>tcp_now := 3, tcp_out := BuildReadVariable ''SCdevicestate'',
      tcp_in := wire (encode_data ''sRA'' ''SCdevicestate'' [1])\<rparr>) sample_link)"
proof -
  let ?data = "encode_data ''sRA'' ''SCdevicestate'' [1]" and ?f = "BuildReadVariable ''SCdevicestate''"
  let ?c = "sample_tcp (wire ?data)"
  have d: "Decode ?data = Inr sample_msg" unfolding sample_msg_def by (rule Decode_encode_data) simp_all
  have f: "?f \<noteq> []" by (simp add: BuildReadVariable_def Encode_nonempty)
  have "SendAndReceive sample_os ?f 200 sample_link = (Inr sample_msg, put (?c\<lparr>tcp_now := tcp_now ?c + 3,
      tcp_out := tcp_out ?c @ ?f, tcp_world := [], tcp_in := tcp_in ?c @ wire ?data\<rparr>) sample_link)"
    by (rule sample_exchange [where rest = "[]", OF _ _ _ f _ d])
       (simp_all add: sample_tcp_def new_TcpClient_def sample_link_def new_CommandChannel_def sample_msg_def
          length_encode_data kMaxFrameBytes_def)
  then show ?thesis by (simp add: sample_tcp_def new_TcpClient_def)
qed



text \<open>
  A method call counts as done only on the device's word: it succeeds only when the device sent a method
  answer with this method's name and, where a status is expected, exactly that status byte.
\<close>

lemma CallMethod_acknowledged:
  assumes "CallMethod os frame name ok_byte ch = (None, ch')"
  shows "\<exists>c d data msg. ch_tcp ch = Some c \<and> ch_tcp ch' = Some d \<and> tcp_out d = tcp_out c @ frame \<and>
     tcp_in d = tcp_in c @ wire data \<and> Decode data = Inr msg \<and> command_type msg = kMethodAnswer \<and>
     command_name msg = name \<and> (\<forall>b. ok_byte = Some b \<longrightarrow> payload msg \<noteq> [] \<and> payload msg ! 0 = b)"
proof -
  from assms obtain r where r: "SendAndReceive os frame (MethodTimeout name ch) ch = (Inr r, ch')"
    "command_type r = kMethodAnswer" "command_name r = name" "\<forall>b. ok_byte = Some b \<longrightarrow> payload r \<noteq> [] \<and> payload r ! 0 = b"
    by (auto simp: CallMethod_def ValidateResponse_def split: prod.splits sum.splits if_splits option.splits)
  from SendAndReceive_outcome [OF r(1)] r(2-) show ?thesis by (auto simp: answered_def put_def split: if_splits)
qed

end
