(* ===== verification/Frame_Receiver.thy ===== *)
theory Frame_Receiver
  imports Cola_B Machines
begin

text \<open>
  \<^verbatim>\<open>lms4xxx_driver/include/frame_receiver.h\<close> and \<^verbatim>\<open>src/frame_receiver.cpp\<close>: the splitter of the TCP byte
  stream into CoLa B frames, with its linear buffer, resynchronisation and error accounting. The two
  callbacks are a log of calls in call order (\<open>events\<close>); \<open>clk k\<close> is the \<open>k\<close>-th reading of the steady
  clock. The rate limited log lines are not modelled.

  The abstract receiver \<open>scan\<close> works on the list of unread bytes. The lemmas show that the buffer code
  refines it, that the frames delivered do not depend on how TCP cuts the stream, that a stream of
  encoded telegrams comes back frame by frame without an error report, and that the preallocated
  buffer never grows.
\<close>

section \<open>State\<close>

datatype FrameError = kLengthOutOfRange | kChecksumMismatch | kGarbage | kIncomplete

record RawFrame =
  frame_data :: bytes
  receive_timestamp_us :: u64
  checksum_valid :: bool

datatype fr_event = OnFrame RawFrame | OnError FrameError u64

record FrameReceiver =
  buffer :: bytes
  write_pos :: nat
  error_covered_until :: nat
  consecutive_framing_errors :: u64
  max_frame_size :: nat
  clock_reads :: nat
  events :: "fr_event list"

definition kStxSize :: nat where
  "kStxSize = 4"

definition kHeaderSize :: nat where
  "kHeaderSize = kStxSize + 4"

lemmas fr_sizes = kStxSize_def kHeaderSize_def

definition new_FrameReceiver :: "nat \<Rightarrow> FrameReceiver" where
  "new_FrameReceiver max_frame =
     \<lparr>buffer = replicate (max_frame * 2 + kHeaderSize + 1) 0, write_pos = 0, error_covered_until = 0,
      consecutive_framing_errors = 0, max_frame_size = max_frame, clock_reads = 0, events = []\<rparr>"

section \<open>Operations\<close>

definition ReportFramingError :: "FrameError \<Rightarrow> FrameReceiver \<Rightarrow> FrameReceiver" where
  "ReportFramingError e fr =
     (let n = consecutive_framing_errors fr + 1 in
      fr\<lparr>consecutive_framing_errors := n, events := events fr @ [OnError e n]\<rparr>)"

definition ReportGarbage :: "nat \<Rightarrow> nat \<Rightarrow> FrameReceiver \<Rightarrow> FrameReceiver" where
  "ReportGarbage b_pos e_pos fr =
     (let unaccounted_begin = max b_pos (error_covered_until fr) in
      if e_pos > unaccounted_begin then ReportFramingError kGarbage fr else fr)"

function find_stx_from :: "bytes \<Rightarrow> nat \<Rightarrow> nat \<Rightarrow> nat option" where
  "find_stx_from buf i search_end =
     (if i < search_end then
        (if buf ! i = 0x02 \<and> buf ! (i + 1) = 0x02 \<and> buf ! (i + 2) = 0x02 \<and> buf ! (i + 3) = 0x02
         then Some i else find_stx_from buf (i + 1) search_end)
      else None)"
  by pat_completeness auto
termination
  by (relation "measure (\<lambda>(buf, i, e). e - i)") auto

declare find_stx_from.simps [simp del]

definition FindStx :: "FrameReceiver \<Rightarrow> nat \<Rightarrow> nat" where
  "FindStx fr offset =
     (if write_pos fr < offset + kStxSize then write_pos fr
      else case find_stx_from (buffer fr) offset (write_pos fr - kStxSize + 1) of
             Some i \<Rightarrow> i
           | None \<Rightarrow> write_pos fr)"

definition Compact :: "nat \<Rightarrow> FrameReceiver \<Rightarrow> FrameReceiver" where
  "Compact offset fr =
     (if offset = 0 then fr
      else
        let fr = fr\<lparr>error_covered_until :=
                   (if error_covered_until fr > offset then error_covered_until fr - offset else 0)\<rparr>
        in if offset \<ge> write_pos fr then fr\<lparr>write_pos := 0\<rparr>
           else let remaining = write_pos fr - offset in
             fr\<lparr>buffer := memcpy_at (buffer fr) 0 (take remaining (drop offset (buffer fr))),
                write_pos := remaining\<rparr>)"

text \<open>The number of bytes the candidate at \<open>pos\<close> consumed (0 when it is incomplete).\<close>

definition TryExtractFrame :: "(nat \<Rightarrow> u64) \<Rightarrow> FrameReceiver \<Rightarrow> nat \<Rightarrow> nat \<times> FrameReceiver" where
  "TryExtractFrame clk fr pos =
     (let available = write_pos fr - pos in
      if available < kHeaderSize then (0, fr)
      else
        let data_len = unat (LoadBigU32 (drop (pos + kStxSize) (buffer fr))) in
        if data_len = 0 \<or> data_len > max_frame_size fr then
          let rejected_end = pos + kHeaderSize + (if data_len = 0 then 1 else 0);
              fr = fr\<lparr>error_covered_until := max (error_covered_until fr) rejected_end\<rparr>
          in (1, ReportFramingError kLengthOutOfRange fr)
        else
          let total_frame_size = kHeaderSize + data_len + 1 in
          if available < total_frame_size then (0, fr)
          else
            let data_start = take data_len (drop (pos + kHeaderSize) (buffer fr));
                received_cs = buffer fr ! (pos + kHeaderSize + data_len);
                computed_cs = ComputeChecksum data_start;
                valid = (computed_cs = received_cs);
                fr = (if \<not> valid then ReportFramingError kChecksumMismatch fr
                      else fr\<lparr>consecutive_framing_errors := 0\<rparr>);
                fr = fr\<lparr>error_covered_until := 0\<rparr>;
                frame = \<lparr>frame_data = take total_frame_size (drop pos (buffer fr)),
                         receive_timestamp_us = clk (clock_reads fr),
                         checksum_valid = valid\<rparr>
            in (total_frame_size,
                fr\<lparr>clock_reads := clock_reads fr + 1, events := events fr @ [OnFrame frame]\<rparr>))"

lemma ReportFramingError_simps [simp]:
  "buffer (ReportFramingError e fr) = buffer fr"
  "write_pos (ReportFramingError e fr) = write_pos fr"
  "error_covered_until (ReportFramingError e fr) = error_covered_until fr"
  "max_frame_size (ReportFramingError e fr) = max_frame_size fr"
  "clock_reads (ReportFramingError e fr) = clock_reads fr"
  "events (ReportFramingError e fr) = events fr @ [OnError e (consecutive_framing_errors fr + 1)]"
  by (simp_all add: ReportFramingError_def Let_def)

lemma ReportGarbage_simps [simp]:
  "buffer (ReportGarbage a b fr) = buffer fr"
  "write_pos (ReportGarbage a b fr) = write_pos fr"
  "error_covered_until (ReportGarbage a b fr) = error_covered_until fr"
  "max_frame_size (ReportGarbage a b fr) = max_frame_size fr"
  "clock_reads (ReportGarbage a b fr) = clock_reads fr"
  by (simp_all add: ReportGarbage_def Let_def)

lemma TryExtractFrame_frame [simp]:
  "buffer (snd (TryExtractFrame clk fr pos)) = buffer fr"
  "write_pos (snd (TryExtractFrame clk fr pos)) = write_pos fr"
  "max_frame_size (snd (TryExtractFrame clk fr pos)) = max_frame_size fr"
  by (simp_all add: TryExtractFrame_def Let_def)

lemma find_stx_from_Some:
  "find_stx_from buf i e = Some j \<Longrightarrow> i \<le> j \<and> j < e"
  by (induction buf i e rule: find_stx_from.induct)
     (subst (asm) (2) find_stx_from.simps, auto split: if_splits)

lemma FindStx_ge: "offset < write_pos fr \<Longrightarrow> offset \<le> FindStx fr offset"
  by (auto simp: FindStx_def dest: find_stx_from_Some split: option.splits)

text \<open>The loop of \<^verbatim>\<open>Feed\<close>: \<open>scan_pos\<close> moves forward over the buffered bytes.\<close>

function feed_loop :: "(nat \<Rightarrow> u64) \<Rightarrow> FrameReceiver \<Rightarrow> nat \<Rightarrow> nat \<times> FrameReceiver" where
  "feed_loop clk fr scan_pos =
     (if scan_pos < write_pos fr then
        let stx_pos = FindStx fr scan_pos in
        if stx_pos = write_pos fr then
          (if write_pos fr > 3 then
             let keep_from = max scan_pos (write_pos fr - 3)
             in (keep_from, ReportGarbage scan_pos keep_from fr)
           else (scan_pos, fr))
        else
          let fr = (if stx_pos > scan_pos then ReportGarbage scan_pos stx_pos fr else fr);
              scan_pos = stx_pos;
              (consumed, fr) = TryExtractFrame clk fr stx_pos
          in if consumed = 0 then (scan_pos, fr) else feed_loop clk fr (stx_pos + consumed)
      else (scan_pos, fr))"
  by pat_completeness auto
termination
proof (relation "measure (\<lambda>(clk, fr, p). write_pos fr - p)", goal_cases)
  case (2 clk fr p stx fr' p' pr consumed fr'')
  then have "write_pos fr'' = write_pos fr"
    by (metis ReportGarbage_simps(2) TryExtractFrame_frame(2) snd_conv)
  moreover have "p \<le> stx" using 2 FindStx_ge by simp
  ultimately show ?case using 2 by simp
qed simp

declare feed_loop.simps [simp del]

definition resize :: "bytes \<Rightarrow> nat \<Rightarrow> bytes" where
  "resize buf n = take n buf @ replicate (n - length buf) 0"

definition Feed :: "(nat \<Rightarrow> u64) \<Rightarrow> FrameReceiver \<Rightarrow> bytes \<Rightarrow> FrameReceiver" where
  "Feed clk fr chunk =
     (if chunk = [] then fr
      else
        let len = length chunk;
            fr = (if write_pos fr + len > length (buffer fr)
                  then fr\<lparr>buffer := resize (buffer fr) (write_pos fr + len + max_frame_size fr)\<rparr>
                  else fr);
            fr = fr\<lparr>buffer := memcpy_at (buffer fr) (write_pos fr) chunk,
                    write_pos := write_pos fr + len\<rparr>;
            (scan_pos, fr) = feed_loop clk fr 0
        in Compact scan_pos fr)"

definition Finish :: "FrameReceiver \<Rightarrow> nat \<times> FrameReceiver" where
  "Finish fr =
     (let pending = write_pos fr in
      if pending \<noteq> 0 then
        (pending, (ReportFramingError kIncomplete fr)\<lparr>write_pos := 0, error_covered_until := 0\<rparr>)
      else (pending, fr))"

section \<open>The abstract receiver\<close>

text \<open>
  \<open>scan m bs\<close> reads the unread bytes \<open>bs\<close>: the complete frames in order, each with the verdict on its
  checksum, and the bytes that have to wait for more input.
\<close>

definition frame_len :: "bytes \<Rightarrow> nat" where
  "frame_len bs = unat (LoadBigU32 (drop 4 bs))"

definition frame_valid :: "bytes \<Rightarrow> bool" where
  "frame_valid f \<longleftrightarrow> ComputeChecksum (take (frame_len f) (drop 8 f)) = f ! (8 + frame_len f)"

function scan :: "nat \<Rightarrow> bytes \<Rightarrow> (bytes \<times> bool) list \<times> bytes" where
  "scan m bs =
     (if length bs < 4 then ([], bs)
      else if take 4 bs \<noteq> kColaBStx then scan m (drop 1 bs)
      else if length bs < 8 then ([], bs)
      else if frame_len bs = 0 \<or> m < frame_len bs then scan m (drop 1 bs)
      else if length bs < frame_len bs + 9 then ([], bs)
      else let f = take (frame_len bs + 9) bs; (fs, r) = scan m (drop (frame_len bs + 9) bs)
           in ((f, frame_valid f) # fs, r))"
  by pat_completeness auto
termination
  by (relation "measure (\<lambda>(m, bs). length bs)") auto

declare scan.simps [simp del]

text \<open>\<open>clean m bs\<close>: reading \<open>bs\<close> skips no byte and meets no bad checksum.\<close>

function clean :: "nat \<Rightarrow> bytes \<Rightarrow> bool" where
  "clean m bs =
     (if length bs < 4 then True
      else if take 4 bs \<noteq> kColaBStx then False
      else if length bs < 8 then True
      else if frame_len bs = 0 \<or> m < frame_len bs then False
      else if length bs < frame_len bs + 9 then True
      else frame_valid (take (frame_len bs + 9) bs) \<and> clean m (drop (frame_len bs + 9) bs))"
  by pat_completeness auto
termination
  by (relation "measure (\<lambda>(m, bs). length bs)") auto

declare clean.simps [simp del]

section \<open>Abstraction\<close>

definition buffered :: "FrameReceiver \<Rightarrow> bytes" where
  "buffered fr = take (write_pos fr) (buffer fr)"

definition fr_wf :: "FrameReceiver \<Rightarrow> bool" where
  "fr_wf fr \<longleftrightarrow> write_pos fr \<le> length (buffer fr)"

fun frames_of :: "fr_event list \<Rightarrow> (bytes \<times> bool) list" where
  "frames_of [] = []"
| "frames_of (OnFrame f # es) = (frame_data f, checksum_valid f) # frames_of es"
| "frames_of (OnError e n # es) = frames_of es"

definition errors_of :: "fr_event list \<Rightarrow> fr_event list" where
  "errors_of es = filter (\<lambda>e. \<exists>err n. e = OnError err n) es"

lemma frames_of_append [simp]: "frames_of (xs @ ys) = frames_of xs @ frames_of ys"
  by (induction xs rule: frames_of.induct) simp_all

lemma errors_of_simps [simp]:
  "errors_of [] = []" "errors_of (xs @ ys) = errors_of xs @ errors_of ys"
  "errors_of (OnFrame f # es) = errors_of es"
  "errors_of (OnError e n # es) = OnError e n # errors_of es"
  by (simp_all add: errors_of_def)

lemma frames_of_ReportGarbage [simp]:
  "frames_of (events (ReportGarbage a b fr)) = frames_of (events fr)"
  by (simp add: ReportGarbage_def Let_def)

lemma length_buffered: "fr_wf fr \<Longrightarrow> length (buffered fr) = write_pos fr"
  by (simp add: buffered_def fr_wf_def)

section \<open>Searching for the start of a frame\<close>

lemma stx_here:
  assumes "k + 4 \<le> length buf"
  shows "(buf ! k = 0x02 \<and> buf ! (k + 1) = 0x02 \<and> buf ! (k + 2) = 0x02 \<and> buf ! (k + 3) = 0x02) \<longleftrightarrow>
         take 4 (drop k buf) = kColaBStx"
proof -
  have "take 4 (drop k buf) = [buf ! k, buf ! (k + 1), buf ! (k + 2), buf ! (k + 3)]"
    using assms by (auto intro!: nth_equalityI simp: less_Suc_eq numeral_eq_Suc)
  then show ?thesis by (auto simp: kColaBStx_def)
qed

lemma find_stx_from_spec:
  "e + 3 \<le> length buf \<Longrightarrow>
   (case find_stx_from buf i e of
      Some j \<Rightarrow> i \<le> j \<and> j < e \<and> take 4 (drop j buf) = kColaBStx \<and>
                (\<forall>k. i \<le> k \<and> k < j \<longrightarrow> take 4 (drop k buf) \<noteq> kColaBStx)
    | None \<Rightarrow> \<forall>k. i \<le> k \<and> k < e \<longrightarrow> take 4 (drop k buf) \<noteq> kColaBStx)"
proof (induction buf i e rule: find_stx_from.induct)
  case (1 buf i e)
  show ?case
  proof (cases "i < e")
    case True
    with "1.prems" have here: "(buf ! i = 0x02 \<and> buf ! (i + 1) = 0x02 \<and> buf ! (i + 2) = 0x02 \<and>
        buf ! (i + 3) = 0x02) \<longleftrightarrow> take 4 (drop i buf) = kColaBStx"
      by (intro stx_here) simp
    show ?thesis
    proof (cases "take 4 (drop i buf) = kColaBStx")
      case True
      with here \<open>i < e\<close> have "find_stx_from buf i e = Some i"
        by (simp add: find_stx_from.simps [of buf i e])
      with True \<open>i < e\<close> show ?thesis by auto
    next
      case False
      with here \<open>i < e\<close> have eq: "find_stx_from buf i e = find_stx_from buf (i + 1) e"
        by (subst find_stx_from.simps) auto
      have step: "i \<le> k \<longleftrightarrow> k = i \<or> i + 1 \<le> k" for k by auto
      have "case find_stx_from buf (i + 1) e of
          Some j \<Rightarrow> i + 1 \<le> j \<and> j < e \<and> take 4 (drop j buf) = kColaBStx \<and>
                    (\<forall>k. i + 1 \<le> k \<and> k < j \<longrightarrow> take 4 (drop k buf) \<noteq> kColaBStx)
        | None \<Rightarrow> \<forall>k. i + 1 \<le> k \<and> k < e \<longrightarrow> take 4 (drop k buf) \<noteq> kColaBStx"
        using "1.IH" [OF \<open>i < e\<close>] False here "1.prems" by blast
      with False show ?thesis unfolding eq step
        by (auto split: option.splits)
    qed
  next
    case False
    then have "find_stx_from buf i e = None" by (simp add: find_stx_from.simps [of buf i e])
    with False show ?thesis by auto
  qed
qed

lemma drop_take_stx:
  "\<lbrakk> k + 4 \<le> w; w \<le> length buf \<rbrakk> \<Longrightarrow> take 4 (drop k (take w buf)) = take 4 (drop k buf)"
  by (simp add: drop_take take_take min_def)

text \<open>What \<^verbatim>\<open>FindStx\<close> finds, on the buffered bytes.\<close>

lemma FindStx_spec:
  assumes "fr_wf fr" and "p < write_pos fr"
  defines "B \<equiv> buffered fr"
  shows "FindStx fr p = write_pos fr \<and>
           (\<forall>k. p \<le> k \<and> k + 4 \<le> write_pos fr \<longrightarrow> take 4 (drop k B) \<noteq> kColaBStx) \<or>
         p \<le> FindStx fr p \<and> FindStx fr p + 4 \<le> write_pos fr \<and>
           take 4 (drop (FindStx fr p) B) = kColaBStx \<and>
           (\<forall>k. p \<le> k \<and> k < FindStx fr p \<longrightarrow> take 4 (drop k B) \<noteq> kColaBStx)"
proof (cases "write_pos fr < p + 4")
  case True
  then show ?thesis by (auto simp: FindStx_def fr_sizes)
next
  case False
  from assms(1) have w: "write_pos fr \<le> length (buffer fr)" by (simp add: fr_wf_def)
  have B: "take 4 (drop k B) = take 4 (drop k (buffer fr))" if "k + 4 \<le> write_pos fr" for k
    using that w by (simp add: B_def buffered_def drop_take_stx)
  have "write_pos fr - 4 + 1 + 3 \<le> length (buffer fr)" using False w by simp
  note spec = find_stx_from_spec [OF this, of p]
  show ?thesis
  proof (cases "find_stx_from (buffer fr) p (write_pos fr - 4 + 1)")
    case None
    then have "FindStx fr p = write_pos fr" using False by (simp add: FindStx_def fr_sizes)
    moreover have "take 4 (drop k B) \<noteq> kColaBStx" if "p \<le> k" "k + 4 \<le> write_pos fr" for k
      using spec [unfolded None] that by (simp add: B)
    ultimately show ?thesis by blast
  next
    case (Some j)
    then have j: "FindStx fr p = j" using False by (simp add: FindStx_def fr_sizes)
    from spec Some have s: "p \<le> j" "j < write_pos fr - 4 + 1" "take 4 (drop j (buffer fr)) = kColaBStx"
      "\<forall>k. p \<le> k \<and> k < j \<longrightarrow> take 4 (drop k (buffer fr)) \<noteq> kColaBStx"
      by simp_all
    with False have "j + 4 \<le> write_pos fr" by linarith
    with s B show ?thesis unfolding j by simp
  qed
qed

lemma scan_short: "length bs < 4 \<Longrightarrow> scan m bs = ([], bs)"
  by (subst scan.simps) simp

lemma scan_skip1:
  "\<lbrakk> 4 \<le> length bs; take 4 bs \<noteq> kColaBStx \<rbrakk> \<Longrightarrow> scan m bs = scan m (drop 1 bs)"
  by (subst scan.simps) simp

lemma scan_skip:
  assumes "i \<le> j" "j + 3 \<le> length B"
    and "\<And>k. \<lbrakk> i \<le> k; k < j \<rbrakk> \<Longrightarrow> take 4 (drop k B) \<noteq> kColaBStx"
  shows "scan m (drop i B) = scan m (drop j B)"
  using assms
proof (induction "j - i" arbitrary: i)
  case (Suc d)
  then have "i < j" by simp
  with Suc.prems have "scan m (drop i B) = scan m (drop 1 (drop i B))"
    by (intro scan_skip1) simp_all
  also have "\<dots> = scan m (drop (Suc i) B)" by simp
  also have "\<dots> = scan m (drop j B)"
    using Suc.hyps(1) [of "Suc i"] Suc.hyps(2) Suc.prems \<open>i < j\<close> by simp
  finally show ?case .
qed simp

lemma scan_no_stx:
  assumes "p \<le> length B"
    and none: "\<And>k. \<lbrakk> p \<le> k; k + 4 \<le> length B \<rbrakk> \<Longrightarrow> take 4 (drop k B) \<noteq> kColaBStx"
  shows "scan m (drop p B) = ([], drop (max p (length B - 3)) B)"
proof (cases "p + 3 \<le> length B")
  case True
  then have "scan m (drop p B) = scan m (drop (length B - 3) B)"
    using none by (intro scan_skip) simp_all
  also have "\<dots> = ([], drop (length B - 3) B)"
    using True by (intro scan_short) simp
  finally show ?thesis using True by (auto simp: max_def)
next
  case False
  then have "max p (length B - 3) = p" by arith
  with False show ?thesis by (simp add: scan_short)
qed

section \<open>The buffer code refines the abstract receiver\<close>

lemma frame_len_buffer:
  assumes "p + 8 \<le> w" "w \<le> length buf"
  shows "unat (LoadBigU32 (drop (p + 4) buf)) = frame_len (drop p (take w buf))"
proof -
  have "drop 4 (drop p (take w buf)) = take (w - (p + 4)) (drop (p + 4) buf)"
    by (simp add: drop_take add.commute)
  then show ?thesis using assms by (simp add: frame_len_def LoadBigU32_take)
qed

lemma frame_len_take: "8 \<le> k \<Longrightarrow> frame_len (take k c) = frame_len c"
  by (simp add: frame_len_def drop_take LoadBigU32_take)

lemma frame_valid_take:
  "frame_len c + 9 \<le> length c \<Longrightarrow> frame_valid (take (frame_len c + 9) c) \<longleftrightarrow>
   ComputeChecksum (take (frame_len c) (drop 8 c)) = c ! (8 + frame_len c)"
  by (simp add: frame_valid_def frame_len_take drop_take take_take min_def)

text \<open>
  The three outcomes of a candidate, on the bytes \<open>c\<close> from it on: it has to wait, it is rejected and
  one byte is skipped, or it is a frame.
\<close>

lemma TryExtractFrame_spec:
  assumes wf: "fr_wf fr" and p: "p + 4 \<le> write_pos fr"
    and stx: "take 4 (drop p (buffered fr)) = kColaBStx"
    and ext: "TryExtractFrame clk fr p = (n, fr')"
  defines "c \<equiv> drop p (buffered fr)" and "m \<equiv> max_frame_size fr"
  shows "n = 0 \<and> fr' = fr \<and> scan m c = ([], c) \<or>
         n = 1 \<and> frames_of (events fr') = frames_of (events fr) \<and> scan m c = scan m (drop 1 c) \<or>
         n = frame_len c + 9 \<and> p + n \<le> write_pos fr \<and>
           frames_of (events fr') =
             frames_of (events fr) @ [(take n c, frame_valid (take n c))] \<and>
           scan m c = ((take n c, frame_valid (take n c)) # fst (scan m (drop n c)),
                       snd (scan m (drop n c)))"
proof -
  let ?w = "write_pos fr" and ?b = "buffer fr"
  from wf have w: "?w \<le> length ?b" by (simp add: fr_wf_def)
  have c: "c = take (?w - p) (drop p ?b)" "length c = ?w - p"
    using w by (simp_all add: c_def buffered_def drop_take)
  have c4: "4 \<le> length c" "take 4 c = kColaBStx" using p stx c(2) by (simp_all add: c_def)
  show ?thesis
  proof (cases "?w - p < 8")
    case True
    then show ?thesis using ext c4 c(2)
      by (simp add: TryExtractFrame_def fr_sizes scan.simps [of m c])
  next
    case False
    then have len: "unat (LoadBigU32 (drop (p + 4) ?b)) = frame_len c"
      using w by (simp add: c_def buffered_def frame_len_buffer)
    show ?thesis
    proof (cases "frame_len c = 0 \<or> m < frame_len c")
      case True
      then have "n = 1" "frames_of (events fr') = frames_of (events fr)"
        using ext False len by (auto simp: TryExtractFrame_def fr_sizes Let_def m_def)
      moreover have "scan m c = scan m (drop 1 c)"
        using True False c4 c(2) by (subst scan.simps) auto
      ultimately show ?thesis by simp
    next
      case ok: False
      show ?thesis
      proof (cases "?w - p < frame_len c + 9")
        case True
        then show ?thesis using ext False len ok c4 c(2)
          by (auto simp: TryExtractFrame_def fr_sizes Let_def m_def scan.simps [of _ c])
      next
        case full: False
        let ?n = "frame_len c + 9"
        have bytes: "take (frame_len c) (drop (p + 8) ?b) = take (frame_len c) (drop 8 c)"
          "?b ! (p + 8 + frame_len c) = c ! (8 + frame_len c)"
          "take ?n (drop p ?b) = take ?n c"
          using full w by (auto simp: c(1) drop_take take_take min_def add.assoc add.commute [of 8])
        have valid: "frame_valid (take ?n c) \<longleftrightarrow>
            ComputeChecksum (take (frame_len c) (drop (p + 8) ?b)) = ?b ! (p + 8 + frame_len c)"
          using frame_valid_take [of c] full c(2) bytes by simp
        have "n = ?n" "frames_of (events fr') =
            frames_of (events fr) @ [(take ?n c, frame_valid (take ?n c))]"
          using ext False full ok len bytes(3) valid
          by (auto simp: TryExtractFrame_def fr_sizes Let_def m_def add.commute [of 9])
        moreover have "scan m c = ((take ?n c, frame_valid (take ?n c)) # fst (scan m (drop ?n c)),
            snd (scan m (drop ?n c)))"
          using False full ok c4 c(2)
          by (subst scan.simps) (auto simp: Let_def split: prod.splits)
        ultimately show ?thesis using full p by simp
      qed
    qed
  qed
qed

lemma buffered_cong:
  "\<lbrakk> buffer a = buffer b; write_pos a = write_pos b \<rbrakk> \<Longrightarrow> buffered a = buffered b"
  by (simp add: buffered_def)

lemma feed_loop_refines:
  assumes "fr_wf fr" "p \<le> write_pos fr" "feed_loop clk fr p = (q, fr')"
  shows "buffer fr' = buffer fr \<and> write_pos fr' = write_pos fr \<and>
         max_frame_size fr' = max_frame_size fr \<and> q \<le> write_pos fr \<and>
         frames_of (events fr') =
           frames_of (events fr) @ fst (scan (max_frame_size fr) (drop p (buffered fr))) \<and>
         drop q (buffered fr) = snd (scan (max_frame_size fr) (drop p (buffered fr)))"
  using assms
proof (induction clk fr p arbitrary: q fr' rule: feed_loop.induct)
  case (1 clk fr p)
  let ?B = "buffered fr" and ?m = "max_frame_size fr" and ?x = "FindStx fr p"
  note wf = "1.prems"(1)
  have lenB: "length ?B = write_pos fr" by (rule length_buffered [OF wf])
  show ?case
  proof (cases "p < write_pos fr")
    case False
    then have "q = p" "fr' = fr" using "1.prems"(3) by (simp_all add: feed_loop.simps [of clk fr p])
    with False show ?thesis using "1.prems"(2) lenB by (simp add: scan_short)
  next
    case True
    note found = FindStx_spec [OF wf True]
    show ?thesis
    proof (cases "?x = write_pos fr")
      case end_of_data: True
      then have none: "\<And>k. \<lbrakk> p \<le> k; k + 4 \<le> length ?B \<rbrakk> \<Longrightarrow> take 4 (drop k ?B) \<noteq> kColaBStx"
        using found lenB by auto
      have "scan ?m (drop p ?B) = ([], drop (max p (length ?B - 3)) ?B)"
        using True lenB by (intro scan_no_stx none) simp_all
      moreover have "q = (if write_pos fr > 3 then max p (write_pos fr - 3) else p)"
        "fr' = (if write_pos fr > 3 then ReportGarbage p (max p (write_pos fr - 3)) fr else fr)"
        using "1.prems"(3) True end_of_data
        by (auto simp: feed_loop.simps [of clk fr p] Let_def split: if_splits)
      ultimately show ?thesis using True lenB by (auto simp: max_def)
    next
      case False
      with found have x: "p \<le> ?x" "?x + 4 \<le> write_pos fr" "take 4 (drop ?x ?B) = kColaBStx"
        and skipped: "\<And>k. \<lbrakk> p \<le> k; k < ?x \<rbrakk> \<Longrightarrow> take 4 (drop k ?B) \<noteq> kColaBStx"
        by auto
      define g where "g = (if ?x > p then ReportGarbage p ?x fr else fr)"
      obtain n h where ext: "TryExtractFrame clk g ?x = (n, h)" by fastforce
      have g: "buffer g = buffer fr" "write_pos g = write_pos fr" "max_frame_size g = ?m"
        "frames_of (events g) = frames_of (events fr)" "fr_wf g" "buffered g = ?B"
        using wf by (simp_all add: g_def fr_wf_def buffered_def)
      have h: "buffer h = buffer fr" "write_pos h = write_pos fr" "max_frame_size h = ?m"
        using TryExtractFrame_frame [of clk g ?x] ext g by simp_all
      have hB: "buffered h = ?B" "fr_wf h" using h wf by (simp_all add: buffered_def fr_wf_def)
      have skip: "scan ?m (drop p ?B) = scan ?m (drop ?x ?B)"
        using x lenB by (intro scan_skip skipped) simp_all
      have out: "TryExtractFrame clk g ?x = (n, h) \<Longrightarrow>
          n = 0 \<and> h = g \<and> scan ?m (drop ?x ?B) = ([], drop ?x ?B) \<or>
          n = 1 \<and> frames_of (events h) = frames_of (events g) \<and>
            scan ?m (drop ?x ?B) = scan ?m (drop (?x + n) ?B) \<or>
          ?x + n \<le> write_pos fr \<and> n \<noteq> 0 \<and> frames_of (events h) = frames_of (events g) @
            [(take n (drop ?x ?B), frame_valid (take n (drop ?x ?B)))] \<and>
          scan ?m (drop ?x ?B) = ((take n (drop ?x ?B), frame_valid (take n (drop ?x ?B))) #
            fst (scan ?m (drop (?x + n) ?B)), snd (scan ?m (drop (?x + n) ?B)))"
        using TryExtractFrame_spec [of g ?x clk n h] x g by (auto simp: add.commute)
      show ?thesis
      proof (cases "n = 0")
        case True
        with out ext have "h = g" "scan ?m (drop ?x ?B) = ([], drop ?x ?B)" by auto
        moreover have "q = ?x" "fr' = h"
          using "1.prems"(3) \<open>p < write_pos fr\<close> False True ext
          by (simp_all add: feed_loop.simps [of clk fr p] Let_def g_def [symmetric])
        ultimately show ?thesis using g skip x by simp
      next
        case n: False
        have loop: "feed_loop clk h (?x + n) = (q, fr')"
          using "1.prems"(3) \<open>p < write_pos fr\<close> False n ext
          by (simp add: feed_loop.simps [of clk fr p] Let_def g_def [symmetric])
        have le: "?x + n \<le> write_pos h" using out [OF ext] n x h by auto
        note ih = "1.IH" [OF \<open>p < write_pos fr\<close> refl False g_def refl _ refl n hB(2) le loop]
        from ih ext out [OF ext] n skip g h hB show ?thesis by auto
      qed
    qed
  qed
qed


lemma Compact_spec:
  assumes "fr_wf fr" "q \<le> write_pos fr"
  shows "fr_wf (Compact q fr) \<and> buffered (Compact q fr) = drop q (buffered fr) \<and>
         length (buffer (Compact q fr)) = length (buffer fr) \<and>
         max_frame_size (Compact q fr) = max_frame_size fr \<and> events (Compact q fr) = events fr"
proof (cases "q = 0 \<or> write_pos fr \<le> q")
  case True
  then show ?thesis using assms by (auto simp: Compact_def Let_def buffered_def fr_wf_def)
next
  case False
  let ?d = "take (write_pos fr - q) (drop q (buffer fr))"
  have d: "length ?d = write_pos fr - q" using assms by (simp add: fr_wf_def)
  then have "take (length ?d) (memcpy_at (buffer fr) 0 ?d) = ?d"
    using take_memcpy_at [of 0 ?d "buffer fr"] assms by (simp add: fr_wf_def)
  moreover have "length (memcpy_at (buffer fr) 0 ?d) = length (buffer fr)"
    using assms by (simp add: fr_wf_def)
  moreover have "?d = drop q (buffered fr)" by (simp add: buffered_def drop_take)
  ultimately show ?thesis using False assms d
    by (simp add: Compact_def Let_def buffered_def fr_wf_def)
qed

text \<open>The copy of a chunk behind the unread bytes, growing the vector only when it does not fit.\<close>

lemma append_chunk:
  fixes chunk :: bytes
  assumes "fr_wf fr"
  defines "b \<equiv> (if write_pos fr + length chunk > length (buffer fr)
                then resize (buffer fr) (write_pos fr + length chunk + max_frame_size fr)
                else buffer fr)"
  shows "write_pos fr + length chunk \<le> length b \<and>
         take (write_pos fr + length chunk) (memcpy_at b (write_pos fr) chunk) = buffered fr @ chunk \<and>
         length (memcpy_at b (write_pos fr) chunk) = length b"
proof -
  have len: "write_pos fr + length chunk \<le> length b" by (simp add: b_def resize_def)
  moreover have "take (write_pos fr) b = buffered fr"
    using assms(1) by (simp add: b_def resize_def buffered_def fr_wf_def)
  ultimately show ?thesis by (simp add: take_memcpy_at)
qed

lemma Feed_obtain:
  fixes chunk :: bytes and clk :: "nat \<Rightarrow> u64"
  assumes wf: "fr_wf fr" and "chunk \<noteq> []"
  obtains g q h where "feed_loop clk g 0 = (q, h)" "Feed clk fr chunk = Compact q h" "fr_wf g"
    "buffered g = buffered fr @ chunk" "max_frame_size g = max_frame_size fr"
    "events g = events fr" "consecutive_framing_errors g = consecutive_framing_errors fr"
    "length (buffer g) = (if write_pos fr + length chunk > length (buffer fr)
                          then write_pos fr + length chunk + max_frame_size fr
                          else length (buffer fr))"
proof -
  define b where "b = (if write_pos fr + length chunk > length (buffer fr)
                       then resize (buffer fr) (write_pos fr + length chunk + max_frame_size fr)
                       else buffer fr)"
  define g where "g = fr\<lparr>buffer := memcpy_at b (write_pos fr) chunk,
                         write_pos := write_pos fr + length chunk\<rparr>"
  obtain q h where loop: "feed_loop clk g 0 = (q, h)" by fastforce
  have "Feed clk fr chunk = Compact q h"
    using assms(2) loop by (simp add: Feed_def Let_def g_def b_def split: if_splits)
  moreover note append_chunk [OF wf, of chunk, folded b_def]
  ultimately show ?thesis
    by (intro that [OF loop]) (simp_all add: g_def fr_wf_def buffered_def, simp add: b_def resize_def)
qed

lemma Feed_refines:
  fixes chunk :: bytes and clk :: "nat \<Rightarrow> u64"
  assumes wf: "fr_wf fr"
  defines "m \<equiv> max_frame_size fr" and "fr' \<equiv> Feed clk fr chunk"
  assumes rest: "chunk = [] \<Longrightarrow> scan m (buffered fr) = ([], buffered fr)"
  shows "fr_wf fr' \<and> max_frame_size fr' = m \<and>
         frames_of (events fr') = frames_of (events fr) @ fst (scan m (buffered fr @ chunk)) \<and>
         buffered fr' = snd (scan m (buffered fr @ chunk)) \<and>
         length (buffer fr') = (if write_pos fr + length chunk > length (buffer fr) \<and> chunk \<noteq> []
                                then write_pos fr + length chunk + m else length (buffer fr))"
proof (cases "chunk = []")
  case True
  then show ?thesis using wf rest by (simp add: fr'_def Feed_def m_def)
next
  case False
  obtain g q h where loop: "feed_loop clk g 0 = (q, h)" and feed: "fr' = Compact q h"
    and g: "fr_wf g" "buffered g = buffered fr @ chunk" "max_frame_size g = m" "events g = events fr"
      "length (buffer g) = (if write_pos fr + length chunk > length (buffer fr)
         then write_pos fr + length chunk + m else length (buffer fr))"
    using Feed_obtain [OF wf False, of clk] unfolding m_def fr'_def by metis
  note l = feed_loop_refines [OF g(1) _ loop]
  then have "fr_wf h" "q \<le> write_pos h" "buffered h = buffered g"
    using g by (simp_all add: fr_wf_def buffered_def)
  from Compact_spec [OF this(1,2)] this l g False show ?thesis by (simp add: feed)
qed

lemma frame_len_append: "8 \<le> length a \<Longrightarrow> frame_len (a @ b) = frame_len a"
  by (simp add: frame_len_def LoadBigU32_append)

text \<open>The three ways a scan of \<open>a\<close> starts; only the first waits for more bytes.\<close>

lemma scan_cases:
  obtains (wait) "scan m a = ([], a)" "clean m a" "length a \<le> m + 8"
  | (skip) "4 \<le> length a" "take 4 a \<noteq> kColaBStx"
  | (reject) "take 4 a = kColaBStx" "8 \<le> length a" "frame_len a = 0 \<or> m < frame_len a"
  | (frame) "take 4 a = kColaBStx" "8 \<le> length a" "frame_len a \<noteq> 0" "frame_len a \<le> m"
      "frame_len a + 9 \<le> length a"
proof (cases "length a < 4 \<or> take 4 a = kColaBStx \<and> (length a < 8 \<or>
    frame_len a \<noteq> 0 \<and> frame_len a \<le> m \<and> length a < frame_len a + 9)")
  case True
  then have "scan m a = ([], a)" by (subst scan.simps) auto
  moreover have "clean m a" using True by (subst clean.simps) auto
  moreover have "length a \<le> m + 8" using True by auto
  ultimately show ?thesis by (rule wait)
next
  case False
  then show ?thesis
    using skip reject frame
    by (cases "take 4 a = kColaBStx"; cases "frame_len a = 0 \<or> m < frame_len a") auto
qed

lemma scan_reject:
  "\<lbrakk> 8 \<le> length a; frame_len a = 0 \<or> m < frame_len a \<rbrakk> \<Longrightarrow> scan m a = scan m (drop 1 a)"
  by (subst scan.simps) auto

lemma scan_frame:
  assumes "take 4 a = kColaBStx" "8 \<le> length a" "frame_len a \<noteq> 0" "frame_len a \<le> m"
    "frame_len a + 9 \<le> length a"
  defines "n \<equiv> frame_len a + 9"
  shows "scan m a = ((take n a, frame_valid (take n a)) # fst (scan m (drop n a)),
                     snd (scan m (drop n a)))"
  using assms by (subst scan.simps) (auto simp: Let_def split: prod.splits)

lemma scan_append:
  "scan m (a @ b) = (fst (scan m a) @ fst (scan m (snd (scan m a) @ b)),
                     snd (scan m (snd (scan m a) @ b)))"
proof (induction m a rule: scan.induct)
  case (1 m a)
  show ?case
  proof (cases rule: scan_cases [of m a])
    case wait
    then show ?thesis by simp
  next
    case skip
    then have "scan m a = scan m (drop 1 a)" "scan m (a @ b) = scan m (drop 1 a @ b)"
      using scan_skip1 [of a m] scan_skip1 [of "a @ b" m] by simp_all
    then show ?thesis using "1.IH"(1) skip by simp
  next
    case reject
    then have "scan m a = scan m (drop 1 a)" "scan m (a @ b) = scan m (drop 1 a @ b)"
      using scan_reject [of a m] scan_reject [of "a @ b" m] by (simp_all add: frame_len_append)
    then show ?thesis using "1.IH"(2) reject by simp
  next
    case frame
    then show ?thesis
      using scan_frame [OF frame] scan_frame [of "a @ b" m] "1.IH"(3)
      by (simp add: frame_len_append)
  qed
qed

interpretation receiver: incremental "Feed clk" "\<lambda>fr. frames_of (events fr)" buffered
  "\<lambda>fr. fr_wf fr \<and> max_frame_size fr = m \<and> scan m (buffered fr) = ([], buffered fr)" "scan m"
  for clk m
proof unfold_locales
  fix s xs
  assume ok: "fr_wf s \<and> max_frame_size s = m \<and> scan m (buffered s) = ([], buffered s)"
  then have f: "fr_wf (Feed clk s xs)" "max_frame_size (Feed clk s xs) = m"
    "frames_of (events (Feed clk s xs)) =
       frames_of (events s) @ fst (scan m (buffered s @ xs))"
    "buffered (Feed clk s xs) = snd (scan m (buffered s @ xs))"
    using Feed_refines [of s xs clk] by auto
  have "scan m (snd (scan m (buffered s @ xs))) = ([], snd (scan m (buffered s @ xs)))"
    using scan_append [of m "buffered s @ xs" "[]"]
    by (metis append_Nil2 append_self_conv fst_conv prod.collapse snd_conv)
  with f show "fr_wf (Feed clk s xs) \<and> max_frame_size (Feed clk s xs) = m \<and>
      scan m (buffered (Feed clk s xs)) = ([], buffered (Feed clk s xs))"
    "frames_of (events (Feed clk s xs)) =
       frames_of (events s) @ fst (scan m (buffered s @ xs))"
    "buffered (Feed clk s xs) = snd (scan m (buffered s @ xs))"
    by simp_all
qed (rule scan_append)

lemma new_FrameReceiver_ok [simp]:
  "fr_wf (new_FrameReceiver m)" "max_frame_size (new_FrameReceiver m) = m"
  "buffered (new_FrameReceiver m) = []" "events (new_FrameReceiver m) = []"
  "write_pos (new_FrameReceiver m) = 0"
  "length (buffer (new_FrameReceiver m)) = 2 * m + 9"
  by (simp_all add: new_FrameReceiver_def fr_wf_def buffered_def fr_sizes)

lemma scan_Nil [simp]: "scan m [] = ([], [])"
  by (simp add: scan_short)

text \<open>
  C12: the frames the receiver delivers, their order and their checksum verdicts depend only on the
  bytes received, not on how TCP cuts the stream into chunks: they are those of the abstract receiver
  on the whole stream.
\<close>

theorem Feed_independent_of_chunking:
  "frames_of (events (foldl (Feed clk) (new_FrameReceiver m) chunks)) = fst (scan m (concat chunks))"
  using receiver.run_chunks [of "new_FrameReceiver m" m clk chunks] by simp

section \<open>Streams without damage\<close>

lemma clean_frame:
  assumes "take 4 a = kColaBStx" "8 \<le> length a" "frame_len a \<noteq> 0" "frame_len a \<le> m"
    "frame_len a + 9 \<le> length a"
  shows "clean m a \<longleftrightarrow>
         frame_valid (take (frame_len a + 9) a) \<and> clean m (drop (frame_len a + 9) a)"
  using assms by (subst clean.simps) auto

lemma not_clean_skip: "\<lbrakk> 4 \<le> length a; take 4 a \<noteq> kColaBStx \<rbrakk> \<Longrightarrow> \<not> clean m a"
  by (subst clean.simps) auto

lemma not_clean_reject:
  "\<lbrakk> 8 \<le> length a; frame_len a = 0 \<or> m < frame_len a \<rbrakk> \<Longrightarrow> \<not> clean m a"
  by (subst clean.simps) auto

lemma clean_append:
  "clean m (a @ b) \<Longrightarrow> clean m a \<and> clean m (snd (scan m a) @ b)"
proof (induction m a rule: scan.induct)
  case (1 m a)
  show ?case
  proof (cases rule: scan_cases [of m a])
    case wait
    then show ?thesis using "1.prems" by simp
  next
    case skip
    then show ?thesis using "1.prems" not_clean_skip [of "a @ b" m] by simp
  next
    case reject
    then show ?thesis using "1.prems" not_clean_reject [of "a @ b" m] by (simp add: frame_len_append)
  next
    case frame
    then show ?thesis
      using scan_frame [OF frame] clean_frame [OF frame] clean_frame [of "a @ b" m]
        "1.IH"(3) "1.prems" by (simp add: frame_len_append)
  qed
qed

lemma ReportGarbage_none [simp]: "ReportGarbage p p fr = fr"
  by (simp add: ReportGarbage_def Let_def)

text \<open>On undamaged bytes a candidate is complete and valid or has to wait; neither is an error.\<close>

lemma TryExtractFrame_clean:
  assumes wf: "fr_wf fr" and p: "p + 4 \<le> write_pos fr"
    and stx: "take 4 (drop p (buffered fr)) = kColaBStx"
    and ok: "clean (max_frame_size fr) (drop p (buffered fr))"
    and ext: "TryExtractFrame clk fr p = (n, fr')"
  shows "errors_of (events fr') = errors_of (events fr) \<and>
         (n = 0 \<or> p + n \<le> write_pos fr \<and>
           clean (max_frame_size fr) (drop (p + n) (buffered fr)))"
proof -
  let ?w = "write_pos fr" and ?b = "buffer fr" and ?c = "drop p (buffered fr)" and ?m = "max_frame_size fr"
  from wf have w: "?w \<le> length ?b" by (simp add: fr_wf_def)
  have c: "?c = take (?w - p) (drop p ?b)" "length ?c = ?w - p"
    using w by (simp_all add: buffered_def drop_take)
  show ?thesis
  proof (cases "?w - p < 8")
    case True
    then show ?thesis using ext by (simp add: TryExtractFrame_def fr_sizes)
  next
    case False
    then have len: "unat (LoadBigU32 (drop (p + 4) ?b)) = frame_len ?c"
      using w by (simp add: buffered_def frame_len_buffer)
    have in_range: "frame_len ?c \<noteq> 0" "frame_len ?c \<le> ?m"
      using ok False c(2) by (metis linorder_not_le not_clean_reject)+
    show ?thesis
    proof (cases "?w - p < frame_len ?c + 9")
      case True
      then show ?thesis using ext False len in_range
        by (auto simp: TryExtractFrame_def fr_sizes Let_def)
    next
      case full: False
      let ?n = "frame_len ?c + 9"
      have "frame_valid (take ?n ?c)" "clean ?m (drop ?n ?c)"
        using clean_frame [of ?c ?m] stx False full in_range c(2) ok by auto
      moreover have "take (frame_len ?c) (drop (p + 8) ?b) = take (frame_len ?c) (drop 8 ?c)"
          "?b ! (p + 8 + frame_len ?c) = ?c ! (8 + frame_len ?c)"
        using full w by (auto simp: c(1) drop_take take_take min_def add.assoc add.commute [of 8])
      ultimately have "ComputeChecksum (take (frame_len ?c) (drop (p + 8) ?b)) =
          ?b ! (p + 8 + frame_len ?c)"
        using frame_valid_take [of ?c] full c(2) by simp
      then have "n = ?n" "errors_of (events fr') = errors_of (events fr)"
        using ext False full in_range len
        by (auto simp: TryExtractFrame_def fr_sizes Let_def add.commute [of 9])
      with \<open>clean ?m (drop ?n ?c)\<close> full p show ?thesis by (simp add: add.commute)
    qed
  qed
qed

lemma feed_loop_clean:
  assumes "fr_wf fr" "p \<le> write_pos fr" "feed_loop clk fr p = (q, fr')"
    and "clean (max_frame_size fr) (drop p (buffered fr))"
  shows "errors_of (events fr') = errors_of (events fr)"
  using assms
proof (induction clk fr p arbitrary: q fr' rule: feed_loop.induct)
  case (1 clk fr p)
  let ?B = "buffered fr" and ?x = "FindStx fr p"
  note wf = "1.prems"(1) and ok = "1.prems"(4)
  have lenB: "length ?B = write_pos fr" by (rule length_buffered [OF wf])
  show ?case
  proof (cases "p < write_pos fr")
    case False
    then show ?thesis using "1.prems"(3) by (simp add: feed_loop.simps [of clk fr p])
  next
    case True
    note found = FindStx_spec [OF wf True]
    have here: "take 4 (drop p ?B) = kColaBStx" if "p + 4 \<le> write_pos fr"
    proof (rule ccontr)
      assume "take 4 (drop p ?B) \<noteq> kColaBStx"
      with not_clean_skip [of "drop p ?B"] that lenB ok show False by simp
    qed
    show ?thesis
    proof (cases "?x = write_pos fr")
      case end_of_data: True
      with found have "p + 4 \<le> write_pos fr \<longrightarrow> take 4 (drop p ?B) \<noteq> kColaBStx" by auto
      with here have "write_pos fr < p + 4" by linarith
      then have "max p (write_pos fr - 3) = p" using True by arith
      then show ?thesis using "1.prems"(3) True end_of_data
        by (auto simp: feed_loop.simps [of clk fr p] Let_def split: if_splits)
    next
      case False
      with found have x: "p \<le> ?x" "?x + 4 \<le> write_pos fr" "take 4 (drop ?x ?B) = kColaBStx"
        and skipped: "\<And>k. \<lbrakk> p \<le> k; k < ?x \<rbrakk> \<Longrightarrow> take 4 (drop k ?B) \<noteq> kColaBStx"
        by auto
      have xp: "?x = p" using x skipped [of p] here by (cases "?x = p") auto
      obtain n h where ext: "TryExtractFrame clk fr p = (n, h)" by fastforce
      have h: "buffer h = buffer fr" "write_pos h = write_pos fr" "max_frame_size h = max_frame_size fr"
        using TryExtractFrame_frame [of clk fr p] ext by simp_all
      have hB: "buffered h = ?B" "fr_wf h" using h wf by (simp_all add: buffered_def fr_wf_def)
      have "p + 4 \<le> write_pos fr" "take 4 (drop p ?B) = kColaBStx" using x xp by simp_all
      note step = TryExtractFrame_clean [OF wf this ok ext]
      show ?thesis
      proof (cases "n = 0")
        case True
        then have "fr' = h" using "1.prems"(3) \<open>p < write_pos fr\<close> False ext xp
          by (simp add: feed_loop.simps [of clk fr p] Let_def)
        then show ?thesis using step by simp
      next
        case n: False
        have loop: "feed_loop clk h (p + n) = (q, fr')"
          using "1.prems"(3) \<open>p < write_pos fr\<close> False n ext xp
          by (simp add: feed_loop.simps [of clk fr p] Let_def)
        have "p + n \<le> write_pos h" "clean (max_frame_size h) (drop (p + n) (buffered h))"
          using step n h hB by auto
        moreover have "fr = (if ?x > p then ReportGarbage p ?x fr else fr)" using xp by simp
        ultimately show ?thesis
          using "1.IH" [OF \<open>p < write_pos fr\<close> refl False _ refl _ refl n hB(2), of fr q fr'] loop
            step ext xp by auto
      qed
    qed
  qed
qed

lemma Feed_clean:
  assumes "fr_wf fr" "clean (max_frame_size fr) (buffered fr @ chunk)"
  shows "errors_of (events (Feed clk fr chunk)) = errors_of (events fr)"
proof (cases "chunk = []")
  case True
  then show ?thesis by (simp add: Feed_def)
next
  case False
  from Feed_obtain [OF assms(1) this, of clk] obtain g q h
    where g: "feed_loop clk g 0 = (q, h)" "Feed clk fr chunk = Compact q h" "fr_wf g"
      "buffered g = buffered fr @ chunk" "max_frame_size g = max_frame_size fr" "events g = events fr"
    by metis
  have "events (Compact q h) = events h" by (simp add: Compact_def Let_def)
  with feed_loop_clean [OF g(3) _ g(1)] g assms(2) show ?thesis by simp
qed

lemma Feeds_clean:
  assumes "fr_wf fr" "max_frame_size fr = m" "scan m (buffered fr) = ([], buffered fr)"
    and "clean m (buffered fr @ concat chunks)"
  shows "errors_of (events (foldl (Feed clk) fr chunks)) = errors_of (events fr)"
  using assms
proof (induction chunks arbitrary: fr)
  case (Cons c cs)
  let ?g = "Feed clk fr c"
  have ok: "fr_wf fr \<and> max_frame_size fr = m \<and> scan m (buffered fr) = ([], buffered fr)"
    using Cons.prems by simp
  have "clean m (buffered fr @ c)" "clean m (buffered ?g @ concat cs)"
    using clean_append [of m "buffered fr @ c" "concat cs"] Cons.prems(4)
      receiver.feed_pend [OF ok, of clk c] by simp_all
  then show ?case
    using Cons.IH [of ?g] receiver.feed_ok [OF ok, of clk c] Feed_clean [of fr c clk] Cons.prems(1,2)
    by simp
qed simp

section \<open>Encoded telegrams\<close>

text \<open>A frame as \<^verbatim>\<open>Encode\<close> builds it, within the receiver's limit.\<close>

definition telegram :: "nat \<Rightarrow> bytes \<Rightarrow> bool" where
  "telegram m f \<longleftrightarrow> take 4 f = kColaBStx \<and> 10 \<le> length f \<and> length f = frame_len f + 9 \<and>
     frame_len f \<le> m \<and> frame_valid f"

lemma frame_len_Encode:
  assumes "length (encode_data t n p) < 2 ^ 32"
  shows "frame_len (Encode t n p) = length (encode_data t n p)"
proof -
  have "drop 4 (Encode t n p) = EncodeUint32 (word_of_nat (length (encode_data t n p))) @
      encode_data t n p @ [ComputeChecksum (encode_data t n p)]"
    by (simp add: Encode_split kColaBStx_def)
  then show ?thesis using assms
    by (simp add: frame_len_def EncodeUint32_def unat_of_nat)
qed

lemma telegram_Encode:
  assumes "length (encode_data t n p) \<le> m" "m < 2 ^ 32"
  shows "telegram m (Encode t n p)"
proof -
  let ?d = "encode_data t n p"
  have len: "frame_len (Encode t n p) = length ?d" using assms by (simp add: frame_len_Encode)
  have "drop 8 (Encode t n p) = ?d @ [ComputeChecksum ?d]"
    by (simp add: Encode_split kColaBStx_def)
  then have "Encode t n p ! (8 + length ?d) = ComputeChecksum ?d"
    using nth_drop [of 8 "Encode t n p" "length ?d"] by simp
  moreover have "take (length ?d) (drop 8 (Encode t n p)) = ?d"
    using Encode_data [of t n p] by simp
  moreover have "take 4 (Encode t n p) = kColaBStx" by (simp add: Encode_split kColaBStx_def)
  ultimately show ?thesis using assms len
    by (simp add: telegram_def frame_valid_def length_encode_data)
qed

lemma scan_telegrams:
  "(\<And>f. f \<in> set fs \<Longrightarrow> telegram m f) \<Longrightarrow>
   scan m (concat fs) = (map (\<lambda>f. (f, True)) fs, []) \<and> clean m (concat fs)"
proof (induction fs)
  case Nil
  then show ?case by (subst clean.simps) simp
next
  case (Cons f fs)
  then have f: "telegram m f" by simp
  then have "8 \<le> length f" by (simp add: telegram_def)
  then have a: "take 4 (f @ concat fs) = kColaBStx" "8 \<le> length (f @ concat fs)"
    "frame_len (f @ concat fs) = frame_len f" "length f = frame_len f + 9"
    "frame_len f \<noteq> 0" "frame_len f \<le> m" "frame_valid f"
    using f by (simp_all add: telegram_def frame_len_append)
  with Cons scan_frame [of "f @ concat fs" m] clean_frame [of "f @ concat fs" m] show ?case by simp
qed

text \<open>
  C3: whatever the host sends with \<^verbatim>\<open>Encode\<close>, within the frame limit, is delivered by the receiver at
  the other end exactly once, in order and with a good checksum, however TCP cuts the stream into
  chunks; no framing error is reported and nothing is left in the buffer.
\<close>

theorem encoded_stream_delivered:
  fixes clk :: "nat \<Rightarrow> u64"
  assumes "m < 2 ^ 32"
    and "\<forall>(t, n, p) \<in> set msgs. length (encode_data t n p) \<le> m"
    and "concat chunks = concat (map (\<lambda>(t, n, p). Encode t n p) msgs)"
  defines "fr \<equiv> foldl (Feed clk) (new_FrameReceiver m) chunks"
  shows "frames_of (events fr) = map (\<lambda>(t, n, p). (Encode t n p, True)) msgs \<and>
         errors_of (events fr) = [] \<and> buffered fr = []"
proof -
  let ?fs = "map (\<lambda>(t, n, p). Encode t n p) msgs"
  have tel: "telegram m f" if "f \<in> set ?fs" for f
    using that assms(1,2) telegram_Encode by fastforce
  note s = scan_telegrams [of ?fs m, OF tel, folded assms(3)]
  have "frames_of (events fr) = map (\<lambda>f. (f, True)) ?fs" "buffered fr = []"
    using receiver.run_chunks [of "new_FrameReceiver m" m clk chunks] s by (simp_all add: fr_def)
  moreover have "errors_of (events fr) = []"
    using Feeds_clean [of "new_FrameReceiver m" m chunks clk] s by (simp add: fr_def)
  ultimately show ?thesis by (simp add: split_beta comp_def)
qed

theorem encoded_stream_delivered_witness:
  "frames_of (events (foldl (Feed (\<lambda>_. 0)) (new_FrameReceiver 64)
     [take 5 (Encode ''sMN'' ''Run'' []), drop 5 (Encode ''sMN'' ''Run'' []) @ Encode ''sRN'' ''X'' [7]])) =
   [(Encode ''sMN'' ''Run'' [], True), (Encode ''sRN'' ''X'' [7], True)]"
  using encoded_stream_delivered [of 64 "[(''sMN'', ''Run'', []), (''sRN'', ''X'', [7])]"
    "[take 5 (Encode ''sMN'' ''Run'' []), drop 5 (Encode ''sMN'' ''Run'' []) @ Encode ''sRN'' ''X'' [7]]"
    "\<lambda>_. 0"]
  by (simp add: length_encode_data)

section \<open>Memory\<close>

lemma scan_rest_length: "length (snd (scan m a)) \<le> m + 8"
proof (induction m a rule: scan.induct)
  case (1 m a)
  show ?case
  proof (cases rule: scan_cases [of m a])
    case wait
    then show ?thesis by simp
  next
    case skip
    then show ?thesis using "1.IH"(1) scan_skip1 [of a m] by simp
  next
    case reject
    then show ?thesis using "1.IH"(2) scan_reject [of a m] by simp
  next
    case frame
    then show ?thesis using "1.IH"(3) scan_frame [OF frame] by simp
  qed
qed


text \<open>
  The receiver never holds more than one incomplete frame (\<open>max_frame_size + 8\<close> bytes), and as
  long as no chunk is longer than \<open>max_frame_size + 1\<close> the vector allocated by the constructor never
  grows: the branch of \<^verbatim>\<open>Feed\<close> that resizes it is never taken.
\<close>

lemma Feed_bounded_memory:
  fixes clk :: "nat \<Rightarrow> u64"
  assumes "\<forall>c \<in> set chunks. length c \<le> m + 1"
  defines "fr \<equiv> foldl (Feed clk) (new_FrameReceiver m) chunks"
  shows "length (buffer fr) = 2 * m + 9 \<and> write_pos fr \<le> m + 8"
  using assms(1) unfolding fr_def
proof (induction chunks rule: rev_induct)
  case (snoc c cs)
  let ?g = "foldl (Feed clk) (new_FrameReceiver m) cs"
  have ok: "fr_wf ?g \<and> max_frame_size ?g = m \<and> scan m (buffered ?g) = ([], buffered ?g)"
    using receiver.run_ok [of "new_FrameReceiver m" m clk cs] by simp
  have "length (buffer ?g) = 2 * m + 9" "write_pos ?g \<le> m + 8" "length c \<le> m + 1"
    using snoc by simp_all
  moreover note f = Feed_refines [of ?g c clk]
  moreover have "write_pos (Feed clk ?g c) = length (buffered (Feed clk ?g c))"
    using f ok length_buffered [of "Feed clk ?g c"] by simp
  ultimately show ?case using ok scan_rest_length [of m "buffered ?g @ c"] by simp
qed simp

section \<open>The error counter\<close>

text \<open>
  The number of error reports since the last frame with a good checksum, read off the callbacks.
\<close>

definition streak :: "fr_event list \<Rightarrow> nat" where
  "streak es = length (filter (\<lambda>e. \<exists>err n. e = OnError err n)
     (takeWhile (\<lambda>e. \<not> (\<exists>f. e = OnFrame f \<and> checksum_valid f)) (rev es)))"

lemma streak_snoc [simp]:
  "streak (es @ [OnError e n]) = Suc (streak es)"
  "streak (es @ [OnFrame f]) = (if checksum_valid f then 0 else streak es)"
  by (simp_all add: streak_def)

definition counted :: "fr_event list \<Rightarrow> bool" where
  "counted es \<longleftrightarrow> (\<forall>xs e n ys. es = xs @ OnError e n # ys \<longrightarrow> n = word_of_nat (streak xs + 1))"

definition fr_counts :: "FrameReceiver \<Rightarrow> bool" where
  "fr_counts fr \<longleftrightarrow> counted (events fr) \<and>
     consecutive_framing_errors fr = word_of_nat (streak (events fr))"

lemma counted_snoc_iff:
  "counted (es @ [x]) \<longleftrightarrow>
   counted es \<and> (\<forall>e n. x = OnError e n \<longrightarrow> n = word_of_nat (streak es + 1))"
proof
  assume c: "counted (es @ [x])"
  then have "counted es"
    unfolding counted_def by (metis append.assoc append_Cons)
  moreover have "n = word_of_nat (streak es + 1)" if "x = OnError e n" for e n
    using c that unfolding counted_def by blast
  ultimately show "counted es \<and> (\<forall>e n. x = OnError e n \<longrightarrow> n = word_of_nat (streak es + 1))"
    by blast
next
  assume c: "counted es \<and> (\<forall>e n. x = OnError e n \<longrightarrow> n = word_of_nat (streak es + 1))"
  show "counted (es @ [x])" unfolding counted_def
  proof (intro allI impI)
    fix xs e n ys assume "es @ [x] = xs @ OnError e n # ys"
    then show "n = word_of_nat (streak xs + 1)"
      using c by (cases ys rule: rev_cases) (auto simp: counted_def)
  qed
qed

lemma counted_snoc [simp]:
  "counted (es @ [OnError e n]) \<longleftrightarrow> counted es \<and> n = word_of_nat (streak es + 1)"
  "counted (es @ [OnFrame f]) \<longleftrightarrow> counted es"
  by (simp_all add: counted_snoc_iff)

lemma fr_counts_ReportFramingError: "fr_counts fr \<Longrightarrow> fr_counts (ReportFramingError e fr)"
  by (simp add: fr_counts_def ReportFramingError_def Let_def)

lemma fr_counts_ReportGarbage: "fr_counts fr \<Longrightarrow> fr_counts (ReportGarbage a b fr)"
  by (simp add: ReportGarbage_def Let_def fr_counts_ReportFramingError)

lemma fr_counts_TryExtractFrame: "fr_counts fr \<Longrightarrow> fr_counts (snd (TryExtractFrame clk fr p))"
  by (auto simp: TryExtractFrame_def Let_def fr_counts_def ReportFramingError_def)

lemma fr_counts_feed_loop: "fr_counts fr \<Longrightarrow> fr_counts (snd (feed_loop clk fr p))"
proof (induction clk fr p rule: feed_loop.induct)
  case (1 clk fr p)
  let ?g = "if FindStx fr p > p then ReportGarbage p (FindStx fr p) fr else fr"
  obtain n h where ext: "TryExtractFrame clk ?g (FindStx fr p) = (n, h)" by fastforce
  have "fr_counts ?g" using "1.prems" by (simp add: fr_counts_ReportGarbage)
  then have "fr_counts h" using fr_counts_TryExtractFrame [of ?g clk "FindStx fr p"] ext by simp
  with "1.prems" "1.IH" ext show ?case
    by (subst feed_loop.simps) (auto simp: Let_def fr_counts_ReportGarbage split: if_splits)
qed

lemma fr_counts_Feed: "fr_counts fr \<Longrightarrow> fr_counts (Feed clk fr chunk)"
proof (cases "chunk = []")
  case False
  assume c: "fr_counts fr"
  define g where "g = (let len = length chunk;
            fr = (if write_pos fr + len > length (buffer fr)
                  then fr\<lparr>buffer := resize (buffer fr) (write_pos fr + len + max_frame_size fr)\<rparr>
                  else fr)
        in fr\<lparr>buffer := memcpy_at (buffer fr) (write_pos fr) chunk, write_pos := write_pos fr + len\<rparr>)"
  have "fr_counts g" using c by (simp add: g_def Let_def fr_counts_def)
  then have "fr_counts (snd (feed_loop clk g 0))" by (rule fr_counts_feed_loop)
  moreover have "Feed clk fr chunk = Compact (fst (feed_loop clk g 0)) (snd (feed_loop clk g 0))"
    using False by (simp add: Feed_def g_def Let_def split_beta)
  ultimately show ?thesis by (simp add: Compact_def Let_def fr_counts_def)
qed (simp add: Feed_def)

interpretation receiver_counter: machine "Feed clk" fr_counts for clk
  by unfold_locales (rule fr_counts_Feed)

lemma streak_Nil [simp]: "streak [] = 0"
  by (simp add: streak_def)

lemma fr_counts_new [simp]: "fr_counts (new_FrameReceiver m)"
  by (simp add: fr_counts_def new_FrameReceiver_def counted_def)

text \<open>
  The count handed to the error callback is the number of error reports since the last frame
  with a good checksum, this one included (modulo the width of the counter): a valid frame resets it,
  a frame with a bad checksum and skipped bytes do not.
\<close>

lemma error_callback_count:
  assumes "events (foldl (Feed clk) (new_FrameReceiver m) chunks) = xs @ OnError e n # ys"
  shows "n = word_of_nat (streak xs + 1)"
proof -
  have "counted (xs @ OnError e n # ys)"
    using receiver_counter.run_inv [OF fr_counts_new, of clk m chunks] assms
    by (simp add: fr_counts_def)
  then show ?thesis unfolding counted_def by blast
qed

end
