(* ===== verification/Queues.thy ===== *)
theory Queues
  imports Machines
begin

text \<open>
  \<^verbatim>\<open>common/include/bounded_queue.h\<close> and \<^verbatim>\<open>common/include/ring_buffer.h\<close>: the two queues between
  threads. Each operation runs under the queue's mutex (or is the single writer of its index), so it is
  one atomic function on the state; the condition variables only decide when a blocked caller looks
  again. An operation that has to wait in the given state returns \<open>None\<close>. Both queues are shown to
  implement the contract \<open>fifo\<close>; for the ring buffer this includes indices that wrap around 64 bits.
\<close>

section \<open>BoundedQueue\<close>

record 'a BoundedQueue =
  bq_items :: "'a list"
  bq_capacity :: nat
  bq_closed :: bool

definition new_BoundedQueue :: "nat \<Rightarrow> 'a BoundedQueue" where
  "new_BoundedQueue cap = \<lparr>bq_items = [], bq_capacity = (if cap = 0 then 1 else cap), bq_closed = False\<rparr>"

definition try_push :: "'a \<Rightarrow> 'a BoundedQueue \<Rightarrow> bool \<times> 'a BoundedQueue" where
  "try_push item q =
     (if bq_closed q \<or> length (bq_items q) \<ge> bq_capacity q then (False, q)
      else (True, q\<lparr>bq_items := bq_items q @ [item]\<rparr>))"

text \<open>The state in which the wait of \<^verbatim>\<open>push_wait_for\<close> ended, by its predicate or by the timeout.\<close>

definition push_wait_for :: "'a \<Rightarrow> 'a BoundedQueue \<Rightarrow> bool \<times> 'a BoundedQueue" where
  "push_wait_for item q =
     (if \<not> (bq_closed q \<or> length (bq_items q) < bq_capacity q) then (False, q)
      else if bq_closed q then (False, q)
      else (True, q\<lparr>bq_items := bq_items q @ [item]\<rparr>))"

definition push_blocking :: "'a \<Rightarrow> 'a BoundedQueue \<Rightarrow> (bool \<times> 'a BoundedQueue) option" where
  "push_blocking item q =
     (if \<not> (bq_closed q \<or> length (bq_items q) < bq_capacity q) then None
      else if bq_closed q then Some (False, q)
      else Some (True, q\<lparr>bq_items := bq_items q @ [item]\<rparr>))"

definition try_pop :: "'a BoundedQueue \<Rightarrow> ('a \<times> 'a BoundedQueue) option" where
  "try_pop q = (case bq_items q of [] \<Rightarrow> None | x # xs \<Rightarrow> Some (x, q\<lparr>bq_items := xs\<rparr>))"

text \<open>The outer option is the wait, the inner one the answer \<^verbatim>\<open>false\<close> of a closed and drained queue.\<close>

definition pop_blocking :: "'a BoundedQueue \<Rightarrow> (('a \<times> 'a BoundedQueue) option) option" where
  "pop_blocking q =
     (if \<not> (bq_closed q \<or> bq_items q \<noteq> []) then None
      else Some (case bq_items q of [] \<Rightarrow> None | x # xs \<Rightarrow> Some (x, q\<lparr>bq_items := xs\<rparr>)))"

definition close_queue :: "'a BoundedQueue \<Rightarrow> 'a BoundedQueue" where
  "close_queue q = q\<lparr>bq_closed := True\<rparr>"

definition queue_size :: "'a BoundedQueue \<Rightarrow> nat" where
  "queue_size q = length (bq_items q)"

definition bq_inv :: "'a BoundedQueue \<Rightarrow> bool" where
  "bq_inv q \<longleftrightarrow> 0 < bq_capacity q \<and> length (bq_items q) \<le> bq_capacity q"

definition bq_admits :: "'a BoundedQueue \<Rightarrow> bool" where
  "bq_admits q \<longleftrightarrow> \<not> bq_closed q \<and> length (bq_items q) < bq_capacity q"

lemma bq_inv_ops [simp, inv_intros]:
  "bq_inv (new_BoundedQueue n)" "bq_inv q \<Longrightarrow> bq_inv (snd (try_push x q))"
  "bq_inv q \<Longrightarrow> bq_inv (close_queue q)"
  "\<lbrakk> bq_inv q; try_pop q = Some (x, q') \<rbrakk> \<Longrightarrow> bq_inv q'"
  by (auto simp: bq_inv_def new_BoundedQueue_def try_push_def close_queue_def try_pop_def
      split: list.splits)

interpretation bounded_queue: fifo try_push try_pop bq_items bq_admits bq_capacity bq_inv
  by unfold_locales
     (auto simp: try_push_def try_pop_def bq_admits_def bq_inv_def split: list.splits)

text \<open>The blocking and the timed push agree with the plain one whenever they return.\<close>

lemma push_variants:
  "push_wait_for x q = try_push x q"
  "push_blocking x q = Some r \<Longrightarrow> r = try_push x q"
  "push_blocking x q = None \<longleftrightarrow> \<not> bq_closed q \<and> length (bq_items q) \<ge> bq_capacity q"
  by (auto simp: push_wait_for_def push_blocking_def try_push_def not_less split: if_splits)



section \<open>RingBuffer\<close>

definition smear :: "nat \<Rightarrow> u64 \<Rightarrow> u64" where
  "smear d n = n OR drop_bit d n"

definition NextPowerOf2 :: "u64 \<Rightarrow> u64" where
  "NextPowerOf2 n =
     (let n = n - 1;
          n = smear 1 n;
          n = smear 2 n;
          n = smear 4 n;
          n = smear 8 n;
          n = smear 16 n;
          n = smear 32 n
      in n + 1)"

record 'a RingBuffer =
  rb_capacity :: u64
  rb_mask :: u64
  rb_storage :: "'a option list"
  rb_head :: u64
  rb_tail :: u64

definition new_RingBuffer :: "u64 \<Rightarrow> 'a RingBuffer" where
  "new_RingBuffer min_capacity =
     (let cap = NextPowerOf2 (if min_capacity < 1 then 1 else min_capacity) in
      \<lparr>rb_capacity = cap, rb_mask = cap - 1, rb_storage = replicate (unat cap) None,
       rb_head = 0, rb_tail = 0\<rparr>)"

definition ElementAt :: "'a RingBuffer \<Rightarrow> u64 \<Rightarrow> nat" where
  "ElementAt rb index = unat (index AND rb_mask rb)"

definition rb_try_push :: "'a \<Rightarrow> 'a RingBuffer \<Rightarrow> bool \<times> 'a RingBuffer" where
  "rb_try_push item rb =
     (let h = rb_head rb in
      if h - rb_tail rb = rb_capacity rb then (False, rb)
      else (True, rb\<lparr>rb_storage := (rb_storage rb)[ElementAt rb h := Some item], rb_head := h + 1\<rparr>))"

definition rb_try_pop :: "'a RingBuffer \<Rightarrow> ('a \<times> 'a RingBuffer) option" where
  "rb_try_pop rb =
     (let t = rb_tail rb in
      if t = rb_head rb then None
      else case rb_storage rb ! ElementAt rb t of
             None \<Rightarrow> None
           | Some item \<Rightarrow>
               Some (item, rb\<lparr>rb_storage := (rb_storage rb)[ElementAt rb t := None], rb_tail := t + 1\<rparr>))"

definition rb_size :: "'a RingBuffer \<Rightarrow> u64" where
  "rb_size rb = rb_head rb - rb_tail rb"

definition rb_empty :: "'a RingBuffer \<Rightarrow> bool" where
  "rb_empty rb \<longleftrightarrow> rb_size rb = 0"

text \<open>The slots in use, oldest first, and the invariant: the capacity is a power of two, at most
  \<open>2 ^ 63\<close>, and exactly the slots between tail and head hold an element.\<close>

definition rb_slot :: "'a RingBuffer \<Rightarrow> nat \<Rightarrow> nat" where
  "rb_slot rb i = (unat (rb_tail rb) + i) mod unat (rb_capacity rb)"

definition rb_items :: "'a RingBuffer \<Rightarrow> 'a list" where
  "rb_items rb = map (\<lambda>i. the (rb_storage rb ! rb_slot rb i)) [0..<unat (rb_size rb)]"

definition rb_inv :: "'a RingBuffer \<Rightarrow> bool" where
  "rb_inv rb \<longleftrightarrow> (\<exists>k \<le> 63. unat (rb_capacity rb) = 2 ^ k) \<and> rb_mask rb = rb_capacity rb - 1 \<and>
     length (rb_storage rb) = unat (rb_capacity rb) \<and> unat (rb_size rb) \<le> unat (rb_capacity rb) \<and>
     (\<forall>i < unat (rb_size rb). rb_storage rb ! rb_slot rb i \<noteq> None)"

definition rb_admits :: "'a RingBuffer \<Rightarrow> bool" where
  "rb_admits rb \<longleftrightarrow> unat (rb_size rb) < unat (rb_capacity rb)"

lemma mask_mod:
  fixes x :: u64
  assumes "k \<le> 63"
  shows "unat (x AND (2 ^ k - 1)) = unat x mod 2 ^ k"
proof -
  have "x AND (2 ^ k - 1) = take_bit k x"
    by (simp only: mask_eq_exp_minus_1 [symmetric] take_bit_eq_mask)
  then have "unat (x AND (2 ^ k - 1)) = take_bit k (unat x)"
    using assms by (simp only: unsigned_take_bit_eq)
  then show ?thesis by (simp only: take_bit_eq_mod)
qed

lemma cap_word: "\<lbrakk> unat (c :: u64) = 2 ^ k; k \<le> 63 \<rbrakk> \<Longrightarrow> c = 2 ^ k"
proof -
  assume c: "unat c = 2 ^ k"
  have "c = word_of_nat (unat c)" by simp
  also have "\<dots> = 2 ^ k" unfolding c by simp
  finally show ?thesis .
qed

lemma ElementAt_mod:
  assumes "rb_inv rb"
  shows "ElementAt rb x = unat x mod unat (rb_capacity rb)"
proof -
  from assms obtain k where k: "k \<le> 63" "unat (rb_capacity rb) = 2 ^ k" "rb_mask rb = rb_capacity rb - 1"
    by (auto simp: rb_inv_def)
  then have "rb_mask rb = 2 ^ k - 1" using cap_word [of "rb_capacity rb" k] by simp
  then show ?thesis using k mask_mod [of k x] by (simp add: ElementAt_def)
qed

lemma mod_cap_add:
  fixes a b :: u64
  assumes "k \<le> 63"
  shows "unat (a + b) mod 2 ^ k = (unat a + unat b) mod 2 ^ k"
proof -
  have "unat (a + b) = (unat a + unat b) mod 2 ^ 64" by (simp add: unat_word_ariths)
  moreover have "(2 :: nat) ^ k dvd 2 ^ 64" using assms by (intro le_imp_power_dvd) simp
  ultimately show ?thesis by (simp only: mod_mod_cancel)
qed

lemma ElementAt_head: "rb_inv rb \<Longrightarrow> ElementAt rb (rb_head rb) = rb_slot rb (unat (rb_size rb))"
proof -
  assume inv: "rb_inv rb"
  then obtain k where k: "k \<le> 63" "unat (rb_capacity rb) = 2 ^ k" by (auto simp: rb_inv_def)
  have "rb_head rb = rb_tail rb + rb_size rb" by (simp add: rb_size_def)
  then have "unat (rb_head rb) mod 2 ^ k = (unat (rb_tail rb) + unat (rb_size rb)) mod 2 ^ k"
    using mod_cap_add [OF k(1), of "rb_tail rb" "rb_size rb"] by simp
  then show ?thesis using inv k by (simp add: ElementAt_mod rb_slot_def)
qed

lemma ElementAt_tail: "rb_inv rb \<Longrightarrow> ElementAt rb (rb_tail rb) = rb_slot rb 0"
  by (simp add: ElementAt_mod rb_slot_def)

lemma slot_inject:
  assumes "i < n" "n - i < c" "(0 :: nat) < c"
  shows "(a + i) mod c \<noteq> (a + n) mod c"
proof
  assume "(a + i) mod c = (a + n) mod c"
  then have "c dvd (a + n) - (a + i)" by (metis mod_eq_dvd_iff_nat assms(1) add_left_mono less_imp_le)
  then have "c dvd n - i" by simp
  with assms show False by (simp add: nat_dvd_not_less)
qed

lemma unat_plus1: "unat (x :: u64) < 2 ^ 63 + 1 \<Longrightarrow> unat (x + 1) = unat x + 1"
  by (simp add: unat_word_ariths)

lemma rb_push:
  assumes inv: "rb_inv rb" and room: "rb_admits rb"
  shows "rb_inv (snd (rb_try_push x rb)) \<and> fst (rb_try_push x rb) \<and>
         rb_items (snd (rb_try_push x rb)) = rb_items rb @ [x]"
proof -
  let ?n = "unat (rb_size rb)" and ?c = "unat (rb_capacity rb)"
  define rb' where "rb' = rb\<lparr>rb_storage := (rb_storage rb)[rb_slot rb ?n := Some x], rb_head := rb_head rb + 1\<rparr>"
  from inv obtain k where k: "k \<le> 63" "?c = 2 ^ k" by (auto simp: rb_inv_def)
  have "(2 :: nat) ^ k \<le> 2 ^ 63" using k(1) by (intro power_increasing) simp_all
  then have c: "0 < ?c" "?c \<le> 2 ^ 63" unfolding k(2) by simp_all
  have n: "?n < ?c" using room by (simp add: rb_admits_def)
  have "rb_head rb - rb_tail rb \<noteq> rb_capacity rb" using n by (auto simp: rb_size_def)
  then have push: "rb_try_push x rb = (True, rb')"
    using ElementAt_head [OF inv] by (simp add: rb_try_push_def Let_def rb'_def)
  have "rb_size rb' = rb_size rb + 1" by (simp add: rb_size_def rb'_def algebra_simps)
  then have n': "unat (rb_size rb') = ?n + 1" using n c unat_plus1 [of "rb_size rb"] by simp
  have slot: "rb_slot rb' i = rb_slot rb i" for i by (simp add: rb_slot_def rb'_def)
  have last: "rb_storage rb' ! rb_slot rb ?n = Some x"
    using inv c by (simp add: rb'_def rb_slot_def rb_inv_def)
  have old: "rb_storage rb' ! rb_slot rb i = rb_storage rb ! rb_slot rb i" if "i < ?n" for i
  proof -
    have "rb_slot rb i \<noteq> rb_slot rb ?n"
      unfolding rb_slot_def using slot_inject [of i ?n ?c] that n c by simp
    then show ?thesis by (simp add: rb'_def)
  qed
  have "rb_inv rb'"
    using inv n n' slot last old by (auto simp: rb_inv_def rb'_def less_Suc_eq)
  moreover have "rb_items rb' = rb_items rb @ [x]"
    using n' slot last old by (simp add: rb_items_def)
  ultimately show ?thesis by (simp add: push)
qed

lemma rb_pop:
  assumes inv: "rb_inv rb" and items: "rb_items rb = x # xs"
  shows "\<exists>rb'. rb_try_pop rb = Some (x, rb') \<and> rb_inv rb' \<and> rb_items rb' = xs"
proof -
  let ?n = "unat (rb_size rb)" and ?c = "unat (rb_capacity rb)"
  define rb' where "rb' = rb\<lparr>rb_storage := (rb_storage rb)[rb_slot rb 0 := None], rb_tail := rb_tail rb + 1\<rparr>"
  from inv obtain k where k: "k \<le> 63" "?c = 2 ^ k" by (auto simp: rb_inv_def)
  have c: "0 < ?c" "?n \<le> ?c" using k inv by (simp_all add: rb_inv_def)
  have n: "0 < ?n" using items by (cases ?n) (auto simp: rb_items_def)
  then have "rb_tail rb \<noteq> rb_head rb" by (auto simp: rb_size_def)
  moreover have x: "rb_storage rb ! rb_slot rb 0 = Some x"
    using items n inv by (auto simp: rb_items_def rb_inv_def upt_conv_Cons)
  ultimately have pop: "rb_try_pop rb = Some (x, rb')"
    using ElementAt_tail [OF inv] by (simp add: rb_try_pop_def Let_def rb'_def)
  have "rb_size rb' = rb_size rb - 1" by (simp add: rb_size_def rb'_def algebra_simps)
  then have n': "unat (rb_size rb') = ?n - 1" using n by (simp add: unat_minus_one unat_gt_0)
  have slot: "rb_slot rb' i = rb_slot rb (i + 1)" for i
    using mod_cap_add [OF k(1), of "rb_tail rb" 1] k(2)
    by (simp add: rb_slot_def rb'_def) (metis add.commute add_Suc_right mod_add_left_eq plus_1_eq_Suc)
  have old: "rb_storage rb' ! rb_slot rb (i + 1) = rb_storage rb ! rb_slot rb (i + 1)" if "i + 1 < ?n" for i
  proof -
    have "rb_slot rb 0 \<noteq> rb_slot rb (i + 1)"
      unfolding rb_slot_def using slot_inject [of 0 "i + 1" ?c] that c by simp
    then show ?thesis by (simp add: rb'_def)
  qed
  have "rb_inv rb'"
    using inv n n' slot old by (auto simp: rb_inv_def rb'_def)
  moreover have "rb_items rb' = map (\<lambda>i. the (rb_storage rb ! rb_slot rb (i + 1))) [0..<?n - 1]"
    using n' slot old by (simp add: rb_items_def less_diff_conv)
  moreover have "xs = map (\<lambda>i. the (rb_storage rb ! rb_slot rb (i + 1))) [0..<?n - 1]"
  proof -
    have "[0..<?n] = 0 # map Suc [0..<?n - 1]"
      using n by (simp add: map_Suc_upt upt_conv_Cons)
    then show ?thesis using items by (simp add: rb_items_def comp_def)
  qed
  ultimately show ?thesis using pop by blast
qed

interpretation ring_buffer: fifo rb_try_push rb_try_pop rb_items rb_admits "\<lambda>rb. unat (rb_capacity rb)" rb_inv
proof unfold_locales
  fix rb :: "'a RingBuffer" and x
  assume inv: "rb_inv rb"
  show "rb_admits rb \<Longrightarrow> fst (rb_try_push x rb) \<and> rb_items (snd (rb_try_push x rb)) = rb_items rb @ [x]"
    using rb_push [OF inv] by blast
  assume full: "\<not> rb_admits rb"
  then have "unat (rb_size rb) = unat (rb_capacity rb)" using inv by (simp add: rb_admits_def rb_inv_def)
  then have "rb_size rb = rb_capacity rb" by (simp add: word_unat_eq_iff)
  then show "rb_try_push x rb = (False, rb)" by (simp add: rb_try_push_def rb_size_def Let_def)
next
  fix rb :: "'a RingBuffer"
  assume "rb_inv rb" "rb_items rb = []"
  then have "unat (rb_size rb) = 0" by (simp add: rb_items_def)
  then have "rb_size rb = 0" by (simp only: unat_eq_0)
  then have "rb_head rb = rb_tail rb" unfolding rb_size_def by simp
  then show "rb_try_pop rb = None" by (simp add: rb_try_pop_def Let_def)
next
  fix rb :: "'a RingBuffer" and x xs
  assume "rb_inv rb" "rb_items rb = x # xs"
  from rb_pop [OF this] show "\<exists>q'. rb_try_pop rb = Some (x, q') \<and> rb_items q' = xs" by blast
next
  fix rb :: "'a RingBuffer" and x
  assume inv: "rb_inv rb"
  show "rb_inv (snd (rb_try_push x rb))"
  proof (cases "rb_admits rb")
    case False
    then have "unat (rb_size rb) = unat (rb_capacity rb)" using inv by (simp add: rb_admits_def rb_inv_def)
    then have "rb_size rb = rb_capacity rb" by (simp add: word_unat_eq_iff)
    then show ?thesis using inv by (simp add: rb_try_push_def rb_size_def Let_def)
  qed (simp add: rb_push inv)
next
  fix rb rb' :: "'a RingBuffer" and x
  assume inv: "rb_inv rb" and pop: "rb_try_pop rb = Some (x, rb')"
  then have "rb_head rb \<noteq> rb_tail rb" by (auto simp: rb_try_pop_def Let_def)
  then have "rb_size rb \<noteq> 0" unfolding rb_size_def by simp
  then have "rb_items rb \<noteq> []" by (simp add: rb_items_def unat_gt_0)
  then obtain y ys where "rb_items rb = y # ys" by (cases "rb_items rb") auto
  with rb_pop [OF inv this] pop show "rb_inv rb'" by auto
next
  fix rb :: "'a RingBuffer"
  assume "rb_inv rb"
  then show "length (rb_items rb) \<le> unat (rb_capacity rb)" by (simp add: rb_items_def rb_inv_def)
qed

section \<open>Rounding up to a power of two\<close>

lemma bit_smear:
  assumes "\<And>j. bit w j \<longleftrightarrow> (\<exists>i < d. bit n (j + i))"
  shows "bit (smear d w) j \<longleftrightarrow> (\<exists>i < 2 * d. bit (n :: u64) (j + i))"
proof -
  have "bit (smear d w) j \<longleftrightarrow> (\<exists>i < d. bit n (j + i)) \<or> (\<exists>i < d. bit n (j + (d + i)))"
    by (simp add: smear_def bit_or_iff bit_drop_bit_eq assms ac_simps)
  also have "\<dots> \<longleftrightarrow> (\<exists>i < 2 * d. bit n (j + i))"
  proof
    assume "\<exists>i < 2 * d. bit n (j + i)"
    then obtain i where i: "i < 2 * d" "bit n (j + i)" by blast
    show "(\<exists>i < d. bit n (j + i)) \<or> (\<exists>i < d. bit n (j + (d + i)))"
    proof (cases "i < d")
      case False
      then have "i - d < d" "d + (i - d) = i" using i by simp_all
      with i show ?thesis by metis
    qed (use i in blast)
  next
    assume "(\<exists>i < d. bit n (j + i)) \<or> (\<exists>i < d. bit n (j + (d + i)))"
    then show "\<exists>i < 2 * d. bit n (j + i)"
    proof
      assume "\<exists>i < d. bit n (j + i)"
      then obtain i where "i < d" "bit n (j + i)" by blast
      then show ?thesis by (intro exI [of _ i]) simp
    next
      assume "\<exists>i < d. bit n (j + (d + i))"
      then obtain i where "i < d" "bit n (j + (d + i))" by blast
      then show ?thesis by (intro exI [of _ "d + i"]) simp
    qed
  qed
  finally show ?thesis .
qed

lemma bit_smear_all:
  "bit (smear 32 (smear 16 (smear 8 (smear 4 (smear 2 (smear 1 n)))))) j \<longleftrightarrow>
   (\<exists>i. bit (n :: u64) (j + i))"
proof -
  have "bit (smear 1 n) j \<longleftrightarrow> (\<exists>i < 2. bit n (j + i))" for j using bit_smear [of n 1 n] by simp
  then have "bit (smear 2 (smear 1 n)) j \<longleftrightarrow> (\<exists>i < 4. bit n (j + i))" for j
    using bit_smear [of "smear 1 n" 2 n] by simp
  then have "bit (smear 4 (smear 2 (smear 1 n))) j \<longleftrightarrow> (\<exists>i < 8. bit n (j + i))" for j
    using bit_smear [of "smear 2 (smear 1 n)" 4 n] by simp
  then have "bit (smear 8 (smear 4 (smear 2 (smear 1 n)))) j \<longleftrightarrow> (\<exists>i < 16. bit n (j + i))" for j
    using bit_smear [of "smear 4 (smear 2 (smear 1 n))" 8 n] by simp
  then have "bit (smear 16 (smear 8 (smear 4 (smear 2 (smear 1 n))))) j \<longleftrightarrow> (\<exists>i < 32. bit n (j + i))" for j
    using bit_smear [of "smear 8 (smear 4 (smear 2 (smear 1 n)))" 16 n] by simp
  then have "bit (smear 32 (smear 16 (smear 8 (smear 4 (smear 2 (smear 1 n)))))) j \<longleftrightarrow>
      (\<exists>i < 64. bit n (j + i))"
    using bit_smear [of "smear 16 (smear 8 (smear 4 (smear 2 (smear 1 n))))" 32 n] by simp
  also have "\<dots> \<longleftrightarrow> (\<exists>i. bit n (j + i))"
  proof
    assume "\<exists>i. bit n (j + i)"
    then obtain i where i: "bit n (j + i)" ..
    from bit_imp_le_length [OF this] have "i < 64" by simp
    with i show "\<exists>i < 64. bit n (j + i)" by blast
  qed blast
  finally show ?thesis .
qed

lemma smear_all_mask:
  fixes n :: u64
  assumes "2 ^ h \<le> unat n" "unat n < 2 ^ Suc h" "h < 63"
  shows "smear 32 (smear 16 (smear 8 (smear 4 (smear 2 (smear 1 n))))) = mask (Suc h)"
proof (rule bit_word_eqI)
  have b: "bit n j \<longleftrightarrow> odd (unat n div 2 ^ j)" for j
  proof -
    have "bit (unat n) j = bit n j" by (simp add: bit_unsigned_iff)
    then show ?thesis unfolding bit_iff_odd [of "unat n"] by simp
  qed
  have "unat n div 2 ^ h = 1"
    using assms(1,2) by (intro div_nat_eqI) simp_all
  then have top: "bit n h" by (simp add: b)
  have above: "\<not> bit n j" if "h < j" for j
  proof -
    have "(2 :: nat) ^ Suc h \<le> 2 ^ j" using that by (intro power_increasing) simp_all
    then have "unat n div 2 ^ j = 0" using assms(2) by (intro div_less) simp
    then show ?thesis by (simp add: b)
  qed
  fix j
  assume "j < LENGTH(64)"
  have "(\<exists>i. bit n (j + i)) \<longleftrightarrow> j \<le> h"
    using top above by (metis le_add1 le_iff_add not_le le_trans)
  then show "bit (smear 32 (smear 16 (smear 8 (smear 4 (smear 2 (smear 1 n)))))) j =
      bit (mask (Suc h) :: u64) j"
    using \<open>j < LENGTH(64)\<close> unfolding bit_smear_all by (simp add: bit_mask_iff less_Suc_eq_le)
qed

lemma unat_of_nat_eq_u64: "n < 2 ^ 64 \<Longrightarrow> unat (word_of_nat n :: u64) = n"
  by (simp add: unat_of_nat)

lemma NextPowerOf2_spec:
  assumes "1 \<le> unat n" "unat n \<le> 2 ^ 63"
  shows "\<exists>k \<le> 63. unat (NextPowerOf2 n) = 2 ^ k \<and> unat n \<le> 2 ^ k \<and> 2 ^ k < 2 * unat n"
proof (cases "unat n = 1")
  case True
  then have "n = 1" by (simp add: word_unat_eq_iff)
  then have "NextPowerOf2 n = 1" by (simp add: NextPowerOf2_def smear_def)
  then show ?thesis using True by (intro exI [of _ 0]) simp
next
  case False
  have u: "unat (n - 1) = unat n - 1" using assms(1) by (intro unat_minus_one) auto
  obtain h where h: "2 ^ h \<le> unat (n - 1)" "unat (n - 1) < 2 ^ (h + 1)"
  proof -
    have "1 \<le> unat (n - 1)" using u False assms(1) by linarith
    with ex_power_ivl1 [of 2 "unat (n - 1)"] that show thesis by auto
  qed
  have "(2 :: nat) ^ h < 2 ^ 63" using h(1) u assms by simp
  then have h63: "h < 63" by (rule power_less_imp_less_exp [rotated]) simp
  have "NextPowerOf2 n = mask (Suc h) + 1"
    using smear_all_mask [of h "n - 1"] h h63 by (simp add: NextPowerOf2_def Let_def)
  then have "NextPowerOf2 n = 2 ^ Suc h" by (simp add: mask_eq_exp_minus_1)
  moreover have "unat (2 ^ Suc h :: u64) = 2 ^ Suc h"
  proof -
    have "(2 :: nat) ^ Suc h < 2 ^ 64" using h63 by (intro power_strict_increasing) simp_all
    moreover have "(2 ^ Suc h :: u64) = word_of_nat (2 ^ Suc h)" by simp
    ultimately show ?thesis by (metis unat_of_nat_eq_u64)
  qed
  moreover have "unat n \<le> 2 ^ Suc h" "2 ^ Suc h < 2 * unat n" using h u assms(1) by simp_all
  ultimately show ?thesis using h63 by (intro exI [of _ "Suc h"]) simp
qed

lemma rb_inv_new:
  assumes "unat n \<le> 2 ^ 63"
  shows "rb_inv (new_RingBuffer n) \<and> rb_items (new_RingBuffer n) = []"
proof -
  let ?n = "if n < 1 then 1 else n"
  have "1 \<le> unat ?n" "unat ?n \<le> 2 ^ 63" using assms by (auto simp: word_less_nat_alt)
  from NextPowerOf2_spec [OF this] show ?thesis
    by (auto simp: rb_inv_def new_RingBuffer_def Let_def rb_size_def rb_items_def)
qed



end
