(* ===== verification/Raw_Recorder.thy ===== *)
theory Raw_Recorder
  imports Frame_Receiver Queues
begin

text \<open>
  \<^verbatim>\<open>lms4xxx_driver/src/raw_recorder.cpp\<close>: the asynchronous recorder of complete telegrams, with its
  bounded queue, its writer thread and the split files on disk. Every system call asks the environment
  \<open>env\<close>, a function of the number of calls made so far: \<open>None\<close> is success, \<open>Some n\<close> an error after \<open>n\<close>
  bytes. (The retries of \<^verbatim>\<open>WriteAll\<close> and \<^verbatim>\<open>Sync\<close> on \<^verbatim>\<open>EINTR\<close> and short writes are inside one call.) A
  function that may throw returns \<open>False\<close> with the state it left behind.

  The threads are a step relation: the receive thread calls \<^verbatim>\<open>OnFrame\<close> (the test of \<^verbatim>\<open>accepting\<close> and the
  push are separate steps), the writer thread runs \<^verbatim>\<open>WriteLoop\<close>, and the owner may stop at any time. The
  counters are natural numbers: they count telegrams of a run. The CSV rows and the manifest are records
  in place of their text.
\<close>

type_synonym io_env = "nat \<Rightarrow> nat option"

section \<open>Files\<close>

record RawRecord =
  rr_frame :: RawFrame
  rr_is_scan :: bool
  rr_device_time_unix_us :: int
  rr_clock_step_us :: int
  rr_clock_quality_flags :: u16

record index_row =
  row_offset :: nat
  row_length :: nat
  row_host_us :: u64
  row_is_scan :: bool
  row_checksum_valid :: bool
  row_device_time :: int
  row_clock_step :: int
  row_flags :: u16

record manifest =
  mf_split_index :: nat
  mf_frames_total :: nat
  mf_scans_total :: nat
  mf_bytes_total :: nat
  mf_closed_cleanly :: bool

text \<open>One split on disk; a manifest of \<open>None\<close> is a torn file.\<close>

record split =
  sp_bin :: bytes
  sp_rows :: "index_row list"
  sp_torn :: bool
  sp_manifest :: "manifest option"

definition new_split :: split where
  "new_split = \<lparr>sp_bin = [], sp_rows = [], sp_torn = False, sp_manifest = None\<rparr>"

record rr_config =
  cfg_output_path :: string
  cfg_queue_capacity :: nat
  cfg_max_file_bytes :: nat
  cfg_flush_interval_ms :: nat

record recorder =
  rc_queue :: "RawRecord BoundedQueue option"
  rc_accepting :: bool
  rc_failed :: bool
  rc_started :: bool
  rc_bin_fd :: bool
  rc_csv_fd :: bool
  rc_json_fd :: bool
  rc_directory_fd :: bool
  rc_split_index :: nat
  rc_split_bytes :: nat
  rc_split_frames :: nat
  rc_split_scans :: nat
  rc_frames_queued :: nat
  rc_frames_written :: nat
  rc_frames_dropped :: nat
  rc_scans_queued :: nat
  rc_scans_written :: nat
  rc_bytes_written :: nat
  rc_files_created :: nat
  rc_files :: "split list"
  rc_io_calls :: nat

definition new_recorder :: recorder where
  "new_recorder =
     \<lparr>rc_queue = None, rc_accepting = False, rc_failed = False, rc_started = False,
      rc_bin_fd = False, rc_csv_fd = False, rc_json_fd = False, rc_directory_fd = False,
      rc_split_index = 0, rc_split_bytes = 0, rc_split_frames = 0, rc_split_scans = 0,
      rc_frames_queued = 0, rc_frames_written = 0, rc_frames_dropped = 0, rc_scans_queued = 0,
      rc_scans_written = 0, rc_bytes_written = 0, rc_files_created = 0, rc_files = [],
      rc_io_calls = 0\<rparr>"

definition kMaxOffset :: nat where "kMaxOffset = 2 ^ 63 - 1"

section \<open>System calls\<close>

definition Fail :: "recorder \<Rightarrow> recorder" where
  "Fail st = st\<lparr>rc_failed := True\<rparr>"

definition syscall :: "io_env \<Rightarrow> recorder \<Rightarrow> bool \<times> recorder" where
  "syscall env st = (env (rc_io_calls st) = None, st\<lparr>rc_io_calls := rc_io_calls st + 1\<rparr>)"

definition on_current :: "(split \<Rightarrow> split) \<Rightarrow> recorder \<Rightarrow> recorder" where
  "on_current f st =
     st\<lparr>rc_files := (if rc_files st = [] then [] else butlast (rc_files st) @ [f (last (rc_files st))])\<rparr>"

definition also_do :: "bool \<times> recorder \<Rightarrow> (recorder \<Rightarrow> bool \<times> recorder) \<Rightarrow> bool \<times> recorder" where
  "also_do r f = (if fst r then f (snd r) else r)"

definition WriteAll_bin :: "io_env \<Rightarrow> bytes \<Rightarrow> recorder \<Rightarrow> bool \<times> recorder" where
  "WriteAll_bin env bs st =
     (let (ok, st') = syscall env st in
      if ok then (True, on_current (\<lambda>f. f\<lparr>sp_bin := sp_bin f @ bs\<rparr>) st')
      else (False, on_current (\<lambda>f. f\<lparr>sp_bin := sp_bin f @ take (the (env (rc_io_calls st))) bs,
                                     sp_torn := True\<rparr>) st'))"

definition WriteAll_csv :: "io_env \<Rightarrow> index_row list \<Rightarrow> recorder \<Rightarrow> bool \<times> recorder" where
  "WriteAll_csv env rows st =
     (let (ok, st') = syscall env st in
      if ok then (True, on_current (\<lambda>f. f\<lparr>sp_rows := sp_rows f @ rows\<rparr>) st')
      else (False, on_current (\<lambda>f. f\<lparr>sp_torn := True\<rparr>) st'))"

definition Sync :: "io_env \<Rightarrow> recorder \<Rightarrow> bool \<times> recorder" where
  "Sync env st = syscall env st"

text \<open>Seek, write, truncate and sync of the manifest; it is torn from the write on until the truncation.\<close>

definition WriteMetadata :: "io_env \<Rightarrow> bool \<Rightarrow> recorder \<Rightarrow> bool \<times> recorder" where
  "WriteMetadata env is_clean st =
     (let doc = \<lparr>mf_split_index = rc_split_index st, mf_frames_total = rc_split_frames st,
                 mf_scans_total = rc_split_scans st, mf_bytes_total = rc_split_bytes st,
                 mf_closed_cleanly = is_clean\<rparr> in
      also_do (syscall env st) (\<lambda>st.
      also_do (syscall env (on_current (\<lambda>f. f\<lparr>sp_manifest := None\<rparr>) st)) (\<lambda>st.
      also_do (syscall env st) (\<lambda>st.
      Sync env (on_current (\<lambda>f. f\<lparr>sp_manifest := Some doc\<rparr>) st)))))"

definition OpenSplit :: "io_env \<Rightarrow> recorder \<Rightarrow> bool \<times> recorder" where
  "OpenSplit env st =
     (let st = st\<lparr>rc_split_bytes := 0, rc_split_frames := 0, rc_split_scans := 0\<rparr> in
      also_do (syscall env st) (\<lambda>st.
      also_do (WriteMetadata env False (st\<lparr>rc_json_fd := True, rc_files := rc_files st @ [new_split]\<rparr>)) (\<lambda>st.
      also_do (syscall env st) (\<lambda>st.
      also_do (syscall env (st\<lparr>rc_bin_fd := True, rc_files_created := rc_files_created st + 1\<rparr>)) (\<lambda>st.
      also_do (WriteAll_csv env [] (st\<lparr>rc_csv_fd := True\<rparr>)) (\<lambda>st.
      also_do (Sync env st) (\<lambda>st.
      also_do (Sync env st) (Sync env))))))))"

definition attempt :: "(recorder \<Rightarrow> bool \<times> recorder) \<Rightarrow> recorder \<Rightarrow> recorder" where
  "attempt action st = (let (ok, st) = action st in if ok then st else Fail st)"

definition CloseFd :: "io_env \<Rightarrow> (recorder \<Rightarrow> bool) \<Rightarrow> (recorder \<Rightarrow> recorder) \<Rightarrow> recorder \<Rightarrow> bool \<times> recorder" where
  "CloseFd env is_open clear st = (if \<not> is_open st then (True, st) else syscall env (clear st))"

definition close_files :: "io_env \<Rightarrow> recorder \<Rightarrow> recorder" where
  "close_files env st =
     (let st = (if rc_bin_fd st then attempt (Sync env) st else st);
          st = (if rc_csv_fd st then attempt (Sync env) st else st);
          st = attempt (CloseFd env rc_bin_fd (\<lambda>s. s\<lparr>rc_bin_fd := False\<rparr>)) st
      in attempt (CloseFd env rc_csv_fd (\<lambda>s. s\<lparr>rc_csv_fd := False\<rparr>)) st)"

definition close_manifest :: "io_env \<Rightarrow> recorder \<Rightarrow> recorder" where
  "close_manifest env st =
     (let st = attempt (WriteMetadata env False) st;
          st = (if \<not> rc_failed st then attempt (WriteMetadata env True) st else st);
          st = (if rc_failed st then attempt (WriteMetadata env False) st else st)
      in attempt (CloseFd env rc_json_fd (\<lambda>s. s\<lparr>rc_json_fd := False\<rparr>)) st)"

definition CloseSplit :: "io_env \<Rightarrow> recorder \<Rightarrow> recorder" where
  "CloseSplit env st =
     (let st = close_files env st in if rc_json_fd st then close_manifest env st else st)"

section \<open>Appending a telegram\<close>

definition needs_split :: "rr_config \<Rightarrow> nat \<Rightarrow> recorder \<Rightarrow> bool" where
  "needs_split cfg len st \<longleftrightarrow> rc_split_frames st \<noteq> 0 \<and> cfg_max_file_bytes cfg \<noteq> 0 \<and>
     (rc_split_bytes st \<ge> cfg_max_file_bytes cfg \<or> len > cfg_max_file_bytes cfg - rc_split_bytes st)"

definition row_of :: "RawRecord \<Rightarrow> recorder \<Rightarrow> index_row" where
  "row_of rcd st =
     \<lparr>row_offset = rc_split_bytes st, row_length = length (frame_data (rr_frame rcd)),
      row_host_us = receive_timestamp_us (rr_frame rcd), row_is_scan = rr_is_scan rcd,
      row_checksum_valid = checksum_valid (rr_frame rcd),
      row_device_time = rr_device_time_unix_us rcd, row_clock_step = rr_clock_step_us rcd,
      row_flags = rr_clock_quality_flags rcd\<rparr>"

definition next_split :: "io_env \<Rightarrow> recorder \<Rightarrow> bool \<times> recorder" where
  "next_split env st =
     (let st = CloseSplit env st in
      if rc_failed st then (False, st)
      else if rc_split_index st = 2 ^ 64 - 1 then (False, st)
      else OpenSplit env (st\<lparr>rc_split_index := rc_split_index st + 1\<rparr>))"

definition Append :: "io_env \<Rightarrow> rr_config \<Rightarrow> RawRecord \<Rightarrow> recorder \<Rightarrow> bool \<times> recorder" where
  "Append env cfg rcd st =
     (let len = length (frame_data (rr_frame rcd)) in
      if len = 0 \<or> len > kMaxOffset then (False, st)
      else
        also_do (if needs_split cfg len st then next_split env st else (True, st)) (\<lambda>st.
        if len > kMaxOffset - rc_split_bytes st then (False, st)
        else
          let row = row_of rcd st in
          also_do (WriteAll_bin env (frame_data (rr_frame rcd)) st) (\<lambda>st.
          also_do (WriteAll_csv env [row] st) (\<lambda>st.
          (True, st\<lparr>rc_split_bytes := rc_split_bytes st + len,
                    rc_split_frames := rc_split_frames st + 1,
                    rc_split_scans := rc_split_scans st + (if rr_is_scan rcd then 1 else 0),
                    rc_frames_written := rc_frames_written st + 1,
                    rc_scans_written := rc_scans_written st + (if rr_is_scan rcd then 1 else 0),
                    rc_bytes_written := rc_bytes_written st + len\<rparr>)))))"

section \<open>Lifecycle\<close>

definition close_opt :: "recorder \<Rightarrow> recorder" where
  "close_opt st = st\<lparr>rc_queue := map_option close_queue (rc_queue st)\<rparr>"

text \<open>The two system calls before the queue exists create and open the output directory.\<close>

definition Start :: "io_env \<Rightarrow> rr_config \<Rightarrow> recorder \<Rightarrow> bool \<times> recorder" where
  "Start env cfg st =
     (if rc_started st then (False, st)
      else
        let st = st\<lparr>rc_started := True\<rparr>;
            (ok, st) =
              (if cfg_output_path cfg = [] \<or> cfg_queue_capacity cfg = 0 \<or> cfg_flush_interval_ms cfg = 0
               then (False, st)
               else also_do (syscall env st) (\<lambda>st.
                    also_do (syscall env st) (\<lambda>st.
                    OpenSplit env (st\<lparr>rc_directory_fd := True,
                      rc_queue := Some (new_BoundedQueue (cfg_queue_capacity cfg))\<rparr>))))
        in if ok then (True, st\<lparr>rc_accepting := True\<rparr>)
           else
             let st = close_opt ((Fail st)\<lparr>rc_accepting := False\<rparr>);
                 st = CloseSplit env st
             in (False, attempt (CloseFd env rc_directory_fd (\<lambda>s. s\<lparr>rc_directory_fd := False\<rparr>)) st))"

definition OnFrame_push :: "RawRecord \<Rightarrow> recorder \<Rightarrow> bool \<times> recorder" where
  "OnFrame_push rcd st =
     (case rc_queue st of
        None \<Rightarrow> (False, st)
      | Some q \<Rightarrow>
          (let (ok, q) = try_push rcd q in
           if ok then (True, st\<lparr>rc_queue := Some q, rc_frames_queued := rc_frames_queued st + 1,
                               rc_scans_queued := rc_scans_queued st + (if rr_is_scan rcd then 1 else 0)\<rparr>)
           else (False, close_opt ((Fail st)\<lparr>rc_frames_dropped := rc_frames_dropped st + 1,
                                            rc_accepting := False\<rparr>))))"

definition OnFrame :: "RawRecord \<Rightarrow> recorder \<Rightarrow> bool \<times> recorder" where
  "OnFrame rcd st =
     (if \<not> rc_accepting st then (False, st\<lparr>rc_frames_dropped := rc_frames_dropped st + 1\<rparr>)
      else OnFrame_push rcd st)"

text \<open>The end of \<^verbatim>\<open>WriteLoop\<close>, after the loop was left with or without a record in hand.\<close>

definition leave_loop :: "bool \<Rightarrow> recorder \<Rightarrow> recorder" where
  "leave_loop pending st =
     close_opt (st\<lparr>rc_accepting := False,
       rc_frames_dropped := rc_frames_dropped st + (if pending then 1 else 0)\<rparr>)"

definition flush :: "io_env \<Rightarrow> recorder \<Rightarrow> bool \<times> recorder" where
  "flush env st = also_do (Sync env st) (Sync env)"

definition Stop_request :: "recorder \<Rightarrow> recorder" where
  "Stop_request st = close_opt (st\<lparr>rc_accepting := False\<rparr>)"

definition Stop_joined :: "io_env \<Rightarrow> recorder \<Rightarrow> recorder" where
  "Stop_joined env st = attempt (CloseFd env rc_directory_fd (\<lambda>s. s\<lparr>rc_directory_fd := False\<rparr>)) st"

section \<open>The threads\<close>

datatype wloc = WLoop | WHolding RawRecord | WFlush | WExit "RawRecord option" | WDrain | WDone

datatype ploc = PIdle | PChecked RawRecord

text \<open>
  The recorder with its two threads. The last four fields only observe: the telegrams the queue took,
  the ones written, the ones taken from the queue and given up, and the number of refused ones.
\<close>

record rsys =
  rs_rc :: recorder
  rs_w :: wloc
  rs_p :: ploc
  rs_accepted :: "RawRecord list"
  rs_written :: "RawRecord list"
  rs_discarded :: "RawRecord list"
  rs_refused :: nat

definition started :: "recorder \<Rightarrow> rsys" where
  "started rc = \<lparr>rs_rc = rc, rs_w = WLoop, rs_p = PIdle, rs_accepted = [], rs_written = [],
                 rs_discarded = [], rs_refused = 0\<rparr>"

definition queue_of :: "recorder \<Rightarrow> RawRecord BoundedQueue" where
  "queue_of rc = the (rc_queue rc)"

definition with_queue :: "RawRecord BoundedQueue \<Rightarrow> recorder \<Rightarrow> recorder" where
  "with_queue q rc = rc\<lparr>rc_queue := Some q\<rparr>"

inductive rstep :: "io_env \<Rightarrow> rr_config \<Rightarrow> rsys \<Rightarrow> rsys \<Rightarrow> bool" for env cfg where
  p_refuse: "\<lbrakk> rs_p s = PIdle; \<not> rc_accepting (rs_rc s) \<rbrakk> \<Longrightarrow>
    rstep env cfg s (s\<lparr>rs_rc := snd (OnFrame rcd (rs_rc s)), rs_refused := rs_refused s + 1\<rparr>)"
| p_check: "\<lbrakk> rs_p s = PIdle; rc_accepting (rs_rc s) \<rbrakk> \<Longrightarrow> rstep env cfg s (s\<lparr>rs_p := PChecked rcd\<rparr>)"
| p_push: "\<lbrakk> rs_p s = PChecked rcd; OnFrame_push rcd (rs_rc s) = (True, rc) \<rbrakk> \<Longrightarrow>
    rstep env cfg s (s\<lparr>rs_rc := rc, rs_p := PIdle, rs_accepted := rs_accepted s @ [rcd]\<rparr>)"
| p_full: "\<lbrakk> rs_p s = PChecked rcd; OnFrame_push rcd (rs_rc s) = (False, rc) \<rbrakk> \<Longrightarrow>
    rstep env cfg s (s\<lparr>rs_rc := rc, rs_p := PIdle, rs_refused := rs_refused s + 1\<rparr>)"
| o_stop: "rstep env cfg s (s\<lparr>rs_rc := Stop_request (rs_rc s)\<rparr>)"
| w_pop: "\<lbrakk> rs_w s = WLoop; try_pop (queue_of (rs_rc s)) = Some (rcd, q) \<rbrakk> \<Longrightarrow>
    rstep env cfg s (s\<lparr>rs_rc := with_queue q (rs_rc s), rs_w := WHolding rcd\<rparr>)"
| w_append: "\<lbrakk> rs_w s = WHolding rcd; Append env cfg rcd (rs_rc s) = (True, rc) \<rbrakk> \<Longrightarrow>
    rstep env cfg s (s\<lparr>rs_rc := rc, rs_w := WFlush, rs_written := rs_written s @ [rcd]\<rparr>)"
| w_throw: "\<lbrakk> rs_w s = WHolding rcd; Append env cfg rcd (rs_rc s) = (False, rc) \<rbrakk> \<Longrightarrow>
    rstep env cfg s (s\<lparr>rs_rc := Fail rc, rs_w := WExit (Some rcd)\<rparr>)"
| w_end: "\<lbrakk> rs_w s = WLoop; bq_closed (queue_of (rs_rc s)); queue_size (queue_of (rs_rc s)) = 0 \<rbrakk> \<Longrightarrow>
    rstep env cfg s (s\<lparr>rs_w := WExit None\<rparr>)"
| w_sleep: "rs_w s = WLoop \<Longrightarrow> rstep env cfg s (s\<lparr>rs_w := WFlush\<rparr>)"
| w_not_due: "rs_w s = WFlush \<Longrightarrow> rstep env cfg s (s\<lparr>rs_w := WLoop\<rparr>)"
| w_flush: "\<lbrakk> rs_w s = WFlush; flush env (rs_rc s) = (True, rc) \<rbrakk> \<Longrightarrow>
    rstep env cfg s (s\<lparr>rs_rc := rc, rs_w := WLoop\<rparr>)"
| w_flush_throw: "\<lbrakk> rs_w s = WFlush; flush env (rs_rc s) = (False, rc) \<rbrakk> \<Longrightarrow>
    rstep env cfg s (s\<lparr>rs_rc := Fail rc, rs_w := WExit None\<rparr>)"
| w_leave: "rs_w s = WExit pending \<Longrightarrow>
    rstep env cfg s (s\<lparr>rs_rc := leave_loop (pending \<noteq> None) (rs_rc s), rs_w := WDrain,
                      rs_discarded := rs_discarded s @ (case pending of None \<Rightarrow> [] | Some r \<Rightarrow> [r])\<rparr>)"
| w_drain: "\<lbrakk> rs_w s = WDrain; try_pop (queue_of (rs_rc s)) = Some (rcd, q) \<rbrakk> \<Longrightarrow>
    rstep env cfg s (s\<lparr>rs_rc := (with_queue q (rs_rc s))\<lparr>rc_frames_dropped := rc_frames_dropped (rs_rc s) + 1\<rparr>,
                      rs_discarded := rs_discarded s @ [rcd]\<rparr>)"
| w_done: "\<lbrakk> rs_w s = WDrain; try_pop (queue_of (rs_rc s)) = None \<rbrakk> \<Longrightarrow>
    rstep env cfg s (s\<lparr>rs_rc := CloseSplit env (rs_rc s), rs_w := WDone\<rparr>)"

inductive reachable :: "io_env \<Rightarrow> rr_config \<Rightarrow> rsys \<Rightarrow> bool" for env cfg where
  start: "Start env cfg new_recorder = (True, rc) \<Longrightarrow> reachable env cfg (started rc)"
| step: "\<lbrakk> reachable env cfg s; rstep env cfg s t \<rbrakk> \<Longrightarrow> reachable env cfg t"

section \<open>What the file operations leave alone\<close>

definition core :: "recorder \<Rightarrow> RawRecord BoundedQueue option \<times> bool \<times> nat \<times> nat \<times> nat" where
  "core st = (rc_queue st, rc_accepting st, rc_frames_queued st, rc_frames_written st, rc_frames_dropped st)"

definition same_core :: "recorder \<Rightarrow> recorder \<Rightarrow> bool" where
  "same_core a b \<longleftrightarrow> core b = core a \<and> (rc_failed a \<longrightarrow> rc_failed b)"

lemma same_core_refl [simp]: "same_core a a"
  by (simp add: same_core_def)

lemma same_core_trans [trans]: "\<lbrakk> same_core a b; same_core b c \<rbrakk> \<Longrightarrow> same_core a c"
  by (simp add: same_core_def)

lemma same_core_syscall [simp]: "same_core a (snd (syscall env b)) = same_core a b"
  by (simp add: same_core_def core_def syscall_def)

lemma same_core_current [simp]: "same_core a (on_current f b) = same_core a b"
  by (simp add: same_core_def core_def on_current_def)

lemma same_core_fields [simp]:
  "same_core a (b\<lparr>rc_json_fd := j\<rparr>) = same_core a b" "same_core a (b\<lparr>rc_files := fs\<rparr>) = same_core a b"
  "same_core a (b\<lparr>rc_bin_fd := j\<rparr>) = same_core a b" "same_core a (b\<lparr>rc_csv_fd := j\<rparr>) = same_core a b"
  "same_core a (b\<lparr>rc_files_created := n\<rparr>) = same_core a b"
  "same_core a (b\<lparr>rc_split_bytes := n\<rparr>) = same_core a b"
  "same_core a (b\<lparr>rc_split_frames := n\<rparr>) = same_core a b"
  "same_core a (b\<lparr>rc_split_scans := n\<rparr>) = same_core a b"
  "same_core a (b\<lparr>rc_split_index := n\<rparr>) = same_core a b"
  "same_core a (b\<lparr>rc_io_calls := n\<rparr>) = same_core a b"
  "same_core a b \<Longrightarrow> same_core a (Fail b)"
  by (simp_all add: same_core_def core_def Fail_def)

lemma same_core_also_do:
  "\<lbrakk> same_core a (snd r); \<And>b. same_core a b \<Longrightarrow> same_core a (snd (f b)) \<rbrakk> \<Longrightarrow> same_core a (snd (also_do r f))"
  by (simp add: also_do_def)

lemma same_core_attempt:
  "\<lbrakk> same_core a b; \<And>b. same_core a b \<Longrightarrow> same_core a (snd (f b)) \<rbrakk> \<Longrightarrow> same_core a (attempt f b)"
  by (simp add: attempt_def Let_def split_beta)

lemma same_core_writes:
  "same_core a b \<Longrightarrow> same_core a (snd (WriteAll_bin env bs b))"
  "same_core a b \<Longrightarrow> same_core a (snd (WriteAll_csv env rows b))"
  "same_core a b \<Longrightarrow> same_core a (snd (Sync env b))"
  "same_core a b \<Longrightarrow> same_core a (snd (CloseFd env p (\<lambda>s. s\<lparr>rc_bin_fd := False\<rparr>) b))"
  "same_core a b \<Longrightarrow> same_core a (snd (CloseFd env p (\<lambda>s. s\<lparr>rc_csv_fd := False\<rparr>) b))"
  "same_core a b \<Longrightarrow> same_core a (snd (CloseFd env p (\<lambda>s. s\<lparr>rc_json_fd := False\<rparr>) b))"
  by (simp_all add: WriteAll_bin_def WriteAll_csv_def Sync_def CloseFd_def Let_def split_beta)

lemma same_core_WriteMetadata: "same_core a b \<Longrightarrow> same_core a (snd (WriteMetadata env cl b))"
  unfolding WriteMetadata_def Let_def
  by (intro same_core_also_do) (simp_all add: same_core_writes)

lemma same_core_OpenSplit: "same_core a b \<Longrightarrow> same_core a (snd (OpenSplit env b))"
  unfolding OpenSplit_def Let_def
  by (intro same_core_also_do same_core_WriteMetadata same_core_writes) simp_all

lemma same_core_CloseSplit: "same_core a b \<Longrightarrow> same_core a (CloseSplit env b)"
  unfolding CloseSplit_def close_files_def close_manifest_def Let_def
  by (auto intro!: same_core_attempt same_core_WriteMetadata same_core_writes)

lemma same_core_next_split: "same_core a b \<Longrightarrow> same_core a (snd (next_split env b))"
  using same_core_CloseSplit [of a b env]
  by (auto simp: next_split_def Let_def intro: same_core_OpenSplit)

lemma Append_core:
  assumes "Append env cfg rcd b = (ok, c)"
  shows "rc_queue c = rc_queue b \<and> rc_accepting c = rc_accepting b \<and>
         rc_frames_queued c = rc_frames_queued b \<and> rc_frames_dropped c = rc_frames_dropped b \<and>
         rc_frames_written c = rc_frames_written b + (if ok then 1 else 0) \<and> (rc_failed b \<longrightarrow> rc_failed c)"
proof -
  let ?n = "if needs_split cfg (length (frame_data (rr_frame rcd))) b then next_split env b else (True, b)"
  obtain o1 b1 where n: "?n = (o1, b1)" by fastforce
  have b1: "same_core b b1" using same_core_next_split [of b b env] n by (auto split: if_splits)
  obtain o2 b2 where w: "WriteAll_bin env (frame_data (rr_frame rcd)) b1 = (o2, b2)" by fastforce
  obtain o3 b3 where v: "WriteAll_csv env [row_of rcd b1] b2 = (o3, b3)" by fastforce
  have b2: "same_core b b2" using same_core_writes(1) [OF b1, of env "frame_data (rr_frame rcd)"] w by simp
  have b3: "same_core b b3" using same_core_writes(2) [OF b2, of env "[row_of rcd b1]"] v by simp
  let ?l = "length (frame_data (rr_frame rcd))"
  have eq: "Append env cfg rcd b =
      (if ?l = 0 \<or> ?l > kMaxOffset then (False, b) else if \<not> o1 then (False, b1)
       else if ?l > kMaxOffset - rc_split_bytes b1 then (False, b1) else if \<not> o2 then (False, b2)
       else if \<not> o3 then (False, b3)
       else (True, b3\<lparr>rc_split_bytes := rc_split_bytes b3 + ?l, rc_split_frames := rc_split_frames b3 + 1,
              rc_split_scans := rc_split_scans b3 + (if rr_is_scan rcd then 1 else 0),
              rc_frames_written := rc_frames_written b3 + 1,
              rc_scans_written := rc_scans_written b3 + (if rr_is_scan rcd then 1 else 0),
              rc_bytes_written := rc_bytes_written b3 + ?l\<rparr>))"
    unfolding Append_def Let_def n by (simp add: also_do_def w v)
  show ?thesis
  proof (cases ok)
    case True
    then have c: "c = b3\<lparr>rc_split_bytes := rc_split_bytes b3 + ?l, rc_split_frames := rc_split_frames b3 + 1,
              rc_split_scans := rc_split_scans b3 + (if rr_is_scan rcd then 1 else 0),
              rc_frames_written := rc_frames_written b3 + 1,
              rc_scans_written := rc_scans_written b3 + (if rr_is_scan rcd then 1 else 0),
              rc_bytes_written := rc_bytes_written b3 + ?l\<rparr>"
      using assms unfolding eq by (auto split: if_split_asm)
    show ?thesis using b3 True unfolding c same_core_def core_def by simp
  next
    case False
    then have "c \<in> {b, b1, b2, b3}" using assms unfolding eq by (auto split: if_split_asm)
    then have "same_core b c" using b1 b2 b3 by auto
    then show ?thesis using False unfolding same_core_def core_def by simp
  qed
qed

section \<open>Every telegram is accounted for\<close>

fun in_hand :: "wloc \<Rightarrow> RawRecord list" where
  "in_hand (WHolding r) = [r]"
| "in_hand (WExit (Some r)) = [r]"
| "in_hand _ = []"

definition acct :: "rsys \<Rightarrow> bool" where
  "acct s \<longleftrightarrow> (\<exists>q. rc_queue (rs_rc s) = Some q \<and> bq_inv q \<and>
     rs_accepted s = rs_written s @ rs_discarded s @ in_hand (rs_w s) @ bq_items q \<and>
     (rs_discarded s \<noteq> [] \<longrightarrow> rs_w s \<in> {WDrain, WDone} \<and> rc_failed (rs_rc s)) \<and>
     (rs_w s \<in> {WDrain, WDone} \<longrightarrow> bq_closed q) \<and>
     (rs_w s = WDone \<longrightarrow> bq_items q = []) \<and>
     (rs_w s \<in> {WExit None, WDrain} \<and> \<not> rc_failed (rs_rc s) \<longrightarrow> bq_closed q \<and> bq_items q = []) \<and>
     (\<forall>r. rs_w s = WExit (Some r) \<longrightarrow> rc_failed (rs_rc s))) \<and>
   rc_frames_queued (rs_rc s) = length (rs_accepted s) \<and>
   rc_frames_written (rs_rc s) = length (rs_written s) \<and>
   rc_frames_dropped (rs_rc s) = rs_refused s + length (rs_discarded s)"

lemma flush_core: "flush env b = (ok, c) \<Longrightarrow> same_core b c"
proof -
  assume "flush env b = (ok, c)"
  moreover have "same_core b (snd (flush env b))"
    unfolding flush_def by (intro same_core_also_do same_core_writes) simp_all
  ultimately show ?thesis by simp
qed

lemma try_pop_SomeD:
  "try_pop q = Some (r, q') \<Longrightarrow> bq_items q = r # bq_items q' \<and> bq_closed q' = bq_closed q \<and>
     bq_capacity q' = bq_capacity q"
  by (auto simp: try_pop_def split: list.splits)

lemma OnFrame_push_True:
  assumes "rc_queue st = Some q" "OnFrame_push r st = (True, rc)"
  shows "rc_queue rc = Some (q\<lparr>bq_items := bq_items q @ [r]\<rparr>) \<and> \<not> bq_closed q \<and>
         length (bq_items q) < bq_capacity q \<and> rc_failed rc = rc_failed st \<and>
         rc_frames_queued rc = rc_frames_queued st + 1 \<and> rc_frames_written rc = rc_frames_written st \<and>
         rc_frames_dropped rc = rc_frames_dropped st"
  using assms by (auto simp: OnFrame_push_def try_push_def split: if_splits)

lemma OnFrame_push_False:
  assumes "rc_queue st = Some q" "OnFrame_push r st = (False, rc)"
  shows "rc_queue rc = Some (close_queue q) \<and> rc_failed rc \<and>
         rc_frames_queued rc = rc_frames_queued st \<and> rc_frames_written rc = rc_frames_written st \<and>
         rc_frames_dropped rc = rc_frames_dropped st + 1"
  using assms by (auto simp: OnFrame_push_def try_push_def close_opt_def Fail_def split: if_splits)

lemma acct_step:
  assumes "rstep env cfg s t" "acct s"
  shows "acct t"
  using assms
proof (cases rule: rstep.cases)
  case (p_refuse rcd)
  then show ?thesis using assms(2) by (auto simp: acct_def OnFrame_def)
next
  case (p_check rcd)
  then show ?thesis using assms(2) by (auto simp: acct_def)
next
  case (p_push rcd rc)
  from assms(2) obtain q where q: "rc_queue (rs_rc s) = Some q" by (auto simp: acct_def)
  show ?thesis using assms(2) p_push(1) q OnFrame_push_True [OF q p_push(3)]
    by (auto simp: acct_def bq_inv_def)
next
  case (p_full rcd rc)
  from assms(2) obtain q where q: "rc_queue (rs_rc s) = Some q" by (auto simp: acct_def)
  show ?thesis using assms(2) p_full(1) q OnFrame_push_False [OF q p_full(3)]
    by (simp add: acct_def bq_inv_def close_queue_def)
next
  case o_stop
  then show ?thesis using assms(2)
    by (auto simp: acct_def Stop_request_def close_opt_def close_queue_def bq_inv_def)
next
  case (w_pop rcd q)
  then show ?thesis using assms(2) try_pop_SomeD [OF w_pop(3)]
    by (auto simp: acct_def queue_of_def with_queue_def bq_inv_def)
next
  case (w_append rcd rc)
  then show ?thesis using assms(2) Append_core [OF w_append(3)] by (auto simp: acct_def)
next
  case (w_throw rcd rc)
  then show ?thesis using assms(2) Append_core [OF w_throw(3)] by (auto simp: acct_def Fail_def)
next
  case w_end
  then show ?thesis using assms(2) by (auto simp: acct_def queue_of_def queue_size_def)
next
  case w_sleep
  then show ?thesis using assms(2) by (auto simp: acct_def)
next
  case w_not_due
  then show ?thesis using assms(2) by (auto simp: acct_def)
next
  case (w_flush rc)
  then show ?thesis using assms(2) flush_core [OF w_flush(3)]
    by (auto simp: acct_def same_core_def core_def)
next
  case (w_flush_throw rc)
  then show ?thesis using assms(2) flush_core [OF w_flush_throw(3)]
    by (auto simp: acct_def same_core_def core_def Fail_def)
next
  case (w_leave pending)
  then show ?thesis using assms(2)
    by (auto simp: acct_def leave_loop_def close_opt_def close_queue_def bq_inv_def split: option.splits)
next
  case (w_drain rcd q)
  then show ?thesis using assms(2) try_pop_SomeD [OF w_drain(3)]
    by (auto simp: acct_def queue_of_def with_queue_def bq_inv_def)
next
  case w_done
  then show ?thesis using assms(2) same_core_CloseSplit [of "rs_rc s" "rs_rc s" env]
    by (auto simp: acct_def queue_of_def try_pop_def same_core_def core_def split: list.splits)
qed

lemma Start_core:
  assumes "Start env cfg new_recorder = (True, rc)"
  shows "rc_queue rc = Some (new_BoundedQueue (cfg_queue_capacity cfg)) \<and> rc_frames_queued rc = 0 \<and>
         rc_frames_written rc = 0 \<and> rc_frames_dropped rc = 0"
proof -
  define b where "b = new_recorder\<lparr>rc_started := True, rc_io_calls := Suc (Suc 0), rc_directory_fd := True,
    rc_queue := Some (new_BoundedQueue (cfg_queue_capacity cfg))\<rparr>"
  have "rc = (snd (OpenSplit env b))\<lparr>rc_accepting := True\<rparr>"
    using assms by (auto simp: Start_def Let_def also_do_def syscall_def new_recorder_def b_def
        split: if_splits prod.splits)
  moreover have "same_core b (snd (OpenSplit env b))" by (rule same_core_OpenSplit) simp
  ultimately show ?thesis by (simp add: same_core_def core_def b_def new_recorder_def)
qed

lemma reachable_acct: "reachable env cfg s \<Longrightarrow> acct s"
proof (induction rule: reachable.induct)
  case (start rc)
  from Start_core [OF this] show ?case by (simp add: acct_def started_def new_BoundedQueue_def bq_inv_def)
qed (rule acct_step)

section \<open>What is on disk\<close>

definition rec_bytes :: "RawRecord \<Rightarrow> bytes" where
  "rec_bytes r = frame_data (rr_frame r)"

definition row_at :: "nat \<Rightarrow> RawRecord \<Rightarrow> index_row" where
  "row_at off r =
     \<lparr>row_offset = off, row_length = length (rec_bytes r),
      row_host_us = receive_timestamp_us (rr_frame r), row_is_scan = rr_is_scan r,
      row_checksum_valid = checksum_valid (rr_frame r), row_device_time = rr_device_time_unix_us r,
      row_clock_step = rr_clock_step_us r, row_flags = rr_clock_quality_flags r\<rparr>"

fun rows_from :: "nat \<Rightarrow> RawRecord list \<Rightarrow> index_row list" where
  "rows_from off [] = []"
| "rows_from off (r # rs) = row_at off r # rows_from (off + length (rec_bytes r)) rs"

text \<open>A split that holds exactly the telegrams \<open>g\<close>, with one row each.\<close>

definition split_ok :: "split \<Rightarrow> RawRecord list \<Rightarrow> bool" where
  "split_ok f g \<longleftrightarrow> sp_bin f = concat (map rec_bytes g) \<and> sp_rows f = rows_from 0 g \<and> \<not> sp_torn f"

text \<open>The files hold the telegrams \<open>ws\<close>, split into groups, and the counters describe the last group.\<close>

definition stored :: "recorder \<Rightarrow> RawRecord list \<Rightarrow> bool" where
  "stored rc ws \<longleftrightarrow> (\<exists>gs g. list_all2 split_ok (rc_files rc) (gs @ [g]) \<and> ws = concat gs @ g \<and>
     rc_split_frames rc = length g \<and> rc_split_bytes rc = length (concat (map rec_bytes g)) \<and>
     rc_split_scans rc = length (filter rr_is_scan g))"

definition unclean :: "split \<Rightarrow> bool" where
  "unclean f \<longleftrightarrow> (\<forall>m. sp_manifest f = Some m \<longrightarrow> \<not> mf_closed_cleanly m)"

definition manifest_ok :: "split \<Rightarrow> bool" where
  "manifest_ok f \<longleftrightarrow> (\<forall>m. sp_manifest f = Some m \<and> mf_closed_cleanly m \<longrightarrow>
     \<not> sp_torn f \<and> mf_frames_total m = length (sp_rows f) \<and> mf_bytes_total m = length (sp_bin f) \<and>
     mf_scans_total m = length (filter row_is_scan (sp_rows f)))"

definition last_open :: "recorder \<Rightarrow> bool" where
  "last_open rc \<longleftrightarrow> rc_files rc \<noteq> [] \<and> unclean (last (rc_files rc))"

definition contents :: "recorder \<Rightarrow> (bytes \<times> index_row list \<times> bool) list \<times> nat \<times> nat \<times> nat" where
  "contents rc = (map (\<lambda>f. (sp_bin f, sp_rows f, sp_torn f)) (rc_files rc),
     rc_split_frames rc, rc_split_bytes rc, rc_split_scans rc)"

lemma length_rows_from [simp]: "length (rows_from off g) = length g"
  by (induction off g rule: rows_from.induct) simp_all

lemma scans_rows_from [simp]: "length (filter row_is_scan (rows_from off g)) = length (filter rr_is_scan g)"
  by (induction off g rule: rows_from.induct) (simp_all add: row_at_def)

lemma rows_from_append:
  "rows_from off (g @ [r]) = rows_from off g @ [row_at (off + length (concat (map rec_bytes g))) r]"
  by (induction off g rule: rows_from.induct) (simp_all add: add.assoc)

lemma unclean_ok: "unclean f \<Longrightarrow> manifest_ok f"
  by (auto simp: unclean_def manifest_ok_def)

lemma split_ok_data:
  "split_ok f g \<longleftrightarrow> (\<lambda>(b, r, t). b = concat (map rec_bytes g) \<and> r = rows_from 0 g \<and> \<not> t)
     (sp_bin f, sp_rows f, sp_torn f)"
  by (simp add: split_ok_def)

lemma stored_cong: "contents a = contents b \<Longrightarrow> stored a ws \<longleftrightarrow> stored b ws"
proof -
  let ?d = "\<lambda>f. (sp_bin f, sp_rows f, sp_torn f)"
  let ?P = "\<lambda>(b, r, t) g. b = concat (map rec_bytes g) \<and> r = rows_from 0 g \<and> \<not> t"
  assume "contents a = contents b"
  then have d: "map ?d (rc_files a) = map ?d (rc_files b)"
    "rc_split_frames a = rc_split_frames b" "rc_split_bytes a = rc_split_bytes b"
    "rc_split_scans a = rc_split_scans b" by (simp_all add: contents_def)
  have l: "list_all2 split_ok (rc_files x) gs \<longleftrightarrow> list_all2 ?P (map ?d (rc_files x)) gs" for x gs
    by (simp add: list.rel_map split_ok_data [abs_def])
  have "list_all2 split_ok (rc_files a) gs \<longleftrightarrow> list_all2 split_ok (rc_files b) gs" for gs
    unfolding l d(1) ..
  then show ?thesis unfolding stored_def d(2-4) by simp
qed

text \<open>The operations on descriptors and manifests keep the contents; a manifest is marked clean only
  when the counters describe the last split.\<close>

definition matches :: "recorder \<Rightarrow> bool" where
  "matches rc \<longleftrightarrow> rc_files rc \<noteq> [] \<and> \<not> sp_torn (last (rc_files rc)) \<and>
     rc_split_frames rc = length (sp_rows (last (rc_files rc))) \<and>
     rc_split_bytes rc = length (sp_bin (last (rc_files rc))) \<and>
     rc_split_scans rc = length (filter row_is_scan (sp_rows (last (rc_files rc))))"

lemma matches_cong: "contents a = contents b \<Longrightarrow> matches a \<longleftrightarrow> matches b"
proof -
  let ?d = "\<lambda>f. (sp_bin f, sp_rows f, sp_torn f)"
  assume "contents a = contents b"
  then have d: "map ?d (rc_files a) = map ?d (rc_files b)"
    "rc_split_frames a = rc_split_frames b" "rc_split_bytes a = rc_split_bytes b"
    "rc_split_scans a = rc_split_scans b"
    by (simp_all add: contents_def)
  have m: "matches x \<longleftrightarrow> map ?d (rc_files x) \<noteq> [] \<and>
      (case last (map ?d (rc_files x)) of (b, r, t) \<Rightarrow> \<not> t \<and> rc_split_frames x = length r \<and>
         rc_split_bytes x = length b \<and> rc_split_scans x = length (filter row_is_scan r))" for x
    by (cases "rc_files x = []") (auto simp: matches_def last_map)
  show ?thesis unfolding m d ..
qed

lemma stored_matches: "stored rc ws \<Longrightarrow> matches rc"
proof -
  assume "stored rc ws"
  then obtain gs g where g: "list_all2 split_ok (rc_files rc) (gs @ [g])" "rc_split_frames rc = length g"
    "rc_split_bytes rc = length (concat (map rec_bytes g))"
    "rc_split_scans rc = length (filter rr_is_scan g)" by (auto simp: stored_def)
  then obtain fs f where "rc_files rc = fs @ [f]" "split_ok f g"
    by (auto simp: list_all2_append2 list_all2_Cons2)
  then show ?thesis using g by (simp add: matches_def split_ok_def)
qed

text \<open>\<open>good ok a b\<close>: from \<open>a\<close> to \<open>b\<close> the contents stayed, every manifest is still right, and the last
  split is still open if it was.\<close>

definition manifests_ok :: "recorder \<Rightarrow> bool" where
  "manifests_ok rc \<longleftrightarrow> (\<forall>f\<in>set (rc_files rc). manifest_ok f)"

definition tidy :: "recorder \<Rightarrow> recorder \<Rightarrow> bool" where
  "tidy a b \<longleftrightarrow> contents b = contents a \<and> (manifests_ok a \<longrightarrow> manifests_ok b) \<and>
     (rc_failed a \<longrightarrow> rc_failed b) \<and> butlast (rc_files b) = butlast (rc_files a)"

lemma tidy_refl [simp]: "tidy a a"
  by (simp add: tidy_def)

lemma tidy_trans: "\<lbrakk> tidy a b; tidy b c \<rbrakk> \<Longrightarrow> tidy a c"
  by (simp add: tidy_def)

lemma tidy_fields [simp]:
  "tidy a (snd (syscall env b)) = tidy a b" "tidy a (b\<lparr>rc_json_fd := j\<rparr>) = tidy a b"
  "tidy a (b\<lparr>rc_bin_fd := j\<rparr>) = tidy a b" "tidy a (b\<lparr>rc_csv_fd := j\<rparr>) = tidy a b"
  "tidy a b \<Longrightarrow> tidy a (Fail b)"
  by (simp_all add: tidy_def contents_def manifests_ok_def syscall_def Fail_def)

lemma tidy_manifest:
  assumes "tidy a b" "\<And>f. f = last (rc_files b) \<Longrightarrow> rc_files b \<noteq> [] \<Longrightarrow> manifest_ok (f\<lparr>sp_manifest := m\<rparr>)"
  shows "tidy a (on_current (\<lambda>f. f\<lparr>sp_manifest := m\<rparr>) b)"
proof (cases "rc_files b" rule: rev_cases)
  case Nil
  then have "on_current (\<lambda>f. f\<lparr>sp_manifest := m\<rparr>) b = b" by (simp add: on_current_def)
  then show ?thesis using assms(1) by simp
next
  case (snoc fs f)
  then show ?thesis using assms by (auto simp: tidy_def contents_def manifests_ok_def on_current_def)
qed

lemma tidy_also_do:
  "\<lbrakk> tidy a (snd r); \<And>b. tidy a b \<Longrightarrow> tidy a (snd (f b)) \<rbrakk> \<Longrightarrow> tidy a (snd (also_do r f))"
  by (simp add: also_do_def)

lemma tidy_attempt: "\<lbrakk> tidy a b; \<And>b. tidy a b \<Longrightarrow> tidy a (snd (f b)) \<rbrakk> \<Longrightarrow> tidy a (attempt f b)"
  by (simp add: attempt_def Let_def split_beta)

lemma tidy_WriteMetadata:
  assumes ab: "tidy a b" and cl: "cl \<Longrightarrow> matches b"
  shows "tidy a (snd (WriteMetadata env cl b))"
proof -
  let ?doc = "\<lparr>mf_split_index = rc_split_index b, mf_frames_total = rc_split_frames b,
    mf_scans_total = rc_split_scans b, mf_bytes_total = rc_split_bytes b, mf_closed_cleanly = cl\<rparr>"
  have torn: "tidy a (on_current (\<lambda>f. f\<lparr>sp_manifest := None\<rparr>) c)" if "tidy a c" for c
    using that by (rule tidy_manifest) (simp add: manifest_ok_def)
  have doc: "tidy a (on_current (\<lambda>f. f\<lparr>sp_manifest := Some ?doc\<rparr>) c)" if "tidy a c" for c
  proof -
    have same: "contents c = contents b" using that ab by (simp add: tidy_def)
    show ?thesis using that
    proof (rule tidy_manifest)
      fix f assume f: "f = last (rc_files c)" "rc_files c \<noteq> []"
      show "manifest_ok (f\<lparr>sp_manifest := Some ?doc\<rparr>)"
      proof (cases cl)
        case True
        then have "matches c" using cl same by (simp add: matches_cong [OF same])
        then show ?thesis using f same by (simp add: manifest_ok_def matches_def contents_def)
      qed (simp add: manifest_ok_def)
    qed
  qed
  show ?thesis unfolding WriteMetadata_def Let_def Sync_def
    by (intro tidy_also_do) (simp_all add: ab torn doc)
qed

lemma tidy_CloseFd:
  "tidy a b \<Longrightarrow> tidy a (snd (CloseFd env p (\<lambda>s. s\<lparr>rc_bin_fd := False\<rparr>) b))"
  "tidy a b \<Longrightarrow> tidy a (snd (CloseFd env p (\<lambda>s. s\<lparr>rc_csv_fd := False\<rparr>) b))"
  "tidy a b \<Longrightarrow> tidy a (snd (CloseFd env p (\<lambda>s. s\<lparr>rc_json_fd := False\<rparr>) b))"
  "tidy a b \<Longrightarrow> tidy a (snd (Sync env b))"
  by (simp_all add: CloseFd_def Sync_def)

lemma tidy_close_files: "tidy a b \<Longrightarrow> tidy a (close_files env b)"
  unfolding close_files_def Let_def by (auto intro!: tidy_attempt tidy_CloseFd)

lemma tidy_close_manifest:
  assumes ab: "tidy a b" and m: "\<not> rc_failed a \<Longrightarrow> matches a"
  shows "tidy a (close_manifest env b)"
proof -
  define s5 where "s5 = attempt (WriteMetadata env False) b"
  define s6 where "s6 = (if \<not> rc_failed s5 then attempt (WriteMetadata env True) s5 else s5)"
  define s7 where "s7 = (if rc_failed s6 then attempt (WriteMetadata env False) s6 else s6)"
  from ab have s5: "tidy a s5" unfolding s5_def by (intro tidy_attempt tidy_WriteMetadata) simp_all
  have "tidy a s6"
  proof (cases "rc_failed s5")
    case False
    then have "\<not> rc_failed a" using s5 by (auto simp: tidy_def)
    then have "matches s5" using m s5 matches_cong [of s5 a] by (simp add: tidy_def)
    with s5 have "tidy a (snd (WriteMetadata env True s5))" by (intro tidy_WriteMetadata) simp_all
    then show ?thesis using False by (simp add: s6_def attempt_def split_beta)
  qed (simp add: s6_def s5)
  then have "tidy a s7" unfolding s7_def by (auto intro!: tidy_attempt tidy_WriteMetadata)
  then have "tidy a (attempt (CloseFd env rc_json_fd (\<lambda>s. s\<lparr>rc_json_fd := False\<rparr>)) s7)"
    by (intro tidy_attempt tidy_CloseFd)
  then show ?thesis
    unfolding close_manifest_def Let_def s5_def [symmetric] s6_def [symmetric] s7_def [symmetric] .
qed

lemma tidy_CloseSplit: "(\<not> rc_failed a \<Longrightarrow> matches a) \<Longrightarrow> tidy a (CloseSplit env a)"
  unfolding CloseSplit_def Let_def by (simp add: tidy_close_files tidy_close_manifest)

text \<open>When nothing failed, closing a split leaves it with a manifest that says it was closed cleanly.\<close>

definition sealed :: "split list \<Rightarrow> bool" where
  "sealed fs \<longleftrightarrow> (\<forall>f\<in>set fs. \<exists>m. sp_manifest f = Some m \<and> mf_closed_cleanly m)"

lemma WriteMetadata_ok:
  "WriteMetadata env True b = (True, c) \<Longrightarrow> rc_files b \<noteq> [] \<Longrightarrow> sealed (butlast (rc_files b)) \<Longrightarrow>
   sealed (rc_files c)"
  by (auto simp: WriteMetadata_def Let_def also_do_def Sync_def syscall_def on_current_def sealed_def split: if_splits)

lemma attempt_failed: "rc_failed c \<Longrightarrow> rc_failed (attempt (WriteMetadata env cl) c)"
  using same_core_WriteMetadata [of c c env cl] by (simp add: attempt_def Fail_def same_core_def split_beta)

lemma close_manifest_sealed:
  assumes "\<not> rc_failed (close_manifest env b)" "rc_files b \<noteq> []" "sealed (butlast (rc_files b))"
  shows "sealed (rc_files (close_manifest env b))"
proof -
  define s5 where "s5 = attempt (WriteMetadata env False) b"
  define s6 where "s6 = (if \<not> rc_failed s5 then attempt (WriteMetadata env True) s5 else s5)"
  define s7 where "s7 = (if rc_failed s6 then attempt (WriteMetadata env False) s6 else s6)"
  have eq: "close_manifest env b = attempt (CloseFd env rc_json_fd (\<lambda>s. s\<lparr>rc_json_fd := False\<rparr>)) s7"
    unfolding close_manifest_def Let_def s5_def [symmetric] s6_def [symmetric] s7_def [symmetric] ..
  have "\<not> rc_failed (attempt (CloseFd env rc_json_fd (\<lambda>s. s\<lparr>rc_json_fd := False\<rparr>)) c) \<Longrightarrow>
      \<not> rc_failed c \<and> rc_files (attempt (CloseFd env rc_json_fd (\<lambda>s. s\<lparr>rc_json_fd := False\<rparr>)) c) = rc_files c" for c
    by (auto simp: attempt_def CloseFd_def syscall_def Fail_def split: if_splits)
  from this [of s7] have s7: "\<not> rc_failed s7" "rc_files (close_manifest env b) = rc_files s7"
    using assms(1) unfolding eq by simp_all
  have s6: "\<not> rc_failed s6" "s7 = s6" using s7(1) attempt_failed [of s6 env False] by (auto simp: s7_def split: if_splits)
  then have "\<not> rc_failed s5" by (auto simp: s6_def split: if_splits)
  then have "s6 = attempt (WriteMetadata env True) s5" by (simp add: s6_def)
  then have ok: "WriteMetadata env True s5 = (True, s6)"
    using s6(1) by (cases "WriteMetadata env True s5") (auto simp: attempt_def Fail_def split: if_splits)
  have "tidy b s5" unfolding s5_def by (intro tidy_attempt tidy_WriteMetadata) simp_all
  then have "rc_files s5 \<noteq> []" "sealed (butlast (rc_files s5))"
    using assms(2,3) by (auto simp: tidy_def contents_def)
  from WriteMetadata_ok [OF ok this] show ?thesis using s7(2) s6(2) by simp
qed

lemma CloseSplit_sealed:
  assumes "\<not> rc_failed (CloseSplit env a)" "rc_json_fd a" "rc_files a \<noteq> []" "sealed (butlast (rc_files a))"
  shows "sealed (rc_files (CloseSplit env a))"
proof -
  let ?b = "close_files env a"
  have "rc_json_fd ?b" using assms(2)
    by (simp add: close_files_def Let_def attempt_def Sync_def CloseFd_def syscall_def Fail_def)
  then have eq: "CloseSplit env a = close_manifest env ?b" by (simp add: CloseSplit_def Let_def)
  have "tidy a ?b" by (rule tidy_close_files) simp
  then have "rc_files ?b \<noteq> []" "sealed (butlast (rc_files ?b))"
    using assms(3,4) by (auto simp: tidy_def contents_def)
  with assms(1) show ?thesis unfolding eq by (rule close_manifest_sealed)
qed

text \<open>A split that was just opened: empty, with a manifest that is torn or says it is not closed.\<close>

definition fresh :: "split list \<Rightarrow> bool \<Rightarrow> recorder \<Rightarrow> bool" where
  "fresh fs ok b \<longleftrightarrow> (\<exists>f. rc_files b = fs @ [f] \<and> sp_bin f = [] \<and> sp_rows f = [] \<and> unclean f \<and>
     (ok \<longrightarrow> \<not> sp_torn f)) \<and>
     rc_split_frames b = 0 \<and> rc_split_bytes b = 0 \<and> rc_split_scans b = 0 \<and> rc_json_fd b"

lemma fresh_also_do:
  "\<lbrakk> fresh fs (fst r) (snd r); \<And>b. fresh fs True b \<Longrightarrow> fresh fs (fst (f b)) (snd (f b)) \<rbrakk>
   \<Longrightarrow> fresh fs (fst (also_do r f)) (snd (also_do r f))"
  by (cases "fst r") (simp_all add: also_do_def)

lemma fresh_fields [simp]:
  "fresh fs ok (b\<lparr>rc_bin_fd := j\<rparr>) = fresh fs ok b" "fresh fs ok (b\<lparr>rc_csv_fd := j\<rparr>) = fresh fs ok b"
  "fresh fs ok (b\<lparr>rc_files_created := n\<rparr>) = fresh fs ok b"
  "fresh fs ok (snd (syscall env b)) = fresh fs ok b"
  by (simp_all add: fresh_def syscall_def)

lemma fresh_weaken: "fresh fs True b \<Longrightarrow> fresh fs ok b"
  by (auto simp: fresh_def)

lemma fresh_current:
  assumes "fresh fs True b" "m = None \<or> (\<exists>d. m = Some d \<and> \<not> mf_closed_cleanly d)"
  shows "fresh fs True (on_current (\<lambda>f. f\<lparr>sp_manifest := m\<rparr>) b)"
  using assms by (auto simp: fresh_def on_current_def unclean_def)

lemma fresh_WriteMetadata:
  assumes "fresh fs True b"
  shows "fresh fs (fst (WriteMetadata env False b)) (snd (WriteMetadata env False b))"
  unfolding WriteMetadata_def Let_def Sync_def
  by (intro fresh_also_do) (simp_all add: assms fresh_current fresh_weaken)

lemma fresh_csv:
  assumes "fresh fs True b"
  shows "fresh fs (fst (WriteAll_csv env [] b)) (snd (WriteAll_csv env [] b))"
  using assms by (auto simp: WriteAll_csv_def syscall_def on_current_def fresh_def unclean_def)

lemma OpenSplit_fresh:
  "if env (rc_io_calls st) = None then fresh (rc_files st) (fst (OpenSplit env st)) (snd (OpenSplit env st))
   else \<not> fst (OpenSplit env st) \<and> rc_files (snd (OpenSplit env st)) = rc_files st"
proof (cases "env (rc_io_calls st)")
  case None
  let ?b = "st\<lparr>rc_split_bytes := 0, rc_split_frames := 0, rc_split_scans := 0,
    rc_io_calls := rc_io_calls st + 1, rc_json_fd := True, rc_files := rc_files st @ [new_split]\<rparr>"
  have b: "fresh (rc_files st) True ?b" by (simp add: fresh_def new_split_def unclean_def)
  let ?rest = "also_do (WriteMetadata env False ?b) (\<lambda>st.
      also_do (syscall env st) (\<lambda>st.
      also_do (syscall env (st\<lparr>rc_bin_fd := True, rc_files_created := rc_files_created st + 1\<rparr>)) (\<lambda>st.
      also_do (WriteAll_csv env [] (st\<lparr>rc_csv_fd := True\<rparr>)) (\<lambda>st.
      also_do (Sync env st) (\<lambda>st.
      also_do (Sync env st) (Sync env))))))"
  have eq: "OpenSplit env st = ?rest"
    using None by (simp add: OpenSplit_def Let_def also_do_def [of "syscall env _"] syscall_def [of env "_ \<lparr>rc_split_scans := 0\<rparr>"])
  have "fresh (rc_files st) (fst ?rest) (snd ?rest)" unfolding Sync_def
    by (intro fresh_also_do fresh_WriteMetadata [OF b] fresh_csv) (simp_all add: fresh_weaken)
  then show ?thesis using None by (simp only: eq simp_thms if_True)
next
  case (Some n)
  then show ?thesis by (simp add: OpenSplit_def Let_def also_do_def syscall_def)
qed

lemma next_split_contents:
  assumes "stored st ws" "manifests_ok st" "next_split env st = (ok, st')"
    and "rc_json_fd st" "sealed (butlast (rc_files st))"
  shows "manifests_ok st' \<and>
         (ok \<longrightarrow> stored st' ws \<and> last_open st' \<and> rc_json_fd st' \<and> sealed (butlast (rc_files st')))"
proof -
  let ?c = "CloseSplit env st"
  have tidy: "tidy st ?c" using assms(1) by (intro tidy_CloseSplit) (rule stored_matches)
  then have c: "stored ?c ws" "manifests_ok ?c"
    using assms(1,2) stored_cong [of ?c st] by (simp_all add: tidy_def)
  let ?b = "?c\<lparr>rc_split_index := rc_split_index ?c + 1\<rparr>"
  have ns: "next_split env st = (if rc_failed ?c \<or> rc_split_index ?c = 2 ^ 64 - 1 then (False, ?c) else OpenSplit env ?b)"
    by (simp only: next_split_def Let_def) (simp only: if_distrib if_bool_eq_conj simp_thms split: if_split, blast)
  have "(\<not> ok \<and> st' = ?c) \<or> \<not> rc_failed ?c \<and> OpenSplit env ?b = (ok, st')"
  proof (cases "rc_failed ?c \<or> rc_split_index ?c = 2 ^ 64 - 1")
    case True
    then have "next_split env st = (False, ?c)" unfolding ns by (rule if_P)
    then show ?thesis using assms(3) by simp
  next
    case False
    then have "next_split env st = OpenSplit env ?b" unfolding ns by (rule if_not_P)
    then show ?thesis using assms(3) False by simp
  qed
  then consider "\<not> ok" "st' = ?c" | "OpenSplit env ?b = (ok, st')" "\<not> rc_failed ?c" by blast
  then show ?thesis
  proof cases
    case 1 then show ?thesis using c by simp
  next
    case 2
    have "rc_files st \<noteq> []" using stored_matches [OF assms(1)] by (simp add: matches_def)
    then have sealed: "sealed (rc_files ?c)" using CloseSplit_sealed [OF 2(2) assms(4)] assms(5) by simp
    have b: "if env (rc_io_calls ?b) = None then fresh (rc_files ?c) ok st' else \<not> ok \<and> rc_files st' = rc_files ?c"
      using OpenSplit_fresh [of env ?b, unfolded 2(1) fst_conv snd_conv] by (auto split: if_splits)
    show ?thesis
    proof (cases "env (rc_io_calls ?b) = None")
      case True
      with b obtain f where f: "rc_files st' = rc_files ?c @ [f]" "sp_bin f = []" "sp_rows f = []" "unclean f"
        "ok \<longrightarrow> \<not> sp_torn f" "rc_split_frames st' = 0" "rc_split_bytes st' = 0" "rc_split_scans st' = 0" "rc_json_fd st'"
        by (auto simp: fresh_def)
      have m: "manifests_ok st'" using c(2) f by (auto simp: manifests_ok_def unclean_ok)
      from c(1) obtain gs g where g: "list_all2 split_ok (rc_files ?c) (gs @ [g])" "ws = concat gs @ g"
        by (auto simp: stored_def)
      have l: "list_all2 split_ok (rc_files st') ((gs @ [g]) @ [[]])" if ok
        unfolding f(1) using f that by (intro list_all2_appendI g(1)) (simp add: split_ok_def)
      have "stored st' ws" if ok
        unfolding stored_def
        by (rule exI [of _ "gs @ [g]"], rule exI [of _ "[]"])
           (use f g l [OF that] in simp)
      then show ?thesis using m f sealed by (simp add: last_open_def)
    next
      case False
      then show ?thesis using b c by (simp add: manifests_ok_def)
    qed
  qed
qed

lemma manifests_ok_current:
  assumes "manifests_ok b" "last_open b" "\<And>f. sp_manifest (h f) = sp_manifest f"
  shows "manifests_ok (on_current h b) \<and> last_open (on_current h b)"
proof -
  from assms(2) obtain fs f where f: "rc_files b = fs @ [f]" "unclean f"
    by (cases "rc_files b" rule: rev_cases) (auto simp: last_open_def)
  then have "unclean (h f)" using assms(3) by (simp add: unclean_def)
  then show ?thesis using f assms(1) by (auto simp: manifests_ok_def last_open_def on_current_def unclean_ok)
qed

text \<open>The two writes of \<open>Append\<close> and its counters, after the split was chosen.\<close>

lemma write_record_stored:
  assumes "stored b ws" "rec_bytes r = frame_data (rr_frame r)"
  shows "stored ((on_current (\<lambda>f. f\<lparr>sp_rows := sp_rows f @ [row_of r b]\<rparr>)
                   (on_current (\<lambda>f. f\<lparr>sp_bin := sp_bin f @ rec_bytes r\<rparr>) b))
     \<lparr>rc_split_bytes := rc_split_bytes b + length (rec_bytes r), rc_split_frames := rc_split_frames b + 1,
      rc_split_scans := rc_split_scans b + (if rr_is_scan r then 1 else 0)\<rparr>) (ws @ [r])" (is "stored ?c _")
proof -
  from assms(1) obtain gs g where g: "list_all2 split_ok (rc_files b) (gs @ [g])" "ws = concat gs @ g"
    "rc_split_frames b = length g" "rc_split_bytes b = length (concat (map rec_bytes g))"
    "rc_split_scans b = length (filter rr_is_scan g)" by (auto simp: stored_def)
  then obtain fs f where f: "rc_files b = fs @ [f]" "list_all2 split_ok fs gs" "split_ok f g"
    by (auto simp: list_all2_append2 list_all2_Cons2)
  have row: "row_of r b = row_at (length (concat (map rec_bytes g))) r"
    using g(4) by (simp add: row_of_def row_at_def rec_bytes_def)
  let ?f = "f\<lparr>sp_bin := sp_bin f @ rec_bytes r, sp_rows := sp_rows f @ [row_of r b]\<rparr>"
  have ok: "split_ok ?f (g @ [r])"
    using f(3) row by (simp add: split_ok_def rows_from_append)
  have files: "rc_files ?c = fs @ [?f]" using f(1) by (simp add: on_current_def)
  show ?thesis unfolding stored_def
    by (rule exI [of _ gs], rule exI [of _ "g @ [r]"])
       (use files ok f(2) g in \<open>auto intro: list_all2_appendI\<close>)
qed

definition live :: "recorder \<Rightarrow> bool" where
  "live b \<longleftrightarrow> last_open b \<and> rc_json_fd b \<and> sealed (butlast (rc_files b))"

lemma live_current:
  "\<lbrakk> manifests_ok b; live b; \<And>f. sp_manifest (h f) = sp_manifest f \<rbrakk> \<Longrightarrow>
   manifests_ok (on_current h b) \<and> live (on_current h b)"
  using manifests_ok_current [of b h] by (simp add: live_def on_current_def last_open_def)

lemma live_write:
  "\<lbrakk> manifests_ok b; live b \<rbrakk> \<Longrightarrow> manifests_ok (snd (WriteAll_bin env bs b)) \<and> live (snd (WriteAll_bin env bs b))"
  "\<lbrakk> manifests_ok b; live b \<rbrakk> \<Longrightarrow> manifests_ok (snd (WriteAll_csv env rows b)) \<and> live (snd (WriteAll_csv env rows b))"
proof -
  assume a: "manifests_ok b" "live b"
  then have s: "manifests_ok (snd (syscall env b))" "live (snd (syscall env b))"
    by (simp_all add: manifests_ok_def live_def last_open_def syscall_def)
  from s show "manifests_ok (snd (WriteAll_bin env bs b)) \<and> live (snd (WriteAll_bin env bs b))"
    by (simp add: WriteAll_bin_def Let_def split_beta live_current)
  from s show "manifests_ok (snd (WriteAll_csv env rows b)) \<and> live (snd (WriteAll_csv env rows b))"
    by (simp add: WriteAll_csv_def Let_def split_beta live_current)
qed

lemma Append_contents:
  assumes st: "stored b ws" "manifests_ok b" "live b"
    and ap: "Append env cfg r b = (ok, c)"
  shows "manifests_ok c \<and> (ok \<longrightarrow> stored c (ws @ [r]) \<and> live c)"
proof -
  let ?l = "length (rec_bytes r)"
  obtain o1 b1 where n: "(if needs_split cfg ?l b then next_split env b else (True, b)) = (o1, b1)" by fastforce
  have b1: "manifests_ok b1" "o1 \<longrightarrow> stored b1 ws \<and> live b1"
    using st n next_split_contents [OF st(1,2), of env o1 b1] by (auto simp: live_def split: if_splits)
  obtain o2 b2 where w: "WriteAll_bin env (rec_bytes r) b1 = (o2, b2)" by fastforce
  obtain o3 b3 where v: "WriteAll_csv env [row_of r b1] b2 = (o3, b3)" by fastforce
  let ?d = "b3\<lparr>rc_split_bytes := rc_split_bytes b3 + ?l, rc_split_frames := rc_split_frames b3 + 1,
              rc_split_scans := rc_split_scans b3 + (if rr_is_scan r then 1 else 0),
              rc_frames_written := rc_frames_written b3 + 1,
              rc_scans_written := rc_scans_written b3 + (if rr_is_scan r then 1 else 0),
              rc_bytes_written := rc_bytes_written b3 + ?l\<rparr>"
  have eq: "Append env cfg r b =
      (if ?l = 0 \<or> ?l > kMaxOffset then (False, b) else if \<not> o1 then (False, b1)
       else if ?l > kMaxOffset - rc_split_bytes b1 then (False, b1) else if \<not> o2 then (False, b2)
       else if \<not> o3 then (False, b3) else (True, ?d))"
    unfolding Append_def Let_def rec_bytes_def [symmetric] n by (simp add: also_do_def w v)
  have b2: "manifests_ok b2 \<and> live b2" if o1
    using b1 that live_write(1) [of b1 env "rec_bytes r"] w by simp
  have b3: "manifests_ok b3 \<and> live b3" if o1
    using b2 [OF that] live_write(2) [of b2 env "[row_of r b1]"] v by simp
  have d: "stored ?d (ws @ [r])" if "o1" "o2" "o3"
  proof -
    let ?e = "(on_current (\<lambda>f. f\<lparr>sp_rows := sp_rows f @ [row_of r b1]\<rparr>)
                   (on_current (\<lambda>f. f\<lparr>sp_bin := sp_bin f @ rec_bytes r\<rparr>) b1))
     \<lparr>rc_split_bytes := rc_split_bytes b1 + ?l, rc_split_frames := rc_split_frames b1 + 1,
      rc_split_scans := rc_split_scans b1 + (if rr_is_scan r then 1 else 0)\<rparr>"
    have "stored ?e (ws @ [r])" using b1 that by (intro write_record_stored) (simp_all add: rec_bytes_def)
    moreover have "contents ?d = contents ?e"
      using w v that by (auto simp: WriteAll_bin_def WriteAll_csv_def syscall_def on_current_def contents_def
          split: if_splits)
    ultimately show ?thesis using b1 that stored_cong [of ?d ?e] by simp
  qed
  have m: "manifests_ok ?d = manifests_ok b3" "live ?d = live b3"
    by (simp_all add: manifests_ok_def live_def last_open_def)
  show ?thesis
  proof (cases ok)
    case True
    then have "c = ?d" "o1" "o2" "o3" using ap eq by (auto split: if_splits)
    then show ?thesis using b3 d m by simp
  next
    case False
    then have "c = b \<or> c = b1 \<or> (o1 \<and> (c = b2 \<or> c = b3))" using ap eq by (auto split: if_splits)
    then show ?thesis using False st b1 b2 b3 by auto
  qed
qed

section \<open>The disk in every reachable state\<close>

fun running :: "wloc \<Rightarrow> bool" where
  "running WLoop = True" | "running (WHolding r) = True" | "running WFlush = True" | "running _ = False"

definition disk :: "rsys \<Rightarrow> bool" where
  "disk s \<longleftrightarrow> manifests_ok (rs_rc s) \<and>
     (running (rs_w s) \<or> \<not> rc_failed (rs_rc s) \<and> rs_w s \<noteq> WDone \<longrightarrow>
        stored (rs_rc s) (rs_written s) \<and> live (rs_rc s)) \<and>
     (\<not> rc_failed (rs_rc s) \<and> rs_w s = WDone \<longrightarrow>
        stored (rs_rc s) (rs_written s) \<and> sealed (rc_files (rs_rc s)))"

definition same_files :: "recorder \<Rightarrow> recorder \<Rightarrow> bool" where
  "same_files a b \<longleftrightarrow> rc_files b = rc_files a \<and> contents b = contents a \<and> rc_json_fd b = rc_json_fd a"

lemma same_files_disk:
  assumes "same_files a b"
  shows "manifests_ok b = manifests_ok a" "stored b ws = stored a ws" "live b = live a"
  using assms stored_cong [of b a ws] by (simp_all add: same_files_def manifests_ok_def live_def last_open_def)

text \<open>A step that leaves the files alone keeps the invariant, if it neither resumes the writer nor forgets a failure.\<close>

lemma disk_keep:
  assumes "disk s" "same_files (rs_rc s) (rs_rc t)" "rs_written t = rs_written s"
    and "running (rs_w t) \<Longrightarrow> running (rs_w s)" "rc_failed (rs_rc s) \<Longrightarrow> rc_failed (rs_rc t)"
    and "rs_w t = WDone \<longleftrightarrow> rs_w s = WDone"
  shows "disk t"
  using assms by (auto simp: disk_def same_files_disk [OF assms(2)] same_files_def)

lemma same_files_flush: "flush env a = (ok, b) \<Longrightarrow> same_files a b"
  by (auto simp: flush_def also_do_def Sync_def syscall_def same_files_def contents_def split: if_splits)

lemma same_files_push: "OnFrame_push r a = (ok, b) \<Longrightarrow> same_files a b \<and> (rc_failed a \<longrightarrow> rc_failed b)"
  by (auto simp: OnFrame_push_def close_opt_def Fail_def same_files_def contents_def
      split: option.splits if_splits prod.splits)

lemma disk_step:
  assumes "rstep env cfg s t" "disk s"
  shows "disk t"
  using assms(1)
proof (cases rule: rstep.cases)
  case (p_refuse rcd)
  then show ?thesis using assms(2) by (auto intro!: disk_keep [of s] simp: OnFrame_def same_files_def contents_def)
next
  case (p_check rcd)
  then show ?thesis using assms(2) by (auto intro!: disk_keep [of s] simp: same_files_def)
next
  case (p_push rcd rc)
  then show ?thesis using assms(2) same_files_push [OF p_push(3)] by (auto intro!: disk_keep [of s])
next
  case (p_full rcd rc)
  then show ?thesis using assms(2) same_files_push [OF p_full(3)] by (auto intro!: disk_keep [of s])
next
  case o_stop
  then show ?thesis using assms(2)
    by (auto intro!: disk_keep [of s] simp: Stop_request_def close_opt_def same_files_def contents_def)
next
  case (w_pop rcd q)
  then show ?thesis using assms(2)
    by (auto intro!: disk_keep [of s] simp: with_queue_def same_files_def contents_def)
next
  case (w_append rcd rc)
  then show ?thesis using assms(2) Append_contents [OF _ _ _ w_append(3), of "rs_written s"]
    by (simp add: disk_def)
next
  case (w_throw rcd rc)
  then have "manifests_ok rc" using assms(2) Append_contents [OF _ _ _ w_throw(3), of "rs_written s"]
    by (simp add: disk_def)
  then show ?thesis using w_throw by (simp add: disk_def Fail_def manifests_ok_def)
next
  case w_end
  then show ?thesis using assms(2) by (auto intro!: disk_keep [of s] simp: same_files_def)
next
  case w_sleep
  then show ?thesis using assms(2) by (auto intro!: disk_keep [of s] simp: same_files_def)
next
  case w_not_due
  then show ?thesis using assms(2) by (auto intro!: disk_keep [of s] simp: same_files_def)
next
  case (w_flush rc)
  then show ?thesis using assms(2) same_files_flush [OF w_flush(3)] flush_core [OF w_flush(3)]
    by (auto intro!: disk_keep [of s] simp: same_core_def)
next
  case (w_flush_throw rc)
  then show ?thesis using assms(2) same_files_flush [OF w_flush_throw(3)]
    by (auto intro!: disk_keep [of s] simp: same_files_def Fail_def contents_def)
next
  case (w_leave pending)
  then show ?thesis using assms(2)
    by (auto intro!: disk_keep [of s] simp: leave_loop_def close_opt_def same_files_def contents_def)
next
  case (w_drain rcd q)
  then show ?thesis using assms(2)
    by (auto intro!: disk_keep [of s] simp: with_queue_def same_files_def contents_def)
next
  case w_done
  let ?a = "rs_rc s" and ?b = "CloseSplit env (rs_rc s)"
  have a: "manifests_ok ?a" "\<not> rc_failed ?a \<longrightarrow> stored ?a (rs_written s) \<and> live ?a"
    using assms(2) w_done by (simp_all add: disk_def)
  have "tidy ?a ?b" using a by (intro tidy_CloseSplit) (auto intro: stored_matches)
  then have b: "manifests_ok ?b" "contents ?b = contents ?a" "\<not> rc_failed ?b \<longrightarrow> \<not> rc_failed ?a"
    using a by (auto simp: tidy_def)
  have "stored ?b (rs_written s) \<and> sealed (rc_files ?b)" if "\<not> rc_failed ?b"
    using that a b stored_cong [OF b(2)] stored_matches [of ?a "rs_written s"] CloseSplit_sealed [OF that]
    by (simp add: live_def matches_def)
  then show ?thesis using w_done b(1) by (simp add: disk_def)
qed

lemma Start_disk:
  assumes "Start env cfg new_recorder = (True, rc)"
  shows "disk (started rc)"
proof -
  define b where "b = new_recorder\<lparr>rc_started := True, rc_io_calls := Suc (Suc 0), rc_directory_fd := True,
    rc_queue := Some (new_BoundedQueue (cfg_queue_capacity cfg))\<rparr>"
  have rc: "fst (OpenSplit env b)" "rc = (snd (OpenSplit env b))\<lparr>rc_accepting := True\<rparr>"
    using assms by (auto simp: Start_def Let_def also_do_def syscall_def new_recorder_def b_def
        split: if_splits prod.splits)
  then have "fresh [] True (snd (OpenSplit env b))"
    using OpenSplit_fresh [of env b] by (auto simp: b_def new_recorder_def split: if_splits)
  then obtain f where f: "rc_files rc = [f]" "sp_bin f = []" "sp_rows f = []" "unclean f" "\<not> sp_torn f"
    "rc_split_frames rc = 0" "rc_split_bytes rc = 0" "rc_split_scans rc = 0" "rc_json_fd rc"
    using rc(2) by (auto simp: fresh_def)
  then have "stored rc []" unfolding stored_def
    by (intro exI [of _ "[]"]) (simp add: split_ok_def)
  then show ?thesis using f
    by (simp add: disk_def started_def manifests_ok_def unclean_ok live_def last_open_def sealed_def)
qed

lemma reachable_disk: "reachable env cfg s \<Longrightarrow> disk s"
  by (induction rule: reachable.induct) (auto intro: Start_disk disk_step)

text \<open>A run on which no system call fails: one telegram is recorded and the recorder stops.\<close>

definition sample_cfg :: rr_config where
  "sample_cfg = \<lparr>cfg_output_path = ''a'', cfg_queue_capacity = 4, cfg_max_file_bytes = 0, cfg_flush_interval_ms = 1\<rparr>"

definition sample_rec :: RawRecord where
  "sample_rec = \<lparr>rr_frame = \<lparr>frame_data = [1, 2, 3], receive_timestamp_us = 9, checksum_valid = True\<rparr>,
     rr_is_scan = True, rr_device_time_unix_us = 5, rr_clock_step_us = 0, rr_clock_quality_flags = 1\<rparr>"

definition quiet :: io_env where
  "quiet n = None"

text \<open>The recorder after \<open>Start\<close>, after the telegram was pushed, taken, appended, and after the stop.\<close>

definition sample_mf :: "bool \<Rightarrow> nat \<Rightarrow> nat \<Rightarrow> nat \<Rightarrow> manifest" where
  "sample_mf cl n sc b = \<lparr>mf_split_index = 0, mf_frames_total = n, mf_scans_total = sc, mf_bytes_total = b,
     mf_closed_cleanly = cl\<rparr>"

definition sample_rc :: recorder where
  "sample_rc = new_recorder\<lparr>rc_started := True, rc_io_calls := 13, rc_directory_fd := True, rc_json_fd := True,
     rc_bin_fd := True, rc_csv_fd := True, rc_files_created := 1, rc_accepting := True,
     rc_queue := Some (new_BoundedQueue 4),
     rc_files := [new_split\<lparr>sp_manifest := Some (sample_mf False 0 0 0)\<rparr>]\<rparr>"

definition sample_rc2 :: recorder where
  "sample_rc2 = sample_rc\<lparr>rc_frames_queued := 1, rc_scans_queued := 1, rc_io_calls := 15,
     rc_split_bytes := 3, rc_split_frames := 1, rc_split_scans := 1, rc_frames_written := 1, rc_scans_written := 1,
     rc_bytes_written := 3,
     rc_files := [\<lparr>sp_bin = [1, 2, 3], sp_rows = [row_at 0 sample_rec], sp_torn = False,
                   sp_manifest = Some (sample_mf False 0 0 0)\<rparr>]\<rparr>"

definition sample_rc3 :: recorder where
  "sample_rc3 = sample_rc2\<lparr>rc_accepting := False, rc_queue := Some (close_queue (new_BoundedQueue 4))\<rparr>"

definition sample_run :: rsys where
  "sample_run = \<lparr>rs_rc = CloseSplit quiet sample_rc3, rs_w = WDone, rs_p = PIdle, rs_accepted = [sample_rec],
     rs_written = [sample_rec], rs_discarded = [], rs_refused = 0\<rparr>"

lemma quiet_calls [simp]:
  "also_do (True, st) f = f st" "syscall quiet st = (True, st\<lparr>rc_io_calls := rc_io_calls st + 1\<rparr>)"
  by (simp_all add: also_do_def syscall_def quiet_def)

lemma sample_Start: "Start quiet sample_cfg new_recorder = (True, sample_rc)"
  by (simp add: sample_rc_def Start_def OpenSplit_def WriteMetadata_def WriteAll_csv_def Sync_def
      on_current_def new_recorder_def sample_cfg_def new_split_def sample_mf_def)

definition sample_held :: recorder where
  "sample_held = sample_rc\<lparr>rc_frames_queued := 1, rc_scans_queued := 1\<rparr>"

lemma sample_push:
  "OnFrame_push sample_rec sample_rc = (True, with_queue ((new_BoundedQueue 4)\<lparr>bq_items := [sample_rec]\<rparr>) sample_held)"
  by (simp add: OnFrame_push_def sample_rc_def sample_held_def new_BoundedQueue_def try_push_def new_recorder_def
      with_queue_def sample_rec_def)

lemma sample_Append: "Append quiet sample_cfg sample_rec sample_held = (True, sample_rc2)"
  by (simp add: Append_def needs_split_def sample_held_def sample_rc2_def sample_rc_def new_recorder_def sample_rec_def
      WriteAll_bin_def WriteAll_csv_def on_current_def kMaxOffset_def row_of_def
      row_at_def rec_bytes_def new_split_def sample_mf_def)

definition sample_sys :: "recorder \<Rightarrow> wloc \<Rightarrow> ploc \<Rightarrow> RawRecord list \<Rightarrow> RawRecord list \<Rightarrow> rsys" where
  "sample_sys rc w p acc wr = \<lparr>rs_rc = rc, rs_w = w, rs_p = p, rs_accepted = acc, rs_written = wr,
     rs_discarded = [], rs_refused = 0\<rparr>"

lemma sample_reachable: "reachable quiet sample_cfg sample_run"
proof -
  let ?R = "reachable quiet sample_cfg" and ?r = sample_rec
  let ?q = "(new_BoundedQueue 4)\<lparr>bq_items := [sample_rec]\<rparr>"
  have "?R (sample_sys sample_rc WLoop PIdle [] [])"
    using reachable.start [OF sample_Start] by (simp add: started_def sample_sys_def)
  from reachable.step [OF this rstep.p_check [of _ _ _ ?r]]
  have "?R (sample_sys sample_rc WLoop (PChecked ?r) [] [])" by (simp add: sample_sys_def sample_rc_def)
  from reachable.step [OF this rstep.p_push [of _ ?r]]
  have "?R (sample_sys (with_queue ?q sample_held) WLoop PIdle [?r] [])"
    using sample_push by (simp add: sample_sys_def)
  from reachable.step [OF this rstep.w_pop [of _ ?r "new_BoundedQueue 4"]]
  have "?R (sample_sys sample_held (WHolding ?r) PIdle [?r] [])"
    by (simp add: sample_sys_def with_queue_def queue_of_def try_pop_def new_BoundedQueue_def sample_held_def sample_rc_def
        new_recorder_def)
  from reachable.step [OF this rstep.w_append [of _ ?r]]
  have "?R (sample_sys sample_rc2 WFlush PIdle [?r] [?r])" using sample_Append by (simp add: sample_sys_def)
  from reachable.step [OF this rstep.w_not_due]
  have "?R (sample_sys sample_rc2 WLoop PIdle [?r] [?r])" by (simp add: sample_sys_def)
  from reachable.step [OF this rstep.o_stop]
  have "?R (sample_sys sample_rc3 WLoop PIdle [?r] [?r])"
    by (simp add: sample_sys_def Stop_request_def close_opt_def sample_rc3_def sample_rc2_def sample_rc_def)
  from reachable.step [OF this rstep.w_end]
  have "?R (sample_sys sample_rc3 (WExit None) PIdle [?r] [?r])"
    by (simp add: sample_sys_def queue_of_def sample_rc3_def close_queue_def new_BoundedQueue_def queue_size_def)
  from reachable.step [OF this rstep.w_leave [of _ None]]
  have "?R (sample_sys sample_rc3 WDrain PIdle [?r] [?r])"
    by (simp add: sample_sys_def leave_loop_def close_opt_def sample_rc3_def close_queue_def sample_rc2_def
        sample_rc_def new_recorder_def)
  from reachable.step [OF this rstep.w_done]
  show ?thesis
    by (simp add: sample_sys_def sample_run_def queue_of_def sample_rc3_def try_pop_def close_queue_def new_BoundedQueue_def)
qed

lemma sample_final:
  "rs_w sample_run = WDone" "rs_p sample_run = PIdle" "rs_accepted sample_run = [sample_rec]"
  "\<not> rc_failed (rs_rc sample_run)"
  by (simp_all add: sample_run_def CloseSplit_def close_files_def close_manifest_def attempt_def CloseFd_def Sync_def
      WriteMetadata_def on_current_def sample_rc3_def sample_rc2_def sample_rc_def new_recorder_def)

section \<open>The properties of the recorder\<close>

text \<open>
  C10: whatever the receive thread, the writer thread and the owner do, in every interleaving and with
  every failing system call, no telegram disappears: once the writer has ended and no call is under
  way, every telegram offered is counted as written or as dropped, and unless the recorder reports a
  failure every telegram the queue took has been written, in order.
\<close>

theorem recorder_accounts:
  assumes "reachable env cfg s" "rs_w s = WDone" "rs_p s = PIdle"
  shows "length (rs_accepted s) + rs_refused s =
           rc_frames_written (rs_rc s) + rc_frames_dropped (rs_rc s) \<and>
         rc_frames_queued (rs_rc s) = length (rs_accepted s) \<and>
         (\<exists>lost. rs_accepted s = rs_written s @ lost) \<and>
         (\<not> rc_failed (rs_rc s) \<longrightarrow> rs_written s = rs_accepted s)"
  using reachable_acct [OF assms(1)] assms(2) by (auto simp: acct_def)

theorem recorder_accounts_witness:
  "reachable quiet sample_cfg sample_run \<and> rs_written sample_run = [sample_rec] \<and>
   rc_frames_written (rs_rc sample_run) + rc_frames_dropped (rs_rc sample_run) = 1 + rs_refused sample_run"
  using recorder_accounts [OF sample_reachable sample_final(1,2)] sample_reachable sample_final
  by simp

text \<open>
  C4: when the writer has ended without a reported failure, the files on disk hold every telegram the
  queue accepted, in order: the splits cut the accepted telegrams into consecutive groups, each binary
  file is the concatenation of its group's telegrams, each index has one row per telegram with its offset
  and length, and each manifest says it was closed cleanly and counts exactly its split.
\<close>

theorem recorder_files_complete:
  assumes "reachable env cfg s" "rs_w s = WDone" "\<not> rc_failed (rs_rc s)"
  shows "\<exists>gs. rs_accepted s = concat gs \<and>
    list_all2 (\<lambda>f g. sp_bin f = concat (map rec_bytes g) \<and> sp_rows f = rows_from 0 g \<and>
       (\<exists>m. sp_manifest f = Some m \<and> mf_closed_cleanly m \<and> mf_frames_total m = length g \<and>
            mf_bytes_total m = length (sp_bin f) \<and> mf_scans_total m = length (filter rr_is_scan g)))
     (rc_files (rs_rc s)) gs"
proof -
  from reachable_disk [OF assms(1)] assms(2,3) have d: "manifests_ok (rs_rc s)" "stored (rs_rc s) (rs_written s)"
    "sealed (rc_files (rs_rc s))" by (simp_all add: disk_def)
  from reachable_acct [OF assms(1)] assms(2,3) have acc: "rs_accepted s = rs_written s" by (auto simp: acct_def)
  from d(2) obtain gs g where g: "list_all2 split_ok (rc_files (rs_rc s)) (gs @ [g])" "rs_written s = concat gs @ g"
    by (auto simp: stored_def)
  show ?thesis
  proof (rule exI [of _ "gs @ [g]"], intro conjI)
    show "rs_accepted s = concat (gs @ [g])" using acc g by simp
    show "list_all2 (\<lambda>f g. sp_bin f = concat (map rec_bytes g) \<and> sp_rows f = rows_from 0 g \<and>
       (\<exists>m. sp_manifest f = Some m \<and> mf_closed_cleanly m \<and> mf_frames_total m = length g \<and>
            mf_bytes_total m = length (sp_bin f) \<and> mf_scans_total m = length (filter rr_is_scan g)))
     (rc_files (rs_rc s)) (gs @ [g])"
    proof (rule list.rel_mono_strong [OF g(1)])
      fix f g assume "f \<in> set (rc_files (rs_rc s))" "split_ok f g"
      moreover obtain m where "sp_manifest f = Some m" "mf_closed_cleanly m"
        using d(3) calculation(1) by (auto simp: sealed_def)
      ultimately show "sp_bin f = concat (map rec_bytes g) \<and> sp_rows f = rows_from 0 g \<and>
       (\<exists>m. sp_manifest f = Some m \<and> mf_closed_cleanly m \<and> mf_frames_total m = length g \<and>
            mf_bytes_total m = length (sp_bin f) \<and> mf_scans_total m = length (filter rr_is_scan g))"
        using d(1) by (auto simp: manifests_ok_def manifest_ok_def split_ok_def)
    qed
  qed
qed

theorem recorder_files_complete_witness:
  "\<exists>gs. [sample_rec] = concat gs \<and> list_all2 (\<lambda>f g. sp_bin f = concat (map rec_bytes g)) (rc_files (rs_rc sample_run)) gs"
  using recorder_files_complete [OF sample_reachable sample_final(1,4)] unfolding sample_final(3)
  by (blast intro: list.rel_mono_strong)

text \<open>
  C11: a manifest on disk never claims more than is there: in every reachable state, with every failing
  system call and every interleaving, a manifest that says its split was closed cleanly belongs to a
  split without a torn write, and its totals are the rows, the bytes and the scans of that split.
\<close>

theorem manifests_never_lie:
  assumes "reachable env cfg s" "f \<in> set (rc_files (rs_rc s))" "sp_manifest f = Some m" "mf_closed_cleanly m"
  shows "\<not> sp_torn f \<and> mf_frames_total m = length (sp_rows f) \<and> mf_bytes_total m = length (sp_bin f) \<and>
         mf_scans_total m = length (filter row_is_scan (sp_rows f))"
  using reachable_disk [OF assms(1)] assms(2-4) by (auto simp: disk_def manifests_ok_def manifest_ok_def)

lemma sample_manifest:
  "\<exists>f. rc_files (rs_rc sample_run) = [f] \<and> sp_manifest f = Some (sample_mf True 1 1 3) \<and> mf_closed_cleanly (sample_mf True 1 1 3)"
  by (simp add: sample_run_def CloseSplit_def close_files_def close_manifest_def attempt_def CloseFd_def Sync_def
      WriteMetadata_def on_current_def sample_rc3_def sample_rc2_def sample_rc_def new_recorder_def sample_mf_def)

theorem manifests_never_lie_witness:
  "\<exists>f. f \<in> set (rc_files (rs_rc sample_run)) \<and> \<not> sp_torn f \<and> length (sp_bin f) = mf_bytes_total (sample_mf True 1 1 3)"
proof -
  obtain f where f: "f \<in> set (rc_files (rs_rc sample_run))" "sp_manifest f = Some (sample_mf True 1 1 3)"
    "mf_closed_cleanly (sample_mf True 1 1 3)" using sample_manifest by auto
  from manifests_never_lie [OF sample_reachable f] f(1) show ?thesis by auto
qed

end
