(* ===== verification/Scan_Data_Parser.thy ===== *)
theory Scan_Data_Parser
  imports Scan_Data
begin

text \<open>
  \<^verbatim>\<open>lms4xxx_driver/src/scan_data_parser.cpp\<close>: the parser of the \<^verbatim>\<open>LMDscandata\<close> payload and its fast
  variant for live monitoring. A read is a raw pointer access in the source, so reading past the end
  is its own outcome here, \<open>OutOfBounds\<close>, next to the error codes the parser returns. The output
  parameter is a state passed through the sections; its content after an error is not used by any
  caller and is not modelled. Positions are natural numbers: the lemmas show that they never exceed
  the length of the payload. Log lines are not modelled.
\<close>

section \<open>The reader\<close>

datatype fault = Err ErrorCode | OutOfBounds

record Reader =
  rd_data :: bytes
  rd_pos :: nat

definition HasBytes :: "Reader \<Rightarrow> nat \<Rightarrow> bool" where
  "HasBytes r n \<longleftrightarrow> rd_pos r \<le> length (rd_data r) \<and> n \<le> length (rd_data r) - rd_pos r"

text \<open>\<^verbatim>\<open>len - pos\<close> on \<^verbatim>\<open>size_t\<close>.\<close>

definition Remaining :: "Reader \<Rightarrow> nat" where
  "Remaining r = (length (rd_data r) + 2 ^ 64 - rd_pos r) mod 2 ^ 64"

definition Skip :: "nat \<Rightarrow> Reader \<Rightarrow> Reader" where
  "Skip n r = r\<lparr>rd_pos := rd_pos r + n\<rparr>"

definition read_n :: "nat \<Rightarrow> (bytes \<Rightarrow> 'a) \<Rightarrow> Reader \<Rightarrow> fault + 'a \<times> Reader" where
  "read_n n f r =
     (if rd_pos r + n \<le> length (rd_data r) then Inr (f (drop (rd_pos r) (rd_data r)), Skip n r)
      else Inl OutOfBounds)"

definition ReadUint8 :: "Reader \<Rightarrow> fault + u8 \<times> Reader" where
  "ReadUint8 = read_n 1 (\<lambda>bs. bs ! 0)"

definition ReadUint16 :: "Reader \<Rightarrow> fault + u16 \<times> Reader" where
  "ReadUint16 = read_n 2 DecodeUint16"

definition ReadInt32 :: "Reader \<Rightarrow> fault + i32 \<times> Reader" where
  "ReadInt32 = read_n 4 DecodeInt32"

definition ReadUint32 :: "Reader \<Rightarrow> fault + u32 \<times> Reader" where
  "ReadUint32 = read_n 4 DecodeUint32"

definition ReadFloat :: "Reader \<Rightarrow> fault + float32 \<times> Reader" where
  "ReadFloat = read_n 4 DecodeFloat"

definition ReadString :: "nat \<Rightarrow> Reader \<Rightarrow> fault + string \<times> Reader" where
  "ReadString len = read_n len (\<lambda>bs. DecodeString bs len)"

lemmas reads = ReadUint8_def ReadUint16_def ReadInt32_def ReadUint32_def ReadFloat_def ReadString_def

text \<open>Sequencing of a read with the rest of a section.\<close>

definition rd :: "fault + 'a \<times> Reader \<Rightarrow> ('a \<Rightarrow> Reader \<Rightarrow> fault + 'b) \<Rightarrow> fault + 'b" where
  "rd x f = bindE x (\<lambda>(a, r). f a r)"

definition require :: "bool \<Rightarrow> ErrorCode \<Rightarrow> fault + 'a \<Rightarrow> fault + 'a" where
  "require c e k = (if c then k else Inl (Err e))"

section \<open>The sections of a telegram\<close>

definition kMax16BitChannelCount :: u16 where "kMax16BitChannelCount = 4"
definition kMaxEncoderCount :: u16 where "kMaxEncoderCount = 2"
definition kMax8BitChannelCount :: u16 where "kMax8BitChannelCount = 1"

definition IdentifyChannel16 :: "string \<Rightarrow> ChannelContent16" where
  "IdentifyChannel16 name =
     (if name = ''DIST1'' then kDist1 else if name = ''RSSI1'' then kRssi1
      else if name = ''REFL1'' then kRefl1 else if name = ''ANGL1'' then kAngl1 else kUnknown16)"

definition IdentifyChannel8 :: "string \<Rightarrow> ChannelContent8" where
  "IdentifyChannel8 name = (if name = ''QLTY1'' then kQlty1 else kUnknown8)"

definition ParseDeviceInfo :: "Reader \<Rightarrow> ScanData \<Rightarrow> fault + ScanData \<times> Reader" where
  "ParseDeviceInfo r out =
     require (HasBytes r 28) kFrameTooShort (
     rd (ReadUint16 r) (\<lambda>version r.
     rd (ReadUint16 r) (\<lambda>device r.
     rd (ReadUint32 r) (\<lambda>serial r.
     rd (ReadUint8 r) (\<lambda>status1 r.
     rd (ReadUint8 r) (\<lambda>status2 r.
     rd (ReadUint16 r) (\<lambda>telegram r.
     rd (ReadUint16 r) (\<lambda>scan r.
     rd (ReadUint32 r) (\<lambda>startup r.
     rd (ReadUint32 r) (\<lambda>transmission r.
     rd (ReadUint8 r) (\<lambda>in1 r.
     rd (ReadUint8 r) (\<lambda>in2 r.
     rd (ReadUint8 r) (\<lambda>out1 r.
     rd (ReadUint8 r) (\<lambda>out2 r.
       Inr (out\<lparr>device_info := \<lparr>version_number = version, device_number = device,
                  serial_number = serial, device_status_1 = status1, device_status_2 = status2\<rparr>,
                telegram_counter := telegram, scan_counter := scan,
                time_since_startup_us := startup, transmission_time_us := transmission,
                digital_input_1 := in1, digital_input_2 := in2,
                digital_output_1 := out1, digital_output_2 := out2\<rparr>,
            Skip 2 r)))))))))))))))"

definition ParseFrequency :: "Reader \<Rightarrow> ScanData \<Rightarrow> fault + ScanData \<times> Reader" where
  "ParseFrequency r out =
     require (HasBytes r 8) kFrameTooShort (
     rd (ReadUint32 r) (\<lambda>sf r.
     rd (ReadUint32 r) (\<lambda>mf r.
       Inr (out\<lparr>scan_frequency := sf, measurement_frequency := mf\<rparr>, r))))"

text \<open>The loop over the encoder blocks, \<open>n\<close> of them left; \<open>i\<close> is the loop counter.\<close>

fun encoder_loop :: "nat \<Rightarrow> nat \<Rightarrow> Reader \<Rightarrow> ScanData \<Rightarrow> fault + ScanData \<times> Reader" where
  "encoder_loop 0 i r out = Inr (out, r)"
| "encoder_loop (Suc n) i r out =
     require (HasBytes r 6) kFrameTooShort (
     rd (ReadUint32 r) (\<lambda>position r.
       encoder_loop n (Suc i) (Skip 2 r)
         (if i = 0 then out\<lparr>encoder_position := position\<rparr> else out)))"

definition ParseEncoder :: "Reader \<Rightarrow> ScanData \<Rightarrow> fault + ScanData \<times> Reader" where
  "ParseEncoder r out =
     require (HasBytes r 2) kFrameTooShort (
     rd (ReadUint16 r) (\<lambda>encoder_count r.
     require (\<not> encoder_count > kMaxEncoderCount) kProtocolError (
       encoder_loop (unat encoder_count) 0 r (out\<lparr>has_encoder := encoder_count > 0\<rparr>))))"

fun read_u16s :: "nat \<Rightarrow> Reader \<Rightarrow> fault + u16 list \<times> Reader" where
  "read_u16s 0 r = Inr ([], r)"
| "read_u16s (Suc n) r =
     rd (ReadUint16 r) (\<lambda>v r. rd (read_u16s n r) (\<lambda>vs r. Inr (v # vs, r)))"

fun read_u8s :: "nat \<Rightarrow> Reader \<Rightarrow> fault + u8 list \<times> Reader" where
  "read_u8s 0 r = Inr ([], r)"
| "read_u8s (Suc n) r =
     rd (ReadUint8 r) (\<lambda>v r. rd (read_u8s n r) (\<lambda>vs r. Inr (v # vs, r)))"

definition kChannelHeaderSize :: nat where "kChannelHeaderSize = 5 + 4 + 4 + 4 + 2 + 2"

text \<open>One round of the channel loops.\<close>

definition ParseChannel16 :: "Reader \<Rightarrow> fault + ChannelData16 \<times> Reader" where
  "ParseChannel16 r =
     require (HasBytes r kChannelHeaderSize) kFrameTooShort (
     rd (ReadString 5 r) (\<lambda>name r.
     rd (ReadFloat r) (\<lambda>factor r.
     rd (ReadFloat r) (\<lambda>off r.
     rd (ReadInt32 r) (\<lambda>start r.
     rd (ReadUint16 r) (\<lambda>step r.
     rd (ReadUint16 r) (\<lambda>num r.
     require (\<not> unat num > kMaxPointsPerScan) kProtocolError (
     require (HasBytes r (unat num * 2)) kFrameTooShort (
     rd (read_u16s (unat num) r) (\<lambda>vs r.
       Inr (\<lparr>content16 = IdentifyChannel16 name, scale_factor16 = factor, scale_offset16 = off,
             start_angle16 = start, angle_step16 = step, num_data16 = num, data16 = vs\<rparr>, r)))))))))))"

definition ParseChannel8 :: "Reader \<Rightarrow> fault + ChannelData8 \<times> Reader" where
  "ParseChannel8 r =
     require (HasBytes r kChannelHeaderSize) kFrameTooShort (
     rd (ReadString 5 r) (\<lambda>name r.
     rd (ReadFloat r) (\<lambda>factor r.
     rd (ReadFloat r) (\<lambda>off r.
     rd (ReadInt32 r) (\<lambda>start r.
     rd (ReadUint16 r) (\<lambda>step r.
     rd (ReadUint16 r) (\<lambda>num r.
     require (\<not> unat num > kMaxPointsPerScan) kProtocolError (
     require (HasBytes r (unat num)) kFrameTooShort (
     rd (read_u8s (unat num) r) (\<lambda>vs r.
       Inr (\<lparr>content8 = IdentifyChannel8 name, scale_factor8 = factor, scale_offset8 = off,
             start_angle8 = start, angle_step8 = step, num_data8 = num, data8 = vs\<rparr>, r)))))))))))"

fun channels16_loop :: "nat \<Rightarrow> Reader \<Rightarrow> ScanData \<Rightarrow> fault + ScanData \<times> Reader" where
  "channels16_loop 0 r out = Inr (out, r)"
| "channels16_loop (Suc n) r out =
     rd (ParseChannel16 r) (\<lambda>channel r.
       channels16_loop n r (out\<lparr>channels_16bit := channels_16bit out @ [channel]\<rparr>))"

definition ParseChannels16bit :: "Reader \<Rightarrow> ScanData \<Rightarrow> fault + ScanData \<times> Reader" where
  "ParseChannels16bit r out =
     require (HasBytes r 2) kFrameTooShort (
     rd (ReadUint16 r) (\<lambda>channel_count r.
     require (\<not> channel_count > kMax16BitChannelCount) kProtocolError (
       channels16_loop (unat channel_count) r out)))"

fun channels8_loop :: "nat \<Rightarrow> Reader \<Rightarrow> ScanData \<Rightarrow> fault + ScanData \<times> Reader" where
  "channels8_loop 0 r out = Inr (out, r)"
| "channels8_loop (Suc n) r out =
     rd (ParseChannel8 r) (\<lambda>channel r.
       channels8_loop n r (out\<lparr>channels_8bit := channels_8bit out @ [channel]\<rparr>))"

definition ParseChannels8bit :: "Reader \<Rightarrow> ScanData \<Rightarrow> fault + ScanData \<times> Reader" where
  "ParseChannels8bit r out =
     require (HasBytes r 2) kFrameTooShort (
     rd (ReadUint16 r) (\<lambda>channel_count r.
     require (\<not> channel_count > kMax8BitChannelCount) kProtocolError (
       channels8_loop (unat channel_count) r out)))"

definition ParsePosition :: "Reader \<Rightarrow> ScanData \<Rightarrow> fault + ScanData \<times> Reader" where
  "ParsePosition r out =
     require (HasBytes r 4) kFrameTooShort (
     rd (ReadFloat r) (\<lambda>v r. Inr (out\<lparr>y_rotation := v\<rparr>, r)))"

definition ParseDeviceName :: "Reader \<Rightarrow> ScanData \<Rightarrow> fault + ScanData \<times> Reader" where
  "ParseDeviceName r out =
     require (HasBytes r 2) kFrameTooShort (
     rd (ReadUint16 r) (\<lambda>name_flag r.
     require (\<not> name_flag > 1) kProtocolError (
       let out = out\<lparr>has_device_name := name_flag = 1\<rparr> in
       if has_device_name out then
         require (HasBytes r 2) kFrameTooShort (
         rd (ReadUint16 r) (\<lambda>name_len r.
         require (\<not> name_len > 16) kProtocolError (
         require (HasBytes r (unat name_len)) kFrameTooShort (
         rd (ReadString (unat name_len) r) (\<lambda>name r. Inr (out\<lparr>device_name := name\<rparr>, r))))))
       else Inr (out, r))))"

definition ParseTimestamp :: "Reader \<Rightarrow> ScanData \<Rightarrow> fault + ScanData \<times> Reader" where
  "ParseTimestamp r out =
     require (HasBytes r 2) kFrameTooShort (
     rd (ReadUint16 r) (\<lambda>time_flag r.
     require (\<not> time_flag > 1) kProtocolError (
       let out = out\<lparr>has_timestamp := time_flag = 1\<rparr> in
       if has_timestamp out then
         require (HasBytes r 11) kFrameTooShort (
         rd (ReadUint16 r) (\<lambda>year r.
         rd (ReadUint8 r) (\<lambda>month r.
         rd (ReadUint8 r) (\<lambda>day r.
         rd (ReadUint8 r) (\<lambda>hour r.
         rd (ReadUint8 r) (\<lambda>minute r.
         rd (ReadUint8 r) (\<lambda>second r.
         rd (ReadUint32 r) (\<lambda>us r.
           Inr (out\<lparr>timestamp := \<lparr>ts_year = year, ts_month = month, ts_day = day, ts_hour = hour,
                      ts_minute = minute, ts_second = second, ts_microsecond = us\<rparr>\<rparr>, r)))))))))
       else Inr (out, r))))"

text \<open>The last two checks, shared by both parsers: the optional suffix, then nothing may be left.\<close>

definition finish_parse :: "Reader \<Rightarrow> ScanData \<Rightarrow> fault + ScanData" where
  "finish_parse r out =
     (let r = (if HasBytes r 2 then Skip 2 r else r) in
      require (\<not> Remaining r \<noteq> 0) kProtocolError (Inr out))"

definition Parse :: "bytes \<Rightarrow> fault + ScanData" where
  "Parse data =
     require (\<not> length data < 52) kFrameTooShort (
     rd (ParseDeviceInfo \<lparr>rd_data = data, rd_pos = 0\<rparr> new_ScanData) (\<lambda>out r.
     rd (ParseFrequency r out) (\<lambda>out r.
     rd (ParseEncoder r out) (\<lambda>out r.
     rd (ParseChannels16bit r out) (\<lambda>out r.
     rd (ParseChannels8bit r out) (\<lambda>out r.
     rd (ParsePosition r out) (\<lambda>out r.
     rd (ParseDeviceName r out) (\<lambda>out r.
     rd (ParseTimestamp r out) (\<lambda>out r. finish_parse r out)))))))))"

section \<open>The fast parser\<close>

text \<open>Skipping the channels of one width; the loop and its count check.\<close>

fun skip_channels :: "nat \<Rightarrow> nat \<Rightarrow> Reader \<Rightarrow> fault + unit \<times> Reader" where
  "skip_channels sample_bytes 0 r = Inr ((), r)"
| "skip_channels sample_bytes (Suc n) r =
     require (HasBytes r 21) kFrameTooShort (
     rd (ReadUint16 (Skip 19 r)) (\<lambda>samples r.
       let bytes = unat samples * sample_bytes in
       require (HasBytes r bytes) kFrameTooShort (
         skip_channels sample_bytes n (Skip bytes r))))"

definition skip_channel_block :: "nat \<Rightarrow> Reader \<Rightarrow> fault + unit \<times> Reader" where
  "skip_channel_block sample_bytes r =
     require (HasBytes r 2) kFrameTooShort (
     rd (ReadUint16 r) (\<lambda>channels r.
     require (\<not> unat channels > Remaining r div 21) kFrameTooShort (
       skip_channels sample_bytes (unat channels) r)))"

definition skip_name :: "u16 \<Rightarrow> Reader \<Rightarrow> fault + unit \<times> Reader" where
  "skip_name name_flag r =
     (if name_flag = 1 then
        require (HasBytes r 2) kFrameTooShort (
        rd (ReadUint16 r) (\<lambda>bytes r.
        require (HasBytes r (unat bytes)) kFrameTooShort (Inr ((), Skip (unat bytes) r))))
      else Inr ((), r))"

definition ParseTimestampFast :: "bytes \<Rightarrow> fault + ScanData" where
  "ParseTimestampFast data =
     (let r = \<lparr>rd_data = data, rd_pos = 0\<rparr> in
      require (HasBytes r 36) kFrameTooShort (
      rd (ReadUint16 (Skip 10 r)) (\<lambda>telegram r.
      rd (ReadUint16 r) (\<lambda>scan r.
      rd (ReadUint32 r) (\<lambda>startup r.
      rd (ReadUint32 r) (\<lambda>transmission r.
        let out = new_ScanData\<lparr>telegram_counter := telegram, scan_counter := scan,
                    time_since_startup_us := startup, transmission_time_us := transmission\<rparr>;
            r = Skip 14 r in
        require (HasBytes r 2) kFrameTooShort (
        rd (ReadUint16 r) (\<lambda>encoders r.
        let encoder_bytes = unat encoders * 6 in
        require (HasBytes r encoder_bytes) kFrameTooShort (
        rd (skip_channel_block 2 (Skip encoder_bytes r)) (\<lambda>_ r.
        rd (skip_channel_block 1 r) (\<lambda>_ r.
        require (HasBytes r 6) kFrameTooShort (
        rd (ReadUint16 (Skip 4 r)) (\<lambda>name_flag r.
        require (\<not> name_flag > 1) kProtocolError (
        rd (skip_name name_flag r) (\<lambda>_ r.
        require (HasBytes r 2) kFrameTooShort (
        rd (ReadUint16 r) (\<lambda>flag _.
        require (\<not> flag > 1) kProtocolError (
        rd (ParseTimestamp r out) (\<lambda>out r. finish_parse r out)))))))))))))))))))"

section \<open>No read leaves the payload\<close>

lemma HasBytes_iff: "HasBytes r n \<longleftrightarrow> rd_pos r + n \<le> length (rd_data r)"
  by (auto simp: HasBytes_def)

lemma Skip_simps [simp]:
  "rd_pos (Skip n r) = rd_pos r + n" "rd_data (Skip n r) = rd_data r"
  "Skip m (Skip n r) = Skip (n + m) r" "Skip 0 r = r"
  by (simp_all add: Skip_def)

lemma rd_simps [simp]: "rd (Inr (a, r)) f = f a r" "rd (Inl e) f = Inl e"
  by (simp_all add: rd_def)

lemma rd_assoc: "rd (rd x f) g = rd x (\<lambda>a r. rd (f a r) g)"
  by (cases x) (auto simp: rd_def)

lemma rd_eq_Inr: "rd x f = Inr b \<longleftrightarrow> (\<exists>a r. x = Inr (a, r) \<and> f a r = Inr b)"
  by (cases x) (auto simp: rd_def)

lemma require_eq_Inr: "require c e k = Inr b \<longleftrightarrow> c \<and> k = Inr b"
  by (simp add: require_def)

definition safe :: "fault + 'a \<Rightarrow> bool" where
  "safe x \<longleftrightarrow> x \<noteq> Inl OutOfBounds"

lemma safe_require [intro]: "(c \<Longrightarrow> safe k) \<Longrightarrow> safe (require c e k)"
  by (simp add: safe_def require_def)

lemma safe_rd: "\<lbrakk> safe x; \<And>a r. x = Inr (a, r) \<Longrightarrow> safe (f a r) \<rbrakk> \<Longrightarrow> safe (rd x f)"
  by (cases x) (auto simp: safe_def rd_def)

lemma safe_Inr [simp, intro]: "safe (Inr x)"
  by (simp add: safe_def)

text \<open>After the check for \<open>n\<close> bytes the reads of a section are total.\<close>

lemma rd_read [simp]:
  "rd_pos r + n \<le> length (rd_data r) \<Longrightarrow>
   rd (read_n n g r) f = f (g (drop (rd_pos r) (rd_data r))) (Skip n r)"
  by (simp add: read_n_def)

lemma read_u16s_total:
  "rd_pos r + 2 * n \<le> length (rd_data r) \<Longrightarrow>
   \<exists>vs. read_u16s n r = Inr (vs, Skip (2 * n) r) \<and> length vs = n"
proof (induction n arbitrary: r)
  case (Suc n)
  from Suc.IH [of "Skip 2 r"] Suc.prems obtain vs
    where "read_u16s n (Skip 2 r) = Inr (vs, Skip (2 * Suc n) r)" "length vs = n"
    by auto
  with Suc.prems show ?case by (simp add: reads)
qed simp

lemma read_u8s_total:
  "rd_pos r + n \<le> length (rd_data r) \<Longrightarrow>
   \<exists>vs. read_u8s n r = Inr (vs, Skip n r) \<and> length vs = n"
proof (induction n arbitrary: r)
  case (Suc n)
  from Suc.IH [of "Skip 1 r"] Suc.prems obtain vs
    where "read_u8s n (Skip 1 r) = Inr (vs, Skip (Suc n) r)" "length vs = n"
    by auto
  with Suc.prems show ?case by (simp add: reads)
qed simp

lemma safe_sections:
  "safe (ParseDeviceInfo r out)" "safe (ParseFrequency r out)" "safe (ParsePosition r out)"
  "safe (ParseDeviceName r out)" "safe (ParseTimestamp r out)"
  by (auto simp: ParseDeviceInfo_def ParseFrequency_def ParsePosition_def ParseDeviceName_def
      ParseTimestamp_def HasBytes_iff reads Let_def intro!: safe_require)

lemma safe_encoder_loop: "safe (encoder_loop n i r out)"
  by (induction n arbitrary: i r out)
     (auto simp: HasBytes_iff reads intro!: safe_require)

lemma safe_ParseEncoder: "safe (ParseEncoder r out)"
  by (auto simp: ParseEncoder_def HasBytes_iff reads intro!: safe_require safe_encoder_loop)

lemma safe_ParseChannel16: "safe (ParseChannel16 r)"
  using read_u16s_total [of "Skip 21 r" "unat (DecodeUint16 (drop (rd_pos r + 19) (rd_data r)))"]
  by (auto simp: ParseChannel16_def HasBytes_iff reads kChannelHeaderSize_def mult.commute
      intro!: safe_require)

lemma safe_ParseChannel8: "safe (ParseChannel8 r)"
  using read_u8s_total [of "Skip 21 r" "unat (DecodeUint16 (drop (rd_pos r + 19) (rd_data r)))"]
  by (auto simp: ParseChannel8_def HasBytes_iff reads kChannelHeaderSize_def intro!: safe_require)

lemma safe_channel_loops: "safe (channels16_loop n r out)" "safe (channels8_loop n r out)"
  by (induction n arbitrary: r out)
     (auto intro!: safe_rd safe_ParseChannel16 safe_ParseChannel8)

lemma safe_channels: "safe (ParseChannels16bit r out)" "safe (ParseChannels8bit r out)"
  by (auto simp: ParseChannels16bit_def ParseChannels8bit_def HasBytes_iff reads
      intro!: safe_require safe_channel_loops)

lemma safe_finish: "safe (finish_parse r out)"
  by (auto simp: finish_parse_def Let_def)

lemma safe_skips:
  "safe (skip_channels k n r)" "safe (skip_channel_block k r)" "safe (skip_name fl r)"
proof -
  show loop: "safe (skip_channels k n r)" for n r
    by (induction n arbitrary: r)
       (auto simp: HasBytes_iff reads Let_def intro!: safe_require)
  show "safe (skip_channel_block k r)"
    by (auto simp: skip_channel_block_def HasBytes_iff reads intro!: safe_require loop)
  show "safe (skip_name fl r)"
    by (auto simp: skip_name_def HasBytes_iff reads intro!: safe_require)
qed

text \<open>
  C18: no telegram, however short, long or malformed, makes either parser read a byte outside the
  payload: every raw read is covered by a length check before it.
\<close>

theorem parsers_stay_in_bounds:
  "Parse data \<noteq> Inl OutOfBounds \<and> ParseTimestampFast data \<noteq> Inl OutOfBounds"
proof -
  have "safe (Parse data)"
    unfolding Parse_def
    by (intro safe_require safe_rd safe_sections safe_ParseEncoder safe_channels safe_finish)
  moreover have "safe (ParseTimestampFast data)"
    by (auto simp: ParseTimestampFast_def Let_def HasBytes_iff reads
        intro!: safe_require safe_rd [OF safe_skips(2)] safe_rd [OF safe_skips(3)]
          safe_rd [OF safe_sections(5)] safe_finish)
  ultimately show ?thesis by (simp add: safe_def)
qed

section \<open>What a successful parse says\<close>

text \<open>Every section leaves the reader inside the payload; \<open>fits r n\<close> are \<open>n\<close> more bytes.\<close>

definition monitored :: "ScanData \<Rightarrow> u16 \<times> u16 \<times> u32 \<times> u32" where
  "monitored s = (telegram_counter s, scan_counter s, time_since_startup_us s, transmission_time_us s)"

definition channels_of :: "ScanData \<Rightarrow> ChannelData16 list \<times> ChannelData8 list" where
  "channels_of s = (channels_16bit s, channels_8bit s)"

definition keeps :: "ScanData \<Rightarrow> ScanData \<Rightarrow> bool" where
  "keeps s t \<longleftrightarrow> monitored t = monitored s \<and> timestamp t = timestamp s"

lemma ParseDeviceInfo_ok:
  assumes "ParseDeviceInfo r out = Inr (out', r')"
  shows "rd_pos r + 28 \<le> length (rd_data r) \<and> r' = Skip 28 r \<and>
         channels_of out' = channels_of out \<and> timestamp out' = timestamp out \<and>
         monitored out' = (DecodeUint16 (drop (rd_pos r + 10) (rd_data r)),
           DecodeUint16 (drop (rd_pos r + 12) (rd_data r)),
           DecodeUint32 (drop (rd_pos r + 14) (rd_data r)),
           DecodeUint32 (drop (rd_pos r + 18) (rd_data r)))"
  using assms by (auto simp: ParseDeviceInfo_def require_eq_Inr HasBytes_iff reads channels_of_def
      monitored_def)

lemma ParseFrequency_ok:
  "ParseFrequency r out = Inr (out', r') \<Longrightarrow>
   rd_pos r + 8 \<le> length (rd_data r) \<and> r' = Skip 8 r \<and>
   keeps out out' \<and> channels_of out' = channels_of out"
  by (auto simp: keeps_def monitored_def channels_of_def ParseFrequency_def require_eq_Inr HasBytes_iff reads)

lemma encoder_loop_ok:
  "\<lbrakk> encoder_loop n i r out = Inr (out', r'); rd_pos r \<le> length (rd_data r) \<rbrakk> \<Longrightarrow>
   rd_pos r + 6 * n \<le> length (rd_data r) \<and> r' = Skip (6 * n) r \<and>
   keeps out out' \<and> channels_of out' = channels_of out"
proof (induction n arbitrary: i r out)
  case 0
  then show ?case by (simp add: keeps_def)
next
  case (Suc n)
  let ?o = "if i = 0 then out\<lparr>encoder_position := DecodeUint32 (drop (rd_pos r) (rd_data r))\<rparr> else out"
  have fit: "rd_pos r + 6 \<le> length (rd_data r)"
    using Suc.prems by (simp add: require_eq_Inr HasBytes_iff)
  with Suc.prems have "encoder_loop n (Suc i) (Skip 6 r) ?o = Inr (out', r')"
    by (simp add: require_eq_Inr reads)
  from Suc.IH [OF this] fit show ?case
    by (simp add: keeps_def monitored_def channels_of_def split: if_splits)
qed

lemma ParseEncoder_ok:
  assumes "ParseEncoder r out = Inr (out', r')"
  defines "n \<equiv> unat (DecodeUint16 (drop (rd_pos r) (rd_data r)))"
  shows "rd_pos r + 2 + 6 * n \<le> length (rd_data r) \<and> r' = Skip (2 + 6 * n) r \<and> n \<le> 2 \<and>
         keeps out out' \<and> channels_of out' = channels_of out"
proof -
  have fit: "rd_pos r + 2 \<le> length (rd_data r)"
    using assms(1) by (simp add: ParseEncoder_def require_eq_Inr HasBytes_iff)
  then have loop: "encoder_loop n 0 (Skip 2 r) (out\<lparr>has_encoder := n > 0\<rparr>) = Inr (out', r')"
    and "\<not> DecodeUint16 (drop (rd_pos r) (rd_data r)) > 2"
    using assms(1) by (simp_all add: ParseEncoder_def require_eq_Inr reads n_def kMaxEncoderCount_def
        unat_gt_0 word_neq_0_conv)
  then have "n \<le> 2" by (simp add: n_def word_less_nat_alt not_less)
  with encoder_loop_ok [OF loop] fit show ?thesis
    by (simp add: keeps_def monitored_def channels_of_def)
qed

definition channel16_ok :: "ChannelData16 \<Rightarrow> bool" where
  "channel16_ok ch \<longleftrightarrow> length (data16 ch) = unat (num_data16 ch) \<and> unat (num_data16 ch) \<le> kMaxPointsPerScan"

definition channel8_ok :: "ChannelData8 \<Rightarrow> bool" where
  "channel8_ok ch \<longleftrightarrow> length (data8 ch) = unat (num_data8 ch) \<and> unat (num_data8 ch) \<le> kMaxPointsPerScan"

lemma ParseChannel16_ok:
  assumes "ParseChannel16 r = Inr (ch, r')"
  defines "n \<equiv> unat (DecodeUint16 (drop (rd_pos r + 19) (rd_data r)))"
  shows "rd_pos r + 21 + n * 2 \<le> length (rd_data r) \<and> r' = Skip (21 + n * 2) r \<and> channel16_ok ch"
proof -
  have fit: "rd_pos r + 21 \<le> length (rd_data r)"
    using assms(1) by (simp add: ParseChannel16_def require_eq_Inr HasBytes_iff kChannelHeaderSize_def)
  have n: "n \<le> kMaxPointsPerScan" "rd_pos r + 21 + n * 2 \<le> length (rd_data r)"
    using assms(1) fit by (simp_all add: ParseChannel16_def require_eq_Inr HasBytes_iff reads n_def
        kChannelHeaderSize_def)
  from read_u16s_total [of "Skip 21 r" n] n obtain vs
    where "read_u16s n (Skip 21 r) = Inr (vs, Skip (21 + 2 * n) r)" "length vs = n"
    by (auto simp: mult.commute)
  with assms(1) fit n show ?thesis
    by (auto simp: ParseChannel16_def require_eq_Inr HasBytes_iff reads n_def kChannelHeaderSize_def
        channel16_ok_def mult.commute)
qed

lemma ParseChannel8_ok:
  assumes "ParseChannel8 r = Inr (ch, r')"
  defines "n \<equiv> unat (DecodeUint16 (drop (rd_pos r + 19) (rd_data r)))"
  shows "rd_pos r + 21 + n * 1 \<le> length (rd_data r) \<and> r' = Skip (21 + n * 1) r \<and> channel8_ok ch"
proof -
  have fit: "rd_pos r + 21 \<le> length (rd_data r)"
    using assms(1) by (simp add: ParseChannel8_def require_eq_Inr HasBytes_iff kChannelHeaderSize_def)
  have n: "n \<le> kMaxPointsPerScan" "rd_pos r + 21 + n \<le> length (rd_data r)"
    using assms(1) fit by (simp_all add: ParseChannel8_def require_eq_Inr HasBytes_iff reads n_def
        kChannelHeaderSize_def)
  from read_u8s_total [of "Skip 21 r" n] n obtain vs
    where "read_u8s n (Skip 21 r) = Inr (vs, Skip (21 + n) r)" "length vs = n"
    by auto
  with assms(1) fit n show ?thesis
    by (auto simp: ParseChannel8_def require_eq_Inr HasBytes_iff reads n_def kChannelHeaderSize_def
        channel8_ok_def)
qed

text \<open>A channel the full parser accepts is skipped by the fast one to the same place.\<close>

lemma skip_channels_step:
  assumes "rd_pos r + 21 + unat (DecodeUint16 (drop (rd_pos r + 19) (rd_data r))) * k \<le> length (rd_data r)"
  shows "skip_channels k (Suc n) r =
         skip_channels k n (Skip (21 + unat (DecodeUint16 (drop (rd_pos r + 19) (rd_data r))) * k) r)"
  using assms by (simp add: require_def HasBytes_iff reads Let_def)

lemma channels16_loop_ok:
  "\<lbrakk> channels16_loop n r out = Inr (out', r'); rd_pos r \<le> length (rd_data r) \<rbrakk> \<Longrightarrow>
   skip_channels 2 n r = Inr ((), r') \<and> rd_data r' = rd_data r \<and>
   rd_pos r + 21 * n \<le> rd_pos r' \<and> rd_pos r' \<le> length (rd_data r) \<and>
   (\<exists>chs. out' = out\<lparr>channels_16bit := channels_16bit out @ chs\<rparr> \<and> length chs = n \<and>
      (\<forall>ch\<in>set chs. channel16_ok ch))"
proof (induction n arbitrary: r out)
  case 0
  then show ?case by (auto intro: exI [of _ "[]"])
next
  case (Suc n)
  then obtain ch r1 where ch: "ParseChannel16 r = Inr (ch, r1)"
    and loop: "channels16_loop n r1 (out\<lparr>channels_16bit := channels_16bit out @ [ch]\<rparr>) = Inr (out', r')"
    by (auto simp: rd_eq_Inr)
  from ParseChannel16_ok [OF ch] have fit: "rd_pos r1 \<le> length (rd_data r1)" by auto
  from Suc.IH [OF loop fit] obtain chs where
    "out' = out\<lparr>channels_16bit := channels_16bit out @ ch # chs\<rparr>" "length chs = n"
    "\<forall>c\<in>set chs. channel16_ok c"
    by auto
  then have "\<exists>chs. out' = out\<lparr>channels_16bit := channels_16bit out @ chs\<rparr> \<and> length chs = Suc n \<and>
      (\<forall>c\<in>set chs. channel16_ok c)"
    using ParseChannel16_ok [OF ch] by (intro exI [of _ "ch # chs"]) simp
  moreover have "skip_channels 2 (Suc n) r = skip_channels 2 n r1"
    using skip_channels_step [of r 2 n] ParseChannel16_ok [OF ch] by auto
  ultimately show ?case using Suc.IH [OF loop fit] ParseChannel16_ok [OF ch] by auto
qed

lemma channels8_loop_ok:
  "\<lbrakk> channels8_loop n r out = Inr (out', r'); rd_pos r \<le> length (rd_data r) \<rbrakk> \<Longrightarrow>
   skip_channels 1 n r = Inr ((), r') \<and> rd_data r' = rd_data r \<and>
   rd_pos r + 21 * n \<le> rd_pos r' \<and> rd_pos r' \<le> length (rd_data r) \<and>
   (\<exists>chs. out' = out\<lparr>channels_8bit := channels_8bit out @ chs\<rparr> \<and> length chs = n \<and>
      (\<forall>ch\<in>set chs. channel8_ok ch))"
proof (induction n arbitrary: r out)
  case 0
  then show ?case by (auto intro: exI [of _ "[]"])
next
  case (Suc n)
  then obtain ch r1 where ch: "ParseChannel8 r = Inr (ch, r1)"
    and loop: "channels8_loop n r1 (out\<lparr>channels_8bit := channels_8bit out @ [ch]\<rparr>) = Inr (out', r')"
    by (auto simp: rd_eq_Inr)
  from ParseChannel8_ok [OF ch] have fit: "rd_pos r1 \<le> length (rd_data r1)" by auto
  from Suc.IH [OF loop fit] obtain chs where
    "out' = out\<lparr>channels_8bit := channels_8bit out @ ch # chs\<rparr>" "length chs = n"
    "\<forall>c\<in>set chs. channel8_ok c"
    by auto
  then have "\<exists>chs. out' = out\<lparr>channels_8bit := channels_8bit out @ chs\<rparr> \<and> length chs = Suc n \<and>
      (\<forall>c\<in>set chs. channel8_ok c)"
    using ParseChannel8_ok [OF ch] by (intro exI [of _ "ch # chs"]) simp
  moreover have "skip_channels 1 (Suc n) r = skip_channels 1 n r1"
    using skip_channels_step [of r 1 n] ParseChannel8_ok [OF ch] by auto
  ultimately show ?case using Suc.IH [OF loop fit] ParseChannel8_ok [OF ch] by auto
qed

lemma Remaining_inside:
  "\<lbrakk> rd_pos r \<le> length (rd_data r); length (rd_data r) < 2 ^ 64 \<rbrakk> \<Longrightarrow>
   Remaining r = length (rd_data r) - rd_pos r"
proof -
  assume "rd_pos r \<le> length (rd_data r)" "length (rd_data r) < 2 ^ 64"
  then have "length (rd_data r) + 2 ^ 64 - rd_pos r = (length (rd_data r) - rd_pos r) + 2 ^ 64"
    and "length (rd_data r) - rd_pos r < 2 ^ 64" by simp_all
  then show ?thesis unfolding Remaining_def by (metis mod_add_self2 mod_less)
qed

lemma skip_channel_block_eq:
  assumes "rd_pos r + 2 \<le> length (rd_data r)" "length (rd_data r) < 2 ^ 64"
  defines "n \<equiv> unat (DecodeUint16 (drop (rd_pos r) (rd_data r)))"
  assumes "rd_pos r + 2 + 21 * n \<le> length (rd_data r)"
  shows "skip_channel_block k r = skip_channels k n (Skip 2 r)"
proof -
  have "Remaining (Skip 2 r) = length (rd_data r) - (rd_pos r + 2)"
    using assms(1,2) by (simp add: Remaining_inside)
  moreover have "n \<le> (length (rd_data r) - (rd_pos r + 2)) div 21"
    using assms(4) by (simp add: less_eq_div_iff_mult_less_eq)
  ultimately show ?thesis using assms(1)
    by (simp add: skip_channel_block_def require_def HasBytes_iff reads n_def)
qed

lemma ParseChannels16bit_ok:
  assumes "ParseChannels16bit r out = Inr (out', r')" "length (rd_data r) < 2 ^ 64"
  shows "skip_channel_block 2 r = Inr ((), r') \<and> rd_data r' = rd_data r \<and>
         rd_pos r' \<le> length (rd_data r) \<and>
         (\<exists>chs. out' = out\<lparr>channels_16bit := channels_16bit out @ chs\<rparr> \<and> length chs \<le> 4 \<and>
            (\<forall>ch\<in>set chs. channel16_ok ch))"
proof -
  define n where "n = unat (DecodeUint16 (drop (rd_pos r) (rd_data r)))"
  have fit: "rd_pos r + 2 \<le> length (rd_data r)"
    using assms(1) by (simp add: ParseChannels16bit_def require_eq_Inr HasBytes_iff)
  then have loop: "channels16_loop n (Skip 2 r) out = Inr (out', r')"
    and "\<not> DecodeUint16 (drop (rd_pos r) (rd_data r)) > 4"
    using assms(1) by (simp_all add: ParseChannels16bit_def require_eq_Inr reads n_def
        kMax16BitChannelCount_def)
  then have "n \<le> 4" by (simp add: n_def word_less_nat_alt not_less)
  with channels16_loop_ok [OF loop] skip_channel_block_eq [of r 2] fit assms(2) show ?thesis
    by (auto simp: n_def)
qed

lemma ParseChannels8bit_ok:
  assumes "ParseChannels8bit r out = Inr (out', r')" "length (rd_data r) < 2 ^ 64"
  shows "skip_channel_block 1 r = Inr ((), r') \<and> rd_data r' = rd_data r \<and>
         rd_pos r' \<le> length (rd_data r) \<and>
         (\<exists>chs. out' = out\<lparr>channels_8bit := channels_8bit out @ chs\<rparr> \<and> length chs \<le> 1 \<and>
            (\<forall>ch\<in>set chs. channel8_ok ch))"
proof -
  define n where "n = unat (DecodeUint16 (drop (rd_pos r) (rd_data r)))"
  have fit: "rd_pos r + 2 \<le> length (rd_data r)"
    using assms(1) by (simp add: ParseChannels8bit_def require_eq_Inr HasBytes_iff)
  then have loop: "channels8_loop n (Skip 2 r) out = Inr (out', r')"
    and "\<not> DecodeUint16 (drop (rd_pos r) (rd_data r)) > 1"
    using assms(1) by (simp_all add: ParseChannels8bit_def require_eq_Inr reads n_def
        kMax8BitChannelCount_def)
  then have "n \<le> 1" by (simp add: n_def word_less_nat_alt not_less)
  with channels8_loop_ok [OF loop] skip_channel_block_eq [of r 1] fit assms(2) show ?thesis
    by (auto simp: n_def)
qed

lemma ParsePosition_ok:
  "ParsePosition r out = Inr (out', r') \<Longrightarrow>
   rd_pos r + 4 \<le> length (rd_data r) \<and> r' = Skip 4 r \<and>
   keeps out out' \<and> channels_of out' = channels_of out"
  by (auto simp: keeps_def monitored_def channels_of_def ParsePosition_def require_eq_Inr HasBytes_iff reads)

lemma ParseDeviceName_ok:
  assumes "ParseDeviceName r out = Inr (out', r')"
  defines "fl \<equiv> DecodeUint16 (drop (rd_pos r) (rd_data r))"
  shows "rd_pos r + 2 \<le> length (rd_data r) \<and> \<not> fl > 1 \<and> skip_name fl (Skip 2 r) = Inr ((), r') \<and>
         rd_data r' = rd_data r \<and> rd_pos r' \<le> length (rd_data r) \<and>
         keeps out out' \<and> channels_of out' = channels_of out"
  using assms(1) unfolding fl_def
  by (auto simp: keeps_def monitored_def channels_of_def ParseDeviceName_def skip_name_def require_def HasBytes_iff reads Let_def
      split: if_splits)

definition calendar_at :: "bytes \<Rightarrow> nat \<Rightarrow> ScanTimestamp" where
  "calendar_at bs p = \<lparr>ts_year = DecodeUint16 (drop (p + 2) bs), ts_month = bs ! (p + 4),
     ts_day = bs ! (p + 5), ts_hour = bs ! (p + 6), ts_minute = bs ! (p + 7),
     ts_second = bs ! (p + 8), ts_microsecond = DecodeUint32 (drop (p + 9) bs)\<rparr>"

lemma ParseTimestamp_present:
  assumes "rd_pos r + 13 \<le> length (rd_data r)" "DecodeUint16 (drop (rd_pos r) (rd_data r)) = 1"
  shows "ParseTimestamp r o2 =
    Inr (o2\<lparr>has_timestamp := True, timestamp := calendar_at (rd_data r) (rd_pos r)\<rparr>, Skip 13 r)"
  using assms
  by (simp add: ParseTimestamp_def require_def HasBytes_iff reads Let_def calendar_at_def)

lemma ParseTimestamp_ok:
  assumes "ParseTimestamp r out = Inr (out', r')"
  shows "rd_pos r + 2 \<le> length (rd_data r) \<and> \<not> DecodeUint16 (drop (rd_pos r) (rd_data r)) > 1 \<and>
         rd_data r' = rd_data r \<and> rd_pos r' \<le> length (rd_data r) \<and>
         monitored out' = monitored out \<and> channels_of out' = channels_of out \<and>
         (timestamp o2 = timestamp out \<longrightarrow> ParseTimestamp r o2 =
            Inr (o2\<lparr>has_timestamp := has_timestamp out', timestamp := timestamp out'\<rparr>, r'))"
proof -
  let ?fl = "DecodeUint16 (drop (rd_pos r) (rd_data r))"
  have fit2: "rd_pos r + 2 \<le> length (rd_data r)"
    using assms by (simp add: ParseTimestamp_def require_eq_Inr HasBytes_iff)
  then have fit: "rd_pos r + 2 \<le> length (rd_data r)" "\<not> ?fl > 1"
    using assms by (simp_all add: ParseTimestamp_def require_eq_Inr HasBytes_iff reads)
  show ?thesis
  proof (cases "?fl = 1")
    case True
    have fit11: "rd_pos r + 13 \<le> length (rd_data r)"
      using assms fit True by (simp add: ParseTimestamp_def require_eq_Inr HasBytes_iff reads Let_def)
    note here = ParseTimestamp_present [OF fit11 True]
    from assms have "out' = out\<lparr>has_timestamp := True,
        timestamp := calendar_at (rd_data r) (rd_pos r)\<rparr>" "r' = Skip 13 r"
      unfolding here by simp_all
    then show ?thesis using fit fit11 unfolding here
      by (simp add: monitored_def channels_of_def)
  next
    case False
    from assms fit False show ?thesis
      by (auto simp add: monitored_def channels_of_def ParseTimestamp_def require_def HasBytes_iff reads Let_def)
  qed
qed

section \<open>A parse step by step\<close>

definition scan_ok :: "ScanData \<Rightarrow> bool" where
  "scan_ok s \<longleftrightarrow> length (channels_16bit s) \<le> 4 \<and> length (channels_8bit s) \<le> 1 \<and>
     (\<forall>ch\<in>set (channels_16bit s). channel16_ok ch) \<and> (\<forall>ch\<in>set (channels_8bit s). channel8_ok ch)"

text \<open>The intermediate states of a successful parse.\<close>

lemma Parse_obtain:
  assumes "Parse data = Inr out" "length data < 2 ^ 64"
  obtains o1 r1 o2 r2 o3 r3 o4 r4 o5 r5 o6 r6 o7 r7 r8 where
    "ParseDeviceInfo \<lparr>rd_data = data, rd_pos = 0\<rparr> new_ScanData = Inr (o1, r1)"
    "ParseFrequency r1 o1 = Inr (o2, r2)" "ParseEncoder r2 o2 = Inr (o3, r3)"
    "ParseChannels16bit r3 o3 = Inr (o4, r4)" "ParseChannels8bit r4 o4 = Inr (o5, r5)"
    "ParsePosition r5 o5 = Inr (o6, r6)" "ParseDeviceName r6 o6 = Inr (o7, r7)"
    "ParseTimestamp r7 o7 = Inr (out, r8)" "finish_parse r8 out = Inr out"
    "rd_data r1 = data" "rd_data r2 = data" "rd_data r3 = data" "rd_data r4 = data"
    "rd_data r5 = data" "rd_data r6 = data" "rd_data r7 = data" "rd_data r8 = data"
proof -
  from assms(1) obtain o1 r1 o2 r2 o3 r3 o4 r4 o5 r5 o6 r6 o7 r7 o8 r8 where
    s: "ParseDeviceInfo \<lparr>rd_data = data, rd_pos = 0\<rparr> new_ScanData = Inr (o1, r1)"
    "ParseFrequency r1 o1 = Inr (o2, r2)" "ParseEncoder r2 o2 = Inr (o3, r3)"
    "ParseChannels16bit r3 o3 = Inr (o4, r4)" "ParseChannels8bit r4 o4 = Inr (o5, r5)"
    "ParsePosition r5 o5 = Inr (o6, r6)" "ParseDeviceName r6 o6 = Inr (o7, r7)"
    "ParseTimestamp r7 o7 = Inr (o8, r8)" "finish_parse r8 o8 = Inr out"
    by (auto simp: Parse_def require_eq_Inr rd_eq_Inr)
  have d: "rd_data r1 = data" "rd_data r2 = data" "rd_data r3 = data"
    using ParseDeviceInfo_ok [OF s(1)] ParseFrequency_ok [OF s(2)] ParseEncoder_ok [OF s(3)] by auto
  then have d': "rd_data r4 = data" "rd_data r5 = data"
    using ParseChannels16bit_ok [OF s(4)] ParseChannels8bit_ok [OF s(5)] assms(2) by auto
  then have d'': "rd_data r6 = data" "rd_data r7 = data" "rd_data r8 = data"
    using ParsePosition_ok [OF s(6)] ParseDeviceName_ok [OF s(7)] ParseTimestamp_ok [OF s(8)] by auto
  have "o8 = out" using s(9) by (simp add: finish_parse_def Let_def require_eq_Inr)
  with s d d' d'' that show ?thesis by blast
qed

lemma finish_parse_any: "finish_parse r out = Inr out \<Longrightarrow> finish_parse r o2 = Inr o2"
  by (simp add: finish_parse_def Let_def require_eq_Inr)

section \<open>The telegram layout\<close>

text \<open>
  The layout of the telegram as the comments of the sections give it, as a printer: field by field,
  big-endian, reserved bytes as zeros, with the reserved suffix.
\<close>

fun name16 :: "ChannelContent16 \<Rightarrow> string" where
  "name16 kDist1 = ''DIST1''"
| "name16 kRssi1 = ''RSSI1''"
| "name16 kRefl1 = ''REFL1''"
| "name16 kAngl1 = ''ANGL1''"
| "name16 kUnknown16 = ''?????''"

fun name8 :: "ChannelContent8 \<Rightarrow> string" where
  "name8 kQlty1 = ''QLTY1''"
| "name8 kUnknown8 = ''?????''"

definition print_info :: "ScanData \<Rightarrow> bytes" where
  "print_info s =
     EncodeUint16 (version_number (device_info s)) @ EncodeUint16 (device_number (device_info s)) @
     EncodeUint32 (serial_number (device_info s)) @
     [device_status_1 (device_info s), device_status_2 (device_info s)] @
     EncodeUint16 (telegram_counter s) @ EncodeUint16 (scan_counter s) @
     EncodeUint32 (time_since_startup_us s) @ EncodeUint32 (transmission_time_us s) @
     [digital_input_1 s, digital_input_2 s, digital_output_1 s, digital_output_2 s, 0, 0]"

definition print_frequency :: "ScanData \<Rightarrow> bytes" where
  "print_frequency s = EncodeUint32 (scan_frequency s) @ EncodeUint32 (measurement_frequency s)"

definition print_encoder :: "ScanData \<Rightarrow> bytes" where
  "print_encoder s =
     (if has_encoder s then EncodeUint16 1 @ EncodeUint32 (encoder_position s) @ [0, 0]
      else EncodeUint16 0)"

definition print_channel16 :: "ChannelData16 \<Rightarrow> bytes" where
  "print_channel16 ch =
     bytes_of (name16 (content16 ch)) @ EncodeFloat (scale_factor16 ch) @
     EncodeFloat (scale_offset16 ch) @ EncodeInt32 (start_angle16 ch) @
     EncodeUint16 (angle_step16 ch) @ EncodeUint16 (num_data16 ch) @
     concat (map EncodeUint16 (data16 ch))"

definition print_channel8 :: "ChannelData8 \<Rightarrow> bytes" where
  "print_channel8 ch =
     bytes_of (name8 (content8 ch)) @ EncodeFloat (scale_factor8 ch) @
     EncodeFloat (scale_offset8 ch) @ EncodeInt32 (start_angle8 ch) @
     EncodeUint16 (angle_step8 ch) @ EncodeUint16 (num_data8 ch) @ data8 ch"

definition print_name :: "ScanData \<Rightarrow> bytes" where
  "print_name s =
     (if has_device_name s then
        EncodeUint16 1 @ EncodeUint16 (word_of_nat (length (device_name s))) @ bytes_of (device_name s)
      else EncodeUint16 0)"

definition print_time :: "ScanData \<Rightarrow> bytes" where
  "print_time s =
     (if has_timestamp s then
        EncodeUint16 1 @ EncodeUint16 (ts_year (timestamp s)) @
        [ts_month (timestamp s), ts_day (timestamp s), ts_hour (timestamp s),
         ts_minute (timestamp s), ts_second (timestamp s)] @
        EncodeUint32 (ts_microsecond (timestamp s))
      else EncodeUint16 0)"

definition print_scan :: "ScanData \<Rightarrow> bytes" where
  "print_scan s =
     print_info s @ print_frequency s @ print_encoder s @
     EncodeUint16 (word_of_nat (length (channels_16bit s))) @
     concat (map print_channel16 (channels_16bit s)) @
     EncodeUint16 (word_of_nat (length (channels_8bit s))) @
     concat (map print_channel8 (channels_8bit s)) @
     EncodeFloat (y_rotation s) @ print_name s @ print_time s @ [0, 0]"

text \<open>A scan the layout can express: known channels, the limits, defaults where a block is absent.\<close>

definition printable :: "ScanData \<Rightarrow> bool" where
  "printable s \<longleftrightarrow> scan_ok s \<and>
     (\<forall>ch\<in>set (channels_16bit s). content16 ch \<noteq> kUnknown16) \<and>
     (\<forall>ch\<in>set (channels_8bit s). content8 ch \<noteq> kUnknown8) \<and>
     (if has_device_name s then length (device_name s) \<le> 16 else device_name s = []) \<and>
     (\<not> has_encoder s \<longrightarrow> encoder_position s = 0) \<and>
     (\<not> has_timestamp s \<longrightarrow> timestamp s = timestamp new_ScanData) \<and>
     clock_observation s = new_ClockObservation \<and> host_receive_monotonic_us s = 0"

text \<open>A reader that has consumed \<open>pre\<close> and has \<open>xs\<close> before it.\<close>

definition rdr :: "bytes \<Rightarrow> bytes \<Rightarrow> Reader" where
  "rdr pre xs = \<lparr>rd_data = pre @ xs, rd_pos = length pre\<rparr>"

lemma HasBytes_rdr [simp]: "HasBytes (rdr pre xs) n \<longleftrightarrow> n \<le> length xs"
  by (simp add: HasBytes_iff rdr_def)

lemma read_n_rdr:
  "length ys = n \<Longrightarrow> rd (read_n n g (rdr pre (ys @ xs))) f = f (g (ys @ xs)) (rdr (pre @ ys) xs)"
  by (simp add: read_n_def rdr_def Skip_def)

lemma reads_rdr [simp]:
  "rd (ReadUint8 (rdr pre (b # xs))) f8 = f8 b (rdr (pre @ [b]) xs)"
  "rd (ReadUint16 (rdr pre (EncodeUint16 v @ xs))) f16 = f16 v (rdr (pre @ EncodeUint16 v) xs)"
  "rd (ReadUint32 (rdr pre (EncodeUint32 w @ xs))) f32 = f32 w (rdr (pre @ EncodeUint32 w) xs)"
  "rd (ReadInt32 (rdr pre (EncodeInt32 i @ xs))) fi = fi i (rdr (pre @ EncodeInt32 i) xs)"
  "rd (ReadFloat (rdr pre (EncodeFloat x @ xs))) ff = ff x (rdr (pre @ EncodeFloat x) xs)"
  using read_n_rdr [of "[b]" 1 "\<lambda>bs. bs ! 0" pre xs f8] by (simp_all add: reads read_n_rdr)

lemma ReadString_rdr:
  "n = length nm \<Longrightarrow>
   rd (ReadString n (rdr pre (bytes_of nm @ xs))) f = f nm (rdr (pre @ bytes_of nm) xs)"
  by (simp add: reads read_n_rdr DecodeString_def)

lemma Skip2_rdr [simp]: "Skip 2 (rdr pre (a # b # xs)) = rdr (pre @ [a, b]) xs"
  by (simp add: rdr_def Skip_def)

lemma length_name [simp]: "length (name16 c) = 5" "length (name8 d) = 5"
  by (cases c; simp) (cases d; simp)

lemma Identify_name [simp]:
  "c \<noteq> kUnknown16 \<Longrightarrow> IdentifyChannel16 (name16 c) = c"
  "d \<noteq> kUnknown8 \<Longrightarrow> IdentifyChannel8 (name8 d) = d"
  by (cases c; simp add: IdentifyChannel16_def) (cases d; simp add: IdentifyChannel8_def)

lemma read_u16s_rdr:
  "rd (read_u16s (length vs) (rdr pre (concat (map EncodeUint16 vs) @ xs))) f =
   f vs (rdr (pre @ concat (map EncodeUint16 vs)) xs)"
  by (induction vs arbitrary: pre f) (simp_all add: rd_assoc)

lemma read_u8s_rdr:
  "rd (read_u8s (length vs) (rdr pre (vs @ xs))) f = f vs (rdr (pre @ vs) xs)"
  by (induction vs arbitrary: pre f) (simp_all add: rd_assoc)

lemma read_lists_rdr:
  "length vs = n \<Longrightarrow> rd (read_u16s n (rdr pre (concat (map EncodeUint16 vs) @ xs))) f16 =
     f16 vs (rdr (pre @ concat (map EncodeUint16 vs)) xs)"
  "length bs = n \<Longrightarrow> rd (read_u8s n (rdr pre (bs @ xs))) f8 = f8 bs (rdr (pre @ bs) xs)"
  using read_u16s_rdr [of vs] read_u8s_rdr [of bs] by auto

lemma length_concat_u16 [simp]: "length (concat (map EncodeUint16 vs)) = length vs * 2"
  by (induction vs) simp_all

lemma ParseDeviceInfo_print:
  "ParseDeviceInfo (rdr pre (print_info s @ xs)) out =
   Inr (out\<lparr>device_info := device_info s, telegram_counter := telegram_counter s,
          scan_counter := scan_counter s, time_since_startup_us := time_since_startup_us s,
          transmission_time_us := transmission_time_us s, digital_input_1 := digital_input_1 s,
          digital_input_2 := digital_input_2 s, digital_output_1 := digital_output_1 s,
          digital_output_2 := digital_output_2 s\<rparr>, rdr (pre @ print_info s) xs)"
  by (simp add: ParseDeviceInfo_def print_info_def require_def)

lemma ParseFrequency_print:
  "ParseFrequency (rdr pre (print_frequency s @ xs)) out =
   Inr (out\<lparr>scan_frequency := scan_frequency s, measurement_frequency := measurement_frequency s\<rparr>,
        rdr (pre @ print_frequency s) xs)"
  by (simp add: ParseFrequency_def print_frequency_def require_def)

lemma ParseEncoder_print:
  assumes "encoder_position out = 0" "\<not> has_encoder s \<longrightarrow> encoder_position s = 0"
  shows "ParseEncoder (rdr pre (print_encoder s @ xs)) out =
   Inr (out\<lparr>has_encoder := has_encoder s, encoder_position := encoder_position s\<rparr>,
        rdr (pre @ print_encoder s) xs)"
  using assms by (simp add: ParseEncoder_def print_encoder_def require_def kMaxEncoderCount_def)

lemma ParseChannel16_print:
  assumes "channel16_ok ch" "content16 ch \<noteq> kUnknown16"
  shows "ParseChannel16 (rdr pre (print_channel16 ch @ xs)) = Inr (ch, rdr (pre @ print_channel16 ch) xs)"
  using assms by (simp add: read_lists_rdr ParseChannel16_def print_channel16_def require_def kChannelHeaderSize_def
      ReadString_rdr channel16_ok_def)

lemma ParseChannel8_print:
  assumes "channel8_ok ch" "content8 ch \<noteq> kUnknown8"
  shows "ParseChannel8 (rdr pre (print_channel8 ch @ xs)) = Inr (ch, rdr (pre @ print_channel8 ch) xs)"
  using assms by (simp add: read_lists_rdr ParseChannel8_def print_channel8_def require_def kChannelHeaderSize_def
      ReadString_rdr channel8_ok_def)

lemma channels16_loop_print:
  "\<forall>ch\<in>set chs. channel16_ok ch \<and> content16 ch \<noteq> kUnknown16 \<Longrightarrow>
   channels16_loop (length chs) (rdr pre (concat (map print_channel16 chs) @ xs)) out =
   Inr (out\<lparr>channels_16bit := channels_16bit out @ chs\<rparr>,
        rdr (pre @ concat (map print_channel16 chs)) xs)"
  by (induction chs arbitrary: pre out) (simp_all add: ParseChannel16_print)

lemma channels8_loop_print:
  "\<forall>ch\<in>set chs. channel8_ok ch \<and> content8 ch \<noteq> kUnknown8 \<Longrightarrow>
   channels8_loop (length chs) (rdr pre (concat (map print_channel8 chs) @ xs)) out =
   Inr (out\<lparr>channels_8bit := channels_8bit out @ chs\<rparr>,
        rdr (pre @ concat (map print_channel8 chs)) xs)"
  by (induction chs arbitrary: pre out) (simp_all add: ParseChannel8_print)

lemma small_word: "n \<le> 16 \<Longrightarrow> unat (word_of_nat n :: u16) = n"
  by (simp add: unat_of_nat)

lemma word_le_small: "\<lbrakk> n \<le> k; k \<le> 16 \<rbrakk> \<Longrightarrow> \<not> (word_of_nat n :: u16) > word_of_nat k"
  by (simp add: word_less_nat_alt small_word)

lemma ParseChannels16bit_print:
  assumes "\<forall>ch\<in>set chs. channel16_ok ch \<and> content16 ch \<noteq> kUnknown16" "length chs \<le> 4"
  shows "ParseChannels16bit
      (rdr pre (EncodeUint16 (word_of_nat (length chs)) @ concat (map print_channel16 chs) @ xs)) out =
    Inr (out\<lparr>channels_16bit := channels_16bit out @ chs\<rparr>,
      rdr (pre @ EncodeUint16 (word_of_nat (length chs)) @ concat (map print_channel16 chs)) xs)"
  using assms word_le_small [of "length chs" 4]
  by (simp add: ParseChannels16bit_def require_def kMax16BitChannelCount_def small_word
      channels16_loop_print)

lemma ParseChannels8bit_print:
  assumes "\<forall>ch\<in>set chs. channel8_ok ch \<and> content8 ch \<noteq> kUnknown8" "length chs \<le> 1"
  shows "ParseChannels8bit
      (rdr pre (EncodeUint16 (word_of_nat (length chs)) @ concat (map print_channel8 chs) @ xs)) out =
    Inr (out\<lparr>channels_8bit := channels_8bit out @ chs\<rparr>,
      rdr (pre @ EncodeUint16 (word_of_nat (length chs)) @ concat (map print_channel8 chs)) xs)"
  using assms word_le_small [of "length chs" 1]
  by (simp add: ParseChannels8bit_def require_def kMax8BitChannelCount_def small_word
      channels8_loop_print)

lemma ParsePosition_print:
  "ParsePosition (rdr pre (EncodeFloat y @ xs)) out =
   Inr (out\<lparr>y_rotation := y\<rparr>, rdr (pre @ EncodeFloat y) xs)"
  by (simp add: ParsePosition_def require_def)

lemma ParseDeviceName_print:
  assumes "if has_device_name s then length (device_name s) \<le> 16 else device_name s = []"
    "device_name out = []"
  shows "ParseDeviceName (rdr pre (print_name s @ xs)) out =
   Inr (out\<lparr>has_device_name := has_device_name s, device_name := device_name s\<rparr>,
        rdr (pre @ print_name s) xs)"
  using assms word_le_small [of "length (device_name s)" 16]
  by (auto simp: ParseDeviceName_def print_name_def require_def small_word ReadString_rdr Let_def)

lemma ParseTimestamp_print:
  assumes "\<not> has_timestamp s \<longrightarrow> timestamp s = timestamp out"
  shows "ParseTimestamp (rdr pre (print_time s @ xs)) out =
   Inr (out\<lparr>has_timestamp := has_timestamp s, timestamp := timestamp s\<rparr>, rdr (pre @ print_time s) xs)"
  using assms by (cases "has_timestamp s")
    (simp_all add: ParseTimestamp_def print_time_def require_def Let_def)

lemma finish_parse_print: "finish_parse (rdr pre [a, b]) out = Inr out"
  by (simp add: finish_parse_def Let_def require_def) (simp add: rdr_def Remaining_def)

lemma length_print_scan: "52 \<le> length (print_scan s)"
  by (simp add: print_scan_def print_info_def print_frequency_def print_encoder_def print_name_def
      print_time_def)

lemma Parse_print_scan:
  assumes "printable s"
  shows "Parse (print_scan s) = Inr s"
proof -
  have start: "\<lparr>rd_data = print_scan s, rd_pos = 0\<rparr> = rdr [] (print_scan s)"
    by (simp add: rdr_def)
  have ok: "\<forall>ch\<in>set (channels_16bit s). channel16_ok ch \<and> content16 ch \<noteq> kUnknown16"
    "length (channels_16bit s) \<le> 4" "length (channels_8bit s) \<le> 1"
    "\<forall>ch\<in>set (channels_8bit s). channel8_ok ch \<and> content8 ch \<noteq> kUnknown8"
    using assms by (simp_all add: printable_def scan_ok_def)
  have "s = s\<lparr>clock_observation := new_ClockObservation, host_receive_monotonic_us := 0\<rparr>"
    using assms by (simp add: printable_def)
  then show ?thesis
    using assms ok length_print_scan [of s]
    unfolding Parse_def start
    by (simp add: require_def)
       (simp add: print_scan_def ParseDeviceInfo_print ParseFrequency_print ParseEncoder_print
        ParseChannels16bit_print ParseChannels8bit_print ParsePosition_print ParseDeviceName_print
        ParseTimestamp_print finish_parse_print new_ScanData_def printable_def)
qed

section \<open>Properties of the parsers\<close>

definition sample_scan :: ScanData where
  "sample_scan = new_ScanData\<lparr>telegram_counter := 5, time_since_startup_us := 77,
     channels_16bit := [\<lparr>content16 = kDist1, scale_factor16 = 0, scale_offset16 = 0,
       start_angle16 = 550000, angle_step16 = 833, num_data16 = 2, data16 = [7, 900]\<rparr>]\<rparr>"

lemma printable_sample: "printable sample_scan"
  by (simp add: printable_def sample_scan_def new_ScanData_def scan_ok_def channel16_ok_def
      kMaxPointsPerScan_def)

lemma length_sample: "length (print_scan sample_scan) < 2 ^ 64"
  by (simp add: sample_scan_def new_ScanData_def print_scan_def print_info_def print_frequency_def
      print_encoder_def print_name_def print_time_def print_channel16_def)

text \<open>
  C17: the parser inverts the documented layout of \<^verbatim>\<open>LMDscandata\<close>: a telegram printed field by field
  from a scan within the device's limits parses back to exactly that scan.
\<close>

theorem telegram_layout:
  assumes "printable s"
  shows "Parse (print_scan s) = Inr s"
  using assms by (rule Parse_print_scan)

theorem telegram_layout_witness: "Parse (print_scan sample_scan) = Inr sample_scan"
  using telegram_layout [OF printable_sample] .

text \<open>
  What the full parser accepts is within the limits of the device: at most four 16 bit channels
  and one 8 bit channel, each with exactly the announced number of samples and never more than 841.
\<close>

lemma Parse_bounds:
  assumes "Parse data = Inr out" "length data < 2 ^ 64"
  shows "scan_ok out"
proof -
  from Parse_obtain [OF assms] obtain o1 r1 o2 r2 o3 r3 o4 r4 o5 r5 o6 r6 o7 r7 r8 where
    s: "ParseDeviceInfo \<lparr>rd_data = data, rd_pos = 0\<rparr> new_ScanData = Inr (o1, r1)"
    "ParseFrequency r1 o1 = Inr (o2, r2)" "ParseEncoder r2 o2 = Inr (o3, r3)"
    "ParseChannels16bit r3 o3 = Inr (o4, r4)" "ParseChannels8bit r4 o4 = Inr (o5, r5)"
    "ParsePosition r5 o5 = Inr (o6, r6)" "ParseDeviceName r6 o6 = Inr (o7, r7)"
    "ParseTimestamp r7 o7 = Inr (out, r8)"
    and d: "rd_data r3 = data" "rd_data r4 = data" by metis
  have "channels_of o3 = ([], [])"
    using ParseDeviceInfo_ok [OF s(1)] ParseFrequency_ok [OF s(2)] ParseEncoder_ok [OF s(3)]
    by (simp add: channels_of_def new_ScanData_def)
  then have "scan_ok o5"
    using ParseChannels16bit_ok [OF s(4)] ParseChannels8bit_ok [OF s(5)] d assms(2)
    by (auto simp: scan_ok_def channels_of_def)
  moreover have "channels_of out = channels_of o5"
    using ParsePosition_ok [OF s(6)] ParseDeviceName_ok [OF s(7)] ParseTimestamp_ok [OF s(8)] by simp
  ultimately show ?thesis by (simp add: scan_ok_def channels_of_def)
qed

text \<open>
  C13: the fast parser used after the first scan agrees with the full one: on every telegram the full
  parser accepts it succeeds too and returns the same counters, uptime, transmission time and calendar
  time, with no channel decoded.
\<close>

theorem fast_parser_agrees:
  assumes "Parse data = Inr out" "length data < 2 ^ 64"
  shows "ParseTimestampFast data =
           Inr (new_ScanData\<lparr>telegram_counter := telegram_counter out, scan_counter := scan_counter out,
                  time_since_startup_us := time_since_startup_us out,
                  transmission_time_us := transmission_time_us out,
                  has_timestamp := has_timestamp out, timestamp := timestamp out\<rparr>)"
proof -
  obtain o1 r1 o2 r2 o3 r3 o4 r4 o5 r5 o6 r6 o7 r7 r8 where
    s: "ParseDeviceInfo \<lparr>rd_data = data, rd_pos = 0\<rparr> new_ScanData = Inr (o1, r1)"
    "ParseFrequency r1 o1 = Inr (o2, r2)" "ParseEncoder r2 o2 = Inr (o3, r3)"
    "ParseChannels16bit r3 o3 = Inr (o4, r4)" "ParseChannels8bit r4 o4 = Inr (o5, r5)"
    "ParsePosition r5 o5 = Inr (o6, r6)" "ParseDeviceName r6 o6 = Inr (o7, r7)"
    "ParseTimestamp r7 o7 = Inr (out, r8)" "finish_parse r8 out = Inr out"
    and d: "rd_data r1 = data" "rd_data r2 = data" "rd_data r3 = data" "rd_data r4 = data"
    "rd_data r5 = data" "rd_data r6 = data" "rd_data r7 = data" "rd_data r8 = data"
    using Parse_obtain [OF assms] by blast
  note ok = ParseDeviceInfo_ok [OF s(1)] ParseFrequency_ok [OF s(2)] ParseEncoder_ok [OF s(3)]
    ParseChannels16bit_ok [OF s(4)] ParseChannels8bit_ok [OF s(5)] ParsePosition_ok [OF s(6)]
    ParseDeviceName_ok [OF s(7)]
  let ?e = "unat (DecodeUint16 (drop 36 data))"
  have r: "r2 = \<lparr>rd_data = data, rd_pos = 36\<rparr>" "r3 = \<lparr>rd_data = data, rd_pos = 38 + ?e * 6\<rparr>"
    "38 + ?e * 6 \<le> length data"
    using ok(1-3) d by (auto simp: Skip_def mult.commute)
  define q where "q = new_ScanData\<lparr>telegram_counter := telegram_counter out,
    scan_counter := scan_counter out, time_since_startup_us := time_since_startup_us out,
    transmission_time_us := transmission_time_us out\<rparr>"
  have k1: "keeps o1 o2" "keeps o2 o3" "keeps o5 o6" "keeps o6 o7"
    using ok(2) ok(3) ok(6) ok(7) by blast+
  have "length (rd_data r3) < 2 ^ 64" "length (rd_data r4) < 2 ^ 64" using d assms(2) by simp_all
  from ok(4) [OF this(1)] ok(5) [OF this(2)] have k2: "keeps o3 o4" "keeps o4 o5"
    by (auto simp: keeps_def monitored_def)
  have k3: "monitored out = monitored o7" using ParseTimestamp_ok [OF s(8)] by (auto simp: monitored_def)
  have "monitored out = monitored o1" "timestamp o7 = timestamp new_ScanData"
    using k1 k2 k3 ok(1) unfolding keeps_def by simp_all
  then have m: "telegram_counter out = DecodeUint16 (drop 10 data)"
    "scan_counter out = DecodeUint16 (drop 12 data)"
    "time_since_startup_us out = DecodeUint32 (drop 14 data)"
    "transmission_time_us out = DecodeUint32 (drop 18 data)" "timestamp q = timestamp o7"
    using ok(1) by (simp_all add: monitored_def q_def)
  have "ParseTimestamp r7 q =
      Inr (q\<lparr>has_timestamp := has_timestamp out, timestamp := timestamp out\<rparr>, r8)"
    using ParseTimestamp_ok [OF s(8)] m(5) by blast
  then show ?thesis
    using r ok(4-7) d assms(2) m(1-4) ParseTimestamp_ok [OF s(8)] finish_parse_any [OF s(9)]
    by (simp add: ParseTimestampFast_def require_def HasBytes_iff reads Let_def Skip_def q_def)
qed

theorem fast_parser_agrees_witness:
  "ParseTimestampFast (print_scan sample_scan) =
   Inr (new_ScanData\<lparr>telegram_counter := 5, time_since_startup_us := 77\<rparr>)"
  using fast_parser_agrees [OF Parse_print_scan [OF printable_sample] length_sample]
  by (simp add: sample_scan_def new_ScanData_def)

end
