(* ===== verification/Scan_Time.thy ===== *)
theory Scan_Time
  imports Scan_Data "HOL-Library.Signed_Division"
begin

text \<open>
  \<^verbatim>\<open>lms4xxx_driver/src/scan_time.cpp\<close> and \<^verbatim>\<open>src/scan_verify.cpp\<close> (\<^verbatim>\<open>DeviceTimePlausible\<close>): the calendar
  time of a telegram as Unix microseconds. The \<^verbatim>\<open>unsigned\<close> arithmetic of \<^verbatim>\<open>DaysFromCivil\<close> wraps at 32
  bits (\<open>wrap32\<close>), its \<^verbatim>\<open>int64_t\<close> division truncates (\<open>sdiv\<close>). The lemmas show that no step wraps on the
  dates the caller lets through, that the day count is the Gregorian one, and that the result fits
  \<^verbatim>\<open>int64_t\<close>.
\<close>

definition wrap32 :: "int \<Rightarrow> int" where
  "wrap32 x = x mod 2 ^ 32"

definition DaysFromCivil :: "int \<Rightarrow> int \<Rightarrow> int \<Rightarrow> int" where
  "DaysFromCivil y m d =
     (let y = y - (if m \<le> 2 then 1 else 0);
          era = (if y \<ge> 0 then y else y - 399) sdiv 400;
          yoe = wrap32 (y - era * 400);
          doy = wrap32 (wrap32 (153 * wrap32 (m + (if m > 2 then - 3 else 9)) + 2) div 5 + d - 1);
          doe = wrap32 (yoe * 365 + yoe div 4 - yoe div 100 + doy)
      in era * 146097 + doe - 719468)"

definition DeviceTimeUnixUs :: "ScanTimestamp \<Rightarrow> int" where
  "DeviceTimeUnixUs ts =
     (if ts_month ts < 1 \<or> ts_month ts > 12 \<or> ts_day ts < 1 \<or> ts_day ts > 31 \<or> ts_hour ts > 23 \<or>
         ts_minute ts > 59 \<or> ts_second ts > 60 \<or> ts_microsecond ts > 999999
      then 0
      else
        let days = DaysFromCivil (uint (ts_year ts)) (uint (ts_month ts)) (uint (ts_day ts));
            secs = days * 86400 + uint (ts_hour ts) * 3600 + uint (ts_minute ts) * 60 + uint (ts_second ts)
        in secs * 1000000 + uint (ts_microsecond ts))"

definition kEarliestPlausibleDeviceTimeUs :: int where
  "kEarliestPlausibleDeviceTimeUs = 1767225600 * 1000000"

definition DeviceTimePlausible :: "ScanTimestamp \<Rightarrow> bool" where
  "DeviceTimePlausible ts \<longleftrightarrow> DeviceTimeUnixUs ts \<ge> kEarliestPlausibleDeviceTimeUs"

section \<open>The Gregorian calendar\<close>

definition leap :: "int \<Rightarrow> bool" where
  "leap y \<longleftrightarrow> 4 dvd y \<and> (\<not> 100 dvd y \<or> 400 dvd y)"

definition month_length :: "int \<Rightarrow> int \<Rightarrow> int" where
  "month_length y m = (if m = 2 then (if leap y then 29 else 28)
     else if m \<in> {4, 6, 9, 11} then 30 else 31)"

definition valid_date :: "int \<Rightarrow> int \<Rightarrow> int \<Rightarrow> bool" where
  "valid_date y m d \<longleftrightarrow> 0 \<le> y \<and> 1 \<le> m \<and> m \<le> 12 \<and> 1 \<le> d \<and> d \<le> month_length y m"

definition next_day :: "int \<times> int \<times> int \<Rightarrow> int \<times> int \<times> int" where
  "next_day = (\<lambda>(y, m, d). if d < month_length y m then (y, m, d + 1)
                          else if m < 12 then (y, m + 1, 1) else (y + 1, 1, 1))"

section \<open>No wrap-around\<close>

lemma wrap32_id: "\<lbrakk> 0 \<le> x; x < 2 ^ 32 \<rbrakk> \<Longrightarrow> wrap32 x = x"
  by (simp add: wrap32_def)

text \<open>Quotient and remainder as fresh variables, so that the arithmetic stays linear.\<close>

lemma quot_rem:
  fixes y k :: int
  assumes "0 < k"
  obtains q r where "y = k * q + r" "0 \<le> r" "r < k" "y div k = q" "y mod k = r"
  using assms by (metis mult_div_mod_eq pos_mod_bound pos_mod_sign)

lemma era_div: "(if y \<ge> 0 then y else y - 399) sdiv 400 = (y :: int) div 400"
proof (cases "y \<ge> 0")
  case False
  obtain q r where y: "y = 400 * q + r" "0 \<le> r" "r < 400" "y div 400 = q"
    using quot_rem [of 400 y] by auto
  have "(399 - y) div 400 = - q"
    using y by (intro int_div_pos_eq [of _ _ _ "399 - r"]) simp_all
  moreover have "(y - 399) sdiv 400 = - ((399 - y) div 400)"
    using False by (simp add: signed_divide_int_def abs_if)
  ultimately show ?thesis using False y by simp
qed (auto simp: signed_divide_int_def sgn_if)

definition month_days :: "int \<Rightarrow> int" where
  "month_days m = (153 * (m + (if m > 2 then - 3 else 9)) + 2) div 5"

definition leap_days :: "int \<Rightarrow> int" where
  "leap_days y = y div 4 - y div 100 + y div 400"

lemma month_days_bounds: "\<lbrakk> 1 \<le> m; m \<le> 12 \<rbrakk> \<Longrightarrow> 0 \<le> month_days m \<and> month_days m \<le> 337"
  by (auto simp: month_days_def)

lemma leap_days_era:
  fixes e r :: int
  assumes "0 \<le> r" "r < 400"
  shows "leap_days (400 * e + r) = 97 * e + r div 4 - r div 100"
proof -
  obtain a b where a: "r = 4 * a + b" "0 \<le> b" "b < 4" "r div 4 = a" using quot_rem [of 4 r] by auto
  obtain c d where c: "r = 100 * c + d" "0 \<le> d" "d < 100" "r div 100 = c"
    using quot_rem [of 100 r] by auto
  have "(400 * e + r) div 4 = 100 * e + a" using a by (intro int_div_pos_eq [of _ _ _ b]) simp_all
  moreover have "(400 * e + r) div 100 = 4 * e + c"
    using c by (intro int_div_pos_eq [of _ _ _ d]) simp_all
  moreover have "(400 * e + r) div 400 = e"
    using assms by (intro int_div_pos_eq [of _ _ _ r]) simp_all
  ultimately show ?thesis unfolding leap_days_def a(4) c(4) by simp
qed

lemma DaysFromCivil_closed:
  fixes y :: int
  assumes "1 \<le> m" "m \<le> 12" "1 \<le> d" "d \<le> 31"
  defines "y' \<equiv> y - (if m \<le> 2 then 1 else 0)"
  shows "DaysFromCivil y m d = 365 * y' + leap_days y' + month_days m + d - 719469"
proof -
  obtain e r where y': "y' = 400 * e + r" "0 \<le> r" "r < 400" "y' div 400 = e"
    using quot_rem [of 400 y'] by auto
  have era: "(if y' \<ge> 0 then y' else y' - 399) sdiv 400 = e" unfolding era_div by (rule y'(4))
  have yoe: "wrap32 (y' - e * 400) = r" using y' by (simp add: wrap32_id)
  have md: "wrap32 (wrap32 (153 * wrap32 (m + (if m > 2 then - 3 else 9)) + 2) div 5 + d - 1) =
      month_days m + d - 1"
    using assms(1-4) month_days_bounds [of m]
    by (simp add: wrap32_id month_days_def split: if_splits)
  have "0 \<le> r div 4" "r div 4 \<le> 99" "0 \<le> r div 100" "r div 100 \<le> 3"
    using y'(2,3) by simp_all
  then have "wrap32 (r * 365 + r div 4 - r div 100 + (month_days m + d - 1)) =
      r * 365 + r div 4 - r div 100 + (month_days m + d - 1)"
    using y'(2,3) month_days_bounds [of m] assms(1-4) by (intro wrap32_id) simp_all
  then have "DaysFromCivil y m d =
      e * 146097 + (r * 365 + r div 4 - r div 100 + (month_days m + d - 1)) - 719468"
    unfolding DaysFromCivil_def Let_def y'_def [symmetric] era yoe md by simp
  then show ?thesis unfolding y'(1) leap_days_era [OF y'(2,3)] by simp
qed

section \<open>Properties\<close>

lemma div_step:
  fixes y k :: int
  assumes k: "0 < k"
  shows "y div k - (y - 1) div k = (if k dvd y then 1 else 0)"
proof -
  obtain q r where y: "y = k * q + r" "0 \<le> r" "r < k" "y div k = q" "y mod k = r"
    using quot_rem [OF k] by metis
  have "(y - 1) div k = (if r = 0 then q - 1 else q)"
  proof (cases "r = 0")
    case True
    then have "(y - 1) div k = q - 1" using y k
      by (intro int_div_pos_eq [of _ _ _ "k - 1"]) (simp_all add: algebra_simps)
    with True show ?thesis by simp
  next
    case False
    then have "(y - 1) div k = q" using y k
      by (intro int_div_pos_eq [of _ _ _ "r - 1"]) (simp_all add: algebra_simps)
    with False show ?thesis by simp
  qed
  then show ?thesis using y by (simp add: dvd_eq_mod_eq_0)
qed

lemma month_days_step:
  assumes "1 \<le> m" "m < 12" "m \<noteq> 2"
  shows "month_days (m + 1) = month_days m + month_length y m"
proof -
  from assms have "m = 1 \<or> m = 3 \<or> m = 4 \<or> m = 5 \<or> m = 6 \<or> m = 7 \<or> m = 8 \<or> m = 9 \<or> m = 10 \<or> m = 11"
    by presburger
  then show ?thesis by (auto simp: month_days_def month_length_def)
qed

lemma leap_bool:
  "\<lbrakk> c \<Longrightarrow> b; b \<Longrightarrow> a \<rbrakk> \<Longrightarrow> (if a then 1 else 0) - (if b then 1 else 0) + (if c then 1 else 0) =
   (if a \<and> (\<not> b \<or> c) then 1 else (0 :: int))"
  by (cases a; cases b; cases c) auto

lemma leap_days_step: "leap_days y = leap_days (y - 1) + (if leap y then 1 else 0)"
proof -
  have d: "400 dvd y \<Longrightarrow> 100 dvd y" "100 dvd y \<Longrightarrow> 4 dvd y"
    using dvd_trans [of 100 400 y] dvd_trans [of 4 100 y] by simp_all
  have arrange: "(a :: int) - b + c - (a' - b' + c') = (a - a') - (b - b') + (c - c')"
    for a b c a' b' c' by simp
  have s: "y div 4 - (y - 1) div 4 = (if 4 dvd y then 1 else 0)"
    "y div 100 - (y - 1) div 100 = (if 100 dvd y then 1 else 0)"
    "y div 400 - (y - 1) div 400 = (if 400 dvd y then 1 else 0)"
    by (rule div_step, simp)+
  have "leap_days y - leap_days (y - 1) =
      (if 4 dvd y then 1 else 0) - (if 100 dvd y then 1 else 0) + (if 400 dvd y then 1 else 0)"
    unfolding leap_days_def arrange s ..
  also have "\<dots> = (if leap y then 1 else 0)" unfolding leap_def by (rule leap_bool [OF d])
  finally show ?thesis by simp
qed

text \<open>
  The day count is the Gregorian calendar's: it is 0 on 1 January 1970, and every calendar day
  (leap years and the ends of months and years included) is counted exactly once.
\<close>

lemma DaysFromCivil_calendar:
  assumes "valid_date y m d" "next_day (y, m, d) = (y', m', d')"
  shows "DaysFromCivil 1970 1 1 = 0 \<and> DaysFromCivil y' m' d' = DaysFromCivil y m d + 1"
proof
  show "DaysFromCivil 1970 1 1 = 0" by code_simp
  have v: "1 \<le> m" "m \<le> 12" "1 \<le> d" "d \<le> month_length y m" "month_length y m \<le> 31"
    using assms(1) by (auto simp: valid_date_def month_length_def)
  then have "d \<le> 31" by linarith
  note here = DaysFromCivil_closed [OF v(1-3) this, of y]
  consider (day) "d < month_length y m" | (feb) "d = month_length y m" "m = 2"
    | (month) "d = month_length y m" "m < 12" "m \<noteq> 2" | (year) "d = month_length y m" "m = 12"
    using v by linarith
  then show "DaysFromCivil y' m' d' = DaysFromCivil y m d + 1"
  proof cases
    case day
    then have "y' = y" "m' = m" "d' = d + 1" using assms(2) by (simp_all add: next_day_def)
    then show ?thesis using here v day DaysFromCivil_closed [of m "d + 1" y] by simp
  next
    case feb
    then have n: "y' = y" "m' = 3" "d' = 1" using assms(2) by (simp_all add: next_day_def)
    have "month_days 3 = 0" "month_days 2 = 337" by (simp_all add: month_days_def)
    then show ?thesis
      using here feb n DaysFromCivil_closed [of 3 1 y] leap_days_step [of y]
      by (auto simp: month_length_def)
  next
    case month
    then have "y' = y" "m' = m + 1" "d' = 1" using assms(2) by (simp_all add: next_day_def)
    then show ?thesis
      using here v month DaysFromCivil_closed [of "m + 1" 1 y] month_days_step [of m y] by auto
  next
    case year
    then have "y' = y + 1" "m' = 1" "d' = 1" "d = 31"
      using assms(2) by (simp_all add: next_day_def month_length_def)
    then show ?thesis using here year DaysFromCivil_closed [of 1 1 "y + 1"]
      by (simp add: month_days_def)
  qed
qed

lemma leap_days_bounds: "\<lbrakk> - 1 \<le> y; y \<le> 65535 \<rbrakk> \<Longrightarrow> - 10 \<le> leap_days y \<and> leap_days y \<le> 20000"
proof -
  assume y: "- 1 \<le> y" "y \<le> 65535"
  obtain a b where a: "y = 4 * a + b" "0 \<le> b" "b < 4" "y div 4 = a" using quot_rem [of 4 y] by auto
  obtain c d where c: "y = 100 * c + d" "0 \<le> d" "d < 100" "y div 100 = c" using quot_rem [of 100 y] by auto
  obtain e f where e: "y = 400 * e + f" "0 \<le> f" "f < 400" "y div 400 = e" using quot_rem [of 400 y] by auto
  show ?thesis unfolding leap_days_def a(4) c(4) e(4) using y a(1-3) c(1-3) e(1-3) by linarith
qed

lemma time_bound:
  fixes D h mi sec us :: int
  assumes "- 730000 \<le> D" "D \<le> 25000000" "0 \<le> h" "h \<le> 23" "0 \<le> mi" "mi \<le> 59" "0 \<le> sec" "sec \<le> 60"
    "0 \<le> us" "us \<le> 999999"
  shows "\<bar>(D * 86400 + h * 3600 + mi * 60 + sec) * 1000000 + us\<bar> < 2 ^ 61"
proof -
  have "- 63072000000 \<le> D * 86400 + h * 3600 + mi * 60 + sec"
    "D * 86400 + h * 3600 + mi * 60 + sec \<le> 2160000086400" using assms by simp_all
  then show ?thesis using assms(9,10) by simp
qed

text \<open>
  Whatever bytes a telegram carries, the time computed from them is within \<open>2 ^ 61\<close> microseconds of the
  epoch, so that neither the \<^verbatim>\<open>int64_t\<close> computation nor a difference of two results overflows; and a time
  counts as plausible only when every calendar field is in range.
\<close>

lemma DeviceTimeUnixUs_range:
  "\<bar>DeviceTimeUnixUs ts\<bar> < 2 ^ 61 \<and>
   (DeviceTimePlausible ts \<longrightarrow>
      1 \<le> ts_month ts \<and> ts_month ts \<le> 12 \<and> 1 \<le> ts_day ts \<and> ts_day ts \<le> 31 \<and> ts_hour ts \<le> 23 \<and>
      ts_minute ts \<le> 59 \<and> ts_second ts \<le> 60 \<and> ts_microsecond ts \<le> 999999)"
proof (cases "ts_month ts < 1 \<or> ts_month ts > 12 \<or> ts_day ts < 1 \<or> ts_day ts > 31 \<or> ts_hour ts > 23 \<or>
    ts_minute ts > 59 \<or> ts_second ts > 60 \<or> ts_microsecond ts > 999999")
  case True
  then show ?thesis
    by (simp add: DeviceTimeUnixUs_def DeviceTimePlausible_def kEarliestPlausibleDeviceTimeUs_def)
next
  case False
  let ?y = "uint (ts_year ts)" and ?m = "uint (ts_month ts)" and ?d = "uint (ts_day ts)"
  have f: "1 \<le> ?m" "?m \<le> 12" "1 \<le> ?d" "?d \<le> 31" "uint (ts_hour ts) \<le> 23"
    "uint (ts_minute ts) \<le> 59" "uint (ts_second ts) \<le> 60" "uint (ts_microsecond ts) \<le> 999999"
    using False by (simp_all add: word_less_def not_less)
  have y: "0 \<le> ?y" "?y \<le> 65535" using unsigned_less [of "ts_year ts", where 'a = int] by simp_all
  define y' where "y' = ?y - (if ?m \<le> 2 then 1 else 0)"
  have y': "- 1 \<le> y'" "y' \<le> 65535" using y by (cases "?m \<le> 2"; simp add: y'_def; linarith)+
  have days: "- 730000 \<le> DaysFromCivil ?y ?m ?d" "DaysFromCivil ?y ?m ?d \<le> 25000000"
    using DaysFromCivil_closed [OF f(1-4), of ?y, folded y'_def] leap_days_bounds [OF y']
      month_days_bounds [OF f(1,2)] y' f(3,4) by linarith+
  have "0 \<le> uint (ts_hour ts)" "0 \<le> uint (ts_minute ts)" "0 \<le> uint (ts_second ts)"
    "0 \<le> uint (ts_microsecond ts)" by simp_all
  note nonneg = this
  have "DeviceTimeUnixUs ts = (DaysFromCivil ?y ?m ?d * 86400 + uint (ts_hour ts) * 3600 +
      uint (ts_minute ts) * 60 + uint (ts_second ts)) * 1000000 + uint (ts_microsecond ts)"
    using False by (simp add: DeviceTimeUnixUs_def Let_def)
  then have "\<bar>DeviceTimeUnixUs ts\<bar> < 2 ^ 61"
    using time_bound [OF days nonneg(1) f(5) nonneg(2) f(6) nonneg(3) f(7) nonneg(4) f(8)] by (simp only:)
  moreover have "1 \<le> ts_month ts \<and> ts_month ts \<le> 12 \<and> 1 \<le> ts_day ts \<and> ts_day ts \<le> 31 \<and>
      ts_hour ts \<le> 23 \<and> ts_minute ts \<le> 59 \<and> ts_second ts \<le> 60 \<and> ts_microsecond ts \<le> 999999"
    using False unfolding de_Morgan_disj not_less by (elim conjE, intro conjI) assumption+
  ultimately show ?thesis by (rule conjI [OF _ impI])
qed

end
