(* ===== verification/Recording_Status.thy ===== *)
theory Recording_Status
  imports Prelude
begin

text \<open>
  \<^verbatim>\<open>lms4xxx_driver/include/statistics.h\<close> and \<^verbatim>\<open>include/recording_status.h\<close>: the counters of a driver, the
  online check for data loss and the final verdict on a recording. \<open>Snapshot\<close> and the live counters have
  the same fields here: an atomic counter is its value. \<^verbatim>\<open>DeliveryRate\<close> is a floating point display value
  and not modelled. A reason is a structured value in place of its text.
\<close>

datatype NtpStatus =
  kOff | kUnverified | kNoTimestamp | kUnreachable | kNotLocked | kNoSignal | kStale | kClockAnomaly

record DriverStatistics =
  bytes_received :: u64
  frames_received :: u64
  drv_frames_dropped :: u64
  crc_errors :: u64
  framing_errors :: u64
  frames_parsed :: u64
  non_scan_frames :: u64
  parse_errors :: u64
  counter_gaps :: u64
  unexpected_replies :: u64
  prelock_scans_discarded :: u64
  max_time_step_us :: int
  utc_backwards :: u64
  utc_repeated :: u64
  clock_step_events :: u64
  time_anomaly_events :: u64
  device_no_ntp_events :: u64
  ntp_server_reachable :: bool
  last_frame_time_us :: u64
  last_telegram_counter :: u32
  last_scan_counter :: u32
  ntp_configured_at_us :: u64
  ntp_status :: NtpStatus

definition new_DriverStatistics :: DriverStatistics where
  "new_DriverStatistics =
     \<lparr>bytes_received = 0, frames_received = 0, drv_frames_dropped = 0, crc_errors = 0,
      framing_errors = 0, frames_parsed = 0, non_scan_frames = 0, parse_errors = 0, counter_gaps = 0,
      unexpected_replies = 0, prelock_scans_discarded = 0, max_time_step_us = 0, utc_backwards = 0,
      utc_repeated = 0, clock_step_events = 0, time_anomaly_events = 0, device_no_ntp_events = 0,
      ntp_server_reachable = False, last_frame_time_us = 0, last_telegram_counter = 0,
      last_scan_counter = 0, ntp_configured_at_us = 0, ntp_status = kOff\<rparr>"

definition ScanCandidateFrames :: "DriverStatistics \<Rightarrow> u64" where
  "ScanCandidateFrames s =
     (if frames_received s > non_scan_frames s then frames_received s - non_scan_frames s else 0)"

definition ResetStatistics :: "DriverStatistics \<Rightarrow> DriverStatistics" where
  "ResetStatistics s = s\<lparr>bytes_received := 0, frames_received := 0, drv_frames_dropped := 0,
     crc_errors := 0, framing_errors := 0, frames_parsed := 0, non_scan_frames := 0,
     parse_errors := 0, counter_gaps := 0, unexpected_replies := 0, prelock_scans_discarded := 0,
     max_time_step_us := 0, utc_backwards := 0, utc_repeated := 0, clock_step_events := 0,
     time_anomaly_events := 0, device_no_ntp_events := 0, last_frame_time_us := 0,
     last_telegram_counter := 0, last_scan_counter := 0\<rparr>"

text \<open>\<^verbatim>\<open>RawRecorder::Statistics\<close>.\<close>

record RecorderStatistics =
  frames_queued :: u64
  frames_written :: u64
  frames_dropped :: u64
  scans_queued :: u64
  scans_written :: u64
  bytes_written :: u64
  files_created :: u64

definition FirstDataLoss :: "DriverStatistics \<Rightarrow> RecorderStatistics \<Rightarrow> string option" where
  "FirstDataLoss drv wr =
     (if drv_frames_dropped drv \<noteq> 0 then Some ''receive ring overflow''
      else if frames_dropped wr \<noteq> 0 then Some ''writer rejected or dropped telegrams''
      else if crc_errors drv \<noteq> 0 then Some ''frame checksum error''
      else if framing_errors drv \<noteq> 0 then Some ''framing error''
      else if parse_errors drv \<noteq> 0 then Some ''parse error''
      else None)"

datatype failure_reason =
    Count string u64
  | WriterFailure
  | CountMismatch u64 u64 u64
  | DriverFault
  | EarlierFailure

record RecordingStatus =
  data_integrity_failed :: bool
  time_quality_degraded :: bool
  failure_reasons :: "failure_reason list"

definition Failed :: "RecordingStatus \<Rightarrow> bool" where
  "Failed r \<longleftrightarrow> failure_reasons r \<noteq> []"

definition data_error :: "string \<Rightarrow> u64 \<Rightarrow> RecordingStatus \<Rightarrow> RecordingStatus" where
  "data_error name count r =
     (if count = 0 then r
      else r\<lparr>data_integrity_failed := True, failure_reasons := failure_reasons r @ [Count name count]\<rparr>)"

definition time_error :: "string \<Rightarrow> u64 \<Rightarrow> RecordingStatus \<Rightarrow> RecordingStatus" where
  "time_error name count r =
     (if count = 0 then r
      else r\<lparr>time_quality_degraded := True, failure_reasons := failure_reasons r @ [Count name count]\<rparr>)"

definition AssessRecording ::
    "DriverStatistics \<Rightarrow> RecorderStatistics \<Rightarrow> bool \<Rightarrow> bool \<Rightarrow> bool \<Rightarrow> RecordingStatus" where
  "AssessRecording drv wr driver_fault writer_failed already_failed =
     (let r = \<lparr>data_integrity_failed = False,
               time_quality_degraded = ntp_status drv \<in> {kNoTimestamp, kNotLocked, kNoSignal, kUnreachable, kClockAnomaly},
               failure_reasons = []\<rparr>;
          r = data_error ''dropped_ring'' (drv_frames_dropped drv) r;
          r = data_error ''dropped_writer'' (frames_dropped wr) r;
          r = data_error ''counter_gaps'' (counter_gaps drv) r;
          r = data_error ''crc_errors'' (crc_errors drv) r;
          r = data_error ''framing_errors'' (framing_errors drv) r;
          r = data_error ''parse_errors'' (parse_errors drv) r;
          r = (if writer_failed
               then r\<lparr>data_integrity_failed := True, failure_reasons := failure_reasons r @ [WriterFailure]\<rparr>
               else r);
          r = (if frames_received drv \<noteq> frames_queued wr \<or> frames_queued wr \<noteq> frames_written wr
               then r\<lparr>data_integrity_failed := True,
                      failure_reasons := failure_reasons r @
                        [CountMismatch (frames_received drv) (frames_queued wr) (frames_written wr)]\<rparr>
               else r);
          r = time_error ''device reported No NTP signal: ntp_device_loss'' (device_no_ntp_events drv) r;
          r = time_error ''device time anomaly: time_anomaly_events'' (time_anomaly_events drv) r;
          r = time_error ''device clock discontinuity: clock_step_events'' (clock_step_events drv) r;
          r = (if driver_fault then r\<lparr>failure_reasons := failure_reasons r @ [DriverFault]\<rparr> else r)
      in if already_failed \<and> \<not> Failed r
         then r\<lparr>failure_reasons := failure_reasons r @ [EarlierFailure]\<rparr> else r)"

section \<open>Properties\<close>

lemma data_error_simps [simp]:
  "failure_reasons (data_error n c r) = failure_reasons r @ (if c = 0 then [] else [Count n c])"
  "data_integrity_failed (data_error n c r) \<longleftrightarrow> data_integrity_failed r \<or> c \<noteq> 0"
  "time_quality_degraded (data_error n c r) = time_quality_degraded r"
  by (simp_all add: data_error_def)

lemma time_error_simps [simp]:
  "failure_reasons (time_error n c r) = failure_reasons r @ (if c = 0 then [] else [Count n c])"
  "data_integrity_failed (time_error n c r) = data_integrity_failed r"
  "time_quality_degraded (time_error n c r) \<longleftrightarrow> time_quality_degraded r \<or> c \<noteq> 0"
  by (simp_all add: time_error_def)

definition data_lost :: "DriverStatistics \<Rightarrow> RecorderStatistics \<Rightarrow> bool \<Rightarrow> bool" where
  "data_lost drv wr writer_failed \<longleftrightarrow>
     drv_frames_dropped drv \<noteq> 0 \<or> frames_dropped wr \<noteq> 0 \<or> counter_gaps drv \<noteq> 0 \<or>
     crc_errors drv \<noteq> 0 \<or> framing_errors drv \<noteq> 0 \<or> parse_errors drv \<noteq> 0 \<or> writer_failed \<or>
     \<not> (frames_received drv = frames_queued wr \<and> frames_queued wr = frames_written wr)"

lemma AssessRecording_integrity:
  "data_integrity_failed (AssessRecording drv wr f w a) \<longleftrightarrow> data_lost drv wr w"
  by (simp add: AssessRecording_def Let_def data_lost_def)

lemma AssessRecording_Failed:
  "Failed (AssessRecording drv wr f w a) \<longleftrightarrow> data_lost drv wr w \<or> device_no_ntp_events drv \<noteq> 0 \<or>
     time_anomaly_events drv \<noteq> 0 \<or> clock_step_events drv \<noteq> 0 \<or> f \<or> a"
  by (simp add: AssessRecording_def Let_def Failed_def data_lost_def)



end
