(* ===== verification/Ntp_Probe.thy ===== *)
theory Ntp_Probe
  imports Prelude "HOL-Library.Signed_Division"
begin

text \<open>
  \<^verbatim>\<open>lms4xxx_driver/src/ntp_probe.cpp\<close>: the request, the verdict and the UDP exchange of the SNTP liveness
  probe. The socket calls are the parameter \<open>udp\<close>, functions on a world. The lemmas show that an answer is
  accepted only when it echoes the nonce of this very request, and that the socket is closed on every path.
\<close>

definition kPacketBytes :: nat where "kPacketBytes = 48"

definition BuildRequest :: "u64 \<Rightarrow> bytes" where
  "BuildRequest nonce =
     fold (\<lambda>i pkt. pkt[40 + i := ucast (drop_bit (56 - 8 * i) nonce)]) [0..<8]
       ((replicate kPacketBytes 0)[0 := 0x23])"

datatype ntp_detail =
    ShortResponse
  | UnexpectedVersion u8
  | UnexpectedMode u8
  | LeapAlarm
  | BadStratum u8
  | OriginateMismatch
  | ZeroTransmit
  | Stratum u8
  | SystemError string
  | InvalidServer string
  | NoResponse string

definition EvaluateResponse :: "bytes \<Rightarrow> bytes \<Rightarrow> bool \<times> ntp_detail" where
  "EvaluateResponse request response =
     (if length response < kPacketBytes then (False, ShortResponse)
      else
        let li = drop_bit 6 (response ! 0);
            version = drop_bit 3 (response ! 0) AND 0x07;
            mode = response ! 0 AND 0x07;
            stratum = response ! 1 in
        if version < 3 \<or> version > 4 then (False, UnexpectedVersion version)
        else if mode \<noteq> 4 \<and> mode \<noteq> 5 then (False, UnexpectedMode mode)
        else if li = 3 then (False, LeapAlarm)
        else if stratum = 0 \<or> stratum > 15 then (False, BadStratum stratum)
        else if take 8 (drop 40 request) \<noteq> take 8 (drop 24 response) then (False, OriginateMismatch)
        else if list_all (\<lambda>b. b = 0) (take 8 (drop 40 response)) then (False, ZeroTransmit)
        else (True, Stratum stratum))"

section \<open>The exchange\<close>

definition kPort :: nat where "kPort = 123"

text \<open>\<open>udp_recv\<close> also tells how long it waited; \<open>udp_strerror\<close> is the text of the current \<^verbatim>\<open>errno\<close>.\<close>

record 'w udp =
  udp_socket :: "'w \<Rightarrow> bool \<times> 'w"
  udp_set_timeout :: "int \<Rightarrow> int \<Rightarrow> 'w \<Rightarrow> 'w"
  udp_address_ok :: "string \<Rightarrow> bool"
  udp_connect :: "string \<Rightarrow> nat \<Rightarrow> 'w \<Rightarrow> bool \<times> 'w"
  udp_send :: "bytes \<Rightarrow> 'w \<Rightarrow> int \<times> 'w"
  udp_recv :: "nat \<Rightarrow> 'w \<Rightarrow> bytes option \<times> nat \<times> 'w"
  udp_close :: "'w \<Rightarrow> 'w"
  udp_strerror :: "'w \<Rightarrow> string"
  udp_getpid :: u64

definition probe_nonce :: "'w udp \<Rightarrow> nat \<Rightarrow> u64" where
  "probe_nonce u now = word_of_nat now XOR push_bit 48 (udp_getpid u)"

text \<open>The result, its detail, the time the probe took and the world after it.\<close>

definition ProbeServer ::
    "'w udp \<Rightarrow> string \<Rightarrow> int \<Rightarrow> nat \<Rightarrow> 'w \<Rightarrow> (bool \<times> ntp_detail) \<times> nat \<times> 'w" where
  "ProbeServer u server_ip timeout_ms now w =
     (case udp_socket u w of (opened, w) \<Rightarrow>
        if \<not> opened then ((False, SystemError (udp_strerror u w)), 0, w)
        else
          let w = udp_set_timeout u (timeout_ms sdiv 1000) ((timeout_ms smod 1000) * 1000) w in
          if \<not> udp_address_ok u server_ip then ((False, InvalidServer server_ip), 0, udp_close u w)
          else case udp_connect u server_ip kPort w of (connected, w) \<Rightarrow>
            if \<not> connected then ((False, SystemError (udp_strerror u w)), 0, udp_close u w)
            else
              let request = BuildRequest (probe_nonce u now) in
              case udp_send u request w of (sent, w) \<Rightarrow>
                if sent \<noteq> int (length request) then ((False, SystemError (udp_strerror u w)), 0, udp_close u w)
                else case udp_recv u kPacketBytes w of (answer, dt, w) \<Rightarrow>
                  let w = udp_close u w
                  in case answer of
                       None \<Rightarrow> ((False, NoResponse (udp_strerror u w)), dt, w)
                     | Some response \<Rightarrow> (EvaluateResponse request (take kPacketBytes response), dt, w))"

section \<open>The nonce\<close>

lemma upt_8: "[0..<8] = [0, 1, 2, 3, 4, 5, 6, 7 :: nat]"
  by code_simp

lemma length_BuildRequest [simp]: "length (BuildRequest nonce) = 48"
  by (simp add: BuildRequest_def upt_8 kPacketBytes_def)

lemma BuildRequest_transmit:
  "take 8 (drop 40 (BuildRequest nonce)) = map (\<lambda>i. ucast (drop_bit (56 - 8 * i) nonce)) [0..<8]"
proof (rule nth_equalityI)
  fix i assume "i < length (take 8 (drop 40 (BuildRequest nonce)))"
  then have "i < 8" by simp
  then have "i = 0 \<or> i = 1 \<or> i = 2 \<or> i = 3 \<or> i = 4 \<or> i = 5 \<or> i = 6 \<or> i = 7" by presburger
  then show "take 8 (drop 40 (BuildRequest nonce)) ! i =
      map (\<lambda>i. ucast (drop_bit (56 - 8 * i) nonce)) [0..<8] ! i"
    by (auto simp: BuildRequest_def upt_8 kPacketBytes_def nth_list_update)
qed simp

lemma nonce_bit:
  assumes "k < 64"
  shows "bit (map (\<lambda>i. ucast (drop_bit (56 - 8 * i) nonce) :: u8) [0..<8] ! (7 - k div 8)) (k mod 8) =
         bit (nonce :: u64) k"
proof -
  have "k div 8 < 8" using assms by simp
  moreover have "56 - 8 * (7 - k div 8) + k mod 8 = k"
    using assms by presburger
  moreover have "[0..<8] ! (7 - k div 8) = 7 - k div 8"
    using nth_upt [of 0 "7 - k div 8" 8] by simp
  ultimately show ?thesis by (simp add: bit_ucast_iff bit_drop_bit_eq)
qed

lemma BuildRequest_inject:
  assumes "take 8 (drop 40 (BuildRequest a)) = take 8 (drop 40 (BuildRequest b))"
  shows "a = b"
proof (rule bit_word_eqI)
  fix k assume "k < LENGTH(64)"
  then have "k < 64" by simp
  then show "bit a k = bit b k"
    using nonce_bit [of k a] nonce_bit [of k b] assms by (simp only: BuildRequest_transmit)
qed

text \<open>
  An answer is accepted only if it is a complete server or broadcast packet of version 3 or 4
  from a synchronised server of stratum 1 to 15, with a nonzero transmit time, whose originate field
  is the nonce of this request: the answer to a request with any other nonce is refused.
\<close>

lemma EvaluateResponse_fresh:
  assumes "fst (EvaluateResponse (BuildRequest nonce) response)"
    and "take 8 (drop 24 response) = take 8 (drop 40 (BuildRequest nonce'))"
  shows "nonce = nonce' \<and> 48 \<le> length response \<and>
         drop_bit 3 (response ! 0) AND 7 \<in> {3, 4} \<and> response ! 0 AND 7 \<in> {4, 5} \<and>
         drop_bit 6 (response ! 0) \<noteq> 3 \<and> response ! 1 \<in> {1..15} \<and>
         (\<exists>b \<in> set (take 8 (drop 40 response)). b \<noteq> 0)"
proof -
  have ok: "48 \<le> length response" "\<not> (drop_bit 3 (response ! 0) AND 7 < 3)"
    "\<not> (drop_bit 3 (response ! 0) AND 7 > 4)" "response ! 0 AND 7 = 4 \<or> response ! 0 AND 7 = 5"
    "drop_bit 6 (response ! 0) \<noteq> 3" "response ! 1 \<noteq> 0" "\<not> response ! 1 > 15"
    "take 8 (drop 40 (BuildRequest nonce)) = take 8 (drop 24 response)"
    "\<not> list_all (\<lambda>b. b = 0) (take 8 (drop 40 response))"
    using assms(1) by (simp_all add: EvaluateResponse_def Let_def kPacketBytes_def not_less split: if_splits)
  have between: "v = 3 \<or> v = 4" if "\<not> v < 3" "\<not> v > 4" for v :: u8
  proof -
    have "unat v = 3 \<or> unat v = 4" using that by (auto simp: word_less_nat_alt not_less)
    then show ?thesis by (auto simp: word_unat_eq_iff)
  qed
  have "nonce = nonce'" using ok(8) assms(2) by (intro BuildRequest_inject) simp
  moreover have "response ! 1 \<in> {1..15}" using ok(6,7)
    by (simp add: not_less word_le_nat_alt Suc_le_eq unat_gt_0)
  ultimately show ?thesis using ok between by (auto simp: list_all_iff)
qed

definition sample_response :: bytes where
  "sample_response = [0x24, 2] @ replicate 22 0 @ take 8 (drop 40 (BuildRequest 77)) @ replicate 15 0 @ [9]"

lemma sample_response_ok: "EvaluateResponse (BuildRequest 77) sample_response = (True, Stratum 2)"
  by code_simp

text \<open>A socket layer that counts its open descriptors and always gives the sample answer.\<close>

definition sample_udp :: "nat udp" where
  "sample_udp = \<lparr>udp_socket = (\<lambda>n. (True, n + 1)), udp_set_timeout = (\<lambda>s us n. n), udp_address_ok = (\<lambda>ip. True),
     udp_connect = (\<lambda>ip port n. (True, n)), udp_send = (\<lambda>bs n. (int (length bs), n)),
     udp_recv = (\<lambda>k n. (Some sample_response, 7, n)), udp_close = (\<lambda>n. n - 1), udp_strerror = (\<lambda>n. []),
     udp_getpid = 0\<rparr>"

text \<open>
  A probe leaks no socket and can not be fooled: on every path, failures included, it closes the descriptor
  it opened, and it calls the server reachable only if the network gave a complete answer that passes every check
  against the request with the nonce of this probe.
\<close>

lemma ProbeServer_closes:
  assumes "\<And>w. fds (snd (udp_socket u w)) = fds w + (if fst (udp_socket u w) then 1 else 0)"
    and "\<And>s us w. fds (udp_set_timeout u s us w) = fds w"
    and "\<And>ip p w. fds (snd (udp_connect u ip p w)) = fds w"
    and "\<And>bs w. fds (snd (udp_send u bs w)) = fds w"
    and "\<And>n w. fds (snd (snd (udp_recv u n w))) = fds w"
    and "\<And>w. fds (udp_close u w) = fds w - (1 :: nat)"
    and "ProbeServer u ip t now w = ((reachable, detail), dt, w')"
  shows "fds w' = fds w \<and>
    (reachable \<longrightarrow> udp_address_ok u ip \<and> (\<exists>v response. fst (udp_recv u 48 v) = Some response \<and> 48 \<le> length response \<and>
       EvaluateResponse (BuildRequest (probe_nonce u now)) (take 48 response) = (True, detail)))"
proof -
  obtain b w1 where s: "udp_socket u w = (b, w1)" by fastforce
  define w2 where "w2 = udp_set_timeout u (t sdiv 1000) ((t smod 1000) * 1000) w1"
  obtain b2 w3 where c: "udp_connect u ip kPort w2 = (b2, w3)" by fastforce
  obtain k w4 where n: "udp_send u (BuildRequest (probe_nonce u now)) w3 = (k, w4)" by fastforce
  obtain a d w5 where r: "udp_recv u kPacketBytes w4 = (a, d, w5)" by (metis prod.exhaust)
  have w1: "fds w1 = fds w + (if b then 1 else 0)" using assms(1) [of w] by (simp add: s)
  have w2: "fds w2 = fds w1" by (simp add: w2_def assms(2))
  have w3: "fds w3 = fds w2" using assms(3) [of ip kPort w2] by (simp add: c)
  have w4: "fds w4 = fds w3" using assms(4) [of "BuildRequest (probe_nonce u now)" w3] by (simp add: n)
  have w5: "fds w5 = fds w4" using assms(5) [of kPacketBytes w4] by (simp add: r)
  note all = assms(7) [unfolded ProbeServer_def s prod.case w2_def [symmetric] Let_def c n r]
  have "fds w' = fds w"
    using all w1 by (auto simp: w2 w3 w4 w5 assms(6) split: if_splits option.splits)
  moreover have "EvaluateResponse (BuildRequest (probe_nonce u now)) (take 48 x) = (True, detail) \<Longrightarrow> 48 \<le> length x" for x
    by (simp add: EvaluateResponse_def kPacketBytes_def split: if_splits)
  moreover have "fst (udp_recv u 48 w4) = a" using r by (simp add: kPacketBytes_def)
  ultimately show ?thesis
    using all by (auto 0 4 simp: kPacketBytes_def split: if_splits option.splits)
qed

end
