(* ===== verification/Driver_Monitor.thy ===== *)
theory Driver_Monitor
  imports Command_Channel Frame_Receiver Raw_Recorder Clock_Quality Scan_Data_Parser Scan_Time Scan_Verify
    Recording_Status Ntp_Probe
begin

text \<open>
  The receive side of \<^verbatim>\<open>lms4xxx_driver/src/driver_stream.cpp\<close> with the decoders of
  \<^verbatim>\<open>driver_configuration.cpp\<close> it uses: what the driver does with every telegram while streaming. The state
  is the part of \<^verbatim>\<open>Lms4xxxDriver::Impl\<close> the receive thread works on; the calls of the error and the telegram
  callback are logs (\<open>mon_errors\<close>, \<open>mon_records\<close>). The readings of the clocks are arguments. Log lines are not
  modelled, and a \<^verbatim>\<open>double\<close> that is only stored is kept as the device's bit pattern or integer.
\<close>

section \<open>Configuration and state\<close>

record DeviceConfig =
  dev_ip :: string
  dev_port :: u16

record NtpConfig =
  ntp_enabled :: bool
  ntp_server :: string
  ntp_sync_interval_s :: u32
  ntp_check_status_s :: u32
  ntp_lock_timeout_s :: u32
  ntp_max_time_step_ms :: u32

record NetworkConfig =
  net_recv_buffer_bytes :: nat
  net_connect_timeout_ms :: int
  net_response_timeout_ms :: int
  net_config_timeout_ms :: int
  net_tcp_keepalive :: bool
  net_keepalive_idle_s :: int
  net_keepalive_interval_s :: int
  net_keepalive_count :: int

record DriverConfig =
  cfg_name :: string
  cfg_device :: DeviceConfig
  cfg_remission :: Remission
  cfg_ntp :: NtpConfig
  cfg_network :: NetworkConfig

record TelemetrySample =
  tel_unix_us :: u64
  tel_temperature_c :: "float32 option"
  tel_device_state :: "u8 option"
  tel_warnings :: "string list"

definition new_TelemetrySample :: TelemetrySample where
  "new_TelemetrySample = \<lparr>tel_unix_us = 0, tel_temperature_c = None, tel_device_state = None, tel_warnings = []\<rparr>"

record TimeGate =
  gate_deadline :: nat
  gate_plausible_seen :: bool
  gate_anomaly_seen :: bool
  gate_tracker :: ClockQualityTracker

definition new_TimeGate :: TimeGate where
  "new_TimeGate = \<lparr>gate_deadline = 0, gate_plausible_seen = False, gate_anomaly_seen = False,
     gate_tracker = new_ClockQualityTracker\<rparr>"

datatype report =
    ScanContentMismatch "problem list"
  | DeviceTimeFault
  | NtpUnreachable ntp_detail
  | CallbackFailed
  | Desynchronised
  | ReadError
  | ConnectFailed

record monitor =
  mon_config :: DriverConfig
  mon_stats :: DriverStatistics
  mon_fault :: bool
  mon_time_fault :: bool
  mon_stop_stream_requested :: bool
  mon_telemetry_latest :: TelemetrySample
  mon_telemetry_dirty :: bool
  mon_device_warnings_us :: u64
  mon_device_no_ntp :: bool
  mon_last_method_name :: string
  mon_last_method_status :: int
  mon_time_gate :: TimeGate
  mon_first_scan :: bool
  mon_previous_scan_counter_valid :: bool
  mon_errors :: "(error_code \<times> report) list"
  mon_records :: "RawRecord list"

definition new_monitor :: "DriverConfig \<Rightarrow> monitor" where
  "new_monitor cfg = \<lparr>mon_config = cfg, mon_stats = new_DriverStatistics, mon_fault = False, mon_time_fault = False,
     mon_stop_stream_requested = False, mon_telemetry_latest = new_TelemetrySample, mon_telemetry_dirty = False,
     mon_device_warnings_us = 0, mon_device_no_ntp = False, mon_last_method_name = [], mon_last_method_status = -1,
     mon_time_gate = new_TimeGate, mon_first_scan = True, mon_previous_scan_counter_valid = False,
     mon_errors = [], mon_records = []\<rparr>"

text \<open>The clocks: microseconds of the steady clock, its reading in nanoseconds, and the wall clock.\<close>

record clocks =
  ck_steady_us :: u64
  ck_steady :: nat
  ck_realtime_us :: u64

definition ReportError :: "error_code \<Rightarrow> report \<Rightarrow> monitor \<Rightarrow> monitor" where
  "ReportError ec detail m = m\<lparr>mon_errors := mon_errors m @ [(ec, detail)]\<rparr>"

abbreviation on_stats :: "(DriverStatistics \<Rightarrow> DriverStatistics) \<Rightarrow> monitor \<Rightarrow> monitor" where
  "on_stats f m \<equiv> m\<lparr>mon_stats := f (mon_stats m)\<rparr>"

section \<open>Decoding device answers\<close>

definition IsTolerableSfa :: "error_code \<Rightarrow> bool" where
  "IsTolerableSfa ec \<longleftrightarrow> ec = Drv kSopasError \<or> ec = Drv kAccessDenied"

definition PrefixedString :: "bytes \<Rightarrow> string" where
  "PrefixedString p =
     (let n16 = (if length p \<ge> 2 then unat (DecodeUint16 p) else 0) in
      if length p \<ge> 2 \<and> n16 > 0 \<and> n16 \<le> length p - 2 then chars_of (take n16 (drop 2 p))
      else if p \<noteq> [] \<and> p ! 0 > 0 \<and> unat (p ! 0) \<le> length p - 1 then chars_of (take (unat (p ! 0)) (drop 1 p))
      else chars_of p)"

fun dec_digits :: "nat \<Rightarrow> string" where
  "dec_digits n = (if n < 10 then [char_of (48 + n)] else dec_digits (n div 10) @ [char_of (48 + n mod 10)])"

declare dec_digits.simps [simp del]

text \<open>The loop over the announced messages: the texts and the position it stopped at.\<close>

fun active_messages :: "bytes \<Rightarrow> nat \<Rightarrow> nat \<Rightarrow> string list \<times> nat" where
  "active_messages p 0 pos = ([], pos)"
| "active_messages p (Suc k) pos =
     (if pos + 4 > length p then ([], pos)
      else
        let id = DecodeUint16 (drop pos p); len = unat (DecodeUint16 (drop (pos + 2) p)); pos = pos + 4 in
        if pos + len > length p then ([], pos)
        else
          let (rest, last_pos) = active_messages p k (pos + len)
          in ((dec_digits (unat id) @ '': '' @ chars_of (take len (drop pos p))) # rest, last_pos))"

definition DecodeActiveMessages :: "bytes \<Rightarrow> string list \<times> bool" where
  "DecodeActiveMessages p =
     (if length p < 2 then ([], False)
      else
        let n = unat (DecodeUint16 p); (out, pos) = active_messages p n 2
        in (out, pos = length p \<and> length out = n))"

section \<open>Answers that are not scans\<close>

definition read_answer :: "clocks \<Rightarrow> ColaBMessage \<Rightarrow> monitor \<Rightarrow> monitor option" where
  "read_answer ck msg m =
     (if command_name msg = ''OPcurtmpdev'' \<and> length (payload msg) \<ge> 4 then
        Some (m\<lparr>mon_telemetry_latest := (mon_telemetry_latest m)\<lparr>tel_temperature_c := Some (DecodeFloat (payload msg))\<rparr>\<rparr>)
      else if command_name msg = ''SCdevicestate'' \<and> payload msg \<noteq> [] then
        Some (m\<lparr>mon_telemetry_latest := (mon_telemetry_latest m)\<lparr>tel_device_state := Some (payload msg ! 0)\<rparr>\<rparr>)
      else if command_name msg = ''EMActiveCustomerInfo'' then
        let (warnings, complete) = DecodeActiveMessages (payload msg);
            m = m\<lparr>mon_telemetry_latest := (mon_telemetry_latest m)\<lparr>tel_warnings := warnings\<rparr>,
                  mon_device_warnings_us := (if complete then ck_steady_us ck else 0)\<rparr>
        in if \<not> complete then Some m
           else
             let no_ntp = (\<exists>w \<in> set warnings. take 3 w = ''38:'');
                 enabled = ntp_enabled (cfg_ntp (mon_config m));
                 m = (if enabled \<and> no_ntp \<and> \<not> mon_device_no_ntp m
                      then on_stats (\<lambda>s. s\<lparr>device_no_ntp_events := device_no_ntp_events s + 1\<rparr>) m else m);
                 m = m\<lparr>mon_device_no_ntp := no_ntp\<rparr>
             in Some (if enabled \<and> no_ntp then on_stats (\<lambda>s. s\<lparr>ntp_status := kNoSignal\<rparr>) m else m)
      else None)"

definition unexpected_reply :: "monitor \<Rightarrow> monitor" where
  "unexpected_reply m = on_stats (\<lambda>s. s\<lparr>unexpected_replies := unexpected_replies s + 1\<rparr>) m"

definition HandleNonScanFrame :: "clocks \<Rightarrow> ColaBMessage \<Rightarrow> monitor \<Rightarrow> monitor" where
  "HandleNonScanFrame ck msg m =
     (if command_type msg = kEventAnswer \<and> command_name msg = ''LMDscandata'' then
        let expected = (if mon_stop_stream_requested m then 0 else 1)
        in if payload msg = [expected] then m else unexpected_reply m
      else if command_type msg = kMethodAnswer then
        m\<lparr>mon_last_method_name := command_name msg,
          mon_last_method_status := (if payload msg = [] then -1 else uint (payload msg ! 0))\<rparr>
      else if command_type msg = kErrorAnswer then
        m\<lparr>mon_last_method_name := ''sFA'', mon_last_method_status := -1\<rparr>
      else if command_type msg \<noteq> kReadAnswer then unexpected_reply m
      else case read_answer ck msg m of
        None \<Rightarrow> unexpected_reply m
      | Some m \<Rightarrow> m\<lparr>mon_telemetry_latest := (mon_telemetry_latest m)\<lparr>tel_unix_us := ck_realtime_us ck\<rparr>,
                   mon_telemetry_dirty := True\<rparr>)"

definition TakeTelemetry :: "monitor \<Rightarrow> TelemetrySample option \<times> monitor" where
  "TakeTelemetry m =
     (if \<not> mon_telemetry_dirty m then (None, m)
      else (Some (mon_telemetry_latest m), m\<lparr>mon_telemetry_dirty := False\<rparr>))"

section \<open>The time of a scan\<close>

text \<open>Are the warnings of the device younger than 30 seconds?\<close>

definition warnings_fresh :: "clocks \<Rightarrow> monitor \<Rightarrow> bool" where
  "warnings_fresh ck m \<longleftrightarrow> mon_device_warnings_us m \<noteq> 0 \<and> ck_steady_us ck \<ge> mon_device_warnings_us m \<and>
     ck_steady_us ck - mon_device_warnings_us m \<le> 30000000"

definition plausible_scan :: "ScanData \<Rightarrow> bool" where
  "plausible_scan sc \<longleftrightarrow> has_timestamp sc \<and> DeviceTimePlausible (timestamp sc)"

definition observe_scan :: "clocks \<Rightarrow> ScanData \<Rightarrow> monitor \<Rightarrow> ClockObservation \<times> ClockQualityTracker" where
  "observe_scan ck sc m =
     (let (ob, tracker) = Observe (DeviceTimeUnixUs (timestamp sc)) (plausible_scan sc) (time_since_startup_us sc)
                            (ntp_max_time_step_ms (cfg_ntp (mon_config m))) (gate_tracker (mon_time_gate m))
      in (if \<not> warnings_fresh ck m then ob\<lparr>flags := flags ob OR kDeviceNtpUnknown\<rparr>
          else if mon_device_no_ntp m then ob\<lparr>flags := flags ob OR kDeviceNoNtp\<rparr> else ob, tracker))"

definition large_step :: "ClockObservation \<Rightarrow> bool" where
  "large_step ob \<longleftrightarrow> has ob (kStepExceeded OR kUptimeDiscontinuity)"

definition count_observation :: "ClockObservation \<Rightarrow> DriverStatistics \<Rightarrow> DriverStatistics" where
  "count_observation ob s =
     (let s = (if has ob kBackwardUtc then s\<lparr>utc_backwards := utc_backwards s + 1\<rparr> else s);
          s = (if IsTimeAnomaly ob then s\<lparr>time_anomaly_events := time_anomaly_events s + 1\<rparr> else s);
          s = (if has ob kRepeatedUtc then s\<lparr>utc_repeated := utc_repeated s + 1\<rparr> else s);
          s = (if large_step ob then s\<lparr>clock_step_events := clock_step_events s + 1\<rparr> else s)
      in s\<lparr>max_time_step_us := max (max_time_step_us s) \<bar>step_us ob\<bar>\<rparr>)"

definition scan_status :: "clocks \<Rightarrow> bool \<Rightarrow> bool \<Rightarrow> monitor \<Rightarrow> NtpStatus" where
  "scan_status ck plausible anomaly_seen m =
     (let status = (if \<not> plausible then kNotLocked
                    else if \<not> warnings_fresh ck m then kStale
                    else if mon_device_no_ntp m then kNoSignal else kUnverified);
          status = (if anomaly_seen \<and> status \<noteq> kNoSignal then kClockAnomaly else status)
      in if \<not> ntp_server_reachable (mon_stats m) \<and> mon_fault m then kUnreachable else status)"

definition raise_time_fault :: "monitor \<Rightarrow> monitor" where
  "raise_time_fault m =
     (if mon_time_fault m then m
      else ReportError (Drv kInvalidConfig) DeviceTimeFault (m\<lparr>mon_time_fault := True, mon_fault := True\<rparr>))"

definition AssessScanTime :: "clocks \<Rightarrow> ScanData \<Rightarrow> monitor \<Rightarrow> ScanData \<times> monitor" where
  "AssessScanTime ck sc m =
     (if \<not> ntp_enabled (cfg_ntp (mon_config m)) then
        (sc\<lparr>clock_observation := new_ClockObservation\<lparr>flags := kAssessed OR kNtpDisabled OR kAbsoluteTimeUnverified\<rparr>\<rparr>, m)
      else
        let plausible = plausible_scan sc;
            (ob, tracker) = observe_scan ck sc m;
            gate = (mon_time_gate m)\<lparr>gate_tracker := tracker,
                     gate_anomaly_seen := gate_anomaly_seen (mon_time_gate m) \<or> IsTimeAnomaly ob\<rparr>;
            m = on_stats (count_observation ob) m;
            m = on_stats (\<lambda>s. s\<lparr>ntp_status := scan_status ck plausible (gate_anomaly_seen gate) m\<rparr>) m;
            invalid_after_start = (\<not> plausible \<and> (gate_plausible_seen gate \<or> ck_steady ck \<ge> gate_deadline gate));
            m = (if invalid_after_start \<or> large_step ob then raise_time_fault m else m);
            gate = gate\<lparr>gate_plausible_seen := gate_plausible_seen gate \<or> plausible\<rparr>
        in (sc\<lparr>clock_observation := ob\<rparr>, m\<lparr>mon_time_gate := gate\<rparr>))"

section \<open>Every telegram\<close>

text \<open>A status or frequency that is off is only logged.\<close>

definition VerifyFirstScan :: "ScanData \<Rightarrow> monitor \<Rightarrow> monitor" where
  "VerifyFirstScan sc m =
     (let problems = VerifyScanContent sc (cfg_remission (mon_config m)) (ntp_enabled (cfg_ntp (mon_config m)))
      in if problems \<noteq> []
         then ReportError (Drv kInvalidConfig) (ScanContentMismatch problems) (m\<lparr>mon_fault := True\<rparr>)
         else m)"

definition scan_event :: bytes where "scan_event = bytes_of ''sSN LMDscandata ''"
definition scan_reply :: bytes where "scan_reply = bytes_of ''sRA LMDscandata ''"

datatype classified = Undecodable | ScanPayload bytes | OtherMessage ColaBMessage

definition classify :: "bytes \<Rightarrow> classified" where
  "classify data =
     (if take (length scan_event) data = scan_event \<or> take (length scan_reply) data = scan_reply
      then ScanPayload (drop (length scan_event) data)
      else case Decode data of
        Inl e \<Rightarrow> Undecodable
      | Inr msg \<Rightarrow> if IsScanMessage msg then ScanPayload (payload msg) else OtherMessage msg)"

definition parse_error :: "monitor \<Rightarrow> monitor" where
  "parse_error m = on_stats (\<lambda>s. s\<lparr>parse_errors := parse_errors s + 1\<rparr>) m"

definition count_scan :: "ScanData \<Rightarrow> monitor \<Rightarrow> monitor" where
  "count_scan sc m =
     (let previous = last_telegram_counter (mon_stats m); expected = (previous + 1) AND 0xFFFF;
          m = (if mon_previous_scan_counter_valid m \<and> ucast (telegram_counter sc) \<noteq> expected
               then on_stats (\<lambda>s. s\<lparr>counter_gaps := counter_gaps s + 1\<rparr>) m else m)
      in on_stats (\<lambda>s. s\<lparr>frames_parsed := frames_parsed s + 1, last_telegram_counter := ucast (telegram_counter sc),
             last_scan_counter := ucast (scan_counter sc)\<rparr>) (m\<lparr>mon_previous_scan_counter_valid := True\<rparr>))"

definition finish_scan :: "clocks \<Rightarrow> ScanData \<Rightarrow> RawRecord \<Rightarrow> monitor \<Rightarrow> RawRecord \<times> monitor" where
  "finish_scan ck sc rec m =
     (let m = (if mon_first_scan m then VerifyFirstScan sc (m\<lparr>mon_first_scan := False\<rparr>) else m);
          m = count_scan sc m;
          sc = sc\<lparr>host_receive_monotonic_us := receive_timestamp_us (rr_frame rec)\<rparr>;
          (sc, m) = AssessScanTime ck sc m;
          m = (if ntp_enabled (cfg_ntp (mon_config m)) \<and> \<not> has_timestamp sc
               then on_stats (\<lambda>s. s\<lparr>ntp_status := kNoTimestamp\<rparr>) m else m)
      in (rec\<lparr>rr_device_time_unix_us := (if has_timestamp sc then DeviceTimeUnixUs (timestamp sc) else 0),
              rr_clock_step_us := step_us (clock_observation sc),
              rr_clock_quality_flags := flags (clock_observation sc)\<rparr>, m))"

definition MonitorFrame :: "clocks \<Rightarrow> RawRecord \<Rightarrow> monitor \<Rightarrow> RawRecord \<times> monitor" where
  "MonitorFrame ck rec m =
     (let frame = frame_data (rr_frame rec) in
      if \<not> checksum_valid (rr_frame rec) then (rec, m)
      else if length frame < 9 then (rec, parse_error m)
      else case classify (take (length frame - 9) (drop 8 frame)) of
        Undecodable \<Rightarrow> (rec, parse_error m)
      | OtherMessage msg \<Rightarrow>
          (rec\<lparr>rr_is_scan := False\<rparr>,
           HandleNonScanFrame ck msg (on_stats (\<lambda>s. s\<lparr>non_scan_frames := non_scan_frames s + 1\<rparr>) m))
      | ScanPayload p \<Rightarrow>
          (let rec = rec\<lparr>rr_is_scan := True\<rparr>;
               m = on_stats (\<lambda>s. s\<lparr>last_frame_time_us := receive_timestamp_us (rr_frame rec)\<rparr>) m
           in case (if mon_first_scan m then Parse p else ParseTimestampFast p) of
                Inl e \<Rightarrow> (rec, parse_error m)
              | Inr sc \<Rightarrow> finish_scan ck sc rec m))"

definition new_RawRecord :: "RawFrame \<Rightarrow> RawRecord" where
  "new_RawRecord frame = \<lparr>rr_frame = frame, rr_is_scan = False, rr_device_time_unix_us = 0, rr_clock_step_us = 0,
     rr_clock_quality_flags = 0\<rparr>"

text \<open>The telegram callback \<open>cb\<close> answers whether it returned or threw.\<close>

definition HandleFrame :: "(RawRecord \<Rightarrow> bool) option \<Rightarrow> clocks \<Rightarrow> RawFrame \<Rightarrow> monitor \<Rightarrow> monitor" where
  "HandleFrame cb ck frame m =
     (let m = on_stats (\<lambda>s. s\<lparr>frames_received := frames_received s + 1\<rparr>) m;
          (rec, m) = MonitorFrame ck (new_RawRecord frame) m
      in case cb of
           None \<Rightarrow> m
         | Some f \<Rightarrow>
             let m = m\<lparr>mon_records := mon_records m @ [rec]\<rparr>
             in if f rec then m else ReportError (Drv kProtocolError) CallbackFailed (m\<lparr>mon_fault := True\<rparr>))"

section \<open>What monitoring never touches\<close>

text \<open>The log of records and the settings stay, the faults are latched, and a time fault is a fault.\<close>

definition watches :: "monitor \<Rightarrow> monitor \<Rightarrow> bool" where
  "watches a b \<longleftrightarrow> mon_records b = mon_records a \<and> mon_config b = mon_config a \<and>
     mon_stop_stream_requested b = mon_stop_stream_requested a \<and>
     (mon_fault a \<longrightarrow> mon_fault b) \<and> (mon_time_fault a \<longrightarrow> mon_time_fault b) \<and>
     ((mon_time_fault a \<longrightarrow> mon_fault a) \<longrightarrow> (mon_time_fault b \<longrightarrow> mon_fault b)) \<and>
     (\<exists>es. mon_errors b = mon_errors a @ es)"

lemma watches_refl [simp]: "watches a a"
  by (simp add: watches_def)

lemma watches_trans: "\<lbrakk> watches a b; watches b c \<rbrakk> \<Longrightarrow> watches a c"
  by (auto simp: watches_def)

lemma watches_fields [simp]:
  "watches a (b\<lparr>mon_stats := s\<rparr>) = watches a b" "watches a (b\<lparr>mon_time_gate := g\<rparr>) = watches a b"
  "watches a (b\<lparr>mon_first_scan := x\<rparr>) = watches a b"
  "watches a (b\<lparr>mon_previous_scan_counter_valid := x\<rparr>) = watches a b"
  "watches a (b\<lparr>mon_telemetry_latest := y\<rparr>) = watches a b" "watches a (b\<lparr>mon_telemetry_dirty := x\<rparr>) = watches a b"
  "watches a (b\<lparr>mon_device_warnings_us := u\<rparr>) = watches a b" "watches a (b\<lparr>mon_device_no_ntp := x\<rparr>) = watches a b"
  "watches a (b\<lparr>mon_last_method_name := n\<rparr>) = watches a b" "watches a (b\<lparr>mon_last_method_status := i\<rparr>) = watches a b"
  by (simp_all add: watches_def)

lemma watches_fault: "watches a b \<Longrightarrow> watches a (ReportError e d (b\<lparr>mon_fault := True\<rparr>))"
  by (auto simp: watches_def ReportError_def)

lemma watches_read_answer: "read_answer ck msg m = Some m' \<Longrightarrow> watches m m'"
  by (auto simp: read_answer_def Let_def split: if_splits prod.splits)

lemma watches_non_scan: "watches m (HandleNonScanFrame ck msg m)"
  by (auto simp: HandleNonScanFrame_def unexpected_reply_def Let_def dest: watches_read_answer split: option.splits)

lemma watches_time_fault: "watches a b \<Longrightarrow> watches a (raise_time_fault b)"
  by (auto simp: raise_time_fault_def watches_def ReportError_def)

lemma watches_AssessScanTime: "watches m (snd (AssessScanTime ck sc m))"
  by (auto simp: AssessScanTime_def Let_def split_beta intro!: watches_time_fault)

lemma watches_VerifyFirstScan: "watches a b \<Longrightarrow> watches a (VerifyFirstScan sc b)"
  by (simp add: VerifyFirstScan_def Let_def watches_fault)

lemma watches_count_scan [simp]: "watches a (count_scan sc b) = watches a b"
  by (simp add: count_scan_def Let_def)

lemma finish_scan_eq:
  "finish_scan ck sc rec m =
   (let m1 = count_scan sc (if mon_first_scan m then VerifyFirstScan sc (m\<lparr>mon_first_scan := False\<rparr>) else m);
        (sc2, m2) = AssessScanTime ck (sc\<lparr>host_receive_monotonic_us := receive_timestamp_us (rr_frame rec)\<rparr>) m1
    in (rec\<lparr>rr_device_time_unix_us := (if has_timestamp sc2 then DeviceTimeUnixUs (timestamp sc2) else 0),
            rr_clock_step_us := step_us (clock_observation sc2),
            rr_clock_quality_flags := flags (clock_observation sc2)\<rparr>,
        if ntp_enabled (cfg_ntp (mon_config m2)) \<and> \<not> has_timestamp sc2
        then m2\<lparr>mon_stats := (mon_stats m2)\<lparr>ntp_status := kNoTimestamp\<rparr>\<rparr> else m2))"
  by (simp add: finish_scan_def Let_def split_beta)

lemma watches_finish_scan: "watches m (snd (finish_scan ck sc rec m)) \<and> rr_frame (fst (finish_scan ck sc rec m)) = rr_frame rec \<and>
    rr_is_scan (fst (finish_scan ck sc rec m)) = rr_is_scan rec"
proof -
  let ?m1 = "count_scan sc (if mon_first_scan m then VerifyFirstScan sc (m\<lparr>mon_first_scan := False\<rparr>) else m)"
  let ?sc = "sc\<lparr>host_receive_monotonic_us := receive_timestamp_us (rr_frame rec)\<rparr>"
  have "watches m ?m1" by (auto intro: watches_VerifyFirstScan)
  from watches_trans [OF this watches_AssessScanTime [of ?m1 ck ?sc]] show ?thesis
    unfolding finish_scan_eq Let_def by (simp add: split_beta)
qed

lemma watches_MonitorFrame: "watches m (snd (MonitorFrame ck rec m)) \<and> rr_frame (fst (MonitorFrame ck rec m)) = rr_frame rec"
proof -
  have n: "watches m (HandleNonScanFrame ck msg (m\<lparr>mon_stats := s\<rparr>))" for msg s
    using watches_non_scan [of "m\<lparr>mon_stats := s\<rparr>" ck msg] by (rule watches_trans [rotated]) simp
  have f: "watches m (snd (finish_scan ck sc r (m\<lparr>mon_stats := s\<rparr>)))" for sc r s
    using watches_finish_scan [of "m\<lparr>mon_stats := s\<rparr>" ck sc r] watches_trans [of m "m\<lparr>mon_stats := s\<rparr>"] by simp
  show ?thesis
    by (simp add: MonitorFrame_def Let_def parse_error_def n f watches_finish_scan split: classified.split sum.split)
qed

lemma HandleFrame_Some:
  "\<exists>r. HandleFrame (Some f) ck frame m =
      (let m' = snd (MonitorFrame ck (new_RawRecord frame)
                  (m\<lparr>mon_stats := (mon_stats m)\<lparr>frames_received := frames_received (mon_stats m) + 1\<rparr>\<rparr>));
           m' = m'\<lparr>mon_records := mon_records m @ [r]\<rparr>
       in if f r then m' else ReportError (Drv kProtocolError) CallbackFailed (m'\<lparr>mon_fault := True\<rparr>)) \<and> rr_frame r = frame"
proof -
  let ?m = "m\<lparr>mon_stats := (mon_stats m)\<lparr>frames_received := frames_received (mon_stats m) + 1\<rparr>\<rparr>"
  obtain r m' where e: "MonitorFrame ck (new_RawRecord frame) ?m = (r, m')" by fastforce
  from watches_MonitorFrame [of ?m ck "new_RawRecord frame"] e
  have "mon_records m' = mon_records m" "rr_frame r = frame" by (simp_all add: watches_def new_RawRecord_def)
  then show ?thesis by (intro exI [of _ r]) (simp add: HandleFrame_def e Let_def)
qed

section \<open>The counters\<close>

definition counts :: "monitor \<Rightarrow> u64 \<times> u64 \<times> u64 \<times> u64" where
  "counts m = (frames_received (mon_stats m), frames_parsed (mon_stats m), non_scan_frames (mon_stats m),
     parse_errors (mon_stats m))"

lemma counts_read_answer: "read_answer ck msg m = Some m' \<Longrightarrow> counts m' = counts m"
  by (auto simp: read_answer_def Let_def counts_def split: if_splits prod.splits)

lemma counts_non_scan [simp]: "counts (HandleNonScanFrame ck msg m) = counts m"
  by (auto simp: HandleNonScanFrame_def unexpected_reply_def Let_def counts_def
      dest: counts_read_answer [unfolded counts_def] split: option.splits)

lemma counts_observation: "counts (m\<lparr>mon_stats := count_observation ob (mon_stats m)\<rparr>) = counts m"
  by (simp add: count_observation_def Let_def counts_def)

lemma counts_time_fault [simp]: "counts (raise_time_fault m) = counts m"
  by (simp add: raise_time_fault_def ReportError_def counts_def)

lemma counts_fields [simp]:
  "counts (m\<lparr>mon_time_gate := g\<rparr>) = counts m" "counts (m\<lparr>mon_first_scan := b\<rparr>) = counts m"
  "counts (m\<lparr>mon_stats := (mon_stats m)\<lparr>ntp_status := st\<rparr>\<rparr>) = counts m"
  "counts (m\<lparr>mon_stats := s\<lparr>ntp_status := st\<rparr>\<rparr>) = counts (m\<lparr>mon_stats := s\<rparr>)"
  "counts (m\<lparr>mon_records := rs\<rparr>) = counts m" "counts (ReportError e d m) = counts m"
  "counts (m\<lparr>mon_fault := b\<rparr>) = counts m"
  "counts (m\<lparr>mon_stats := (mon_stats m)\<lparr>last_frame_time_us := u\<rparr>\<rparr>) = counts m"
  by (simp_all add: counts_def ReportError_def)

lemma counts_AssessScanTime [simp]: "counts (snd (AssessScanTime ck sc m)) = counts m"
  by (simp add: AssessScanTime_def Let_def split_beta counts_observation)

lemma counts_finish_scan:
  "counts (snd (finish_scan ck sc rec m)) = (case counts m of (r, p, n, e) \<Rightarrow> (r, p + 1, n, e))"
proof -
  have v: "counts (VerifyFirstScan sc m') = counts m'" for m'
    by (simp add: VerifyFirstScan_def Let_def)
  have c: "counts (count_scan sc m') = (case counts m' of (r, p, n, e) \<Rightarrow> (r, p + 1, n, e))" for m'
    by (simp add: count_scan_def Let_def counts_def)
  show ?thesis unfolding finish_scan_eq Let_def by (simp add: split_beta v c)
qed

definition handled :: "monitor \<Rightarrow> u64" where
  "handled m = frames_parsed (mon_stats m) + non_scan_frames (mon_stats m) + parse_errors (mon_stats m)"

lemma handled_counts: "handled m = (case counts m of (r, p, n, e) \<Rightarrow> p + n + e)"
  by (simp add: handled_def counts_def)

lemma MonitorFrame_counts:
  "frames_received (mon_stats (snd (MonitorFrame ck rec m))) = frames_received (mon_stats m) \<and>
   handled (snd (MonitorFrame ck rec m)) = handled m + (if checksum_valid (rr_frame rec) then 1 else 0)"
proof -
  have r: "frames_received (mon_stats m') = fst (counts m')" for m' by (simp add: counts_def)
  have f: "counts (snd (finish_scan ck sc r (m\<lparr>mon_stats := (mon_stats m)\<lparr>last_frame_time_us := u\<rparr>\<rparr>))) =
      (frames_received (mon_stats m), frames_parsed (mon_stats m) + 1, non_scan_frames (mon_stats m), parse_errors (mon_stats m))"
    for sc r u by (simp add: counts_finish_scan) (simp add: counts_def)
  show ?thesis unfolding handled_counts r
    by (simp add: MonitorFrame_def Let_def f split: classified.split sum.split)
       (simp add: counts_def parse_error_def)
qed

section \<open>Properties of the monitor\<close>

definition handle :: "(RawRecord \<Rightarrow> bool) option \<Rightarrow> monitor \<Rightarrow> clocks \<times> RawFrame \<Rightarrow> monitor" where
  "handle cb m x = HandleFrame cb (fst x) (snd x) m"

lemma HandleFrame_watch:
  "let m' = HandleFrame cb ck frame m in
   (mon_fault m \<longrightarrow> mon_fault m') \<and> (mon_time_fault m \<longrightarrow> mon_time_fault m') \<and>
   ((mon_time_fault m \<longrightarrow> mon_fault m) \<longrightarrow> mon_time_fault m' \<longrightarrow> mon_fault m') \<and> mon_config m' = mon_config m"
proof -
  let ?m = "m\<lparr>mon_stats := (mon_stats m)\<lparr>frames_received := frames_received (mon_stats m) + 1\<rparr>\<rparr>"
  obtain r m1 where e: "MonitorFrame ck (new_RawRecord frame) ?m = (r, m1)" by fastforce
  from watches_MonitorFrame [of ?m ck "new_RawRecord frame"] e have "watches ?m m1" by simp
  then show ?thesis
    by (auto simp: watches_def HandleFrame_def e Let_def ReportError_def split: option.splits)
qed

interpretation monitor_fault: sticky "handle cb" mon_fault for cb
  by unfold_locales (use HandleFrame_watch in \<open>auto simp: handle_def Let_def\<close>)

interpretation monitor_faults: machine "handle cb" "\<lambda>m. mon_time_fault m \<longrightarrow> mon_fault m" for cb
  by unfold_locales (use HandleFrame_watch in \<open>auto simp: handle_def Let_def\<close>)


text \<open>
  Every telegram is accounted for: after any sequence of telegrams the received counter has grown by
  their number, and the scans parsed, the other telegrams and the parse errors together by the number
  of those with a good checksum (both modulo the width of the counters).
\<close>

lemma every_telegram_counted:
  "frames_received (mon_stats (foldl (handle cb) m inputs)) = frames_received (mon_stats m) + word_of_nat (length inputs) \<and>
   handled (foldl (handle cb) m inputs) =
     handled m + word_of_nat (length (filter (\<lambda>(ck, f). checksum_valid f) inputs))"
proof (induction inputs arbitrary: m)
  case (Cons x xs)
  let ?m = "m\<lparr>mon_stats := (mon_stats m)\<lparr>frames_received := frames_received (mon_stats m) + 1\<rparr>\<rparr>"
  obtain r m1 where e: "MonitorFrame (fst x) (new_RawRecord (snd x)) ?m = (r, m1)" by fastforce
  have "mon_stats (handle cb m x) = mon_stats m1"
    by (auto simp: handle_def HandleFrame_def e Let_def ReportError_def split: option.splits)
  with MonitorFrame_counts [of "fst x" "new_RawRecord (snd x)" ?m] e
  have "frames_received (mon_stats (handle cb m x)) = frames_received (mon_stats m) + 1"
    "handled (handle cb m x) = handled m + (if checksum_valid (snd x) then 1 else 0)"
    by (simp_all add: handled_def new_RawRecord_def)
  then show ?case using Cons [of "handle cb m x"] by (simp add: split_beta)
qed simp

text \<open>
  A corrupt telegram drives nothing: it changes no fault, no clock, no telemetry and no pending command
  answer; it is counted as received and handed to the recorder without any interpretation.
\<close>

lemma corrupt_telegram_inert:
  assumes "\<not> checksum_valid frame" "f (new_RawRecord frame)"
  shows "HandleFrame (Some f) ck frame m =
     m\<lparr>mon_stats := (mon_stats m)\<lparr>frames_received := frames_received (mon_stats m) + 1\<rparr>,
       mon_records := mon_records m @ [new_RawRecord frame]\<rparr>"
  using assms by (simp add: HandleFrame_def MonitorFrame_def Let_def new_RawRecord_def)

lemma AssessScanTime_fault:
  assumes "ntp_enabled (cfg_ntp (mon_config m))"
  shows "mon_time_fault (snd (AssessScanTime ck sc m)) \<longleftrightarrow>
     mon_time_fault m \<or> large_step (fst (observe_scan ck sc m)) \<or>
     \<not> plausible_scan sc \<and> (gate_plausible_seen (mon_time_gate m) \<or> ck_steady ck \<ge> gate_deadline (mon_time_gate m))"
  using assms by (simp add: AssessScanTime_def Let_def split_beta raise_time_fault_def ReportError_def)

text \<open>
  The time fault is neither missed nor invented: with NTP on, a scan raises it exactly when the clocks
  disagree by more than the limit or the uptime jumped, or when the date is not plausible after a
  plausible one was seen or the deadline has passed; with NTP off a scan never raises it; and a time fault is
  always a fault of the driver.
\<close>

lemma time_fault_exact:
  "(mon_time_fault (snd (AssessScanTime ck sc m)) \<longleftrightarrow> mon_time_fault m \<or>
     ntp_enabled (cfg_ntp (mon_config m)) \<and>
       (large_step (fst (observe_scan ck sc m)) \<or>
        \<not> plausible_scan sc \<and> (gate_plausible_seen (mon_time_gate m) \<or> ck_steady ck \<ge> gate_deadline (mon_time_gate m)))) \<and>
   \<not> (mon_time_fault (foldl (handle cb) (new_monitor cfg) inputs) \<and> \<not> mon_fault (foldl (handle cb) (new_monitor cfg) inputs))"
  using AssessScanTime_fault [of m ck sc] monitor_faults.run_inv [of "new_monitor cfg" cb inputs]
  by (cases "ntp_enabled (cfg_ntp (mon_config m))") (auto simp: AssessScanTime_def new_monitor_def)

section \<open>Device messages\<close>

definition print_message :: "u16 \<times> bytes \<Rightarrow> bytes" where
  "print_message m = EncodeUint16 (fst m) @ EncodeUint16 (word_of_nat (length (snd m))) @ snd m"

definition print_messages :: "(u16 \<times> bytes) list \<Rightarrow> bytes" where
  "print_messages msgs = EncodeUint16 (word_of_nat (length msgs)) @ concat (map print_message msgs)"

definition shown :: "u16 \<times> bytes \<Rightarrow> string" where
  "shown m = dec_digits (unat (fst m)) @ '': '' @ chars_of (snd m)"

lemma length_print_message [simp]: "length (print_message m) = 4 + length (snd m)"
  by (simp add: print_message_def)

lemma print_message_fields:
  assumes "length (snd m) < 2 ^ 16"
  shows "DecodeUint16 (print_message m @ rest) = fst m"
    "unat (DecodeUint16 (drop 2 (print_message m @ rest))) = length (snd m)"
    "take (length (snd m)) (drop 4 (print_message m @ rest)) = snd m"
  using assms by (simp_all add: print_message_def unat_of_nat take_bit_nat_eq_self)

lemma active_messages_print:
  "\<lbrakk> \<forall>m\<in>set msgs. length (snd m) < 2 ^ 16; p = pre @ concat (map print_message msgs) \<rbrakk>
   \<Longrightarrow> active_messages p (length msgs) (length pre) = (map shown msgs, length p)"
proof (induction msgs arbitrary: pre)
  case (Cons m msgs)
  let ?rest = "concat (map print_message msgs)"
  have p: "p = pre @ print_message m @ ?rest" using Cons.prems by simp
  have l: "length (snd m) < 2 ^ 16" using Cons.prems(1) by simp
  have d: "drop (length pre) p = print_message m @ ?rest" by (simp add: p)
  have drops: "drop (length pre + 2) p = drop 2 (print_message m @ ?rest)"
    "drop (length pre + 4) p = drop 4 (print_message m @ ?rest)"
    using d by (metis add.commute drop_drop)+
  note f = print_message_fields [OF l, of ?rest]
  have fit: "(length pre + 4 > length p) = False" "(length pre + 4 + length (snd m) > length p) = False"
    by (simp_all add: p)
  have pos: "length (pre @ print_message m) = length pre + 4 + length (snd m)" by simp
  have IH: "active_messages p (length msgs) (length pre + 4 + length (snd m)) = (map shown msgs, length p)"
    using Cons.IH [of "pre @ print_message m"] Cons.prems unfolding pos by simp
  have "active_messages p (Suc (length msgs)) (length pre) =
      ((dec_digits (unat (fst m)) @ '': '' @ chars_of (snd m)) # map shown msgs, length p)"
    by (simp only: active_messages.simps Let_def drops d f fit IH if_False prod.case)
  then show ?case by (simp add: shown_def)
qed simp

text \<open>
  The device's message list is read back exactly: a list of at most 65535 messages, each of at most
  65535 characters, written in the layout of the manual decodes to the same messages in order, and is
  reported as complete.
\<close>

lemma DecodeActiveMessages_print:
  assumes "length msgs < 2 ^ 16" "\<forall>m\<in>set msgs. length (snd m) < 2 ^ 16"
  shows "DecodeActiveMessages (print_messages msgs) = (map shown msgs, True)"
proof -
  let ?n = "EncodeUint16 (word_of_nat (length msgs))"
  have n: "unat (DecodeUint16 (print_messages msgs)) = length msgs"
    using assms(1) by (simp add: print_messages_def unat_of_nat take_bit_nat_eq_self)
  have "active_messages (print_messages msgs) (length msgs) (length ?n) = (map shown msgs, length (print_messages msgs))"
    by (rule active_messages_print [OF assms(2)]) (simp add: print_messages_def)
  then show ?thesis by (simp add: DecodeActiveMessages_def n Let_def) (simp add: print_messages_def)
qed

end
