(* ===== verification/Measurement_Shutdown.thy ===== *)
theory Measurement_Shutdown
  imports Machines
begin

text \<open>
  \<^verbatim>\<open>lms4xxx_driver/include/measurement_shutdown.h\<close>: the policy that switches the laser and the motor off.
  The command transport is the parameter \<open>call\<close>, a stateful function that may answer with an error
  code (\<open>Some\<close>) or throw. The lemmas show that a stop is attempted once per start request, that it is
  confirmed only by the device, and that an error can not be forgotten.
\<close>

datatype 'e stop_error = Reported 'e | IoError

datatype 'e call_result = Answered "'e option" | Threw

record MeasurementShutdownStatus =
  measurement_start_requested :: bool
  cleanup_attempted :: bool
  stop_measurement_command_attempted :: bool
  stop_measurement_confirmed :: bool

record 'e MeasurementShutdown =
  ms_status :: MeasurementShutdownStatus
  ms_result :: "'e stop_error option"

definition no_status :: MeasurementShutdownStatus where
  "no_status = \<lparr>measurement_start_requested = False, cleanup_attempted = False,
     stop_measurement_command_attempted = False, stop_measurement_confirmed = False\<rparr>"

definition new_MeasurementShutdown :: "'e MeasurementShutdown" where
  "new_MeasurementShutdown = \<lparr>ms_status = no_status, ms_result = None\<rparr>"

definition Arm :: "'e MeasurementShutdown \<Rightarrow> 'e MeasurementShutdown" where
  "Arm m = m\<lparr>ms_status := no_status\<lparr>measurement_start_requested := True\<rparr>, ms_result := None\<rparr>"

definition Pending :: "'e MeasurementShutdown \<Rightarrow> bool" where
  "Pending m \<longleftrightarrow> measurement_start_requested (ms_status m) \<and> \<not> cleanup_attempted (ms_status m)"

definition Stop ::
    "(string \<Rightarrow> u8 \<Rightarrow> 's \<Rightarrow> 'e call_result \<times> 's) \<Rightarrow> 'e MeasurementShutdown \<Rightarrow> 's \<Rightarrow>
     'e stop_error option \<times> 'e MeasurementShutdown \<times> 's" where
  "Stop call m s =
     (if \<not> Pending m then (ms_result m, m, s)
      else
        let st = (ms_status m)\<lparr>cleanup_attempted := True\<rparr>;
            (res, s) = call ''SetAccessMode'' 0x01 s
        in case res of
             Threw \<Rightarrow> (Some IoError, \<lparr>ms_status = st, ms_result = Some IoError\<rparr>, s)
           | Answered (Some e) \<Rightarrow> (Some (Reported e), \<lparr>ms_status = st, ms_result = Some (Reported e)\<rparr>, s)
           | Answered None \<Rightarrow>
               let st = st\<lparr>stop_measurement_command_attempted := True\<rparr>;
                   (res, s) = call ''LMCstopmeas'' 0x00 s
               in case res of
                    Threw \<Rightarrow> (Some IoError, \<lparr>ms_status = st, ms_result = Some IoError\<rparr>, s)
                  | Answered r \<Rightarrow>
                      let r = map_option Reported r;
                          st = st\<lparr>stop_measurement_confirmed := r = None\<rparr>
                      in (r, \<lparr>ms_status = st, ms_result = r\<rparr>, s))"

section \<open>Properties\<close>

text \<open>The states between two start requests: the answer on record belongs to the flags.\<close>

definition ms_inv :: "'e MeasurementShutdown \<Rightarrow> bool" where
  "ms_inv m \<longleftrightarrow>
     (stop_measurement_confirmed (ms_status m) \<longrightarrow>
        stop_measurement_command_attempted (ms_status m) \<and> ms_result m = None) \<and>
     (stop_measurement_command_attempted (ms_status m) \<longrightarrow> cleanup_attempted (ms_status m)) \<and>
     (cleanup_attempted (ms_status m) \<longrightarrow> measurement_start_requested (ms_status m) \<and>
        (ms_result m = None \<longleftrightarrow> stop_measurement_confirmed (ms_status m))) \<and>
     (\<not> measurement_start_requested (ms_status m) \<longrightarrow> ms_result m = None)"

lemma ms_inv_ops [inv_intros]:
  "ms_inv new_MeasurementShutdown" "ms_inv (Arm m)"
  "ms_inv m \<Longrightarrow> ms_inv (fst (snd (Stop call m s)))"
  by (auto simp: ms_inv_def new_MeasurementShutdown_def no_status_def Arm_def Stop_def Pending_def Let_def
      split: prod.splits call_result.splits option.splits)

datatype ('e, 's) ms_op = DoArm | DoStop "string \<Rightarrow> u8 \<Rightarrow> 's \<Rightarrow> 'e call_result \<times> 's" 's

fun ms_step :: "'e MeasurementShutdown \<Rightarrow> ('e, 's) ms_op \<Rightarrow> 'e MeasurementShutdown" where
  "ms_step m DoArm = Arm m"
| "ms_step m (DoStop call s) = fst (snd (Stop call m s))"

interpretation shutdown: machine ms_step ms_inv
proof
  fix m :: "'a MeasurementShutdown" and e :: "('a, 'b) ms_op"
  assume "ms_inv m"
  then show "ms_inv (ms_step m e)" by (cases e) (simp_all add: ms_inv_ops)
qed

lemma Stop_pending:
  assumes "Pending m" "ms_inv m" "Stop call m s = (r, m', s')"
  shows "r = None \<longleftrightarrow> (\<exists>s1. call ''SetAccessMode'' 1 s = (Answered None, s1) \<and>
                         call ''LMCstopmeas'' 0 s1 = (Answered None, s'))"
    and "r = None \<longleftrightarrow> stop_measurement_confirmed (ms_status m')"
    and "ms_result m' = r" and "\<not> Pending m'"
proof -
  have c: "\<not> stop_measurement_confirmed (ms_status m)"
    using assms(1,2) by (auto simp: Pending_def ms_inv_def)
  obtain r1 s1 where l: "call ''SetAccessMode'' 1 s = (r1, s1)" by fastforce
  obtain r2 s2 where q: "call ''LMCstopmeas'' 0 s1 = (r2, s2)" by fastforce
  have "(r = None \<longleftrightarrow> r1 = Answered None \<and> r2 = Answered None) \<and> (r1 = Answered None \<longrightarrow> s' = s2) \<and>
      (r = None \<longleftrightarrow> stop_measurement_confirmed (ms_status m')) \<and> ms_result m' = r \<and> \<not> Pending m'"
    using assms(1,3) c l q
    by (cases r1; cases r2) (auto simp: Stop_def Let_def Pending_def split: option.splits)
  then show "r = None \<longleftrightarrow> (\<exists>s1. call ''SetAccessMode'' 1 s = (Answered None, s1) \<and>
                         call ''LMCstopmeas'' 0 s1 = (Answered None, s'))"
    and "r = None \<longleftrightarrow> stop_measurement_confirmed (ms_status m')"
    and "ms_result m' = r" and "\<not> Pending m'"
    using l q by auto
qed

text \<open>
  C23: after any history of start requests and stops, the stop of a pending measurement returns success
  only if the device accepted both the login and the stop command in this call; whatever it returned is
  what every further stop returns, without another command to the device, until the next start request.
\<close>

theorem Stop_confirmed_once:
  fixes ops :: "('e, 's) ms_op list" and call :: "string \<Rightarrow> u8 \<Rightarrow> 's \<Rightarrow> 'e call_result \<times> 's"
  assumes "Pending (foldl ms_step new_MeasurementShutdown ops)"
    and "Stop call (foldl ms_step new_MeasurementShutdown ops) s = (r, m, s')"
  shows "(r = None \<longleftrightarrow> (\<exists>s1. call ''SetAccessMode'' 1 s = (Answered None, s1) \<and>
                         call ''LMCstopmeas'' 0 s1 = (Answered None, s'))) \<and>
         (r = None \<longleftrightarrow> stop_measurement_confirmed (ms_status m)) \<and>
         Stop call' m s'' = (r, m, s'')"
proof -
  let ?m = "foldl ms_step new_MeasurementShutdown ops"
  have inv: "ms_inv ?m" by (rule shutdown.run_inv) (rule ms_inv_ops)
  note st = Stop_pending [OF assms(1) inv assms(2)]
  have "Stop call' m s'' = (r, m, s'')" using st(3,4) by (simp add: Stop_def)
  with st(1,2) show ?thesis by blast
qed

theorem Stop_confirmed_once_witness:
  "Stop (\<lambda>n b (k :: nat). (Answered (None :: nat option), k + 1))
     (fst (snd (Stop (\<lambda>n b (k :: nat). (Answered (None :: nat option), k + 1)) (Arm new_MeasurementShutdown) 0))) 9 =
   (None, fst (snd (Stop (\<lambda>n b (k :: nat). (Answered (None :: nat option), k + 1)) (Arm new_MeasurementShutdown) 0)), 9)"
proof -
  let ?c = "\<lambda>n b (k :: nat). (Answered (None :: nat option), k + 1)"
  have a: "Pending (foldl ms_step new_MeasurementShutdown [DoArm :: (nat, nat) ms_op])"
    by (simp add: Pending_def Arm_def no_status_def)
  have b: "Stop ?c (foldl ms_step new_MeasurementShutdown [DoArm :: (nat, nat) ms_op]) 0 =
      (None, fst (snd (Stop ?c (Arm new_MeasurementShutdown) 0)), 2)"
    by (simp add: Stop_def Pending_def Arm_def no_status_def)
  show ?thesis by (rule Stop_confirmed_once [OF a b, THEN conjunct2, THEN conjunct2])
qed

end
