(* ===== verification/Driver_Stream.thy ===== *)
theory Driver_Stream
  imports Driver_Monitor Measurement_Shutdown Ntp_Probe
begin

text \<open>
  The workers of \<^verbatim>\<open>lms4xxx_driver/src/driver_stream.cpp\<close> and the owner's calls that run beside them. The state
  is \<^verbatim>\<open>Lms4xxxDriver::Impl\<close> of \<^verbatim>\<open>driver_internal.h\<close>: the command channel with the TCP client, the frame receiver,
  the receive side of \<open>Driver_Monitor\<close>, the flags the threads share and the place each thread is at. A worker moves
  in steps between two accesses to the shared flags; which workers move while the owner sleeps or between two of
  its accesses is decided by the world (\<open>env_activity\<close>), so every interleaving of these steps is covered. The lemmas
  show what the workers can never change, and that joining them ends.
\<close>

section \<open>The state\<close>

datatype ConnectionState = kDisconnected | kConnecting | kConnected | kConfiguring | kScanning | kError

record DeviceIdentity =
  firmware_designation :: string
  firmware_version :: string
  order_number :: string
  id_device_type :: string
  location_name :: string
  is_s01_variant :: bool

definition new_DeviceIdentity :: DeviceIdentity where
  "new_DeviceIdentity = \<lparr>firmware_designation = [], firmware_version = [], order_number = [], id_device_type = [],
     location_name = [], is_s01_variant = False\<rparr>"

text \<open>The temperature is the device's float, and the phase is in 1/10000 degree as the device sends it.\<close>

record DeviceAudit =
  audit_temperature :: "float32 option"
  audit_operating_hours_deci :: "u32 option"
  audit_power_on_count :: "u32 option"
  audit_device_state :: "u8 option"
  audit_scan_frequency_centi_hz :: "u32 option"
  audit_angular_resolution_1e4 :: "u32 option"
  audit_start_angle_1e4 :: "i32 option"
  audit_stop_angle_1e4 :: "i32 option"
  audit_laser_trigger_source :: "u8 option"
  audit_laser_timeout_s :: "u16 option"
  audit_motor_sync_role :: "u8 option"
  audit_motor_sync_phase_1e4 :: "u32 option"

definition new_DeviceAudit :: DeviceAudit where
  "new_DeviceAudit = \<lparr>audit_temperature = None, audit_operating_hours_deci = None, audit_power_on_count = None,
     audit_device_state = None, audit_scan_frequency_centi_hz = None, audit_angular_resolution_1e4 = None,
     audit_start_angle_1e4 = None, audit_stop_angle_1e4 = None, audit_laser_trigger_source = None,
     audit_laser_timeout_s = None, audit_motor_sync_role = None, audit_motor_sync_phase_1e4 = None\<rparr>"

text \<open>The places of the two worker threads.\<close>

datatype rx_loc = RxNotJoinable | RxCheck | RxRead | RxGot bytes "TcpError option" | RxEnded

datatype ntp_loc = NtpNotJoinable | NtpCheck | NtpWait nat | NtpStart | NtpProbed bool ntp_detail | NtpEnded

datatype worker = Receiver | NtpWatch

text \<open>
  The environment: the socket calls, how much longer than asked a sleep takes, the readings of the clocks, the
  parser of IPv4 addresses, which workers move meanwhile, the error code with which a thread can not be created, and
  whether the telegram callback returns or throws.
\<close>

record 'w env =
  env_os :: "'w os"
  env_udp :: "'w udp"
  env_oversleep :: "nat \<Rightarrow> 'w \<Rightarrow> nat"
  env_stamp_us :: "nat \<Rightarrow> u64"
  env_steady_us :: "'w \<Rightarrow> nat \<Rightarrow> u64"
  env_realtime_us :: "'w \<Rightarrow> u64"
  env_parse_ipv4 :: "string \<Rightarrow> bytes option"
  env_activity :: "'w \<Rightarrow> worker list \<times> 'w"
  env_thread :: "worker \<Rightarrow> 'w \<Rightarrow> int option \<times> 'w"
  env_callback_returns :: "RawRecord \<Rightarrow> bool"

record 'w driver =
  drv_config :: DriverConfig
  drv_chan :: "'w chan"
  drv_idle :: "nat \<times> 'w"
  drv_receiver :: "FrameReceiver option"
  drv_state :: ConnectionState
  drv_scanning :: bool
  drv_receive_running :: bool
  drv_rx :: rx_loc
  drv_ntp_running :: bool
  drv_ntp :: ntp_loc
  drv_ntp_failures :: nat
  drv_shutdown :: "error_code MeasurementShutdown"
  drv_stream_start_requested :: bool
  drv_telegram_callback :: bool
  drv_identity :: DeviceIdentity
  drv_audit :: DeviceAudit
  drv_monitor :: monitor

definition named :: "DriverConfig \<Rightarrow> DriverConfig" where
  "named cfg = (if cfg_name cfg = [] then cfg\<lparr>cfg_name := dev_ip (cfg_device cfg)\<rparr> else cfg)"

definition new_driver :: "DriverConfig \<Rightarrow> nat \<Rightarrow> 'w \<Rightarrow> 'w driver" where
  "new_driver cfg now w =
     \<lparr>drv_config = named cfg,
      drv_chan = new_CommandChannel (net_response_timeout_ms (cfg_network cfg)) None, drv_idle = (now, w),
      drv_receiver = None, drv_state = kDisconnected, drv_scanning = False, drv_receive_running = False,
      drv_rx = RxNotJoinable, drv_ntp_running = False, drv_ntp = NtpNotJoinable, drv_ntp_failures = 0,
      drv_shutdown = new_MeasurementShutdown, drv_stream_start_requested = False, drv_telegram_callback = False,
      drv_identity = new_DeviceIdentity, drv_audit = new_DeviceAudit, drv_monitor = new_monitor (named cfg)\<rparr>"

text \<open>The clock and the world are kept with the client once there is one.\<close>

definition outside :: "'w driver \<Rightarrow> nat \<times> 'w" where
  "outside d = (case ch_tcp (drv_chan d) of None \<Rightarrow> drv_idle d | Some c \<Rightarrow> (tcp_now c, tcp_world c))"

definition set_outside :: "nat \<times> 'w \<Rightarrow> 'w driver \<Rightarrow> 'w driver" where
  "set_outside nw d =
     (case ch_tcp (drv_chan d) of
        None \<Rightarrow> d\<lparr>drv_idle := nw\<rparr>
      | Some c \<Rightarrow> d\<lparr>drv_chan := put (c\<lparr>tcp_now := fst nw, tcp_world := snd nw\<rparr>) (drv_chan d)\<rparr>)"

abbreviation now :: "'w driver \<Rightarrow> nat" where "now d \<equiv> fst (outside d)"
abbreviation world :: "'w driver \<Rightarrow> 'w" where "world d \<equiv> snd (outside d)"

lemma outside_set [simp]: "outside (set_outside nw d) = nw"
  by (cases nw) (simp add: outside_def set_outside_def put_def split: option.splits)

definition is_connected :: "'w driver \<Rightarrow> bool" where
  "is_connected d \<longleftrightarrow> (case ch_tcp (drv_chan d) of None \<Rightarrow> False | Some c \<Rightarrow> tcp_connected c)"

lemma outside_fields [simp]:
  "outside (d\<lparr>drv_config := x0\<rparr>) = outside d"
  "outside (d\<lparr>drv_receiver := x1\<rparr>) = outside d" "outside (d\<lparr>drv_state := x2\<rparr>) = outside d"
  "outside (d\<lparr>drv_scanning := x3\<rparr>) = outside d"
  "outside (d\<lparr>drv_receive_running := x4\<rparr>) = outside d"
  "outside (d\<lparr>drv_rx := x5\<rparr>) = outside d" "outside (d\<lparr>drv_ntp_running := x6\<rparr>) = outside d"
  "outside (d\<lparr>drv_ntp := x7\<rparr>) = outside d"
  "outside (d\<lparr>drv_ntp_failures := x8\<rparr>) = outside d"
  "outside (d\<lparr>drv_shutdown := x9\<rparr>) = outside d"
  "outside (d\<lparr>drv_stream_start_requested := x10\<rparr>) = outside d"
  "outside (d\<lparr>drv_telegram_callback := x11\<rparr>) = outside d"
  "outside (d\<lparr>drv_identity := x12\<rparr>) = outside d"
  "outside (d\<lparr>drv_audit := x13\<rparr>) = outside d"
  "outside (d\<lparr>drv_monitor := x14\<rparr>) = outside d"
  by (simp_all add: outside_def split: option.split)

lemma is_connected_fields [simp]:
  "is_connected (d\<lparr>drv_config := x0\<rparr>) = is_connected d"
  "is_connected (d\<lparr>drv_receiver := x1\<rparr>) = is_connected d"
  "is_connected (d\<lparr>drv_state := x2\<rparr>) = is_connected d"
  "is_connected (d\<lparr>drv_scanning := x3\<rparr>) = is_connected d"
  "is_connected (d\<lparr>drv_receive_running := x4\<rparr>) = is_connected d"
  "is_connected (d\<lparr>drv_rx := x5\<rparr>) = is_connected d"
  "is_connected (d\<lparr>drv_ntp_running := x6\<rparr>) = is_connected d"
  "is_connected (d\<lparr>drv_ntp := x7\<rparr>) = is_connected d"
  "is_connected (d\<lparr>drv_ntp_failures := x8\<rparr>) = is_connected d"
  "is_connected (d\<lparr>drv_shutdown := x9\<rparr>) = is_connected d"
  "is_connected (d\<lparr>drv_stream_start_requested := x10\<rparr>) = is_connected d"
  "is_connected (d\<lparr>drv_telegram_callback := x11\<rparr>) = is_connected d"
  "is_connected (d\<lparr>drv_identity := x12\<rparr>) = is_connected d"
  "is_connected (d\<lparr>drv_audit := x13\<rparr>) = is_connected d"
  "is_connected (d\<lparr>drv_monitor := x14\<rparr>) = is_connected d"
  by (simp_all add: is_connected_def)

lemma set_outside_fields [simp]:
  "drv_config (set_outside nw d) = drv_config d" "drv_receiver (set_outside nw d) = drv_receiver d"
  "drv_state (set_outside nw d) = drv_state d" "drv_scanning (set_outside nw d) = drv_scanning d"
  "drv_receive_running (set_outside nw d) = drv_receive_running d" "drv_rx (set_outside nw d) = drv_rx d"
  "drv_ntp_running (set_outside nw d) = drv_ntp_running d" "drv_ntp (set_outside nw d) = drv_ntp d"
  "drv_ntp_failures (set_outside nw d) = drv_ntp_failures d" "drv_shutdown (set_outside nw d) = drv_shutdown d"
  "drv_stream_start_requested (set_outside nw d) = drv_stream_start_requested d"
  "drv_telegram_callback (set_outside nw d) = drv_telegram_callback d"
  "drv_identity (set_outside nw d) = drv_identity d" "drv_audit (set_outside nw d) = drv_audit d"
  "drv_monitor (set_outside nw d) = drv_monitor d"
  "is_connected (set_outside nw d) = is_connected d"
  "(ch_tcp (drv_chan (set_outside nw d)) = None) = (ch_tcp (drv_chan d) = None)"
  by (simp_all add: set_outside_def is_connected_def put_def split: option.split)

lemma put_client [simp]:
  "outside (d\<lparr>drv_chan := put c ch\<rparr>) = (tcp_now c, tcp_world c)" "is_connected (d\<lparr>drv_chan := put c ch\<rparr>) = tcp_connected c"
  "ch_tcp (put c ch) = Some c"
  by (simp_all add: outside_def is_connected_def put_def)

abbreviation on_monitor :: "(monitor \<Rightarrow> monitor) \<Rightarrow> 'w driver \<Rightarrow> 'w driver" where
  "on_monitor f d \<equiv> d\<lparr>drv_monitor := f (drv_monitor d)\<rparr>"

section \<open>The receive thread\<close>

definition kReadBufferSize :: nat where "kReadBufferSize = 16 * 1024"
definition kMaxConsecutiveFramingErrors :: u64 where "kMaxConsecutiveFramingErrors = 1000"

text \<open>The error callback of the frame receiver.\<close>

definition on_frame_error :: "FrameError \<Rightarrow> u64 \<Rightarrow> monitor \<Rightarrow> monitor" where
  "on_frame_error e consecutive m =
     (let m = (if e = kChecksumMismatch then on_stats (\<lambda>s. s\<lparr>crc_errors := crc_errors s + 1\<rparr>) m
               else on_stats (\<lambda>s. s\<lparr>framing_errors := framing_errors s + 1\<rparr>) m)
      in if consecutive \<ge> kMaxConsecutiveFramingErrors \<and> \<not> mon_fault m
         then ReportError (Drv kProtocolError) Desynchronised (m\<lparr>mon_fault := True\<rparr>) else m)"

text \<open>The calls of both callbacks in the order the frame receiver makes them; \<open>k\<close> counts them.\<close>

fun deliver :: "(nat \<Rightarrow> clocks) \<Rightarrow> (RawRecord \<Rightarrow> bool) option \<Rightarrow> fr_event list \<Rightarrow> nat \<Rightarrow> monitor \<Rightarrow> monitor" where
  "deliver ck cb [] k m = m"
| "deliver ck cb (Frame_Receiver.OnFrame f # es) k m = deliver ck cb es (k + 1) (HandleFrame cb (ck k) f m)"
| "deliver ck cb (OnError e n # es) k m = deliver ck cb es (k + 1) (on_frame_error e n m)"

definition clocks_of :: "'w env \<Rightarrow> 'w driver \<Rightarrow> nat \<Rightarrow> clocks" where
  "clocks_of env d k =
     \<lparr>ck_steady_us = env_steady_us env (world d) k, ck_steady = now d, ck_realtime_us = env_realtime_us env (world d)\<rparr>"

definition telegram_callback :: "'w env \<Rightarrow> 'w driver \<Rightarrow> (RawRecord \<Rightarrow> bool) option" where
  "telegram_callback env d = (if drv_telegram_callback d then Some (env_callback_returns env) else None)"

text \<open>The frame receiver moves from \<open>fr\<close> to \<open>fr'\<close>: the events it added are delivered.\<close>

definition receiver_moved :: "'w env \<Rightarrow> FrameReceiver \<Rightarrow> FrameReceiver \<Rightarrow> 'w driver \<Rightarrow> 'w driver" where
  "receiver_moved env fr fr' d =
     d\<lparr>drv_receiver := Some fr',
       drv_monitor := deliver (clocks_of env d) (telegram_callback env d) (drop (length (events fr)) (events fr')) 0
                        (drv_monitor d)\<rparr>"

definition feed_receiver :: "'w env \<Rightarrow> bytes \<Rightarrow> 'w driver \<Rightarrow> 'w driver" where
  "feed_receiver env bs d =
     (case drv_receiver d of
        None \<Rightarrow> d
      | Some fr \<Rightarrow> receiver_moved env fr (Feed (env_stamp_us env) fr bs) d)"

fun rx_step :: "'w env \<Rightarrow> 'w driver \<Rightarrow> 'w driver" where
  "rx_step env d =
     (case drv_rx d of
        RxNotJoinable \<Rightarrow> d
      | RxEnded \<Rightarrow> d
      | RxCheck \<Rightarrow> (if drv_receive_running d then d\<lparr>drv_rx := RxRead\<rparr> else d\<lparr>drv_rx := RxEnded\<rparr>)
      | RxRead \<Rightarrow>
          (case ch_tcp (drv_chan d) of
             None \<Rightarrow> d
           | Some c \<Rightarrow>
               (case ReadSome (env_os env) kReadBufferSize c of
                  (bs, ec, c) \<Rightarrow> d\<lparr>drv_chan := put c (drv_chan d), drv_rx := RxGot bs ec\<rparr>))
      | RxGot bs ec \<Rightarrow>
          (let d = (if bs \<noteq> []
                    then feed_receiver env bs
                           (on_monitor (on_stats (\<lambda>s. s\<lparr>bytes_received := bytes_received s + word_of_nat (length bs)\<rparr>)) d)
                    else d)
           in case ec of
                None \<Rightarrow> d\<lparr>drv_rx := RxCheck\<rparr>
              | Some e \<Rightarrow>
                  (let d = (if drv_receive_running d
                            then (on_monitor (\<lambda>m. ReportError (Tcp e) ReadError (m\<lparr>mon_fault := True\<rparr>)) d)\<lparr>drv_state := kError\<rparr>
                            else d)
                   in d\<lparr>drv_receive_running := False, drv_rx := RxEnded\<rparr>)))"

section \<open>The NTP watch thread\<close>

definition kNtpProbeTimeoutMs :: int where "kNtpProbeTimeoutMs = 2000"
definition kNtpProbeMaxFailures :: nat where "kNtpProbeMaxFailures = 3"

definition ProbeNtpServer :: "'w env \<Rightarrow> 'w driver \<Rightarrow> (bool \<times> ntp_detail) \<times> 'w driver" where
  "ProbeNtpServer env d =
     (case ProbeServer (env_udp env) (ntp_server (cfg_ntp (drv_config d))) kNtpProbeTimeoutMs (now d) (world d) of
        (r, dt, w) \<Rightarrow> (r, set_outside (now d + dt, w) d))"

definition probe_done :: "bool \<Rightarrow> ntp_detail \<Rightarrow> 'w driver \<Rightarrow> 'w driver" where
  "probe_done alive detail d =
     (if alive then
        (on_monitor (on_stats (\<lambda>s. s\<lparr>ntp_server_reachable := True\<rparr>)) d)\<lparr>drv_ntp_failures := 0, drv_ntp := NtpCheck\<rparr>
      else
        let failures = drv_ntp_failures d + 1;
            d = (on_monitor (on_stats (\<lambda>s. s\<lparr>ntp_server_reachable := False\<rparr>)) d)\<lparr>drv_ntp_failures := failures\<rparr>
        in if failures < kNtpProbeMaxFailures then d\<lparr>drv_ntp := NtpCheck\<rparr>
           else (on_monitor (\<lambda>m. ReportError (Drv kInvalidConfig) (NtpUnreachable detail)
                   (on_stats (\<lambda>s. s\<lparr>ntp_status := kUnreachable\<rparr>) (m\<lparr>mon_time_fault := True, mon_fault := True\<rparr>))) d)
                  \<lparr>drv_ntp := NtpEnded\<rparr>)"

fun ntp_step :: "'w env \<Rightarrow> 'w driver \<Rightarrow> 'w driver" where
  "ntp_step env d =
     (case drv_ntp d of
        NtpNotJoinable \<Rightarrow> d
      | NtpEnded \<Rightarrow> d
      | NtpCheck \<Rightarrow>
          (if \<not> drv_ntp_running d then d\<lparr>drv_ntp := NtpEnded\<rparr>
           else if drv_ntp_failures d = 0
           then d\<lparr>drv_ntp := NtpWait (now d + unat (ntp_check_status_s (cfg_ntp (drv_config d))) * 10 ^ 9)\<rparr>
           else d\<lparr>drv_ntp := NtpStart\<rparr>)
      | NtpWait next \<Rightarrow>
          (if now d < next then (if drv_ntp_running d then d else d\<lparr>drv_ntp := NtpEnded\<rparr>)
           else d\<lparr>drv_ntp := NtpStart\<rparr>)
      | NtpStart \<Rightarrow>
          (if \<not> drv_ntp_running d then d\<lparr>drv_ntp := NtpEnded\<rparr>
           else case ProbeNtpServer env d of ((alive, detail), d) \<Rightarrow> d\<lparr>drv_ntp := NtpProbed alive detail\<rparr>)
      | NtpProbed alive detail \<Rightarrow>
          (if drv_ntp_running d then probe_done alive detail d else d\<lparr>drv_ntp := NtpEnded\<rparr>))"

declare rx_step.simps [simp del] ntp_step.simps [simp del]

section \<open>The owner beside the workers\<close>

fun work :: "'w env \<Rightarrow> 'w driver \<Rightarrow> worker \<Rightarrow> 'w driver" where
  "work env d Receiver = rx_step env d"
| "work env d NtpWatch = ntp_step env d"

text \<open>Between two accesses of the owner some workers move.\<close>

definition meanwhile :: "'w env \<Rightarrow> 'w driver \<Rightarrow> 'w driver" where
  "meanwhile env d =
     (case env_activity env (world d) of (ws, w) \<Rightarrow> foldl (work env) (set_outside (now d, w) d) ws)"

definition sleep_for :: "'w env \<Rightarrow> nat \<Rightarrow> 'w driver \<Rightarrow> 'w driver" where
  "sleep_for env ns d =
     (let woken = now d + ns + env_oversleep env ns (world d); d = meanwhile env d
      in set_outside (max (now d) woken, world d) d)"

definition write_owner :: "'w env \<Rightarrow> bytes \<Rightarrow> 'w driver \<Rightarrow> TcpError option \<times> 'w driver" where
  "write_owner env bs d =
     (case ch_tcp (drv_chan d) of
        None \<Rightarrow> (Some kNotConnected, d)
      | Some c \<Rightarrow> (case Write (env_os env) bs c of (e, c) \<Rightarrow> (e, d\<lparr>drv_chan := put c (drv_chan d)\<rparr>)))"

fun request_all :: "'w env \<Rightarrow> string list \<Rightarrow> 'w driver \<Rightarrow> 'w driver" where
  "request_all env [] d = d"
| "request_all env (name # names) d =
     (case write_owner env (Encode kReadByName name []) (meanwhile env d) of
        (Some e, d) \<Rightarrow> d
      | (None, d) \<Rightarrow> request_all env names d)"

definition RequestTelemetry :: "'w env \<Rightarrow> 'w driver \<Rightarrow> 'w driver" where
  "RequestTelemetry env d =
     (if \<not> is_connected d then d
      else request_all env [''OPcurtmpdev'', ''SCdevicestate'', ''EMActiveCustomerInfo''] d)"

text \<open>The owner polls every 10 ms for the answer the receive thread decodes.\<close>

function await_method :: "'w env \<Rightarrow> string \<Rightarrow> int \<Rightarrow> nat \<Rightarrow> 'w driver \<Rightarrow> bool \<times> 'w driver" where
  "await_method env name expected_status deadline d =
     (if now d \<ge> deadline then (False, d)
      else
        let d = sleep_for env (ms 10) d; m = drv_monitor d in
        if mon_last_method_name m = name then (mon_last_method_status m = expected_status, d)
        else if mon_last_method_name m = ''sFA'' then (False, d)
        else await_method env name expected_status deadline d)"
  by pat_completeness auto
termination
  by (relation "measure (\<lambda>(env, name, e, deadline, d). deadline - now d)")
     (auto simp: sleep_for_def Let_def ms_def max_def)

declare await_method.simps [simp del]

definition CallMethodStreaming :: "'w env \<Rightarrow> bytes \<Rightarrow> string \<Rightarrow> int \<Rightarrow> int \<Rightarrow> 'w driver \<Rightarrow> bool \<times> 'w driver" where
  "CallMethodStreaming env frame name expected_status timeout_ms d =
     (let d = meanwhile env d in
      if \<not> is_connected d then (False, d)
      else
        let d = meanwhile env (on_monitor (\<lambda>m. m\<lparr>mon_last_method_name := [], mon_last_method_status := -1\<rparr>) d)
        in case write_owner env frame d of
             (Some e, d) \<Rightarrow> (False, d)
           | (None, d) \<Rightarrow> await_method env name expected_status (now d + ms timeout_ms) d)"

section \<open>What the workers never touch\<close>

text \<open>A connected client has an open socket.\<close>

definition client_ok :: "'w driver \<Rightarrow> bool" where
  "client_ok d \<longleftrightarrow> (case ch_tcp (drv_chan d) of None \<Rightarrow> True | Some c \<Rightarrow> tcp_inv c)"

lemma client_ok_fields [simp]:
  "client_ok (d\<lparr>drv_config := x0\<rparr>) = client_ok d"
  "client_ok (d\<lparr>drv_receiver := x1\<rparr>) = client_ok d"
  "client_ok (d\<lparr>drv_state := x2\<rparr>) = client_ok d"
  "client_ok (d\<lparr>drv_scanning := x3\<rparr>) = client_ok d"
  "client_ok (d\<lparr>drv_receive_running := x4\<rparr>) = client_ok d"
  "client_ok (d\<lparr>drv_rx := x5\<rparr>) = client_ok d"
  "client_ok (d\<lparr>drv_ntp_running := x6\<rparr>) = client_ok d"
  "client_ok (d\<lparr>drv_ntp := x7\<rparr>) = client_ok d"
  "client_ok (d\<lparr>drv_ntp_failures := x8\<rparr>) = client_ok d"
  "client_ok (d\<lparr>drv_shutdown := x9\<rparr>) = client_ok d"
  "client_ok (d\<lparr>drv_stream_start_requested := x10\<rparr>) = client_ok d"
  "client_ok (d\<lparr>drv_telegram_callback := x11\<rparr>) = client_ok d"
  "client_ok (d\<lparr>drv_identity := x12\<rparr>) = client_ok d"
  "client_ok (d\<lparr>drv_audit := x13\<rparr>) = client_ok d"
  "client_ok (d\<lparr>drv_monitor := x14\<rparr>) = client_ok d"
  "client_ok (d\<lparr>drv_chan := put c ch\<rparr>) = tcp_inv c" "client_ok (set_outside nw d) = client_ok d"
  by (simp_all add: client_ok_def put_def set_outside_def tcp_inv_def split: option.split)

text \<open>
  The owner's flags and the joinability of the threads stay, the receive flag is only lowered, a connection is
  only lost, and time goes on.
\<close>

definition worked :: "'w driver \<Rightarrow> 'w driver \<Rightarrow> bool" where
  "worked a b \<longleftrightarrow> drv_config b = drv_config a \<and> drv_scanning b = drv_scanning a \<and> drv_shutdown b = drv_shutdown a \<and>
     drv_stream_start_requested b = drv_stream_start_requested a \<and> drv_ntp_running b = drv_ntp_running a \<and>
     drv_telegram_callback b = drv_telegram_callback a \<and>
     (drv_receive_running b \<longrightarrow> drv_receive_running a) \<and> (drv_rx b = RxNotJoinable \<longleftrightarrow> drv_rx a = RxNotJoinable) \<and>
     (drv_ntp b = NtpNotJoinable \<longleftrightarrow> drv_ntp a = NtpNotJoinable) \<and>
     (drv_receiver b = None \<longleftrightarrow> drv_receiver a = None) \<and>
     (ch_tcp (drv_chan b) = None \<longleftrightarrow> ch_tcp (drv_chan a) = None) \<and> (is_connected b \<longrightarrow> is_connected a) \<and>
     (client_ok a \<longrightarrow> client_ok b) \<and> now a \<le> now b"

lemma worked_refl [simp]: "worked a a"
  by (simp add: worked_def)

lemma worked_trans: "\<lbrakk> worked a b; worked b c \<rbrakk> \<Longrightarrow> worked a c"
  by (auto simp: worked_def)

lemma worked_monitor [simp]:
  "worked a (b\<lparr>drv_monitor := m\<rparr>) = worked a b" "worked (b\<lparr>drv_monitor := m\<rparr>) a = worked b a"
  "worked a (b\<lparr>drv_state := st\<rparr>) = worked a b" "worked a (b\<lparr>drv_ntp_failures := k\<rparr>) = worked a b"
  by (simp_all add: worked_def)

lemma worked_outside: "worked a b \<Longrightarrow> now b \<le> t \<Longrightarrow> worked a (set_outside (t, w) b)"
  by (simp add: worked_def)

lemma worked_put:
  assumes "worked a b" "ch_tcp (drv_chan b) = Some c" "tcp_connected c' \<longrightarrow> tcp_connected c" "tcp_open c' = tcp_open c"
    "tcp_now c \<le> tcp_now c'"
  shows "worked a (b\<lparr>drv_chan := put c' (drv_chan b)\<rparr>)"
proof -
  have "outside b = (tcp_now c, tcp_world c)" "is_connected b = tcp_connected c" "client_ok b = tcp_inv c"
    using assms(2) by (simp_all add: outside_def is_connected_def client_ok_def)
  then show ?thesis using assms by (auto simp: worked_def tcp_inv_def)
qed

lemma worked_locations:
  assumes "worked a b" "drv_rx b \<noteq> RxNotJoinable" "l \<noteq> RxNotJoinable"
  shows "worked a (b\<lparr>drv_rx := l\<rparr>)" "worked a (b\<lparr>drv_receive_running := False, drv_rx := l\<rparr>)"
  using assms by (simp_all add: worked_def)

lemma worked_ntp: "\<lbrakk> worked a b; drv_ntp b \<noteq> NtpNotJoinable; l \<noteq> NtpNotJoinable \<rbrakk> \<Longrightarrow> worked a (b\<lparr>drv_ntp := l\<rparr>)"
  by (simp add: worked_def)

lemma worked_moved: "drv_receiver d \<noteq> None \<Longrightarrow> worked d (receiver_moved env fr fr' d)"
  by (simp add: worked_def receiver_moved_def)

lemma worked_feed: "worked d (feed_receiver env bs d)"
  by (auto simp: feed_receiver_def intro: worked_moved split: option.splits)

lemma feed_receiver_rx [simp]: "drv_rx (feed_receiver env bs d) = drv_rx d"
  "drv_receive_running (feed_receiver env bs d) = drv_receive_running d"
  by (simp_all add: feed_receiver_def receiver_moved_def split: option.splits)

lemma worked_got:
  assumes "drv_rx d = RxGot bs ec"
  shows "worked d (rx_step env d)"
proof -
  define d1 where "d1 = (if bs \<noteq> []
      then feed_receiver env bs (on_monitor (on_stats (\<lambda>s. s\<lparr>bytes_received := bytes_received s + word_of_nat (length bs)\<rparr>)) d)
      else d)"
  have w: "worked d d1" and rx: "drv_rx d1 = drv_rx d"
    unfolding d1_def by (auto intro: worked_trans [OF _ worked_feed])
  show ?thesis
    using w rx assms by (cases ec) (auto simp: rx_step.simps d1_def [symmetric] Let_def intro!: worked_locations)
qed

lemma worked_rx: "worked d (rx_step env d)"
proof (cases "drv_rx d")
  case RxRead
  then show ?thesis
    by (auto simp: rx_step.simps intro!: worked_locations worked_put dest!: ReadSome_frame simp: reads_def
        split: option.splits prod.splits)
next
  case (RxGot bs ec)
  then show ?thesis by (rule worked_got)
qed (auto simp: rx_step.simps intro!: worked_locations)

lemma worked_probe: "worked d (snd (ProbeNtpServer env d))"
  by (auto simp: ProbeNtpServer_def intro!: worked_outside split: prod.splits)

lemma ProbeNtpServer_ntp [simp]: "drv_ntp (snd (ProbeNtpServer env d)) = drv_ntp d"
  by (simp add: ProbeNtpServer_def set_outside_def split: prod.splits option.splits)

lemma worked_ntp_step: "worked d (ntp_step env d)"
proof (cases "drv_ntp d")
  case NtpStart
  then show ?thesis using worked_probe [of d env]
    by (auto simp: ntp_step.simps split_beta intro!: worked_ntp)
qed (auto simp: ntp_step.simps probe_done_def Let_def intro!: worked_ntp)

lemma worked_meanwhile: "worked d (meanwhile env d)"
proof -
  have step: "worked d (work env d k)" for d k
    by (cases k) (simp_all add: worked_rx worked_ntp_step)
  have run: "worked d (foldl (work env) d' ws)" if "worked d d'" for d' ws
    using that by (induction ws arbitrary: d') (auto dest: worked_trans [OF _ step])
  show ?thesis by (auto simp: meanwhile_def intro!: run worked_outside split: prod.splits)
qed

lemma worked_sleep: "worked d (sleep_for env ns d)"
  by (auto simp: sleep_for_def Let_def intro!: worked_outside worked_meanwhile)

lemma worked_write: "worked d (snd (write_owner env bs d))"
  by (auto simp: write_owner_def intro!: worked_put dest!: Write_frame simp: writes_def split: option.splits prod.splits)

lemma worked_await: "worked d (snd (await_method env name e deadline d))"
proof (induction env name e deadline d rule: await_method.induct)
  case (1 env name e deadline d)
  show ?case
    using 1 worked_sleep [of d env "ms 10"]
    by (subst await_method.simps) (auto simp: Let_def intro: worked_trans)
qed

lemma worked_CallMethodStreaming: "worked d (snd (CallMethodStreaming env frame name e t d))"
proof -
  let ?d1 = "meanwhile env d"
  let ?d2 = "meanwhile env (on_monitor (\<lambda>m. m\<lparr>mon_last_method_name := [], mon_last_method_status := -1\<rparr>) ?d1)"
  obtain r d3 where w: "write_owner env frame ?d2 = (r, d3)" by fastforce
  have "worked d ?d1" by (rule worked_meanwhile)
  moreover have "worked ?d1 ?d2" using worked_meanwhile worked_monitor(2) by blast
  moreover have "worked ?d2 d3" using worked_write [of ?d2 env frame] w by simp
  ultimately have "worked d d3" "worked d ?d1" by (blast intro: worked_trans)+
  then show ?thesis using worked_await [of d3 env name e "now d3 + ms t"]
    by (auto simp: CallMethodStreaming_def Let_def w intro: worked_trans split: option.splits)
qed

section \<open>Joining ends\<close>

lemma rx_joins:
  assumes "drv_rx d \<noteq> RxNotJoinable" "ch_tcp (drv_chan d) \<noteq> None" "\<not> drv_receive_running d"
  shows "drv_rx ((rx_step env ^^ 3) d) = RxEnded"
proof -
  have ended: "drv_rx (rx_step env d) = RxEnded" if "drv_rx d = RxEnded" for d
    using that by (simp add: rx_step.simps)
  have check: "drv_rx (rx_step env d) = RxEnded" if "drv_rx d = RxCheck" "\<not> drv_receive_running d" for d
    using that by (simp add: rx_step.simps)
  have got: "drv_rx (rx_step env d) \<in> {RxCheck, RxEnded} \<and> \<not> drv_receive_running (rx_step env d)"
    if "drv_rx d = RxGot bs ec" "\<not> drv_receive_running d" for d bs ec
    using that by (cases ec) (auto simp: rx_step.simps Let_def)
  have read: "(\<exists>bs ec. drv_rx (rx_step env d) = RxGot bs ec) \<and> \<not> drv_receive_running (rx_step env d)"
    if "drv_rx d = RxRead" "ch_tcp (drv_chan d) \<noteq> None" "\<not> drv_receive_running d"
    using that by (auto simp: rx_step.simps split: prod.splits)
  show ?thesis
    using assms by (cases "drv_rx d") (auto simp: numeral_3_eq_3 dest!: read dest: ended check got)
qed

lemma ntp_joins:
  assumes "drv_ntp d \<noteq> NtpNotJoinable" "\<not> drv_ntp_running d"
  shows "drv_ntp ((ntp_step env ^^ 3) d) = NtpEnded"
  using assms by (cases "drv_ntp d") (auto simp: numeral_3_eq_3 ntp_step.simps)

end
