(* ===== verification/Driver_Lifecycle.thy ===== *)
theory Driver_Lifecycle
  imports Driver_Stream
begin

text \<open>
  \<^verbatim>\<open>lms4xxx_driver/src/driver.cpp\<close>: connecting, starting and stopping the stream, switching the measurement off and
  disconnecting, with the workers of \<open>Driver_Stream\<close> moving meanwhile. A thread that is joined is moved until it
  has ended; three moves are enough. The lemmas show that every way down leaves nothing running, and that a
  disconnect without an error means that the device confirmed the stop.
\<close>

section \<open>Connections\<close>

definition MakeTcpOptions :: "DeviceConfig \<Rightarrow> NetworkConfig \<Rightarrow> Options" where
  "MakeTcpOptions device network =
     \<lparr>opt_host = dev_ip device, opt_port = dev_port device, opt_recv_buffer_bytes = net_recv_buffer_bytes network,
      opt_tcp_keepalive = net_tcp_keepalive network, opt_keepalive_idle_s = net_keepalive_idle_s network,
      opt_keepalive_interval_s = net_keepalive_interval_s network, opt_keepalive_count = net_keepalive_count network,
      opt_recv_timeout_ms = min (net_response_timeout_ms network) 100,
      opt_send_timeout_ms = net_response_timeout_ms network, opt_quiet_connect_errors = False\<rparr>"

text \<open>The stop of \<^verbatim>\<open>main\<close>'s startup cleanup: a connection of its own, which its destructor closes.\<close>

definition StopMeasurement :: "'w os \<Rightarrow> DeviceConfig \<Rightarrow> NetworkConfig \<Rightarrow> nat \<Rightarrow> 'w \<Rightarrow> error_code option \<times> 'w tcp" where
  "StopMeasurement os device network start w =
     (let c = new_TcpClient ((MakeTcpOptions device network)\<lparr>opt_quiet_connect_errors := True\<rparr>) start w
      in case Tcp_Client.Connect os (net_connect_timeout_ms network) c of
           (Some e, c) \<Rightarrow> (Some (Tcp e), Tcp_Client.Disconnect os c)
         | (None, c) \<Rightarrow>
             (let release = (\<lambda>ch. case ch_tcp ch of None \<Rightarrow> c | Some c \<Rightarrow> Tcp_Client.Disconnect os c)
              in case CallMethod os BuildLogin ''SetAccessMode'' (Some 0x01)
                       (new_CommandChannel (net_response_timeout_ms network) (Some c)) of
                   (Some e, ch) \<Rightarrow> (Some e, release ch)
                 | (None, ch) \<Rightarrow>
                     (case CallMethod os BuildStopMeasurement ''LMCstopmeas'' (Some 0x00) ch of
                        (e, ch) \<Rightarrow> (e, release ch))))"

definition disconnect_client :: "'w env \<Rightarrow> 'w driver \<Rightarrow> 'w driver" where
  "disconnect_client env d =
     (case ch_tcp (drv_chan d) of
        None \<Rightarrow> d
      | Some c \<Rightarrow> d\<lparr>drv_chan := put (Tcp_Client.Disconnect (env_os env) c) (drv_chan d)\<rparr>)"

text \<open>A new client in place of the old one, whose destructor closes its socket.\<close>

definition renew_client :: "'w env \<Rightarrow> 'w driver \<Rightarrow> 'w driver" where
  "renew_client env d =
     (let d = disconnect_client env d
      in d\<lparr>drv_chan := put (new_TcpClient (MakeTcpOptions (cfg_device (drv_config d)) (cfg_network (drv_config d)))
                              (now d) (world d)) (drv_chan d)\<rparr>)"

definition connect_client :: "'w env \<Rightarrow> 'w driver \<Rightarrow> TcpError option \<times> 'w driver" where
  "connect_client env d =
     (case ch_tcp (drv_chan d) of
        None \<Rightarrow> (Some kNotConnected, d)
      | Some c \<Rightarrow> (case Tcp_Client.Connect (env_os env) (net_connect_timeout_ms (cfg_network (drv_config d))) c of
                     (e, c) \<Rightarrow> (e, d\<lparr>drv_chan := put c (drv_chan d)\<rparr>)))"

definition Connect :: "'w env \<Rightarrow> 'w driver \<Rightarrow> error_code option \<times> 'w driver" where
  "Connect env d =
     (case connect_client env (renew_client env (d\<lparr>drv_state := kConnecting\<rparr>)) of
        (Some e, d) \<Rightarrow> (Some (Tcp e), on_monitor (ReportError (Tcp e) ConnectFailed) (d\<lparr>drv_state := kError\<rparr>))
      | (None, d) \<Rightarrow> (None, d\<lparr>drv_state := kConnected, drv_chan := Reset (drv_chan d)\<rparr>))"

section \<open>Switching the measurement off\<close>

definition prepare_connection :: "'w env \<Rightarrow> bool \<Rightarrow> 'w driver \<times> bool \<Rightarrow> TcpError option \<times> 'w driver \<times> bool" where
  "prepare_connection env reconnect s =
     (case s of (d, connection_prepared) \<Rightarrow>
        if \<not> reconnect \<or> connection_prepared then (None, d, connection_prepared)
        else case connect_client env (renew_client env d) of
               (Some e, d) \<Rightarrow> (Some e, d, connection_prepared)
             | (None, d) \<Rightarrow> (None, d\<lparr>drv_chan := Reset (drv_chan d)\<rparr>, True))"

definition kShutdownMethodTimeoutMs :: int where "kShutdownMethodTimeoutMs = 1000"

definition call_shutdown ::
    "'w env \<Rightarrow> bool \<Rightarrow> bool \<Rightarrow> string \<Rightarrow> u8 \<Rightarrow> 'w driver \<times> bool \<Rightarrow> error_code call_result \<times> 'w driver \<times> bool" where
  "call_shutdown env streaming reconnect name expected_status s =
     (case prepare_connection env reconnect s of
        (Some e, s) \<Rightarrow> (Answered (Some (Tcp e)), s)
      | (None, d, prepared) \<Rightarrow>
          let frame = (if name = ''SetAccessMode'' then BuildLogin else BuildStopMeasurement) in
          if streaming then
            case CallMethodStreaming env frame name (uint expected_status) kShutdownMethodTimeoutMs d of
              (ok, d) \<Rightarrow> (Answered (if ok then None else Some (Drv kStopMeasurementUnconfirmed)), d, prepared)
          else
            case CallMethod (env_os env) frame name (Some expected_status) (drv_chan d) of
              (r, ch) \<Rightarrow> (Answered r, d\<lparr>drv_chan := ch\<rparr>, prepared))"

definition Impl_StopMeasurement ::
    "'w env \<Rightarrow> bool \<Rightarrow> bool \<Rightarrow> 'w driver \<Rightarrow> error_code stop_error option \<times> 'w driver" where
  "Impl_StopMeasurement env streaming reconnect d =
     (case Stop (call_shutdown env streaming reconnect) (drv_shutdown d) (d, False) of
        (r, m, d, prepared) \<Rightarrow> (r, d\<lparr>drv_shutdown := m\<rparr>))"

section \<open>Stopping\<close>

definition join_receiver :: "'w env \<Rightarrow> 'w driver \<Rightarrow> 'w driver" where
  "join_receiver env d =
     (if drv_rx d = RxNotJoinable then d else ((rx_step env ^^ 3) d)\<lparr>drv_rx := RxNotJoinable\<rparr>)"

definition join_ntp_watch :: "'w env \<Rightarrow> 'w driver \<Rightarrow> 'w driver" where
  "join_ntp_watch env d =
     (if drv_ntp d = NtpNotJoinable then d else ((ntp_step env ^^ 3) d)\<lparr>drv_ntp := NtpNotJoinable\<rparr>)"

definition shutdown_receive :: "'w env \<Rightarrow> 'w driver \<Rightarrow> 'w driver" where
  "shutdown_receive env d =
     (case ch_tcp (drv_chan d) of
        None \<Rightarrow> d
      | Some c \<Rightarrow> d\<lparr>drv_chan := put (ShutdownReceive (env_os env) c) (drv_chan d)\<rparr>)"

definition finish_receiver :: "'w env \<Rightarrow> 'w driver \<Rightarrow> 'w driver" where
  "finish_receiver env d =
     (case drv_receiver d of
        None \<Rightarrow> d
      | Some fr \<Rightarrow> receiver_moved env fr (snd (Finish fr)) d)"

definition have_workers :: "'w driver \<Rightarrow> bool" where
  "have_workers d \<longleftrightarrow> drv_rx d \<noteq> RxNotJoinable \<or> drv_ntp d \<noteq> NtpNotJoinable"

text \<open>While the receive thread still decodes answers the stop goes over the stream.\<close>

definition stop_stream :: "'w env \<Rightarrow> 'w driver \<Rightarrow> 'w driver" where
  "stop_stream env d =
     (let d = meanwhile env (on_monitor (\<lambda>m. m\<lparr>mon_stop_stream_requested := True\<rparr>) d)
      in if is_connected d then
           let d = meanwhile env (snd (write_owner env BuildStopStream d))
           in if drv_rx d \<noteq> RxNotJoinable \<and> drv_receive_running d
              then snd (Impl_StopMeasurement env True False d) else d
         else d)"

definition join_workers :: "'w env \<Rightarrow> 'w driver \<Rightarrow> 'w driver" where
  "join_workers env d =
     (let d = meanwhile env (d\<lparr>drv_receive_running := False, drv_scanning := False\<rparr>);
          d = meanwhile env (shutdown_receive env d);
          d = meanwhile env (d\<lparr>drv_ntp_running := False\<rparr>);
          d = join_ntp_watch env d
      in finish_receiver env (join_receiver env d))"

definition StopScanning :: "'w env \<Rightarrow> 'w driver \<Rightarrow> error_code stop_error option \<times> 'w driver" where
  "StopScanning env d =
     (if \<not> have_workers d \<and> \<not> drv_scanning d
      then Impl_StopMeasurement env False
             (drv_stream_start_requested d \<or> Uncertain (drv_chan d) \<or> \<not> is_connected d) d
      else
        case Impl_StopMeasurement env False True (join_workers env (stop_stream env d)) of
          (r, d) \<Rightarrow> (r, d\<lparr>drv_state := kConnected\<rparr>))"

definition Disconnect :: "'w env \<Rightarrow> 'w driver \<Rightarrow> error_code stop_error option \<times> 'w driver" where
  "Disconnect env d =
     (case StopScanning env d of
        (r, d) \<Rightarrow> (r, (disconnect_client env d)\<lparr>drv_receiver := None, drv_state := kDisconnected\<rparr>))"

section \<open>Starting\<close>

definition reset_stream :: "'w driver \<Rightarrow> 'w driver" where
  "reset_stream d =
     (let m = drv_monitor d;
          s = ResetStatistics (mon_stats m);
          s = (if ntp_enabled (cfg_ntp (drv_config d)) then s\<lparr>ntp_status := kNotLocked\<rparr> else s)
      in d\<lparr>drv_monitor := m\<lparr>mon_stats := s, mon_fault := False, mon_time_fault := False,
             mon_stop_stream_requested := False, mon_device_warnings_us := 0, mon_device_no_ntp := False,
             mon_first_scan := True, mon_previous_scan_counter_valid := False, mon_time_gate := new_TimeGate\<rparr>,
           drv_receiver := Some (new_FrameReceiver kMaxFrameBytes)\<rparr>)"

definition subscribe :: "'w env \<Rightarrow> 'w driver \<Rightarrow> error_code option \<times> 'w driver" where
  "subscribe env d =
     (let d = d\<lparr>drv_stream_start_requested := True\<rparr>
      in case SendAndReceive (env_os env) BuildStartStream (net_response_timeout_ms (cfg_network (drv_config d)))
                (drv_chan d) of
           (Inl e, ch) \<Rightarrow> (Some e, d\<lparr>drv_chan := ch\<rparr>)
         | (Inr response, ch) \<Rightarrow>
             (case ValidateResponse response kEventAnswer ''LMDscandata'' ch of
                (Some e, ch) \<Rightarrow> (Some e, d\<lparr>drv_chan := ch\<rparr>)
              | (None, ch) \<Rightarrow>
                  (if payload response = [] \<or> payload response ! 0 \<noteq> 0x01 then Some (Drv kCommandRejected) else None,
                   d\<lparr>drv_chan := ch\<rparr>)))"

definition start_thread :: "'w env \<Rightarrow> worker \<Rightarrow> 'w driver \<Rightarrow> int option \<times> 'w driver" where
  "start_thread env k d =
     (case env_thread env k (world d) of (e, w) \<Rightarrow>
        let d = set_outside (now d, w) d
        in (e, if e \<noteq> None then d
               else if k = Receiver then d\<lparr>drv_rx := RxCheck\<rparr> else d\<lparr>drv_ntp := NtpCheck, drv_ntp_failures := 0\<rparr>))"

definition start_workers :: "'w env \<Rightarrow> 'w driver \<Rightarrow> int option \<times> 'w driver" where
  "start_workers env d =
     (case start_thread env Receiver d of
        (Some e, d) \<Rightarrow> (Some e, d)
      | (None, d) \<Rightarrow>
          (if ntp_enabled (cfg_ntp (drv_config d))
           then start_thread env NtpWatch ((meanwhile env d)\<lparr>drv_ntp_running := True\<rparr>)
           else (None, d)))"

definition StartScanning :: "'w env \<Rightarrow> 'w driver \<Rightarrow> error_code option \<times> 'w driver" where
  "StartScanning env d =
     (if \<not> is_connected d then (Some (Drv ErrorCode.kNotConnected), snd (StopScanning env d))
      else if drv_scanning d then (Some (Drv kAlreadyScanning), d)
      else case subscribe env (reset_stream d) of
        (Some e, d) \<Rightarrow> (Some e, snd (StopScanning env d))
      | (None, d) \<Rightarrow>
          (let deadline = now d + unat (ntp_lock_timeout_s (cfg_ntp (drv_config d))) * 10 ^ 9;
               d = on_monitor (\<lambda>m. m\<lparr>mon_time_gate := (mon_time_gate m)\<lparr>gate_deadline := deadline\<rparr>\<rparr>) d;
               d = d\<lparr>drv_scanning := True, drv_receive_running := True\<rparr>
           in case start_workers env d of
                (Some e, d) \<Rightarrow> (Some (Sys e), snd (StopScanning env d))
              | (None, d) \<Rightarrow> (None, (meanwhile env d)\<lparr>drv_state := kScanning\<rparr>)))"

definition SetTelegramCallback :: "bool \<Rightarrow> 'w driver \<Rightarrow> 'w driver" where
  "SetTelegramCallback on d = d\<lparr>drv_telegram_callback := on\<rparr>"

definition MicrosSinceLastFrame :: "u64 \<Rightarrow> 'w driver \<Rightarrow> u64" where
  "MicrosSinceLastFrame now_us d =
     (let last_us = last_frame_time_us (mon_stats (drv_monitor d))
      in if last_us = 0 then 0 else if now_us > last_us then now_us - last_us else 0)"

definition IsScanning :: "'w driver \<Rightarrow> bool" where "IsScanning d = drv_scanning d"
definition HasFault :: "'w driver \<Rightarrow> bool" where "HasFault d = mon_fault (drv_monitor d)"

section \<open>What a call leaves of the threads and the client\<close>

text \<open>The owner's calls on the connection: no thread comes or goes, and a client stays a client.\<close>

definition controls :: "'w driver \<Rightarrow> 'w driver \<Rightarrow> bool" where
  "controls a b \<longleftrightarrow> drv_config b = drv_config a \<and> drv_scanning b = drv_scanning a \<and>
     drv_stream_start_requested b = drv_stream_start_requested a \<and> drv_ntp_running b = drv_ntp_running a \<and>
     (drv_receive_running b \<longrightarrow> drv_receive_running a) \<and> (drv_rx b = RxNotJoinable \<longleftrightarrow> drv_rx a = RxNotJoinable) \<and>
     (drv_ntp b = NtpNotJoinable \<longleftrightarrow> drv_ntp a = NtpNotJoinable) \<and>
     (drv_receiver b = None \<longleftrightarrow> drv_receiver a = None) \<and>
     (ch_tcp (drv_chan b) = None \<longrightarrow> ch_tcp (drv_chan a) = None) \<and> (client_ok a \<longrightarrow> client_ok b)"

lemma controls_refl [simp]: "controls a a"
  by (simp add: controls_def)

lemma controls_trans: "\<lbrakk> controls a b; controls b c \<rbrakk> \<Longrightarrow> controls a c"
  by (auto simp: controls_def)

lemma worked_controls: "worked a b \<Longrightarrow> controls a b"
  by (auto simp: worked_def controls_def)

lemma controls_fields [simp]:
  "controls a (b\<lparr>drv_shutdown := m\<rparr>) = controls a b" "controls a (b\<lparr>drv_state := st\<rparr>) = controls a b"
  "controls a (b\<lparr>drv_monitor := x\<rparr>) = controls a b" "controls (b\<lparr>drv_monitor := x\<rparr>) a = controls b a"
  "controls (b\<lparr>drv_state := st\<rparr>) a = controls b a" "controls (b\<lparr>drv_shutdown := m\<rparr>) a = controls b a"
  "controls a (b\<lparr>drv_identity := i\<rparr>) = controls a b" "controls a (b\<lparr>drv_audit := j\<rparr>) = controls a b"
  by (simp_all add: controls_def)

lemma controls_put: "\<lbrakk> controls a b; client_ok b \<Longrightarrow> tcp_inv c \<rbrakk> \<Longrightarrow> controls a (b\<lparr>drv_chan := put c ch\<rparr>)"
  by (auto simp: controls_def)

lemma controls_chan: "grows (drv_chan b) ch \<Longrightarrow> controls a b \<Longrightarrow> controls a (b\<lparr>drv_chan := ch\<rparr>)"
  by (auto simp: controls_def grows_def client_ok_def tcp_inv_def split: option.splits)

lemma controls_Reset: "controls a b \<Longrightarrow> controls a (b\<lparr>drv_chan := Reset (drv_chan b)\<rparr>)"
  by (simp add: controls_def client_ok_def Reset_def)

lemma client_okD: "\<lbrakk> client_ok d; ch_tcp (drv_chan d) = Some c \<rbrakk> \<Longrightarrow> tcp_inv c"
  by (simp add: client_ok_def)

lemma controls_disconnect: "controls d (disconnect_client env d)"
  by (auto simp: disconnect_client_def intro!: controls_put dest: client_okD intro: tcp_inv_ops split: option.split)

lemma controls_renew: "controls d (renew_client env d)"
  unfolding renew_client_def Let_def by (rule controls_put [OF controls_disconnect]) (rule tcp_inv_ops)

lemma controls_connect: "controls d (snd (connect_client env d))"
  by (auto simp: connect_client_def intro!: controls_put dest: client_okD Connect_result split: option.split prod.split)

lemma controls_prepare: "controls (fst s) (fst (snd (prepare_connection env reconnect s)))"
proof -
  obtain d b where s: "s = (d, b)" by fastforce
  obtain e d2 where c: "connect_client env (renew_client env d) = (e, d2)" by fastforce
  have "controls d d2" using controls_trans [OF controls_renew controls_connect, of d env env] c by simp
  then show ?thesis
    by (simp add: s prepare_connection_def c controls_Reset split: option.split)
qed

lemma controls_call: "controls (fst s) (fst (snd (call_shutdown env streaming reconnect name e s)))"
proof -
  obtain r d b where p: "prepare_connection env reconnect s = (r, d, b)" by (metis prod.exhaust)
  have c: "controls (fst s) d" using controls_prepare [of s env reconnect] p by simp
  have m: "controls (fst s) (d\<lparr>drv_chan := snd (CallMethod (env_os env) f name ok (drv_chan d))\<rparr>)" for f ok
    by (rule controls_chan [OF CallMethod_grows c])
  have w: "controls (fst s) (snd (CallMethodStreaming env f name k t d))" for f k t
    by (rule controls_trans [OF c worked_controls [OF worked_CallMethodStreaming]])
  show ?thesis
    using c m w by (cases r) (simp_all add: call_shutdown_def p Let_def split_beta)
qed

lemma Stop_keeps:
  assumes "\<And>n b s. R s (snd (call n b s))" "\<And>s. R s s" "\<And>a b c. R a b \<Longrightarrow> R b c \<Longrightarrow> R a c"
  shows "R s (snd (snd (Stop call m s)))"
proof -
  obtain r1 s1 where l: "call ''SetAccessMode'' 1 s = (r1, s1)" by fastforce
  obtain r2 s2 where q: "call ''LMCstopmeas'' 0 s1 = (r2, s2)" by fastforce
  have "R s s1" "R s1 s2" using assms(1) [of s "''SetAccessMode''" 1] assms(1) [of s1 "''LMCstopmeas''" 0] l q by simp_all
  then show ?thesis using assms(2,3) l q
    by (auto simp: Stop_def Let_def split: call_result.split option.split)
qed

lemma Stop_settles:
  assumes "Stop call m s = (r, m', s')"
  shows "\<not> Pending m' \<and> ms_result m' = r"
  using assms by (auto simp: Stop_def Let_def Pending_def split: if_splits prod.splits call_result.splits option.splits)

text \<open>After any attempt nothing is pending, and the answer given is the one on record.\<close>

lemma Impl_StopMeasurement_effect:
  assumes "Impl_StopMeasurement env streaming reconnect d = (r, d')"
  shows "controls d d'" "\<not> Pending (drv_shutdown d')" "ms_result (drv_shutdown d') = r"
    "ms_inv (drv_shutdown d) \<Longrightarrow> ms_inv (drv_shutdown d')"
proof -
  obtain r' m d2 b where s: "Stop (call_shutdown env streaming reconnect) (drv_shutdown d) (d, False) = (r', m, d2, b)"
    by (metis prod.exhaust)
  have "controls (fst (d, False)) (fst (snd (snd (Stop (call_shutdown env streaming reconnect) (drv_shutdown d) (d, False)))))"
    by (rule Stop_keeps [where R = "\<lambda>a b. controls (fst a) (fst b)"]) (auto simp: controls_call intro: controls_trans)
  then show "controls d d'" using assms s by (auto simp: Impl_StopMeasurement_def)
  show "\<not> Pending (drv_shutdown d')" "ms_result (drv_shutdown d') = r"
    using assms s Stop_settles [OF s] by (auto simp: Impl_StopMeasurement_def)
  show "ms_inv (drv_shutdown d')" if "ms_inv (drv_shutdown d)"
    using ms_inv_ops(3) [OF that, of "call_shutdown env streaming reconnect" "(d, False)"] assms s
    by (auto simp: Impl_StopMeasurement_def)
qed

lemma Impl_StopMeasurement_idle:
  "\<not> Pending (drv_shutdown d) \<Longrightarrow> Impl_StopMeasurement env streaming reconnect d = (ms_result (drv_shutdown d), d)"
  by (simp add: Impl_StopMeasurement_def Stop_def)

section \<open>Going down\<close>

text \<open>The way through the joins: the owner's record stays, and no thread appears.\<close>

definition settling :: "'w driver \<Rightarrow> 'w driver \<Rightarrow> bool" where
  "settling a b \<longleftrightarrow> drv_config b = drv_config a \<and> drv_scanning b = drv_scanning a \<and> drv_shutdown b = drv_shutdown a \<and>
     drv_stream_start_requested b = drv_stream_start_requested a \<and>
     (drv_rx a = RxNotJoinable \<longrightarrow> drv_rx b = RxNotJoinable) \<and> (drv_ntp a = NtpNotJoinable \<longrightarrow> drv_ntp b = NtpNotJoinable) \<and>
     (ch_tcp (drv_chan b) = None \<longleftrightarrow> ch_tcp (drv_chan a) = None) \<and> (client_ok a \<longrightarrow> client_ok b)"

lemma settling_trans: "\<lbrakk> settling a b; settling b c \<rbrakk> \<Longrightarrow> settling a c"
  by (auto simp: settling_def)

lemma worked_settling: "worked a b \<Longrightarrow> settling a b"
  by (auto simp: worked_def settling_def)

lemma worked_funpow: "(\<And>d. worked d (f d)) \<Longrightarrow> worked d ((f ^^ n) d)"
  by (induction n) (auto intro: worked_trans)

lemma join_settles:
  "settling d (join_receiver env d)" "settling d (join_ntp_watch env d)"
  "drv_rx (join_receiver env d) = RxNotJoinable" "drv_ntp (join_ntp_watch env d) = NtpNotJoinable"
  using worked_funpow [of "rx_step env" d 3, OF worked_rx] worked_funpow [of "ntp_step env" d 3, OF worked_ntp_step]
  by (auto simp: join_receiver_def join_ntp_watch_def settling_def worked_def)

lemma finish_settles: "settling d (finish_receiver env d)"
  by (auto simp: finish_receiver_def intro: worked_settling worked_moved split: option.split)

lemma finish_receiver_simps [simp]:
  "drv_rx (finish_receiver env d) = drv_rx d" "drv_ntp (finish_receiver env d) = drv_ntp d"
  by (simp_all add: finish_receiver_def receiver_moved_def split: option.split)

lemma shutdown_receive_settles: "settling d (shutdown_receive env d)"
proof (cases "ch_tcp (drv_chan d)")
  case (Some c)
  have "tcp_inv c \<longrightarrow> tcp_inv (ShutdownReceive (env_os env) c)" by (auto intro: tcp_inv_ops)
  then show ?thesis using Some by (simp add: shutdown_receive_def settling_def client_ok_def put_def)
qed (simp add: shutdown_receive_def settling_def)

lemma settling_meanwhile: "settling a b \<Longrightarrow> settling a (meanwhile env b)"
  by (rule settling_trans [OF _ worked_settling [OF worked_meanwhile]])

lemma settling_fields [simp]:
  "settling a (b\<lparr>drv_receive_running := r\<rparr>) = settling a b" "settling a (b\<lparr>drv_ntp_running := r\<rparr>) = settling a b"
  "settling a (b\<lparr>drv_monitor := m\<rparr>) = settling a b" "settling a (b\<lparr>drv_state := st\<rparr>) = settling a b"
  by (simp_all add: settling_def)

lemma join_workers_effect:
  defines "stopped \<equiv> \<lambda>d. d\<lparr>drv_receive_running := False, drv_scanning := False\<rparr>"
  shows "settling (stopped d) (join_workers env d)" "\<not> have_workers (join_workers env d)"
proof -
  define d1 where "d1 = meanwhile env (stopped d)"
  define d2 where "d2 = meanwhile env (shutdown_receive env d1)"
  define d3 where "d3 = meanwhile env (d2\<lparr>drv_ntp_running := False\<rparr>)"
  have j: "join_workers env d = finish_receiver env (join_receiver env (join_ntp_watch env d3))"
    by (simp add: join_workers_def stopped_def Let_def d1_def d2_def d3_def)
  have "settling (stopped d) d1" unfolding d1_def by (rule settling_meanwhile) (simp add: settling_def)
  then have "settling (stopped d) d2" unfolding d2_def
    by (intro settling_meanwhile) (rule settling_trans [OF _ shutdown_receive_settles])
  then have 3: "settling (stopped d) d3" unfolding d3_def by (intro settling_meanwhile) simp
  let ?n = "join_ntp_watch env d3" and ?r = "join_receiver env (join_ntp_watch env d3)"
  have n: "settling (stopped d) ?n" by (rule settling_trans [OF 3 join_settles(2)])
  have r: "settling (stopped d) ?r" by (rule settling_trans [OF n join_settles(1)])
  show "settling (stopped d) (join_workers env d)" unfolding j by (rule settling_trans [OF r finish_settles])
  have "drv_ntp ?r = NtpNotJoinable" using join_settles(1) [of ?n env] join_settles(4) [of env d3]
    by (simp add: settling_def)
  then show "\<not> have_workers (join_workers env d)" by (simp add: j have_workers_def join_settles(3))
qed

lemma stop_stream_effect: "controls d (stop_stream env d) \<and>
    (ms_inv (drv_shutdown d) \<longrightarrow> ms_inv (drv_shutdown (stop_stream env d)))"
proof -
  define d1 where "d1 = meanwhile env (on_monitor (\<lambda>m. m\<lparr>mon_stop_stream_requested := True\<rparr>) d)"
  define d2 where "d2 = meanwhile env (snd (write_owner env BuildStopStream d1))"
  have 1: "worked d d1" using worked_meanwhile worked_monitor(2) unfolding d1_def by blast
  have 2: "worked d d2" unfolding d2_def
    by (rule worked_trans [OF worked_trans [OF 1 worked_write] worked_meanwhile])
  obtain r d3 where s: "Impl_StopMeasurement env True False d2 = (r, d3)" by fastforce
  note e = Impl_StopMeasurement_effect [OF s]
  have "controls d d3" by (rule controls_trans [OF worked_controls [OF 2] e(1)])
  moreover have "drv_shutdown d1 = drv_shutdown d" "drv_shutdown d2 = drv_shutdown d" using 1 2 by (auto simp: worked_def)
  ultimately show ?thesis using worked_controls [OF 1] worked_controls [OF 2] e(4)
    by (auto simp: stop_stream_def Let_def s simp flip: d1_def d2_def)
qed

lemma StopScanning_effect:
  assumes "StopScanning env d = (r, d')"
  shows "\<not> have_workers d'" "\<not> drv_scanning d'" "\<not> Pending (drv_shutdown d')" "ms_result (drv_shutdown d') = r"
    "ms_inv (drv_shutdown d) \<Longrightarrow> ms_inv (drv_shutdown d')" "client_ok d \<Longrightarrow> client_ok d'"
proof -
  have "\<not> have_workers d' \<and> \<not> drv_scanning d' \<and> \<not> Pending (drv_shutdown d') \<and> ms_result (drv_shutdown d') = r \<and>
      (ms_inv (drv_shutdown d) \<longrightarrow> ms_inv (drv_shutdown d')) \<and> (client_ok d \<longrightarrow> client_ok d')"
  proof (cases "\<not> have_workers d \<and> \<not> drv_scanning d")
    case True
    let ?re = "drv_stream_start_requested d \<or> Uncertain (drv_chan d) \<or> \<not> is_connected d"
    have "Impl_StopMeasurement env False ?re d = (r, d')" using assms True by (simp add: StopScanning_def)
    note e = Impl_StopMeasurement_effect [OF this]
    show ?thesis using e True by (auto simp: controls_def have_workers_def)
  next
    case False
    let ?j = "join_workers env (stop_stream env d)"
    obtain d2 where e: "Impl_StopMeasurement env False True ?j = (r, d2)" and d': "d' = d2\<lparr>drv_state := kConnected\<rparr>"
      using assms False by (auto simp: StopScanning_def split: prod.splits)
    note i = Impl_StopMeasurement_effect [OF e]
    note j = join_workers_effect(1) [where d = "stop_stream env d" and env = env]
      join_workers_effect(2) [where d = "stop_stream env d" and env = env]
    note s = stop_stream_effect [of d env]
    have "\<not> have_workers d2 \<and> \<not> drv_scanning d2" using i(1) j by (auto simp: controls_def have_workers_def settling_def)
    moreover have "ms_inv (drv_shutdown d) \<longrightarrow> ms_inv (drv_shutdown d2)" using i(4) j(1) s by (auto simp: settling_def)
    moreover have "client_ok d \<longrightarrow> client_ok d2" using i(1) j(1) s by (auto simp: controls_def settling_def)
    ultimately show ?thesis using i(2,3) by (simp add: d' have_workers_def)
  qed
  then show "\<not> have_workers d'" "\<not> drv_scanning d'" "\<not> Pending (drv_shutdown d')" "ms_result (drv_shutdown d') = r"
    "ms_inv (drv_shutdown d) \<Longrightarrow> ms_inv (drv_shutdown d')" "client_ok d \<Longrightarrow> client_ok d'" by blast+
qed

text \<open>
  Stopping is idempotent: a second stop after any first one, whatever state it started from, does no
  work at all, neither on the connection nor on the threads, and gives the same answer.
\<close>

lemma StopScanning_idempotent:
  "StopScanning env (snd (StopScanning env d)) = StopScanning env d"
proof -
  obtain r d' where s: "StopScanning env d = (r, d')" by fastforce
  note e = StopScanning_effect [OF s]
  show ?thesis using e(1-4) by (simp add: s StopScanning_def [of env d'] Impl_StopMeasurement_idle)
qed

end
