(* ===== verification/Driver_Configuration.thy ===== *)
theory Driver_Configuration
  imports Driver_Lifecycle
begin

text \<open>
  \<^verbatim>\<open>lms4xxx_driver/src/driver_configuration.cpp\<close>: the command phase before the stream starts. \<open>Configure\<close> is the
  list of its steps, the first of which that fails takes the way out through the stop of the measurement. Log lines
  and the counter of parameters that differed are only reported. The lemmas show what a success of a parameter, of
  the wait and of the whole configuration says about the device, and that a failure never leaves a measurement
  without an attempt to stop it.
\<close>

section \<open>Steps\<close>

definition on_chan :: "('w chan \<Rightarrow> 'a \<times> 'w chan) \<Rightarrow> 'w driver \<Rightarrow> 'a \<times> 'w driver" where
  "on_chan f d = (case f (drv_chan d) of (r, ch) \<Rightarrow> (r, d\<lparr>drv_chan := ch\<rparr>))"

fun run_steps :: "('s \<Rightarrow> 'e option \<times> 's) list \<Rightarrow> 's \<Rightarrow> 'e option \<times> 's" where
  "run_steps [] s = (None, s)"
| "run_steps (f # fs) s = (case f s of (Some e, s) \<Rightarrow> (Some e, s) | (None, s) \<Rightarrow> run_steps fs s)"

section \<open>One parameter\<close>

datatype Readback = kStrict | kTolerateSfa

record ParamRow =
  row_name :: string
  row_frame :: bytes
  row_readback :: Readback

definition row :: "string \<Rightarrow> bytes \<Rightarrow> Readback \<Rightarrow> ParamRow" where
  "row name frame readback = \<lparr>row_name = name, row_frame = frame, row_readback = readback\<rparr>"

text \<open>The write with its acknowledgement.\<close>

definition write_parameter :: "'w os \<Rightarrow> ParamRow \<Rightarrow> int \<Rightarrow> 'w chan \<Rightarrow> error_code option \<times> 'w chan" where
  "write_parameter os r timeout_ms ch =
     (case SendAndReceive os (row_frame r) timeout_ms ch of
        (Inl e, ch) \<Rightarrow> (Some e, ch)
      | (Inr answer, ch) \<Rightarrow> ValidateResponse answer kWriteAnswer (row_name r) ch)"

definition check_readback :: "'w os \<Rightarrow> ParamRow \<Rightarrow> int \<Rightarrow> 'w chan \<Rightarrow> error_code option \<times> 'w chan" where
  "check_readback os r timeout_ms ch =
     (case ReadVariable os (row_name r) timeout_ms ch of
        (Inl e, ch) \<Rightarrow> (if row_readback r = kTolerateSfa \<and> IsTolerableSfa e then None else Some e, ch)
      | (Inr after, ch) \<Rightarrow>
          (if after \<noteq> ParamsOf (row_frame r) (length (row_name r)) then Some (Drv kReadbackMismatch) else None, ch))"

definition write_and_check ::
    "'w os \<Rightarrow> ParamRow \<Rightarrow> int \<Rightarrow> bool \<Rightarrow> nat \<Rightarrow> 'w chan \<Rightarrow> (error_code option \<times> nat) \<times> 'w chan" where
  "write_and_check os r timeout_ms differed changed ch =
     (case run_steps [write_parameter os r timeout_ms, check_readback os r timeout_ms] ch of
        (Some e, ch) \<Rightarrow> ((Some e, changed), ch)
      | (None, ch) \<Rightarrow> ((None, if differed then changed + 1 else changed), ch))"

text \<open>The counter \<open>changed\<close> goes up when the device held another value before.\<close>

definition ApplyParameter ::
    "'w os \<Rightarrow> ParamRow \<Rightarrow> int \<Rightarrow> nat \<Rightarrow> 'w chan \<Rightarrow> (error_code option \<times> nat) \<times> 'w chan" where
  "ApplyParameter os r timeout_ms changed ch =
     (case ReadVariable os (row_name r) timeout_ms ch of
        (before, ch) \<Rightarrow>
          (case before of
             Inl e \<Rightarrow> if IsTolerableSfa e then write_and_check os r timeout_ms False changed ch
                      else ((Some e, changed), ch)
           | Inr p \<Rightarrow> write_and_check os r timeout_ms (p \<noteq> ParamsOf (row_frame r) (length (row_name r))) changed ch))"

section \<open>What the device says about itself\<close>

definition next_string :: "bytes \<Rightarrow> nat \<Rightarrow> (string \<times> nat) option" where
  "next_string p pos =
     (if pos + 2 > length p then None
      else
        let n = unat (DecodeUint16 (drop pos p)); pos = pos + 2
        in if pos + n > length p then None else Some (chars_of (take n (drop pos p)), pos + n))"

text \<open>A read whose answer has to be at least \<open>n\<close> bytes long to be used; an error leaves the record as it is.\<close>

definition ask :: "'w os \<Rightarrow> int \<Rightarrow> 'a \<times> 'w chan \<Rightarrow> string \<Rightarrow> nat \<Rightarrow> (bytes \<Rightarrow> 'a \<Rightarrow> 'a) \<Rightarrow> 'a \<times> 'w chan" where
  "ask os timeout_ms s name n f =
     (case s of (a, ch) \<Rightarrow>
        (case ReadVariable os name timeout_ms ch of
           (Inl e, ch) \<Rightarrow> (a, ch)
         | (Inr p, ch) \<Rightarrow> (if length p \<ge> n then f p a else a, ch)))"

definition take_device_ident :: "bytes \<Rightarrow> DeviceIdentity \<Rightarrow> DeviceIdentity" where
  "take_device_ident p a =
     (case next_string p 0 of
        None \<Rightarrow> a
      | Some (designation, pos) \<Rightarrow>
          (let a = a\<lparr>firmware_designation := designation\<rparr>
           in case next_string p pos of None \<Rightarrow> a | Some (version, _) \<Rightarrow> a\<lparr>firmware_version := version\<rparr>))"

definition ReadIdentity :: "'w os \<Rightarrow> int \<Rightarrow> 'w chan \<Rightarrow> DeviceIdentity \<times> 'w chan" where
  "ReadIdentity os t ch =
     (let s = (new_DeviceIdentity, ch);
          s = ask os t s ''DeviceIdent'' 0 take_device_ident;
          s = ask os t s ''DIornr'' 0 (\<lambda>p a. a\<lparr>order_number := PrefixedString p\<rparr>);
          s = ask os t s ''DItype'' 0 (\<lambda>p a. a\<lparr>id_device_type := PrefixedString p\<rparr>);
          (a, ch) = ask os t s ''LocationName'' 0 (\<lambda>p a. a\<lparr>location_name := PrefixedString p\<rparr>)
      in (a\<lparr>is_s01_variant := (order_number a = ''1116198'')\<rparr>, ch))"

definition ReadAudit :: "'w os \<Rightarrow> int \<Rightarrow> 'w chan \<Rightarrow> DeviceAudit \<times> 'w chan" where
  "ReadAudit os t ch =
     (let s = (new_DeviceAudit, ch);
          s = ask os t s ''OPcurtmpdev'' 4 (\<lambda>p a. a\<lparr>audit_temperature := Some (DecodeFloat p)\<rparr>);
          s = ask os t s ''ODoprh'' 4 (\<lambda>p a. a\<lparr>audit_operating_hours_deci := Some (DecodeUint32 p)\<rparr>);
          s = ask os t s ''ODpwrc'' 4 (\<lambda>p a. a\<lparr>audit_power_on_count := Some (DecodeUint32 p)\<rparr>);
          s = ask os t s ''SCdevicestate'' 1 (\<lambda>p a. a\<lparr>audit_device_state := Some (p ! 0)\<rparr>);
          s = ask os t s ''LMPscancfg'' 18
                (\<lambda>p a. a\<lparr>audit_scan_frequency_centi_hz := Some (DecodeUint32 p),
                        audit_angular_resolution_1e4 := Some (DecodeUint32 (drop 6 p)),
                        audit_start_angle_1e4 := Some (DecodeInt32 (drop 10 p)),
                        audit_stop_angle_1e4 := Some (DecodeInt32 (drop 14 p))\<rparr>);
          s = ask os t s ''IOlasc'' 8
                (\<lambda>p a. a\<lparr>audit_laser_trigger_source := Some (p ! 0),
                        audit_laser_timeout_s := Some (DecodeUint16 (drop 5 p))\<rparr>);
          s = ask os t s ''SYtype'' 1 (\<lambda>p a. a\<lparr>audit_motor_sync_role := Some (p ! 0)\<rparr>)
      in ask os t s ''SYphas'' 4 (\<lambda>p a. a\<lparr>audit_motor_sync_phase_1e4 := Some (DecodeUint32 p)\<rparr>))"

text \<open>The messages are only logged.\<close>

definition LogActiveMessages :: "'w os \<Rightarrow> int \<Rightarrow> 'w chan \<Rightarrow> string list \<times> 'w chan" where
  "LogActiveMessages os t ch =
     (case ReadVariable os ''EMActiveCustomerInfo'' t ch of
        (Inl e, ch) \<Rightarrow> ([], ch)
      | (Inr p, ch) \<Rightarrow> (fst (DecodeActiveMessages p), ch))"

section \<open>Waiting for the motor\<close>

definition kReadyTimeoutMs :: int where "kReadyTimeoutMs = 60000"
definition kReadyPollMs :: int where "kReadyPollMs = 200"

definition read_state :: "'w env \<Rightarrow> int \<Rightarrow> 'w driver \<Rightarrow> (error_code + int) \<times> 'w driver" where
  "read_state env timeout_ms d =
     (case on_chan (\<lambda>ch. ReadVariable (env_os env) ''SCdevicestate'' (max timeout_ms (MethodTimeout [] ch)) ch) d of
        (Inl e, d) \<Rightarrow> (Inl e, d)
      | (Inr p, d) \<Rightarrow> (Inr (if p = [] then -1 else uint (p ! 0)), d))"

lemma read_state_time: "read_state env t d = (Inr s, d') \<Longrightarrow> now d \<le> now d'"
  using ReadVariable_grows [of "drv_chan d" "env_os env" "''SCdevicestate''" "max t (MethodTimeout [] (drv_chan d))"]
  by (auto simp: read_state_def on_chan_def grows_def outside_def split: prod.splits sum.splits option.splits)

function await_ready :: "'w env \<Rightarrow> int \<Rightarrow> nat \<Rightarrow> 'w driver \<Rightarrow> error_code option \<times> 'w driver" where
  "await_ready env timeout_ms deadline d =
     (case read_state env timeout_ms d of
        (Inl e, d) \<Rightarrow> (Some e, d)
      | (Inr s, d) \<Rightarrow>
          if s = 1 then (None, d)
          else if s = 2 \<or> now d \<ge> deadline
          then (Some (Drv kDeviceNotReady), snd (on_chan (LogActiveMessages (env_os env) timeout_ms) d))
          else await_ready env timeout_ms deadline (sleep_for env (ms kReadyPollMs) d))"
  by pat_completeness auto
termination
  by (relation "measure (\<lambda>(env, t, deadline, d). deadline - now d)")
     (auto simp: sleep_for_def Let_def ms_def max_def kReadyPollMs_def dest!: read_state_time [OF sym])

declare await_ready.simps [simp del]

definition WaitDeviceReady :: "'w env \<Rightarrow> int \<Rightarrow> 'w driver \<Rightarrow> error_code option \<times> 'w driver" where
  "WaitDeviceReady env timeout_ms d = await_ready env timeout_ms (now d + ms kReadyTimeoutMs) d"

section \<open>The whole configuration\<close>

definition call_method :: "'w env \<Rightarrow> bytes \<Rightarrow> string \<Rightarrow> u8 option \<Rightarrow> 'w driver \<Rightarrow> error_code option \<times> 'w driver" where
  "call_method env frame name ok_byte = on_chan (CallMethod (env_os env) frame name ok_byte)"

datatype TscRole = kOff | kClient | kServer

fun role_byte :: "TscRole \<Rightarrow> u8" where
  "role_byte kOff = 0"
| "role_byte kClient = 1"
| "role_byte kServer = 2"

definition base_rows :: "DriverConfig \<Rightarrow> ParamRow list" where
  "base_rows cfg =
     [row ''LMDscandatacfg''
        (BuildScanDataConfig (cfg_remission cfg) (ntp_enabled (cfg_ntp cfg)) 0x07 False False kOutputRate) kTolerateSfa,
      row ''LMPoutputRange'' (BuildOutputRange kAngularResolution1e4 kStartAngle1e4 kStopAngle1e4) kStrict,
      row ''LFPmeanfilter'' (BuildMeanFilter False 2) kStrict,
      row ''LFPmedianfilter'' (BuildMedianFilter False) kStrict,
      row ''LFPfrontendEdgefilter'' (BuildFrontendEdgeFilter kFrontendEdgeFilterOff) kStrict,
      row ''LFPedgefilter'' (BuildEdgeFilter False) kStrict,
      row ''LFPcubicareafilter''
        (BuildCubicAreaFilter kCubicAreaFilterOff 0 kCubicMaxDist1e4mm (- kCubicExpansion1e4mm) kCubicExpansion1e4mm)
        kStrict,
      row ''LFPglossfilter'' (BuildGlossFilter False) kStrict,
      row ''TSCTCtimezone'' (BuildSetNtpTimezone kTimezoneUtc) kTolerateSfa]"

text \<open>\<open>None\<close> when the server of an enabled time service is not an IPv4 address.\<close>

definition configure_rows :: "'w env \<Rightarrow> DriverConfig \<Rightarrow> ParamRow list option" where
  "configure_rows env cfg =
     (if ntp_enabled (cfg_ntp cfg) then
        (case env_parse_ipv4 env (ntp_server (cfg_ntp cfg)) of
           None \<Rightarrow> None
         | Some addr \<Rightarrow>
             Some (base_rows cfg @
               [row ''TSCRole'' (BuildSetTimeSyncRole (role_byte kClient)) kTolerateSfa,
                row ''TSCTCSrvAddr'' (BuildSetNtpServer addr) kTolerateSfa,
                row ''TSCTCupdatetime'' (BuildSetNtpUpdateTime (ntp_sync_interval_s (cfg_ntp cfg))) kTolerateSfa]))
      else Some (base_rows cfg @ [row ''TSCRole'' (BuildSetTimeSyncRole (role_byte kOff)) kTolerateSfa]))"

fun apply_rows :: "'w os \<Rightarrow> int \<Rightarrow> ParamRow list \<Rightarrow> nat \<Rightarrow> 'w chan \<Rightarrow> error_code option \<times> 'w chan" where
  "apply_rows os t [] changed ch = (None, ch)"
| "apply_rows os t (r # rs) changed ch =
     (case ApplyParameter os r t changed ch of
        ((Some e, changed), ch) \<Rightarrow> (Some e, ch)
      | ((None, changed), ch) \<Rightarrow> apply_rows os t rs changed ch)"

definition apply_parameters :: "'w env \<Rightarrow> int \<Rightarrow> 'w driver \<Rightarrow> error_code option \<times> 'w driver" where
  "apply_parameters env t d =
     (case configure_rows env (drv_config d) of
        None \<Rightarrow> (Some (Drv kInvalidConfig), d)
      | Some rows \<Rightarrow> on_chan (apply_rows (env_os env) t rows 0) d)"

definition check_ntp :: "'w env \<Rightarrow> 'w driver \<Rightarrow> error_code option \<times> 'w driver" where
  "check_ntp env d =
     (if \<not> ntp_enabled (cfg_ntp (drv_config d)) then (None, d)
      else case ProbeNtpServer env d of
        ((ok, detail), d) \<Rightarrow>
          if \<not> ok then (Some (Drv kInvalidConfig), d)
          else (None, on_monitor (on_stats (\<lambda>s. s\<lparr>ntp_server_reachable := True, ntp_status := kUnverified,
                  ntp_configured_at_us := env_realtime_us env (world d)\<rparr>)) d))"

definition read_identity :: "'w env \<Rightarrow> int \<Rightarrow> 'w driver \<Rightarrow> error_code option \<times> 'w driver" where
  "read_identity env t d =
     (case on_chan (ReadIdentity (env_os env) t) d of (a, d) \<Rightarrow> (None, d\<lparr>drv_identity := a\<rparr>))"

definition read_audit :: "'w env \<Rightarrow> int \<Rightarrow> 'w driver \<Rightarrow> error_code option \<times> 'w driver" where
  "read_audit env t d =
     (case on_chan (ReadAudit (env_os env) t) d of (a, d) \<Rightarrow> (None, d\<lparr>drv_audit := a\<rparr>))"

text \<open>The roll back is armed before the request: losing its answer does not prove that nothing started.\<close>

definition start_measurement :: "'w env \<Rightarrow> 'w driver \<Rightarrow> error_code option \<times> 'w driver" where
  "start_measurement env d =
     call_method env BuildStartMeasurement ''LMCstartmeas'' (Some 0x00) (d\<lparr>drv_shutdown := Arm (drv_shutdown d)\<rparr>)"

definition configure_steps :: "'w env \<Rightarrow> int \<Rightarrow> ('w driver \<Rightarrow> error_code option \<times> 'w driver) list" where
  "configure_steps env t =
     [read_identity env t,
      call_method env BuildLogin ''SetAccessMode'' (Some 0x01),
      call_method env BuildLoadAppDefaults ''mSCloadappdef'' None,
      call_method env BuildLogin ''SetAccessMode'' (Some 0x01),
      apply_parameters env t,
      check_ntp env,
      start_measurement env,
      call_method env BuildRun ''Run'' (Some 0x01),
      WaitDeviceReady env t,
      read_audit env t]"

definition Configure :: "'w env \<Rightarrow> 'w driver \<Rightarrow> error_code option \<times> 'w driver" where
  "Configure env d =
     (if \<not> is_connected d then (Some (Drv ErrorCode.kNotConnected), d)
      else case run_steps (configure_steps env (net_config_timeout_ms (cfg_network (drv_config d))))
                  (d\<lparr>drv_state := kConfiguring\<rparr>) of
        (None, d) \<Rightarrow> (None, d\<lparr>drv_state := kConnected\<rparr>)
      | (Some e, d) \<Rightarrow>
          (Some e, (snd (Impl_StopMeasurement env False (Uncertain (drv_chan d) \<or> \<not> is_connected d) d))
                     \<lparr>drv_state := kError\<rparr>))"

section \<open>What an answer proves\<close>

text \<open>Exactly the command went out, and exactly one answer of this type and name came in, with such a payload.\<close>

definition acknowledged :: "bytes \<Rightarrow> string \<Rightarrow> string \<Rightarrow> (bytes \<Rightarrow> bool) \<Rightarrow> 'w chan \<Rightarrow> 'w chan \<Rightarrow> bool" where
  "acknowledged frame answer name ok a b \<longleftrightarrow>
     (\<exists>c d data msg. ch_tcp a = Some c \<and> ch_tcp b = Some d \<and> tcp_out d = tcp_out c @ frame \<and>
        tcp_in d = tcp_in c @ wire data \<and> Decode data = Inr msg \<and> command_type msg = answer \<and>
        command_name msg = name \<and> ok (payload msg))"

definition status_is :: "u8 option \<Rightarrow> bytes \<Rightarrow> bool" where
  "status_is ok_byte p \<longleftrightarrow> (\<forall>b. ok_byte = Some b \<longrightarrow> p \<noteq> [] \<and> p ! 0 = b)"

lemma transact_acknowledged:
  assumes "SendAndReceive os frame t a = (Inr r, b)" "ok (payload r)"
  shows "acknowledged frame (command_type r) (command_name r) ok a b"
  using SendAndReceive_outcome [OF assms(1)] assms(2)
  by (auto simp: answered_def put_def acknowledged_def split: if_splits)

lemma ValidateResponse_None: "ValidateResponse r ty n ch = (None, ch') \<longleftrightarrow> ch' = ch \<and> command_type r = ty \<and> command_name r = n"
  by (auto simp: ValidateResponse_def)

lemma CallMethod_ok:
  assumes "CallMethod os frame name ok_byte a = (None, b)"
  shows "acknowledged frame kMethodAnswer name (status_is ok_byte) a b"
proof -
  from assms obtain r where "SendAndReceive os frame (MethodTimeout name a) a = (Inr r, b)"
    "command_type r = kMethodAnswer" "command_name r = name" "status_is ok_byte (payload r)"
    by (auto simp: CallMethod_def ValidateResponse_def status_is_def split: prod.splits sum.splits if_splits option.splits)
  then show ?thesis using transact_acknowledged by metis
qed

lemma ReadVariable_ok:
  assumes "ReadVariable os name t a = (Inr p, b)"
  shows "acknowledged (BuildReadVariable name) kReadAnswer name ((=) p) a b"
proof -
  from assms obtain r where "SendAndReceive os (BuildReadVariable name) t a = (Inr r, b)"
    "command_type r = kReadAnswer" "command_name r = name" "p = payload r"
    by (auto simp: ReadVariable_def ValidateResponse_def split: prod.splits sum.splits if_splits)
  then show ?thesis using transact_acknowledged [of os _ t a r b "(=) p"] by metis
qed

section \<open>One parameter is applied\<close>

definition row_applied :: "ParamRow \<Rightarrow> 'w chan \<Rightarrow> 'w chan \<Rightarrow> bool" where
  "row_applied r a b \<longleftrightarrow> (\<exists>x y. grows a x \<and> acknowledged (row_frame r) kWriteAnswer (row_name r) (\<lambda>p. True) x y \<and>
     (acknowledged (BuildReadVariable (row_name r)) kReadAnswer (row_name r)
        ((=) (ParamsOf (row_frame r) (length (row_name r)))) y b \<or>
      row_readback r = kTolerateSfa \<and> grows y b))"

lemma write_and_check_ok:
  assumes "write_and_check os r t differed n ch = ((None, n'), ch')"
  shows "row_applied r ch ch'"
proof -
  from assms obtain y where w: "write_parameter os r t ch = (None, y)" and c: "check_readback os r t y = (None, ch')"
    by (auto simp: write_and_check_def split: prod.splits option.splits)
  from w obtain m where "SendAndReceive os (row_frame r) t ch = (Inr m, y)" "command_type m = kWriteAnswer" "command_name m = row_name r"
    by (auto simp: write_parameter_def ValidateResponse_None split: prod.splits sum.splits)
  then have ack: "acknowledged (row_frame r) kWriteAnswer (row_name r) (\<lambda>p. True) ch y"
    using transact_acknowledged [of os "row_frame r" t ch m y "\<lambda>p. True"] by simp
  obtain a x where v: "ReadVariable os (row_name r) t y = (a, x)" by fastforce
  have read_back: "acknowledged (BuildReadVariable (row_name r)) kReadAnswer (row_name r)
        ((=) (ParamsOf (row_frame r) (length (row_name r)))) y ch' \<or> row_readback r = kTolerateSfa \<and> grows y ch'"
  proof (cases a)
    case (Inl e)
    then show ?thesis using c v ReadVariable_grows [of y os "row_name r" t]
      by (auto simp: check_readback_def split: if_splits)
  next
    case (Inr p)
    then show ?thesis using c v ReadVariable_ok [of os "row_name r" t y p x]
      by (auto simp: check_readback_def split: if_splits)
  qed
  show ?thesis unfolding row_applied_def using ack read_back grows_refl by blast
qed

lemma ApplyParameter_row:
  assumes "ApplyParameter os r t changed ch = ((None, changed'), ch')"
  shows "row_applied r ch ch'"
proof -
  obtain before x where v: "ReadVariable os (row_name r) t ch = (before, x)" by fastforce
  have g: "grows ch x" using ReadVariable_grows [of ch os "row_name r" t] v by simp
  have "\<exists>differed. write_and_check os r t differed changed x = ((None, changed'), ch')"
    using assms v by (auto simp: ApplyParameter_def split: sum.splits if_splits)
  then have "row_applied r x ch'" using write_and_check_ok by blast
  then show ?thesis using grows_trans [OF g] unfolding row_applied_def by blast
qed

section \<open>The steps of the configuration\<close>

text \<open>The workers too only append to what was sent and received.\<close>

lemma grows_outside: "now d \<le> t \<Longrightarrow> grows (drv_chan d) (drv_chan (set_outside (t, w) d))"
proof (cases "ch_tcp (drv_chan d)")
  case (Some c)
  moreover assume "now d \<le> t"
  ultimately show ?thesis by (auto simp: set_outside_def outside_def intro!: grows_put)
qed (simp add: set_outside_def)

lemma drv_chan_receiver_moved [simp]: "drv_chan (feed_receiver env bs d) = drv_chan d"
  by (simp add: feed_receiver_def receiver_moved_def split: option.split)

lemma grows_rx: "grows (drv_chan d) (drv_chan (rx_step env d))"
proof (cases "drv_rx d = RxRead \<and> ch_tcp (drv_chan d) \<noteq> None")
  case True
  then obtain c where c: "ch_tcp (drv_chan d) = Some c" by blast
  obtain bs e c2 where r: "ReadSome (env_os env) kReadBufferSize c = (bs, e, c2)" by (metis prod.exhaust)
  from ReadSome_frame [OF r] obtain xs where "reads xs c c2" by blast
  then have "grows (drv_chan d) (put c2 (drv_chan d))"
    by (intro grows_put [OF c, of _ "[]" xs]) (auto simp: reads_def)
  then show ?thesis using True c r by (simp add: rx_step.simps)
next
  case False
  then show ?thesis by (auto simp: rx_step.simps Let_def split: rx_loc.split option.split)
qed

lemma grows_probe: "grows (drv_chan d) (drv_chan (snd (ProbeNtpServer env d)))"
  by (auto simp: ProbeNtpServer_def intro: grows_outside split: prod.split)

lemma grows_ntp: "grows (drv_chan d) (drv_chan (ntp_step env d))"
  using grows_probe [of d env]
  by (auto simp: ntp_step.simps probe_done_def Let_def split_beta split: ntp_loc.split)

lemma grows_meanwhile: "grows (drv_chan d) (drv_chan (meanwhile env d))"
proof -
  have step: "grows (drv_chan d) (drv_chan (work env d k))" for d k
    by (cases k) (simp_all add: grows_rx grows_ntp)
  have run: "grows (drv_chan d) (drv_chan (foldl (work env) d' ws))" if "grows (drv_chan d) (drv_chan d')" for d' ws
    using that by (induction ws arbitrary: d') (auto dest: grows_trans [OF _ step])
  show ?thesis by (auto simp: meanwhile_def intro!: run grows_outside split: prod.split)
qed

lemma grows_sleep: "grows (drv_chan d) (drv_chan (sleep_for env ns d))"
  unfolding sleep_for_def Let_def
  by (rule grows_trans [OF grows_meanwhile grows_outside]) simp

lemma grows_ask: "grows (snd s) (snd (ask os t s name n f))"
  using ReadVariable_grows [of "snd s" os name t]
  by (auto simp: ask_def split: prod.splits sum.splits)

lemma ReadIdentity_grows: "grows ch (snd (ReadIdentity os t ch))"
  unfolding ReadIdentity_def Let_def
  by (auto simp: split_beta intro!: grows_trans [OF _ grows_ask] grows_ask [of "(new_DeviceIdentity, ch)", simplified])

lemma ReadAudit_grows: "grows ch (snd (ReadAudit os t ch))"
  unfolding ReadAudit_def Let_def
  by (intro grows_trans [OF _ grows_ask] grows_ask [of "(new_DeviceAudit, ch)", simplified])

text \<open>Every step before the request keeps the record of the shutdown, the connection's history and the settings.\<close>

definition prepares :: "'w driver \<Rightarrow> 'w driver \<Rightarrow> bool" where
  "prepares a b \<longleftrightarrow> grows (drv_chan a) (drv_chan b) \<and> drv_shutdown b = drv_shutdown a \<and> drv_config b = drv_config a"

lemma prepares_refl [simp]: "prepares a a"
  by (simp add: prepares_def)

lemma prepares_trans: "\<lbrakk> prepares a b; prepares b c \<rbrakk> \<Longrightarrow> prepares a c"
  by (auto simp: prepares_def intro: grows_trans)

lemma prepares_on_chan: "(\<And>ch. grows ch (snd (f ch))) \<Longrightarrow> prepares d (snd (on_chan f d))"
  by (simp add: prepares_def on_chan_def split_beta)

lemma prepares_call: "prepares d (snd (call_method env frame name ok d))"
  unfolding call_method_def by (rule prepares_on_chan) (rule CallMethod_grows)

lemma prepares_sleep: "prepares d (sleep_for env ns d)"
  using worked_sleep [of d env ns] by (simp add: prepares_def grows_sleep worked_def)

lemma prepares_read_state: "prepares d (snd (read_state env t d))"
proof -
  have "prepares d (snd (on_chan (\<lambda>ch. ReadVariable (env_os env) ''SCdevicestate'' (max t (MethodTimeout [] ch)) ch) d))"
    by (rule prepares_on_chan) (rule ReadVariable_grows)
  then show ?thesis by (auto simp: read_state_def split: prod.splits sum.splits)
qed

lemma prepares_identity: "prepares d (snd (read_identity env t d))" "prepares d (snd (read_audit env t d))"
  using ReadIdentity_grows [of "drv_chan d" "env_os env" t] ReadAudit_grows [of "drv_chan d" "env_os env" t]
  by (simp_all add: read_identity_def read_audit_def prepares_def on_chan_def split_beta)

lemma LogActiveMessages_grows: "grows ch (snd (LogActiveMessages os t ch))"
  using ReadVariable_grows [of ch os "''EMActiveCustomerInfo''" t]
  by (auto simp: LogActiveMessages_def split: prod.splits sum.splits)

lemma prepares_await: "prepares d (snd (await_ready env t deadline d))"
proof (induction env t deadline d rule: await_ready.induct)
  case (1 env t deadline d)
  obtain r d1 where r: "read_state env t d = (r, d1)" by fastforce
  have p1: "prepares d d1" using prepares_read_state [of d env t] r by simp
  have log: "prepares d1 (snd (on_chan (LogActiveMessages (env_os env) t) d1))"
    by (rule prepares_on_chan) (rule LogActiveMessages_grows)
  show ?case
  proof (cases r)
    case (Inl e)
    then show ?thesis using p1 by (subst await_ready.simps) (simp add: r)
  next
    case (Inr s)
    have "prepares d (snd (await_ready env t deadline (sleep_for env (ms kReadyPollMs) d1)))"
      if "\<not> s = 1" "\<not> (s = 2 \<or> now d1 \<ge> deadline)"
      using prepares_trans [OF prepares_trans [OF p1 prepares_sleep]] 1 [OF r [symmetric] Inr that] by blast
    then show ?thesis using p1 prepares_trans [OF p1 log] Inr
      by (subst await_ready.simps) (auto simp: r)
  qed
qed

text \<open>Ready means that the device said so.\<close>

definition device_ready :: "'w chan \<Rightarrow> 'w chan \<Rightarrow> bool" where
  "device_ready a b \<longleftrightarrow> (\<exists>x. grows a x \<and>
     acknowledged (BuildReadVariable ''SCdevicestate'') kReadAnswer ''SCdevicestate'' (\<lambda>p. p \<noteq> [] \<and> p ! 0 = 1) x b)"

lemma await_ready_None: "await_ready env t deadline d = (None, d') \<Longrightarrow> device_ready (drv_chan d) (drv_chan d')"
proof (induction env t deadline d rule: await_ready.induct)
  case (1 env t deadline d)
  obtain r d1 where r: "read_state env t d = (r, d1)" by fastforce
  note step = "1.prems" [unfolded await_ready.simps [of env t deadline d] r prod.case]
  obtain s where s: "r = Inr s" using step by (cases r) auto
  show ?case
  proof (cases "s = 1")
    case True
    then have d': "d' = d1" using step s by simp
    have one: "uint w = 1 \<longleftrightarrow> w = 1" for w :: u8 by (simp add: word_uint_eq_iff)
    have "\<exists>p. ReadVariable (env_os env) ''SCdevicestate'' (max t (MethodTimeout [] (drv_chan d))) (drv_chan d) = (Inr p, drv_chan d1) \<and>
        p \<noteq> [] \<and> p ! 0 = 1"
      using r s True by (auto simp: read_state_def on_chan_def one split: prod.splits sum.splits if_splits)
    then obtain p where p: "ReadVariable (env_os env) ''SCdevicestate'' (max t (MethodTimeout [] (drv_chan d))) (drv_chan d) =
        (Inr p, drv_chan d1)" "p \<noteq> []" "p ! 0 = 1" by blast
    from ReadVariable_ok [OF p(1)] p(2,3) show ?thesis
      unfolding device_ready_def d' acknowledged_def by (intro exI [of _ "drv_chan d"]) auto
  next
    case False
    then have go: "\<not> (s = 2 \<or> now d1 \<ge> deadline)" using step s by (auto split: if_splits)
    have "device_ready (drv_chan (sleep_for env (ms kReadyPollMs) d1)) (drv_chan d')"
      using "1.IH" [OF r [symmetric] s False go] step s False go by simp
    moreover have "grows (drv_chan d) (drv_chan (sleep_for env (ms kReadyPollMs) d1))"
      using prepares_trans [OF prepares_read_state [of d env t] prepares_sleep [of _ env "ms kReadyPollMs"]] r by (simp add: prepares_def)
    ultimately show ?thesis using grows_trans unfolding device_ready_def by blast
  qed
qed

fun rows_applied :: "ParamRow list \<Rightarrow> 'w chan \<Rightarrow> 'w chan \<Rightarrow> bool" where
  "rows_applied [] a b \<longleftrightarrow> b = a"
| "rows_applied (r # rs) a b \<longleftrightarrow> (\<exists>x. row_applied r a x \<and> rows_applied rs x b)"

lemma run_steps_keep:
  assumes "\<And>f s. f \<in> set fs \<Longrightarrow> R s (snd (f s))" "\<And>s. R s s" "\<And>a b c. R a b \<Longrightarrow> R b c \<Longrightarrow> R a c"
  shows "R s (snd (run_steps fs s))"
  using assms(1)
proof (induction fs arbitrary: s)
  case (Cons f fs)
  obtain e s1 where f: "f s = (e, s1)" by fastforce
  have "R s s1" using Cons.prems [of f s] f by simp
  with Cons.IH [of s1] Cons.prems show ?case by (auto simp: f split: option.split intro: assms(3))
qed (simp add: assms(2))

lemma ApplyParameter_grows: "grows ch (snd (ApplyParameter os r t n ch))"
proof -
  have w: "grows ch (snd (run_steps [write_parameter os r t, check_readback os r t] ch))" for ch
  proof (rule run_steps_keep [where R = grows])
    fix f s assume "f \<in> set [write_parameter os r t, check_readback os r t]"
    then show "grows s (snd (f s))"
      using SendAndReceive_grows [of s os "row_frame r" t] ReadVariable_grows [of s os "row_name r" t]
      by (auto simp: write_parameter_def check_readback_def ValidateResponse_def intro!: grows_uncertain
          split: prod.splits sum.splits)
  qed (auto intro: grows_trans)
  have v: "grows ch (snd (write_and_check os r t b n ch))" for b ch
    using w [of ch] by (auto simp: write_and_check_def split: prod.splits option.splits)
  obtain before x where b: "ReadVariable os (row_name r) t ch = (before, x)" by fastforce
  have "grows ch x" using ReadVariable_grows [of ch os "row_name r" t] b by simp
  then show ?thesis using grows_trans [OF _ v] by (auto simp: ApplyParameter_def b split: sum.splits)
qed

lemma apply_rows_grows: "grows ch (snd (apply_rows os t rows n ch))"
proof (induction rows arbitrary: n ch)
  case (Cons r rs)
  obtain e n' x where a: "ApplyParameter os r t n ch = ((e, n'), x)" by (metis prod.exhaust)
  have "grows ch x" using ApplyParameter_grows [of ch os r t n] a by simp
  with Cons.IH [of x n'] show ?case by (auto simp: a split: option.split intro: grows_trans)
qed simp

lemma apply_rows_None: "apply_rows os t rows n a = (None, b) \<Longrightarrow> rows_applied rows a b"
proof (induction rows arbitrary: n a)
  case (Cons r rs)
  obtain e n' x where x: "ApplyParameter os r t n a = ((e, n'), x)" by (metis prod.exhaust)
  with Cons.prems have e: "e = None" and rest: "apply_rows os t rs n' x = (None, b)" by (auto split: option.splits)
  show ?case using ApplyParameter_row [OF x [unfolded e]] Cons.IH [OF rest] by auto
qed simp

lemma prepares_parameters: "prepares d (snd (apply_parameters env t d))"
  by (auto simp: apply_parameters_def intro!: prepares_on_chan apply_rows_grows split: option.split)

lemma prepares_check_ntp: "prepares d (snd (check_ntp env d))"
proof -
  have "prepares d (snd (ProbeNtpServer env d))"
    using worked_probe [of d env] grows_probe [of d env] by (simp add: prepares_def worked_def)
  then show ?thesis by (auto simp: check_ntp_def prepares_def split_beta)
qed

lemmas prepares_steps = prepares_identity prepares_call prepares_parameters prepares_check_ntp prepares_await

text \<open>A list of steps succeeds when each does.\<close>

lemma run_steps_None:
  "run_steps (f # fs) s = (None, s') \<longleftrightarrow> (\<exists>x. f s = (None, x) \<and> run_steps fs x = (None, s'))"
  by (auto split: prod.split option.split)

lemma step_prepares: "\<lbrakk> \<And>d. prepares d (snd (f d)); f d = (e, d') \<rbrakk> \<Longrightarrow> prepares d d'"
  by (metis snd_conv)

lemma call_method_ok:
  "call_method env frame name ok d = (None, d') \<Longrightarrow>
   acknowledged frame kMethodAnswer name (status_is ok) (drv_chan d) (drv_chan d')"
  by (auto simp: call_method_def on_chan_def dest!: CallMethod_ok split: prod.splits)

lemma Configure_ok:
  assumes "Configure env d = (None, d')"
  shows "Pending (drv_shutdown d') \<and> drv_state d' = kConnected \<and>
    (\<exists>rows c0 c1 c2 c3 c4 c5 c6 c7 c8. configure_rows env (drv_config d) = Some rows \<and> grows (drv_chan d) c0 \<and>
       acknowledged BuildLogin kMethodAnswer ''SetAccessMode'' (status_is (Some 1)) c0 c1 \<and>
       acknowledged BuildLoadAppDefaults kMethodAnswer ''mSCloadappdef'' (status_is None) c1 c2 \<and>
       acknowledged BuildLogin kMethodAnswer ''SetAccessMode'' (status_is (Some 1)) c2 c3 \<and>
       rows_applied rows c3 c4 \<and> grows c4 c5 \<and>
       acknowledged BuildStartMeasurement kMethodAnswer ''LMCstartmeas'' (status_is (Some 0)) c5 c6 \<and>
       acknowledged BuildRun kMethodAnswer ''Run'' (status_is (Some 1)) c6 c7 \<and>
       device_ready c7 c8 \<and> grows c8 (drv_chan d'))"
proof -
  let ?t = "net_config_timeout_ms (cfg_network (drv_config d))"
  let ?d = "d\<lparr>drv_state := kConfiguring\<rparr>"
  obtain e where s: "run_steps (configure_steps env ?t) ?d = (None, e)" and d': "d' = e\<lparr>drv_state := kConnected\<rparr>"
    using assms by (auto simp: Configure_def split: if_splits prod.splits option.splits)
  obtain d0 d1 d2 d3 d4 d5 d6 d7 d8 where
    0: "read_identity env ?t ?d = (None, d0)" and
    1: "call_method env BuildLogin ''SetAccessMode'' (Some 1) d0 = (None, d1)" and
    2: "call_method env BuildLoadAppDefaults ''mSCloadappdef'' None d1 = (None, d2)" and
    3: "call_method env BuildLogin ''SetAccessMode'' (Some 1) d2 = (None, d3)" and
    4: "apply_parameters env ?t d3 = (None, d4)" and
    5: "check_ntp env d4 = (None, d5)" and
    6: "start_measurement env d5 = (None, d6)" and
    7: "call_method env BuildRun ''Run'' (Some 1) d6 = (None, d7)" and
    8: "WaitDeviceReady env ?t d7 = (None, d8)" and
    9: "read_audit env ?t d8 = (None, e)"
    using s unfolding configure_steps_def run_steps_None by (auto simp: run_steps.simps(1))
  define a where "a = d5\<lparr>drv_shutdown := Arm (drv_shutdown d5)\<rparr>"
  note call = step_prepares [OF prepares_call]
  have p0: "prepares ?d d0" by (rule step_prepares [OF prepares_identity(1) 0])
  have p3: "prepares ?d d3"
    by (rule prepares_trans [OF prepares_trans [OF prepares_trans [OF p0 call [OF 1]] call [OF 2]] call [OF 3]])
  have p5: "prepares d4 d5" by (rule step_prepares [OF prepares_check_ntp 5])
  have 6: "call_method env BuildStartMeasurement ''LMCstartmeas'' (Some 0) a = (None, d6)"
    using 6 by (simp add: start_measurement_def a_def)
  have p8: "prepares d7 d8" using prepares_await [of d7 env ?t] 8 by (metis WaitDeviceReady_def snd_conv)
  have p9: "prepares d8 e" by (rule step_prepares [OF prepares_identity(2) 9])
  have "drv_shutdown e = Arm (drv_shutdown d5)"
    using prepares_trans [OF prepares_trans [OF prepares_trans [OF call [OF 6] call [OF 7]] p8] p9]
    by (simp add: prepares_def a_def)
  then have pend: "Pending (drv_shutdown d') \<and> drv_state d' = kConnected"
    by (simp add: d' Pending_def Arm_def no_status_def)
  from 4 p3 obtain rows where rows: "configure_rows env (drv_config d) = Some rows"
      "apply_rows (env_os env) ?t rows 0 (drv_chan d3) = (None, drv_chan d4)"
    by (auto simp: apply_parameters_def on_chan_def prepares_def split: option.splits prod.splits)
  have g: "grows (drv_chan d) (drv_chan d0)" "grows (drv_chan d4) (drv_chan a)" "grows (drv_chan d8) (drv_chan d')"
    using p0 p5 p9 by (simp_all add: prepares_def a_def d')
  have r: "device_ready (drv_chan d7) (drv_chan d8)" using await_ready_None 8 unfolding WaitDeviceReady_def by blast
  show ?thesis
    using pend rows(1) g(1) call_method_ok [OF 1] call_method_ok [OF 2] call_method_ok [OF 3] apply_rows_None [OF rows(2)]
      g(2) call_method_ok [OF 6] call_method_ok [OF 7] r g(3) by blast
qed

section \<open>A prompt device\<close>

text \<open>A link on which the given answers are already waiting: the example behind the witnesses.\<close>

definition plain :: "ColaBMessage \<Rightarrow> bool" where
  "plain m \<longleftrightarrow> length (command_type m) = 3 \<and> command_type m \<noteq> kErrorAnswer \<and> command_name m \<noteq> [] \<and>
     CHR '' '' \<notin> set (command_name m) \<and> length (command_name m) + length (payload m) < 60000"

definition answer :: "string \<Rightarrow> string \<Rightarrow> bytes \<Rightarrow> ColaBMessage" where
  "answer ty name p = \<lparr>command_type = ty, command_name = name, payload = p\<rparr>"

definition waiting :: "ColaBMessage list \<Rightarrow> bytes" where
  "waiting ans = concat (map (\<lambda>m. wire (encode_data (command_type m) (command_name m) (payload m))) ans)"

definition on_link :: "ColaBMessage list \<Rightarrow> bytes chan \<Rightarrow> bool" where
  "on_link ans ch \<longleftrightarrow> (\<exists>c. ch_tcp ch = Some c \<and> tcp_connected c \<and> tcp_world c = waiting ans)"

lemma link_transact:
  assumes "on_link (m # ans) ch" "plain m" "0 < t" "frame \<noteq> []"
  shows "\<exists>ch'. SendAndReceive sample_os frame t ch = (Inr m, ch') \<and> on_link ans ch'"
proof -
  from assms(1) obtain c where c: "ch_tcp ch = Some c" "tcp_connected c"
      "tcp_world c = wire (encode_data (command_type m) (command_name m) (payload m)) @ waiting ans"
    by (auto simp: on_link_def waiting_def)
  have "Decode (encode_data (command_type m) (command_name m) (payload m)) = Inr m"
    using Decode_encode_data [of "command_type m" "command_name m" "payload m"] assms(2) by (simp add: plain_def)
  moreover have "length (encode_data (command_type m) (command_name m) (payload m)) \<le> kMaxFrameBytes"
    using assms(2) by (simp add: plain_def length_encode_data kMaxFrameBytes_def)
  moreover have "command_type m \<noteq> kErrorAnswer" using assms(2) by (simp add: plain_def)
  ultimately show ?thesis using sample_exchange [OF c(2,3) assms(3,4) _ _ _ c(1)] c(2)
    by (force simp: on_link_def put_def)
qed

lemma link_read:
  assumes "on_link (answer kReadAnswer name p # ans) ch" "plain (answer kReadAnswer name p)" "0 < t"
  shows "\<exists>ch'. ReadVariable sample_os name t ch = (Inr p, ch') \<and> on_link ans ch'"
proof -
  have "BuildReadVariable name \<noteq> []" by (simp add: BuildReadVariable_def Encode_nonempty)
  from link_transact [OF assms this] show ?thesis
    by (auto simp: ReadVariable_def ValidateResponse_def answer_def)
qed

lemma link_call:
  assumes "on_link (answer kMethodAnswer name p # ans) (drv_chan d)" "plain (answer kMethodAnswer name p)"
    and "frame \<noteq> []" "status_is ok p" "env_os env = sample_os"
  shows "\<exists>ch'. call_method env frame name ok d = (None, d\<lparr>drv_chan := ch'\<rparr>) \<and> on_link ans ch'"
proof -
  have "0 < MethodTimeout name (drv_chan d)"
    by (simp add: MethodTimeout_def kMethodTimeoutMs_def kStartMeasurementTimeoutMs_def less_max_iff_disj)
  from link_transact [OF assms(1,2) this assms(3)] assms(4,5) show ?thesis
    by (auto simp: call_method_def on_chan_def CallMethod_def ValidateResponse_def answer_def status_is_def split: option.splits)
qed

lemma link_ask:
  assumes "on_link (answer kReadAnswer name p # ans) (snd s)" "plain (answer kReadAnswer name p)" "0 < t"
  shows "on_link ans (snd (ask sample_os t s name n f))"
  using link_read [OF assms] by (auto simp: ask_def split: prod.splits)

lemma link_row:
  assumes "on_link (answer kReadAnswer (row_name r) before # answer kWriteAnswer (row_name r) [] #
      answer kReadAnswer (row_name r) (ParamsOf (row_frame r) (length (row_name r))) # ans) ch"
    and "plain (answer kReadAnswer (row_name r) before)" "plain (answer kWriteAnswer (row_name r) [])"
    and "plain (answer kReadAnswer (row_name r) (ParamsOf (row_frame r) (length (row_name r))))"
    and "row_frame r \<noteq> []" "0 < t"
  shows "\<exists>n' ch'. ApplyParameter sample_os r t n ch = ((None, n'), ch') \<and> on_link ans ch'"
proof -
  from link_read [OF assms(1,2,6)] obtain a where
    a: "ReadVariable sample_os (row_name r) t ch = (Inr before, a)" "on_link (answer kWriteAnswer (row_name r) [] #
      answer kReadAnswer (row_name r) (ParamsOf (row_frame r) (length (row_name r))) # ans) a" by blast
  from link_transact [OF a(2) assms(3,6,5)] obtain b where
    b: "SendAndReceive sample_os (row_frame r) t a = (Inr (answer kWriteAnswer (row_name r) []), b)"
      "on_link (answer kReadAnswer (row_name r) (ParamsOf (row_frame r) (length (row_name r))) # ans) b" by blast
  from link_read [OF b(2) assms(4,6)] obtain c where
    c: "ReadVariable sample_os (row_name r) t b = (Inr (ParamsOf (row_frame r) (length (row_name r))), c)" "on_link ans c" by blast
  have w: "write_parameter sample_os r t a = (None, b)"
    by (simp add: write_parameter_def b(1) ValidateResponse_def) (simp add: answer_def)
  have k: "check_readback sample_os r t b = (None, c)"
    by (simp add: check_readback_def c(1))
  show ?thesis using a(1) c(2) by (simp add: ApplyParameter_def write_and_check_def w k)
qed

definition row_answers :: "ParamRow \<Rightarrow> ColaBMessage list" where
  "row_answers r = [answer kReadAnswer (row_name r) [], answer kWriteAnswer (row_name r) [],
     answer kReadAnswer (row_name r) (ParamsOf (row_frame r) (length (row_name r)))]"

definition good_row :: "ParamRow \<Rightarrow> bool" where
  "good_row r \<longleftrightarrow> row_frame r \<noteq> [] \<and> row_name r \<noteq> [] \<and> CHR '' '' \<notin> set (row_name r) \<and>
     length (row_name r) + length (ParamsOf (row_frame r) (length (row_name r))) < 60000"

lemma link_rows:
  assumes "on_link (concat (map row_answers rows) @ ans) ch" "list_all good_row rows" "0 < t"
  shows "\<exists>ch'. apply_rows sample_os t rows n ch = (None, ch') \<and> on_link ans ch'"
  using assms(1,2)
proof (induction rows arbitrary: n ch)
  case (Cons r rs)
  have l: "on_link (row_answers r @ concat (map row_answers rs) @ ans) ch" using Cons.prems(1) by simp
  have "\<exists>n' x. ApplyParameter sample_os r t n ch = ((None, n'), x) \<and> on_link (concat (map row_answers rs) @ ans) x"
    by (rule link_row [of r "[]"])
      (use l [unfolded row_answers_def [of r]] Cons.prems(2) assms(3) in \<open>auto simp: good_row_def plain_def answer_def\<close>)
  then obtain n' x where x: "ApplyParameter sample_os r t n ch = ((None, n'), x)" "on_link (concat (map row_answers rs) @ ans) x"
    by blast
  with Cons.IH [OF x(2)] Cons.prems show ?case by simp
qed simp

definition sample_config :: DriverConfig where
  "sample_config = \<lparr>cfg_name = ''lidar'', cfg_device = \<lparr>dev_ip = ''10.0.0.2'', dev_port = 2111\<rparr>, cfg_remission = kRssi,
     cfg_ntp = \<lparr>ntp_enabled = False, ntp_server = [], ntp_sync_interval_s = 1, ntp_check_status_s = 5,
                ntp_lock_timeout_s = 60, ntp_max_time_step_ms = 1000\<rparr>,
     cfg_network = \<lparr>net_recv_buffer_bytes = 0, net_connect_timeout_ms = 500, net_response_timeout_ms = 200,
                    net_config_timeout_ms = 2000, net_tcp_keepalive = False, net_keepalive_idle_s = 10,
                    net_keepalive_interval_s = 5, net_keepalive_count = 3\<rparr>\<rparr>"

definition sample_env :: "bytes env" where
  "sample_env = \<lparr>env_os = sample_os,
     env_udp = \<lparr>udp_socket = \<lambda>w. (False, w), udp_set_timeout = \<lambda>s us w. w, udp_address_ok = \<lambda>ip. False,
                udp_connect = \<lambda>ip p w. (False, w), udp_send = \<lambda>bs w. (-1, w), udp_recv = \<lambda>n w. (None, 0, w),
                udp_close = \<lambda>w. w, udp_strerror = \<lambda>w. [], udp_getpid = 0\<rparr>,
     env_oversleep = \<lambda>n w. 0, env_stamp_us = \<lambda>k. 0, env_steady_us = \<lambda>w k. 0, env_realtime_us = \<lambda>w. 0,
     env_parse_ipv4 = \<lambda>s. None, env_activity = \<lambda>w. ([], w), env_thread = \<lambda>k w. (None, w),
     env_callback_returns = \<lambda>r. True\<rparr>"

definition sample_driver :: "ColaBMessage list \<Rightarrow> bytes driver" where
  "sample_driver ans = (new_driver sample_config 0 [])
     \<lparr>drv_chan := new_CommandChannel 200 (Some (sample_tcp (waiting ans)))\<rparr>"

definition sample_rows :: "ParamRow list" where
  "sample_rows = base_rows sample_config @ [row ''TSCRole'' (BuildSetTimeSyncRole (role_byte kOff)) kTolerateSfa]"

definition configure_answers :: "ColaBMessage list" where
  "configure_answers =
     map (\<lambda>n. answer kReadAnswer n []) [''DeviceIdent'', ''DIornr'', ''DItype'', ''LocationName''] @
     [answer kMethodAnswer ''SetAccessMode'' [1], answer kMethodAnswer ''mSCloadappdef'' [],
      answer kMethodAnswer ''SetAccessMode'' [1]] @
     concat (map row_answers sample_rows) @
     [answer kMethodAnswer ''LMCstartmeas'' [0], answer kMethodAnswer ''Run'' [1],
      answer kReadAnswer ''SCdevicestate'' [1]] @
     map (\<lambda>n. answer kReadAnswer n [])
       [''OPcurtmpdev'', ''ODoprh'', ''ODpwrc'', ''SCdevicestate'', ''LMPscancfg'', ''IOlasc'', ''SYtype'', ''SYphas'']"

lemma good_rowI:
  assumes "length n + length f < 60000" "f \<noteq> []" "n \<noteq> []" "CHR '' '' \<notin> set n"
  shows "good_row (row n f k)"
  using assms by (auto simp: good_row_def row_def ParamsOf_def Let_def)

lemma sample_rows_good: "list_all good_row sample_rows"
  unfolding sample_rows_def base_rows_def
  by (simp add: good_rowI build_defs Encode_nonempty Encode_split length_encode_data scan_data_params_def output_range_params_def
      cubic_params_def append_defs kColaBStx_def)

lemma link_identity:
  assumes "on_link (map (\<lambda>n. answer kReadAnswer n []) [''DeviceIdent'', ''DIornr'', ''DItype'', ''LocationName''] @ ans) ch" "0 < t"
  shows "on_link ans (snd (ReadIdentity sample_os t ch))"
proof -
  note ask = link_ask [OF _ _ assms(2), where p = "[]"]
  show ?thesis using assms(1)
    by (simp add: ReadIdentity_def Let_def split_beta) (intro ask; simp add: plain_def answer_def)
qed

lemma run_steps_go: "f s = (None, x) \<Longrightarrow> run_steps (f # fs) s = run_steps fs x"
  by simp

lemma methods_nonempty: "BuildLogin \<noteq> []" "BuildLoadAppDefaults \<noteq> []" "BuildStartMeasurement \<noteq> []" "BuildRun \<noteq> []"
  by (simp_all add: build_defs Encode_nonempty)

lemma link_login:
  assumes "on_link (answer kMethodAnswer ''SetAccessMode'' [1] # answer kMethodAnswer ''mSCloadappdef'' [] #
      answer kMethodAnswer ''SetAccessMode'' [1] # ans) (drv_chan d)" and os: "env_os env = sample_os"
  shows "\<exists>c. on_link ans c \<and> (\<forall>fs. run_steps (call_method env BuildLogin ''SetAccessMode'' (Some 1) #
      call_method env BuildLoadAppDefaults ''mSCloadappdef'' None #
      call_method env BuildLogin ''SetAccessMode'' (Some 1) # fs) d = run_steps fs (d\<lparr>drv_chan := c\<rparr>))"
proof -
  let ?in = "answer kMethodAnswer ''SetAccessMode'' [1]"
  have p: "plain ?in" "plain (answer kMethodAnswer ''mSCloadappdef'' [])" "status_is (Some 1) [1]" "status_is None []"
    by (simp_all add: plain_def answer_def status_is_def)
  obtain c1 where 1: "call_method env BuildLogin ''SetAccessMode'' (Some 1) d = (None, d\<lparr>drv_chan := c1\<rparr>)"
      "on_link (answer kMethodAnswer ''mSCloadappdef'' [] # ?in # ans) c1"
    using link_call [OF assms(1) p(1) methods_nonempty(1) p(3) os] by blast
  obtain c2 where 2: "call_method env BuildLoadAppDefaults ''mSCloadappdef'' None (d\<lparr>drv_chan := c1\<rparr>) = (None, d\<lparr>drv_chan := c2\<rparr>)"
      "on_link (?in # ans) c2"
    using link_call [of _ _ _ "d\<lparr>drv_chan := c1\<rparr>", OF _ p(2) methods_nonempty(2) p(4) os] 1(2) by auto
  obtain c3 where 3: "call_method env BuildLogin ''SetAccessMode'' (Some 1) (d\<lparr>drv_chan := c2\<rparr>) = (None, d\<lparr>drv_chan := c3\<rparr>)"
      "on_link ans c3"
    using link_call [of _ _ _ "d\<lparr>drv_chan := c2\<rparr>", OF _ p(1) methods_nonempty(1) p(3) os] 2(2) by auto
  show ?thesis using 3(2) by (intro exI [of _ c3]) (simp add: 1(1) 2(1) 3(1))
qed

lemma link_start:
  assumes "on_link (answer kMethodAnswer ''LMCstartmeas'' [0] # answer kMethodAnswer ''Run'' [1] #
      answer kReadAnswer ''SCdevicestate'' [1] # ans) (drv_chan d)" and os: "env_os env = sample_os"
  shows "\<exists>c. on_link ans c \<and> (\<forall>fs. run_steps (start_measurement env # call_method env BuildRun ''Run'' (Some 1) #
      WaitDeviceReady env t # fs) d = run_steps fs (d\<lparr>drv_chan := c, drv_shutdown := Arm (drv_shutdown d)\<rparr>))"
proof -
  let ?a = "d\<lparr>drv_shutdown := Arm (drv_shutdown d)\<rparr>"
  have p: "plain (answer kMethodAnswer ''LMCstartmeas'' [0])" "plain (answer kMethodAnswer ''Run'' [1])" "status_is (Some 0) [0]"
    "status_is (Some 1) [1]" "plain (answer kReadAnswer ''SCdevicestate'' [1])"
    by (simp_all add: plain_def answer_def status_is_def)
  obtain c1 where 1: "start_measurement env d = (None, ?a\<lparr>drv_chan := c1\<rparr>)"
      "on_link (answer kMethodAnswer ''Run'' [1] # answer kReadAnswer ''SCdevicestate'' [1] # ans) c1"
    using link_call [of _ _ _ ?a, OF _ p(1) methods_nonempty(3) p(3) os] assms(1) by (auto simp: start_measurement_def)
  obtain c2 where 2: "call_method env BuildRun ''Run'' (Some 1) (?a\<lparr>drv_chan := c1\<rparr>) = (None, ?a\<lparr>drv_chan := c2\<rparr>)"
      "on_link (answer kReadAnswer ''SCdevicestate'' [1] # ans) c2"
    using link_call [of _ _ _ "?a\<lparr>drv_chan := c1\<rparr>", OF _ p(2) methods_nonempty(4) p(4) os] 1(2) by auto
  have "0 < max t (MethodTimeout [] c2)" by (simp add: MethodTimeout_def kMethodTimeoutMs_def less_max_iff_disj)
  from link_read [OF 2(2) p(5) this] obtain c3 where
    3: "ReadVariable sample_os ''SCdevicestate'' (max t (MethodTimeout [] c2)) c2 = (Inr [1], c3)" "on_link ans c3" by blast
  have w: "WaitDeviceReady env t (?a\<lparr>drv_chan := c2\<rparr>) = (None, ?a\<lparr>drv_chan := c3\<rparr>)"
    unfolding WaitDeviceReady_def by (subst await_ready.simps) (simp add: read_state_def on_chan_def os 3(1))
  have e: "?a\<lparr>drv_chan := c3\<rparr> = d\<lparr>drv_chan := c3, drv_shutdown := Arm (drv_shutdown d)\<rparr>" by simp
  show ?thesis using 3(2)
    by (intro exI [of _ c3]) (simp add: 1(1) 2(1) w e)
qed

lemma configure_example: "\<exists>d'. Configure sample_env (sample_driver configure_answers) = (None, d')"
proof -
  let ?d = "(sample_driver configure_answers)\<lparr>drv_state := kConfiguring\<rparr>" and ?t = "2000 :: int"
  let ?rest = "map (\<lambda>n. answer kReadAnswer n [])
       [''OPcurtmpdev'', ''ODoprh'', ''ODpwrc'', ''SCdevicestate'', ''LMPscancfg'', ''IOlasc'', ''SYtype'', ''SYphas'']"
  let ?start = "answer kMethodAnswer ''LMCstartmeas'' [0] # answer kMethodAnswer ''Run'' [1] #
       answer kReadAnswer ''SCdevicestate'' [1] # ?rest"
  let ?rows = "concat (map row_answers sample_rows) @ ?start"
  let ?in = "answer kMethodAnswer ''SetAccessMode'' [1]"
  have os: "env_os sample_env = sample_os" by (simp add: sample_env_def)
  have cfg: "drv_config ?d = sample_config" "ntp_enabled (cfg_ntp sample_config) = False"
    "net_config_timeout_ms (cfg_network sample_config) = ?t" "configure_rows sample_env sample_config = Some sample_rows"
    by (simp_all add: sample_driver_def new_driver_def named_def sample_config_def configure_rows_def sample_rows_def)
  have "on_link (map (\<lambda>n. answer kReadAnswer n []) [''DeviceIdent'', ''DIornr'', ''DItype'', ''LocationName''] @
      ?in # answer kMethodAnswer ''mSCloadappdef'' [] # ?in # ?rows) (drv_chan ?d)"
    by (simp add: on_link_def sample_driver_def new_CommandChannel_def sample_tcp_def new_TcpClient_def configure_answers_def)
  from link_identity [OF this, of ?t] obtain d0 where 0: "read_identity sample_env ?t ?d = (None, d0)"
      "on_link (?in # answer kMethodAnswer ''mSCloadappdef'' [] # ?in # ?rows) (drv_chan d0)" "drv_config d0 = sample_config"
    using cfg(1) by (fastforce simp: read_identity_def on_chan_def os split_beta)
  from link_login [OF 0(2) os] obtain c3 where 3: "on_link ?rows c3"
    "run_steps (configure_steps sample_env ?t) ?d =
     run_steps [apply_parameters sample_env ?t, check_ntp sample_env, start_measurement sample_env,
       call_method sample_env BuildRun ''Run'' (Some 1), WaitDeviceReady sample_env ?t, read_audit sample_env ?t] (d0\<lparr>drv_chan := c3\<rparr>)"
    unfolding configure_steps_def run_steps_go [of "read_identity sample_env ?t", OF 0(1)] by blast
  from link_rows [OF 3(1) sample_rows_good, of ?t 0] obtain c4 where
    c4: "apply_rows sample_os ?t sample_rows 0 c3 = (None, c4)" "on_link ?start c4" by auto
  have 4: "apply_parameters sample_env ?t (d0\<lparr>drv_chan := c3\<rparr>) = (None, d0\<lparr>drv_chan := c4\<rparr>)"
    using c4(1) by (simp add: apply_parameters_def 0(3) cfg(4) on_chan_def os)
  have 5: "check_ntp sample_env (d0\<lparr>drv_chan := c4\<rparr>) = (None, d0\<lparr>drv_chan := c4\<rparr>)"
    by (simp add: check_ntp_def 0(3) cfg(2))
  have "on_link ?start (drv_chan (d0\<lparr>drv_chan := c4\<rparr>))" using c4(2) by simp
  from link_start [OF this os, of ?t] obtain d8 where
    "run_steps (configure_steps sample_env ?t) ?d = run_steps [read_audit sample_env ?t] d8"
    unfolding 3(2) run_steps_go [of "apply_parameters sample_env ?t", OF 4] run_steps_go [of "check_ntp sample_env", OF 5] by blast
  moreover have "fst (run_steps [read_audit sample_env ?t] d8) = None"
    by (simp add: read_audit_def split_beta)
  moreover have "is_connected (sample_driver configure_answers)" "drv_config (sample_driver configure_answers) = sample_config"
    using cfg(1) by (simp_all add: sample_driver_def is_connected_def new_CommandChannel_def sample_tcp_def)
  ultimately show ?thesis
    by (cases "run_steps [read_audit sample_env ?t] d8") (auto simp: Configure_def cfg(3))
qed

section \<open>Properties of the configuration\<close>

text \<open>
  A parameter counts as applied only on the device's word: the driver then sent exactly the row's frame and
  received exactly one acknowledgement of that write, and after it either read back exactly the bytes it wrote, or
  the row tolerates a device without a readback; a strict row was always read back.
\<close>

lemma ApplyParameter_applied:
  assumes "ApplyParameter os r t changed ch = ((None, changed'), ch')"
  shows "row_applied r ch ch'"
  using assms by (rule ApplyParameter_row)

text \<open>
  C16: a configuration succeeds only with a device that confirmed all of it, in this order: the login, the return to
  the factory defaults, a second login, every parameter of the table for this configuration, the start of the
  measurement, the switch to run and the state ready. The stop of the measurement is then armed and still due.
\<close>

theorem Configure_success:
  assumes "Configure env d = (None, d')"
  shows "Pending (drv_shutdown d') \<and> drv_state d' = kConnected \<and>
    (\<exists>rows c0 c1 c2 c3 c4 c5 c6 c7 c8. configure_rows env (drv_config d) = Some rows \<and> grows (drv_chan d) c0 \<and>
       acknowledged BuildLogin kMethodAnswer ''SetAccessMode'' (status_is (Some 1)) c0 c1 \<and>
       acknowledged BuildLoadAppDefaults kMethodAnswer ''mSCloadappdef'' (status_is None) c1 c2 \<and>
       acknowledged BuildLogin kMethodAnswer ''SetAccessMode'' (status_is (Some 1)) c2 c3 \<and>
       rows_applied rows c3 c4 \<and> grows c4 c5 \<and>
       acknowledged BuildStartMeasurement kMethodAnswer ''LMCstartmeas'' (status_is (Some 0)) c5 c6 \<and>
       acknowledged BuildRun kMethodAnswer ''Run'' (status_is (Some 1)) c6 c7 \<and>
       device_ready c7 c8 \<and> grows c8 (drv_chan d'))"
  using assms by (rule Configure_ok)

theorem Configure_success_witness:
  "\<exists>d'. Pending (drv_shutdown d') \<and> Configure sample_env (sample_driver configure_answers) = (None, d')"
  using configure_example Configure_success by blast


end
