(* ===== verification/Driver.thy ===== *)
theory Driver
  imports Driver_Configuration
begin

text \<open>
  The driver as a whole: the public operations of \<^verbatim>\<open>Lms4xxxDriver\<close> with the workers moving between them as one
  machine. The properties here span the components: what reaches the recorder is what came off the socket, an
  answer collected while streaming came from the device, joining ends, and a disconnect leaves nothing running.
\<close>

section \<open>Events of the frame receiver\<close>

text \<open>A receiver only appends to its events.\<close>

definition extends :: "FrameReceiver \<Rightarrow> FrameReceiver \<Rightarrow> bool" where
  "extends a b \<longleftrightarrow> (\<exists>es. events b = events a @ es)"

lemma extends_refl [simp]: "extends a a"
  by (simp add: extends_def)

lemma extends_trans: "\<lbrakk> extends a b; extends b c \<rbrakk> \<Longrightarrow> extends a c"
  by (auto simp: extends_def)

lemma extends_reports: "extends a (ReportFramingError e a)" "extends a (ReportGarbage x y a)"
  by (simp_all add: extends_def ReportGarbage_def Let_def)

lemma extends_extract: "extends a (snd (TryExtractFrame clk a pos))"
  by (simp add: extends_def TryExtractFrame_def Let_def)

lemma extends_feed_loop: "extends a (snd (feed_loop clk a p))"
proof (induction clk a p rule: feed_loop.induct)
  case (1 clk fr p)
  show ?case
  proof (cases "p < write_pos fr")
    case False
    then show ?thesis by (subst feed_loop.simps) simp
  next
    case True
    let ?s = "FindStx fr p"
    let ?g = "if ?s > p then ReportGarbage p ?s fr else fr"
    obtain n h where t: "TryExtractFrame clk ?g ?s = (n, h)" by fastforce
    have e: "extends fr h" using extends_trans [of fr ?g h] extends_extract [of ?g clk ?s] extends_reports(2) t by auto
    show ?thesis
    proof (cases "?s = write_pos fr \<or> n = 0")
      case True
      then show ?thesis using \<open>p < write_pos fr\<close> t e extends_reports(2)
        by (subst feed_loop.simps) (auto simp: Let_def)
    next
      case False
      then have "extends h (snd (feed_loop clk h (?s + n)))" using 1 [OF True refl _ refl refl t [symmetric] refl] by simp
      then show ?thesis using False True t extends_trans [OF e] by (subst feed_loop.simps) (simp add: Let_def)
    qed
  qed
qed

lemma extends_Feed: "extends fr (Feed clk fr bs)"
proof -
  have "extends fr (snd (feed_loop clk (fr\<lparr>buffer := b, write_pos := w\<rparr>) 0))" for b w
    using extends_feed_loop [of "fr\<lparr>buffer := b, write_pos := w\<rparr>" clk 0] by (simp add: extends_def)
  moreover have "events (Compact q h) = events h" for q h by (simp add: Compact_def Let_def)
  ultimately show ?thesis by (auto simp: Feed_def Let_def split_beta extends_def)
qed

lemma extends_Finish: "extends fr (snd (Finish fr))"
  by (simp add: extends_def Finish_def Let_def)

lemma extends_events: "extends a b \<Longrightarrow> events b = events a @ drop (length (events a)) (events b)"
  by (auto simp: extends_def)

section \<open>From the socket to the recorder\<close>

fun frames :: "fr_event list \<Rightarrow> RawFrame list" where
  "frames [] = []"
| "frames (Frame_Receiver.OnFrame f # es) = f # frames es"
| "frames (OnError e n # es) = frames es"

lemma frames_of_frames: "frames_of es = map (\<lambda>f. (frame_data f, checksum_valid f)) (frames es)"
  by (induction es rule: frames.induct) simp_all

lemma frames_append [simp]: "frames (xs @ ys) = frames xs @ frames ys"
  by (induction xs rule: frames.induct) simp_all

lemma deliver_records: "map rr_frame (mon_records (deliver ck (Some f) es k m)) = map rr_frame (mon_records m) @ frames es"
proof (induction es arbitrary: k m)
  case (Cons e es)
  have h: "map rr_frame (mon_records (HandleFrame (Some f) (ck k) fr m)) = map rr_frame (mon_records m) @ [fr]" for fr
    using HandleFrame_Some [of f "ck k" fr m] by (auto simp: Let_def ReportError_def)
  show ?case
    by (cases e) (simp_all add: Cons h on_frame_error_def Let_def ReportError_def)
qed simp

text \<open>
  While streaming: everything the receive thread took off the socket since the start is scanned, but for the
  piece it has in hand, and the telegrams found so far are what the recorder was handed.
\<close>

definition in_hand_bytes :: "'w driver \<Rightarrow> bytes" where
  "in_hand_bytes d = (case drv_rx d of RxGot bs ec \<Rightarrow> bs | _ \<Rightarrow> [])"

definition verdicts :: "RawRecord list \<Rightarrow> (bytes \<times> bool) list" where
  "verdicts rs = map (\<lambda>r. (frame_data (rr_frame r), checksum_valid (rr_frame r))) rs"

definition streaming :: "nat \<Rightarrow> bytes \<Rightarrow> (bytes \<times> bool) list \<Rightarrow> 'w driver \<Rightarrow> bool" where
  "streaming m start base d \<longleftrightarrow> (\<exists>c fr bs. ch_tcp (drv_chan d) = Some c \<and> drv_receiver d = Some fr \<and>
     drv_telegram_callback d \<and> fr_wf fr \<and> max_frame_size fr = m \<and> tcp_in c = start @ bs @ in_hand_bytes d \<and>
     Frame_Receiver.scan m bs = (frames_of (events fr), buffered fr) \<and>
     verdicts (mon_records (drv_monitor d)) = base @ frames_of (events fr))"

lemma streamingI:
  assumes "ch_tcp (drv_chan d) = Some c" "drv_receiver d = Some fr" "drv_telegram_callback d" "fr_wf fr" "max_frame_size fr = m"
    "tcp_in c = start @ bs @ in_hand_bytes d" "Frame_Receiver.scan m bs = (frames_of (events fr), buffered fr)"
    "verdicts (mon_records (drv_monitor d)) = base @ frames_of (events fr)"
  shows "streaming m start base d"
  using assms unfolding streaming_def by blast

lemma verdicts_append [simp]: "verdicts (xs @ ys) = verdicts xs @ verdicts ys"
  by (simp add: verdicts_def)

lemma verdicts_deliver:
  "verdicts (mon_records (deliver ck (Some f) es k m)) = verdicts (mon_records m) @ frames_of es"
  using arg_cong [OF deliver_records [of ck f es k m], of "map (\<lambda>f. (frame_data f, checksum_valid f))"]
  by (simp add: verdicts_def frames_of_frames comp_def)

lemma verdicts_error [simp]: "mon_records (ReportError e r m) = mon_records m"
  by (simp add: ReportError_def)

lemma streaming_feed:
  assumes "streaming m start base d" "drv_rx d = RxGot chunk ec" "chunk \<noteq> []"
  shows "\<exists>c fr bs. ch_tcp (drv_chan d) = Some c \<and> drv_receiver (feed_receiver env chunk (on_monitor (on_stats g) d)) = Some fr \<and>
     fr_wf fr \<and> max_frame_size fr = m \<and> tcp_in c = start @ bs \<and> Frame_Receiver.scan m bs = (frames_of (events fr), buffered fr) \<and>
     verdicts (mon_records (drv_monitor (feed_receiver env chunk (on_monitor (on_stats g) d)))) = base @ frames_of (events fr)"
proof -
  from assms obtain c fr bs where d: "ch_tcp (drv_chan d) = Some c" "drv_receiver d = Some fr" "drv_telegram_callback d"
      "fr_wf fr" "max_frame_size fr = m" "tcp_in c = start @ bs @ chunk" "Frame_Receiver.scan m bs = (frames_of (events fr), buffered fr)"
      "verdicts (mon_records (drv_monitor d)) = base @ frames_of (events fr)"
    by (auto simp: streaming_def in_hand_bytes_def)
  let ?fr = "Feed (env_stamp_us env) fr chunk"
  have r: "fr_wf ?fr" "max_frame_size ?fr = m" "frames_of (events ?fr) = frames_of (events fr) @ fst (Frame_Receiver.scan m (buffered fr @ chunk))"
      "buffered ?fr = snd (Frame_Receiver.scan m (buffered fr @ chunk))"
    using Feed_refines [OF d(4), of chunk "env_stamp_us env"] d(5) assms(3) by auto
  have s: "Frame_Receiver.scan m (bs @ chunk) = (frames_of (events ?fr), buffered ?fr)"
    using r(3,4) d(7) by (simp add: scan_append [of m bs chunk])
  have e: "frames_of (events ?fr) = frames_of (events fr) @ frames_of (drop (length (events fr)) (events ?fr))"
    using arg_cong [OF extends_events [OF extends_Feed [of fr "env_stamp_us env" chunk]], of frames_of] by simp
  have v: "verdicts (mon_records (drv_monitor (feed_receiver env chunk (on_monitor (on_stats g) d)))) = base @ frames_of (events ?fr)"
    using d(2,3,8) by (simp add: feed_receiver_def receiver_moved_def telegram_callback_def verdicts_deliver e)
  show ?thesis
    using d(1,2,6) r(1,2) s v by (intro exI [of _ c] exI [of _ ?fr] exI [of _ "bs @ chunk"]) (simp add: feed_receiver_def receiver_moved_def)
qed

lemma feed_receiver_simps [simp]:
  "drv_telegram_callback (feed_receiver env bs d) = drv_telegram_callback d"
  by (simp add: feed_receiver_def receiver_moved_def split: option.split)

text \<open>What Boost.Asio documents of \<^verbatim>\<open>read_some\<close>: with an error it returns no bytes.\<close>

definition no_bytes_on_error :: "'w os \<Rightarrow> bool" where
  "no_bytes_on_error os \<longleftrightarrow> (\<forall>n w. fst (snd (os_read os n w)) \<noteq> NoError \<longrightarrow> fst (os_read os n w) = [])"

lemma ReadSome_got:
  assumes "no_bytes_on_error os" "ReadSome os n c = (got, ec, c')"
  shows "tcp_in c' = tcp_in c @ got"
proof -
  have w: "tcp_in d = tcp_in c" if "Wait os rd t c = (r, d)" for rd t r d
    using Wait_frame [OF that] by (auto simp: only_time_def)
  have s: "tcp_in d' = tcp_in d @ bs \<and> (e \<noteq> NoError \<longrightarrow> bs = [])" if "read_some os n d = (bs, e, d')" for d bs e d'
    using that assms(1) [unfolded no_bytes_on_error_def, rule_format, of n "tcp_world d"]
    by (auto simp: read_some_def Let_def split: prod.splits)
  show ?thesis
    using assms(2) by (auto simp: ReadSome_def read_error_def lost_def dest!: w s split: prod.splits option.splits if_splits)
qed

lemma streaming_rx:
  assumes law: "no_bytes_on_error (env_os env)" and s: "streaming m start base d"
  shows "streaming m start base (rx_step env d)"
proof -
  show ?thesis
  proof (cases "drv_rx d")
    case RxRead
    from s obtain c fr bs where d: "ch_tcp (drv_chan d) = Some c" "drv_receiver d = Some fr" "drv_telegram_callback d"
        "fr_wf fr" "max_frame_size fr = m" "tcp_in c = start @ bs" "Frame_Receiver.scan m bs = (frames_of (events fr), buffered fr)"
        "verdicts (mon_records (drv_monitor d)) = base @ frames_of (events fr)"
      using RxRead by (auto simp: streaming_def in_hand_bytes_def)
    obtain got ec c2 where r: "ReadSome (env_os env) kReadBufferSize c = (got, ec, c2)" by (metis prod.exhaust)
    have "tcp_in c2 = tcp_in c @ got" by (rule ReadSome_got [OF law r])
    then show ?thesis using d RxRead r
      by (intro streamingI [of _ c2 fr m start bs]) (simp_all add: rx_step.simps in_hand_bytes_def)
  next
    case (RxGot chunk ec)
    let ?g = "\<lambda>s. s\<lparr>bytes_received := bytes_received s + word_of_nat (length chunk)\<rparr>"
    let ?d = "if chunk \<noteq> [] then feed_receiver env chunk (on_monitor (on_stats ?g) d) else d"
    have "\<exists>c fr bs. ch_tcp (drv_chan ?d) = Some c \<and> drv_receiver ?d = Some fr \<and> drv_telegram_callback ?d \<and>
       fr_wf fr \<and> max_frame_size fr = m \<and> tcp_in c = start @ bs \<and>
       Frame_Receiver.scan m bs = (frames_of (events fr), buffered fr) \<and>
       verdicts (mon_records (drv_monitor ?d)) = base @ frames_of (events fr)"
    proof (cases "chunk = []")
      case True
      then show ?thesis using s RxGot by (auto simp: streaming_def in_hand_bytes_def)
    next
      case False
      then show ?thesis using streaming_feed [OF s RxGot False, of env ?g] s by (auto simp: streaming_def)
    qed
    then obtain c fr bs where d: "ch_tcp (drv_chan ?d) = Some c" "drv_receiver ?d = Some fr" "drv_telegram_callback ?d"
       "fr_wf fr" "max_frame_size fr = m" "tcp_in c = start @ bs"
       "Frame_Receiver.scan m bs = (frames_of (events fr), buffered fr)"
       "verdicts (mon_records (drv_monitor ?d)) = base @ frames_of (events fr)" by blast
    show ?thesis
      using d unfolding streaming_def rx_step.simps RxGot rx_loc.case Let_def
      by (intro exI [of _ c] exI [of _ fr] exI [of _ bs]) (auto simp: in_hand_bytes_def split: option.split)
  qed (use s in \<open>auto simp: streaming_def in_hand_bytes_def rx_step.simps\<close>)
qed

lemma streaming_world:
  assumes "streaming m start base d" "\<And>c. ch_tcp (drv_chan d) = Some c \<Longrightarrow> \<exists>c'. ch_tcp (drv_chan d') = Some c' \<and> tcp_in c' = tcp_in c"
    and "drv_receiver d' = drv_receiver d" "drv_telegram_callback d' = drv_telegram_callback d" "drv_rx d' = drv_rx d"
    "mon_records (drv_monitor d') = mon_records (drv_monitor d)"
  shows "streaming m start base d'"
  using assms unfolding streaming_def in_hand_bytes_def by fastforce

lemma streaming_outside: "streaming m start base d \<Longrightarrow> streaming m start base (set_outside nw d)"
  by (erule streaming_world) (simp_all, simp add: set_outside_def put_def)

lemma streaming_write: "streaming m start base d \<Longrightarrow> streaming m start base (snd (write_owner env bs d))"
  by (erule streaming_world) (auto simp: write_owner_def put_def writes_def dest!: Write_frame split: option.split prod.split)

lemma streaming_ntp: "streaming m start base d \<Longrightarrow> streaming m start base (ntp_step env d)"
proof -
  assume s: "streaming m start base d"
  have p: "streaming m start base (snd (ProbeNtpServer env d))"
    using streaming_outside [OF s] by (simp add: ProbeNtpServer_def split: prod.split)
  have f: "streaming m start base (d'\<lparr>drv_ntp := l\<rparr>) = streaming m start base d'"
    "streaming m start base (d'\<lparr>drv_ntp_failures := k\<rparr>) = streaming m start base d'" for d' l k
    by (simp_all add: streaming_def in_hand_bytes_def)
  have g: "streaming m start base (d'\<lparr>drv_monitor := x\<rparr>)"
    if "streaming m start base d'" "mon_records x = mon_records (drv_monitor d')" for d' x
    using that by (simp add: streaming_def in_hand_bytes_def)
  show ?thesis
    using s p by (cases "drv_ntp d") (auto simp: ntp_step.simps probe_done_def Let_def f split_beta intro!: g)
qed

lemma streaming_work:
  "\<lbrakk> no_bytes_on_error (env_os env); streaming m start base d \<rbrakk> \<Longrightarrow> streaming m start base (work env d k)"
  by (cases k) (simp_all add: streaming_rx streaming_ntp)

text \<open>What happens on a running stream: a worker moves, or the owner sends something.\<close>

datatype stream_act = Move worker | Send bytes

fun stream_step :: "'w env \<Rightarrow> 'w driver \<Rightarrow> stream_act \<Rightarrow> 'w driver" where
  "stream_step env d (Move k) = work env d k"
| "stream_step env d (Send bs) = snd (write_owner env bs d)"

interpretation stream: machine "stream_step env"
  "\<lambda>d. no_bytes_on_error (env_os env) \<and> streaming m start base d" for env m start base
proof
  fix d :: "'a driver" and a
  assume "no_bytes_on_error (env_os env) \<and> streaming m start base d"
  then show "no_bytes_on_error (env_os env) \<and> streaming m start base (stream_step env d a)"
    by (cases a) (simp_all add: streaming_work streaming_write)
qed

text \<open>
  C8: the recorder gets the stream: from the moment the stream starts with a fresh frame receiver, under every
  interleaving of the receive thread, the watch thread and the owner's commands, the telegrams handed to the
  recorder, in order and with their checksum verdicts, are exactly those in the bytes taken off the socket, but
  for the piece the receive thread holds at this moment.
\<close>

theorem recorder_gets_the_stream:
  assumes "no_bytes_on_error (env_os env)" "ch_tcp (drv_chan d) = Some c" "drv_receiver d = Some (new_FrameReceiver m)"
    and "drv_rx d = RxCheck" "drv_telegram_callback d"
  shows "\<exists>c' bs. let d' = foldl (stream_step env) d acts in
     ch_tcp (drv_chan d') = Some c' \<and> tcp_in c' = tcp_in c @ bs @ in_hand_bytes d' \<and>
     verdicts (mon_records (drv_monitor d')) =
       verdicts (mon_records (drv_monitor d)) @ fst (Frame_Receiver.scan m bs)"
proof -
  have "streaming m (tcp_in c) (verdicts (mon_records (drv_monitor d))) d"
    by (rule streamingI [where bs = "[]", OF assms(2,3,5)]) (simp_all add: assms(4) in_hand_bytes_def)
  with assms(1) have "streaming m (tcp_in c) (verdicts (mon_records (drv_monitor d))) (foldl (stream_step env) d acts)"
    using stream.run_inv by blast
  then show ?thesis by (auto simp: streaming_def Let_def)
qed

definition sample_stream :: "bytes driver" where
  "sample_stream = (sample_driver [])
     \<lparr>drv_chan := new_CommandChannel 200 (Some (sample_tcp (Encode kMethodAnswer ''LMCstopmeas'' [0]))),
      drv_receiver := Some (new_FrameReceiver 64), drv_rx := RxCheck, drv_telegram_callback := True,
      drv_receive_running := True\<rparr>"

lemma sample_stream_simps [simp]:
  "ch_tcp (drv_chan sample_stream) = Some (sample_tcp (Encode kMethodAnswer ''LMCstopmeas'' [0]))"
  "drv_receiver sample_stream = Some (new_FrameReceiver 64)" "drv_rx sample_stream = RxCheck"
  "drv_telegram_callback sample_stream" "mon_records (drv_monitor sample_stream) = []"
  by (simp_all add: sample_stream_def new_CommandChannel_def sample_driver_def new_driver_def new_monitor_def)

lemma sample_law: "no_bytes_on_error (env_os sample_env)"
  by (simp add: no_bytes_on_error_def sample_env_def sample_os_def)

theorem recorder_gets_the_stream_witness:
  "\<exists>c' bs. let d' = foldl (stream_step sample_env) sample_stream [Move Receiver, Send BuildStopStream, Move Receiver, Move NtpWatch] in
     ch_tcp (drv_chan d') = Some c' \<and> tcp_in c' = bs @ in_hand_bytes d' \<and>
     verdicts (mon_records (drv_monitor d')) = fst (Frame_Receiver.scan 64 bs)"
proof -
  have i: "tcp_in (sample_tcp w) = []" for w by (simp add: sample_tcp_def new_TcpClient_def)
  from recorder_gets_the_stream [OF sample_law sample_stream_simps(1-4), of "[Move Receiver, Send BuildStopStream, Move Receiver, Move NtpWatch]"]
  show ?thesis by (simp only: i append_Nil sample_stream_simps(5)) (simp add: verdicts_def)
qed

section \<open>Answers collected while streaming\<close>

definition last_method :: "monitor \<Rightarrow> string \<times> int" where
  "last_method m = (mon_last_method_name m, mon_last_method_status m)"

lemma last_method_fields [simp]:
  "last_method (m\<lparr>mon_stats := a\<rparr>) = last_method m" "last_method (m\<lparr>mon_fault := b\<rparr>) = last_method m"
  "last_method (m\<lparr>mon_time_fault := b\<rparr>) = last_method m" "last_method (m\<lparr>mon_time_gate := g\<rparr>) = last_method m"
  "last_method (m\<lparr>mon_first_scan := b\<rparr>) = last_method m" "last_method (m\<lparr>mon_records := rs\<rparr>) = last_method m"
  "last_method (m\<lparr>mon_previous_scan_counter_valid := b\<rparr>) = last_method m"
  "last_method (m\<lparr>mon_telemetry_latest := y\<rparr>) = last_method m" "last_method (m\<lparr>mon_telemetry_dirty := b\<rparr>) = last_method m"
  "last_method (m\<lparr>mon_device_warnings_us := u\<rparr>) = last_method m" "last_method (m\<lparr>mon_device_no_ntp := b\<rparr>) = last_method m"
  "last_method (m\<lparr>mon_stop_stream_requested := b\<rparr>) = last_method m" "last_method (ReportError e r m) = last_method m"
  by (simp_all add: last_method_def ReportError_def)

lemma last_method_assess [simp]: "last_method (snd (AssessScanTime ck sc m)) = last_method m"
  by (simp add: AssessScanTime_def Let_def split_beta raise_time_fault_def)

lemma last_method_finish [simp]: "last_method (snd (finish_scan ck sc r m)) = last_method m"
  unfolding finish_scan_eq Let_def by (simp add: split_beta count_scan_def VerifyFirstScan_def Let_def)

lemma last_method_read: "read_answer ck msg m = Some m' \<Longrightarrow> last_method m' = last_method m"
  by (auto simp: read_answer_def Let_def split: if_splits prod.splits)

text \<open>The telegram's own method answer, when it is one.\<close>

definition answer_of :: "RawFrame \<Rightarrow> (string \<times> int) option" where
  "answer_of f =
     (if \<not> checksum_valid f \<or> length (frame_data f) < 9 then None
      else case classify (take (length (frame_data f) - 9) (drop 8 (frame_data f))) of
        OtherMessage msg \<Rightarrow>
          (if command_type msg = kMethodAnswer
           then Some (command_name msg, if payload msg = [] then -1 else uint (payload msg ! 0)) else None)
      | _ \<Rightarrow> None)"

lemma last_method_HandleFrame:
  "last_method (HandleFrame cb ck f m) = last_method m \<or> fst (last_method (HandleFrame cb ck f m)) = ''sFA'' \<or>
   answer_of f = Some (last_method (HandleFrame cb ck f m))"
proof -
  let ?m = "m\<lparr>mon_stats := (mon_stats m)\<lparr>frames_received := frames_received (mon_stats m) + 1\<rparr>\<rparr>"
  obtain r m1 where e: "MonitorFrame ck (new_RawRecord f) ?m = (r, m1)" by fastforce
  have n: "last_method (HandleNonScanFrame ck msg m') = last_method m' \<or> fst (last_method (HandleNonScanFrame ck msg m')) = ''sFA'' \<or>
      command_type msg = kMethodAnswer \<and> last_method (HandleNonScanFrame ck msg m') =
        (command_name msg, if payload msg = [] then -1 else uint (payload msg ! 0))" for msg m'
    by (auto simp: HandleNonScanFrame_def unexpected_reply_def Let_def last_method_def [of "_\<lparr>mon_last_method_name := _, mon_last_method_status := _\<rparr>"]
        dest: last_method_read split: option.splits)
  have "last_method m1 = last_method m \<or> fst (last_method m1) = ''sFA'' \<or> answer_of f = Some (last_method m1)"
  proof (cases "checksum_valid f \<and> \<not> length (frame_data f) < 9")
    case False
    then have "\<not> checksum_valid f \<or> checksum_valid f \<and> length (frame_data f) < 9" by blast
    then show ?thesis using e
      by (elim disjE conjE) (simp_all add: MonitorFrame_def new_RawRecord_def parse_error_def, auto)
  next
    case True
    let ?data = "take (length (frame_data f) - 9) (drop 8 (frame_data f))"
    show ?thesis
    proof (cases "classify ?data")
      case Undecodable
      then show ?thesis using e True by (auto simp: MonitorFrame_def Let_def new_RawRecord_def parse_error_def)
    next
      case (ScanPayload p)
      have "last_method m1 = last_method m"
        using arg_cong [OF e, of snd] ScanPayload True
        by (auto simp: MonitorFrame_def Let_def new_RawRecord_def parse_error_def split: sum.splits if_splits)
      then show ?thesis by simp
    next
      case (OtherMessage msg)
      have "m1 = HandleNonScanFrame ck msg (on_stats (\<lambda>s. s\<lparr>non_scan_frames := non_scan_frames s + 1\<rparr>) ?m)"
        using e OtherMessage True by (simp add: MonitorFrame_def Let_def new_RawRecord_def)
      then show ?thesis
        using n [of msg "on_stats (\<lambda>s. s\<lparr>non_scan_frames := non_scan_frames s + 1\<rparr>) ?m"] OtherMessage True
        by (auto simp: answer_of_def)
    qed
  qed
  moreover have "last_method (HandleFrame cb ck f m) = last_method m1"
    by (simp add: HandleFrame_def e Let_def split: option.split)
  ultimately show ?thesis by simp
qed

lemma last_method_deliver:
  "last_method (deliver ck cb es k m) = last_method m \<or> fst (last_method (deliver ck cb es k m)) = ''sFA'' \<or>
   (\<exists>f \<in> set (frames es). answer_of f = Some (last_method (deliver ck cb es k m)))"
proof (induction es arbitrary: k m)
  case (Cons e es)
  show ?case
  proof (cases e)
    case (OnFrame f)
    then show ?thesis
      using Cons [of "k + 1" "HandleFrame cb (ck k) f m"] last_method_HandleFrame [of cb "ck k" f m] by auto
  next
    case (OnError x n)
    have "last_method (on_frame_error x n m) = last_method m" by (simp add: on_frame_error_def Let_def)
    then show ?thesis using OnError Cons [of "k + 1" "on_frame_error x n m"] by simp
  qed
qed simp

text \<open>Since the frame receiver had the events \<open>base\<close>: an answer on record stands in a later telegram.\<close>

definition sourced :: "fr_event list \<Rightarrow> 'w driver \<Rightarrow> bool" where
  "sourced base d \<longleftrightarrow> (\<exists>fr es. drv_receiver d = Some fr \<and> events fr = base @ es \<and>
     (fst (last_method (drv_monitor d)) \<in> {[], ''sFA''} \<or>
      (\<exists>f \<in> set (frames es). answer_of f = Some (last_method (drv_monitor d)))))"

lemma sourced_cong:
  "\<lbrakk> sourced base d; drv_receiver d' = drv_receiver d; last_method (drv_monitor d') = last_method (drv_monitor d) \<rbrakk>
   \<Longrightarrow> sourced base d'"
  by (simp add: sourced_def)

lemma sourced_feed: "sourced base d \<Longrightarrow> sourced base (feed_receiver env bs d)"
proof -
  assume s: "sourced base d"
  then obtain fr es where fr: "drv_receiver d = Some fr" "events fr = base @ es"
    "fst (last_method (drv_monitor d)) \<in> {[], ''sFA''} \<or>
      (\<exists>f \<in> set (frames es). answer_of f = Some (last_method (drv_monitor d)))" by (auto simp: sourced_def)
  let ?fr = "Feed (env_stamp_us env) fr bs"
  let ?new = "drop (length (events fr)) (events ?fr)" and ?d = "feed_receiver env bs d"
  have e: "drv_receiver ?d = Some ?fr" "events ?fr = base @ es @ ?new"
    using fr(1,2) extends_events [OF extends_Feed [of fr "env_stamp_us env" bs]]
    by (simp_all add: feed_receiver_def receiver_moved_def)
  have "last_method (drv_monitor ?d) = last_method (drv_monitor d) \<or> fst (last_method (drv_monitor ?d)) = ''sFA'' \<or>
      (\<exists>f \<in> set (frames ?new). answer_of f = Some (last_method (drv_monitor ?d)))"
    using last_method_deliver fr(1) by (simp add: feed_receiver_def receiver_moved_def)
  with fr(3) e show ?thesis
    unfolding sourced_def by (intro exI [of _ ?fr] exI [of _ "es @ ?new"]) auto
qed

lemma sourced_rx: "sourced base d \<Longrightarrow> sourced base (rx_step env d)"
proof (cases "drv_rx d")
  case (RxGot bs ec)
  assume s: "sourced base d"
  have f: "sourced base (feed_receiver env bs (on_monitor (on_stats g) d))" for g
    by (rule sourced_feed) (rule sourced_cong [OF s], simp_all)
  show ?thesis
    using s RxGot by (cases ec) (auto simp: rx_step.simps Let_def intro: sourced_cong [OF f] sourced_cong [OF s])
qed (auto simp: rx_step.simps sourced_def split: option.split prod.split)

lemma sourced_ntp: "sourced base d \<Longrightarrow> sourced base (ntp_step env d)"
proof -
  assume s: "sourced base d"
  have "drv_receiver (ntp_step env d) = drv_receiver d \<and> last_method (drv_monitor (ntp_step env d)) = last_method (drv_monitor d)"
    by (auto simp: ntp_step.simps probe_done_def ProbeNtpServer_def Let_def split_beta split: ntp_loc.split)
  then show ?thesis using s by (auto intro: sourced_cong)
qed

lemma sourced_meanwhile: "sourced base d \<Longrightarrow> sourced base (meanwhile env d)"
proof -
  have step: "sourced base d \<Longrightarrow> sourced base (work env d k)" for d k
    by (cases k) (simp_all add: sourced_rx sourced_ntp)
  have run: "sourced base d' \<Longrightarrow> sourced base (foldl (work env) d' ws)" for d' ws
    by (induction ws arbitrary: d') (simp_all add: step)
  show "sourced base d \<Longrightarrow> sourced base (meanwhile env d)"
    by (auto simp: meanwhile_def intro!: run elim: sourced_cong split: prod.split)
qed

lemma sourced_sleep: "sourced base d \<Longrightarrow> sourced base (sleep_for env ns d)"
  unfolding sleep_for_def Let_def by (rule sourced_cong [OF sourced_meanwhile]) simp_all

lemma await_method_True:
  "\<lbrakk> sourced base d; await_method env name e deadline d = (True, d') \<rbrakk> \<Longrightarrow>
   sourced base d' \<and> last_method (drv_monitor d') = (name, e)"
proof (induction env name e deadline d rule: await_method.induct)
  case (1 env name e deadline d)
  note step = "1.prems"(2) [unfolded await_method.simps [of env name e deadline d] Let_def]
  have go: "\<not> now d \<ge> deadline" using step by (auto split: if_splits)
  have s: "sourced base (sleep_for env (ms 10) d)" by (rule sourced_sleep [OF "1.prems"(1)])
  show ?case
    using step go s 1(1) [OF go refl refl] by (auto simp: last_method_def split: if_splits)
qed

definition beyond :: "fr_event list \<Rightarrow> 'w driver \<Rightarrow> bool" where
  "beyond base d \<longleftrightarrow> (\<exists>fr es. drv_receiver d = Some fr \<and> events fr = base @ es)"

lemma beyond_fields [simp]:
  "beyond base (d\<lparr>drv_monitor := a\<rparr>) = beyond base d" "beyond base (d\<lparr>drv_state := b\<rparr>) = beyond base d"
  "beyond base (d\<lparr>drv_receive_running := r\<rparr>) = beyond base d" "beyond base (d\<lparr>drv_rx := l\<rparr>) = beyond base d"
  by (simp_all add: beyond_def)

lemma beyond_cong: "\<lbrakk> beyond base d; drv_receiver d' = drv_receiver d \<rbrakk> \<Longrightarrow> beyond base d'"
  by (simp add: beyond_def)

lemma beyond_feed: "beyond base d \<Longrightarrow> beyond base (feed_receiver env bs d)"
proof -
  assume "beyond base d"
  then obtain fr es where "drv_receiver d = Some fr" "events fr = base @ es" by (auto simp: beyond_def)
  with extends_Feed [of fr "env_stamp_us env" bs] show ?thesis
    by (auto simp: beyond_def feed_receiver_def receiver_moved_def extends_def)
qed

lemma beyond_rx: "beyond base d \<Longrightarrow> beyond base (rx_step env d)"
proof (cases "drv_rx d")
  case (RxGot bs ec)
  assume s: "beyond base d"
  have "beyond base (feed_receiver env bs (on_monitor (on_stats g) d))" for g
    by (rule beyond_feed) (simp add: s)
  then show ?thesis
    using s RxGot by (cases ec) (auto simp: rx_step.simps Let_def)
qed (auto simp: rx_step.simps beyond_def split: option.split prod.split)

lemma beyond_ntp: "beyond base d \<Longrightarrow> beyond base (ntp_step env d)"
  by (erule beyond_cong)
     (auto simp: ntp_step.simps probe_done_def ProbeNtpServer_def Let_def split_beta split: ntp_loc.split)

lemma beyond_meanwhile: "beyond base d \<Longrightarrow> beyond base (meanwhile env d)"
proof -
  have step: "beyond base d \<Longrightarrow> beyond base (work env d k)" for d k
    by (cases k) (simp_all add: beyond_rx beyond_ntp)
  have run: "beyond base d' \<Longrightarrow> beyond base (foldl (work env) d' ws)" for d' ws
    by (induction ws arbitrary: d') (simp_all add: step)
  show "beyond base d \<Longrightarrow> beyond base (meanwhile env d)"
    by (auto simp: meanwhile_def intro!: run elim: beyond_cong split: prod.split)
qed

lemma CallMethodStreaming_source:
  assumes "CallMethodStreaming env frame name e t d = (True, d')" "drv_receiver d = Some fr" "name \<notin> {[], ''sFA''}"
  shows "\<exists>fr' es f. drv_receiver d' = Some fr' \<and> events fr' = events fr @ es \<and> f \<in> set (frames es) \<and> answer_of f = Some (name, e)"
proof -
  let ?d1 = "meanwhile env d"
  let ?c = "on_monitor (\<lambda>m. m\<lparr>mon_last_method_name := [], mon_last_method_status := -1\<rparr>)"
  obtain r d3 where w: "write_owner env frame (meanwhile env (?c ?d1)) = (r, d3)" by fastforce
  have "beyond (events fr) ?d1" using assms(2) by (intro beyond_meanwhile) (simp add: beyond_def)
  then have "\<exists>fr1 es. drv_receiver ?d1 = Some fr1 \<and> events fr1 = events fr @ es" by (simp add: beyond_def)
  then have "sourced (events fr) (?c ?d1)" by (auto simp: sourced_def last_method_def)
  then have "sourced (events fr) (meanwhile env (?c ?d1))" by (rule sourced_meanwhile)
  then have "sourced (events fr) d3"
    using w by (auto simp: write_owner_def elim: sourced_cong split: option.splits prod.splits)
  moreover have "await_method env name e (now d3 + ms t) d3 = (True, d')"
    using assms(1) w by (auto simp: CallMethodStreaming_def Let_def split: if_splits option.splits)
  ultimately have "sourced (events fr) d' \<and> last_method (drv_monitor d') = (name, e)" by (rule await_method_True)
  then show ?thesis using assms(3) by (auto simp: sourced_def)
qed

section \<open>A device that answers at once\<close>

text \<open>Whatever is written to it, its next bytes are the acknowledgement of the stop.\<close>

definition stop_answer :: bytes where "stop_answer = Encode kMethodAnswer ''LMCstopmeas'' [0]"

definition echo_env :: "bytes env" where
  "echo_env = sample_env\<lparr>env_os := sample_os\<lparr>os_write := \<lambda>bs w. (length bs, NoError, stop_answer)\<rparr>,
     env_activity := \<lambda>w. ([Receiver, Receiver, Receiver], w)\<rparr>"

lemma echo_ReadSome:
  assumes "tcp_connected c" "length (tcp_world c) \<le> n"
  shows "ReadSome (env_os echo_env) n c = (tcp_world c, None,
     c\<lparr>tcp_now := Suc (tcp_now c), tcp_world := [], tcp_in := tcp_in c @ tcp_world c\<rparr>)"
proof -
  let ?dl = "tcp_now c + ms (max 1 (opt_recv_timeout_ms (tcp_options c)))"
  have "tcp_now c < ?dl" by (simp add: ms_def)
  then have "Wait (env_os echo_env) True ?dl c = (None, c\<lparr>tcp_now := Suc (tcp_now c)\<rparr>)"
    using assms(1) by (subst Wait.simps) (simp add: echo_env_def sample_env_def sample_os_def)
  then show ?thesis
    using assms by (simp add: ReadSome_def read_some_def Let_def) (auto simp: echo_env_def sample_env_def sample_os_def)
qed

lemma echo_Write:
  assumes "tcp_connected c" "bs \<noteq> []"
  shows "Write (env_os echo_env) bs c = (None, c\<lparr>tcp_now := Suc (tcp_now c), tcp_world := stop_answer, tcp_out := tcp_out c @ bs\<rparr>)"
proof -
  let ?dl = "tcp_now c + ms (max 1 (opt_send_timeout_ms (tcp_options c)))"
  have "tcp_now c < ?dl" by (simp add: ms_def)
  then have W: "Wait (env_os echo_env) False ?dl c = (None, c\<lparr>tcp_now := Suc (tcp_now c)\<rparr>)"
    using assms(1) by (subst Wait.simps) (simp add: echo_env_def sample_env_def sample_os_def)
  then have "write_loop (env_os echo_env) ?dl bs c =
      (None, c\<lparr>tcp_now := Suc (tcp_now c), tcp_world := stop_answer, tcp_out := tcp_out c @ bs\<rparr>)"
    using assms(2) by (simp add: write_loop.simps [of "env_os echo_env" ?dl bs c] write_some_def Let_def)
      (simp add: echo_env_def sample_env_def sample_os_def)
  then show ?thesis using assms(1) by (simp add: Write_def)
qed

text \<open>One round of the receive thread.\<close>

lemma echo_round:
  assumes "drv_rx d = RxCheck" "drv_receive_running d" "ch_tcp (drv_chan d) = Some c" "tcp_connected c"
    and "length (tcp_world c) \<le> kReadBufferSize"
  defines "c' \<equiv> c\<lparr>tcp_now := Suc (tcp_now c), tcp_world := [], tcp_in := tcp_in c @ tcp_world c\<rparr>"
  shows "meanwhile echo_env d =
     (if tcp_world c = [] then d\<lparr>drv_chan := put c' (drv_chan d)\<rparr>
      else (feed_receiver echo_env (tcp_world c)
              (on_monitor (on_stats (\<lambda>s. s\<lparr>bytes_received := bytes_received s + word_of_nat (length (tcp_world c))\<rparr>))
                 (d\<lparr>drv_chan := put c' (drv_chan d), drv_rx := RxGot (tcp_world c) None\<rparr>)))\<lparr>drv_rx := RxCheck\<rparr>)"
proof -
  have o: "set_outside (now d, world d) d = d"
    using assms(3) by (cases d; cases c) (auto simp: set_outside_def outside_def put_def)
  have a: "env_activity echo_env w = ([Receiver, Receiver, Receiver], w)" for w by (simp add: echo_env_def)
  have 1: "rx_step echo_env d = d\<lparr>drv_rx := RxRead\<rparr>" using assms(1,2) by (simp add: rx_step.simps)
  have 2: "rx_step echo_env (d\<lparr>drv_rx := RxRead\<rparr>) = d\<lparr>drv_chan := put c' (drv_chan d), drv_rx := RxGot (tcp_world c) None\<rparr>"
    using assms(3) echo_ReadSome [OF assms(4,5)] by (simp add: rx_step.simps c'_def)
  have 3: "d\<lparr>drv_chan := x, drv_rx := RxCheck\<rparr> = d\<lparr>drv_chan := x\<rparr>" for x
    using assms(1) by (cases d) simp
  have "meanwhile echo_env d = rx_step echo_env (rx_step echo_env (rx_step echo_env d))"
    using o by (simp add: meanwhile_def a)
  then show ?thesis unfolding 1 2 by (auto simp: rx_step.simps Let_def 3)
qed

lemma deliver_answer:
  assumes "frames_of es = [(Encode kMethodAnswer name p, True)]" "errors_of es = []" "name \<noteq> []" "CHR '' '' \<notin> set name"
  shows "last_method (deliver ck cb es k m) = (name, if p = [] then -1 else uint (p ! 0))"
proof -
  obtain f where es: "es = [Frame_Receiver.OnFrame f]" and f: "frame_data f = Encode kMethodAnswer name p" "checksum_valid f"
    using assms(1,2) by (cases es rule: frames_of.cases) (auto simp: errors_of_def elim: frames_of.elims)
  let ?msg = "\<lparr>command_type = kMethodAnswer, command_name = name, payload = p\<rparr>"
  let ?data = "encode_data kMethodAnswer name p"
  have "take (length scan_event) ?data \<noteq> scan_event" "take (length scan_reply) ?data \<noteq> scan_reply"
    by (auto simp: scan_event_def scan_reply_def encode_data_def bytes_of_def)
  moreover have "Decode ?data = Inr ?msg" by (rule Decode_encode_data) (use assms(3,4) in simp_all)
  ultimately have c: "classify ?data = OtherMessage ?msg" by (simp add: classify_def IsScanMessage_def)
  have d: "take (length (frame_data f) - 9) (drop 8 (frame_data f)) = ?data" "\<not> length (frame_data f) < 9"
    using f(1) Encode_data [of kMethodAnswer name p] by (simp_all add: Encode_split kColaBStx_def)
  let ?m = "m\<lparr>mon_stats := (mon_stats m)\<lparr>frames_received := frames_received (mon_stats m) + 1\<rparr>\<rparr>"
  obtain r m1 where e: "MonitorFrame (ck k) (new_RawRecord f) ?m = (r, m1)" by fastforce
  have "last_method m1 = (name, if p = [] then -1 else uint (p ! 0))"
    using e f(2) d c by (auto simp: MonitorFrame_def Let_def new_RawRecord_def HandleNonScanFrame_def last_method_def)
  moreover have "last_method (HandleFrame cb (ck k) f m) = last_method m1"
    by (simp add: HandleFrame_def e Let_def split: option.split)
  ultimately show ?thesis by (simp add: es)
qed

definition idle_stream :: "bytes driver" where
  "idle_stream = (sample_driver [])\<lparr>drv_receiver := Some (new_FrameReceiver 64), drv_rx := RxCheck,
     drv_telegram_callback := True, drv_receive_running := True\<rparr>"

lemma stop_answer_received:
  "frames_of (events (Feed clk (new_FrameReceiver 64) stop_answer)) = [(stop_answer, True)]"
  "errors_of (events (Feed clk (new_FrameReceiver 64) stop_answer)) = []" "stop_answer \<noteq> []" "length stop_answer \<le> kReadBufferSize"
proof -
  have "telegram 64 stop_answer" unfolding stop_answer_def by (rule telegram_Encode) (simp_all add: length_encode_data)
  with scan_telegrams [of "[stop_answer]" 64]
  have s: "Frame_Receiver.scan 64 stop_answer = ([(stop_answer, True)], [])" "clean 64 stop_answer" by auto
  show n: "stop_answer \<noteq> []" by (simp add: stop_answer_def Encode_nonempty)
  show "frames_of (events (Feed clk (new_FrameReceiver 64) stop_answer)) = [(stop_answer, True)]"
    using Feed_refines [of "new_FrameReceiver 64" stop_answer clk] n s(1) by simp
  show "errors_of (events (Feed clk (new_FrameReceiver 64) stop_answer)) = []"
    using Feed_clean [of "new_FrameReceiver 64" stop_answer clk] s(2) by (simp add: errors_of_def)
  show "length stop_answer \<le> kReadBufferSize"
    by (simp add: stop_answer_def Encode_split length_encode_data kColaBStx_def kReadBufferSize_def)
qed

lemma await_answered:
  assumes "now d < deadline" "last_method (drv_monitor (meanwhile env d)) = (name, e)"
  shows "await_method env name e deadline d = (True, sleep_for env (ms 10) d)"
proof -
  have "drv_monitor (sleep_for env (ms 10) d) = drv_monitor (meanwhile env d)" by (simp add: sleep_for_def Let_def)
  then show ?thesis using assms by (subst await_method.simps) (simp add: Let_def last_method_def)
qed

lemma echo_example:
  "\<exists>d'. CallMethodStreaming echo_env BuildStopMeasurement ''LMCstopmeas'' 0 1000 idle_stream = (True, d')"
proof -
  let ?clear = "on_monitor (\<lambda>m. m\<lparr>mon_last_method_name := [], mon_last_method_status := -1\<rparr>)"
  define c where "c = sample_tcp []"
  have c: "tcp_connected c" "tcp_world c = []" by (simp_all add: c_def sample_tcp_def new_TcpClient_def)
  have i: "drv_rx idle_stream = RxCheck" "drv_receive_running idle_stream" "ch_tcp (drv_chan idle_stream) = Some c"
    "drv_receiver idle_stream = Some (new_FrameReceiver 64)"
    by (simp_all add: idle_stream_def sample_driver_def new_CommandChannel_def waiting_def c_def)
  have r1: "\<exists>c'. meanwhile echo_env d = d\<lparr>drv_chan := put c' (drv_chan d)\<rparr> \<and> tcp_connected c' \<and> tcp_world c' = []"
    if "drv_rx d = RxCheck" "drv_receive_running d" "ch_tcp (drv_chan d) = Some c" "tcp_connected c" "tcp_world c = []"
    for d :: "bytes driver" and c
    using echo_round [OF that(1-4)] that(4,5)
    by (intro exI [of _ "c\<lparr>tcp_now := Suc (tcp_now c), tcp_world := []\<rparr>"]) simp
  obtain c1 where 1: "meanwhile echo_env idle_stream = idle_stream\<lparr>drv_chan := put c1 (drv_chan idle_stream)\<rparr>"
      "tcp_connected c1" "tcp_world c1 = []" using r1 [OF i(1-3) c] by blast
  let ?d1 = "?clear (idle_stream\<lparr>drv_chan := put c1 (drv_chan idle_stream)\<rparr>)"
  obtain c2 where 2: "meanwhile echo_env ?d1 = ?d1\<lparr>drv_chan := put c2 (drv_chan ?d1)\<rparr>" "tcp_connected c2" "tcp_world c2 = []"
    using r1 [of ?d1 c1] 1(2,3) i(1,2) by auto
  define d2 where "d2 = ?d1\<lparr>drv_chan := put c2 (drv_chan ?d1)\<rparr>"
  define c3 where "c3 = c2\<lparr>tcp_now := Suc (tcp_now c2), tcp_world := stop_answer, tcp_out := tcp_out c2 @ BuildStopMeasurement\<rparr>"
  define d3 where "d3 = d2\<lparr>drv_chan := put c3 (drv_chan d2)\<rparr>"
  have "BuildStopMeasurement \<noteq> []" by (simp add: build_defs Encode_nonempty)
  then have w: "write_owner echo_env BuildStopMeasurement d2 = (None, d3)"
    using echo_Write [OF 2(2)] by (simp add: write_owner_def d2_def d3_def c3_def)
  have d3: "drv_rx d3 = RxCheck" "drv_receive_running d3" "ch_tcp (drv_chan d3) = Some c3" "tcp_connected c3"
      "tcp_world c3 = stop_answer" "drv_receiver d3 = Some (new_FrameReceiver 64)"
    using i 2(2) by (simp_all add: d3_def d2_def c3_def)
  have "last_method (drv_monitor (meanwhile echo_env d3)) = (''LMCstopmeas'', 0)"
    using echo_round [OF d3(1-4)] d3(5,6) stop_answer_received
    by (simp add: feed_receiver_def receiver_moved_def) (subst deliver_answer [where p = "[0]"]; simp add: stop_answer_def)
  then have "await_method echo_env ''LMCstopmeas'' 0 (now d3 + ms 1000) d3 = (True, sleep_for echo_env (ms 10) d3)"
    by (intro await_answered) (simp_all add: ms_def)
  moreover have "is_connected (meanwhile echo_env idle_stream)" using 1 by simp
  ultimately show ?thesis using 1(1) 2(1) w by (simp add: CallMethodStreaming_def Let_def d2_def)
qed

text \<open>
  A method called over the running stream succeeds only on the device's word: while the call was waiting the
  frame receiver cut out a telegram with a good checksum that is a method answer with this name and the expected
  status. An answer that was on record before the call does not count.
\<close>

lemma CallMethodStreaming_acknowledged:
  assumes "CallMethodStreaming env frame name e t d = (True, d')" "drv_receiver d = Some fr" "name \<notin> {[], ''sFA''}"
  shows "\<exists>fr' es f. drv_receiver d' = Some fr' \<and> events fr' = events fr @ es \<and> f \<in> set (frames es) \<and>
     answer_of f = Some (name, e)"
  using assms by (rule CallMethodStreaming_source)

end
