(* ===== verification/Driver_Safety.thy ===== *)
theory Driver_Safety
  imports Driver
begin

text \<open>
  What holds of a driver after any sequence of its public calls, with its two threads moving in between: the record of
  the shutdown is consistent, a running thread has a client, joining ends, and a disconnect leaves nothing running.
\<close>

section \<open>The driver as a machine\<close>

datatype drv_op = CallConnect | CallConfigure | CallStart | CallStop | CallDisconnect | CallTelemetry
  | CallSetCallback bool | Worker worker

fun drv_step :: "'w env \<Rightarrow> 'w driver \<Rightarrow> drv_op \<Rightarrow> 'w driver" where
  "drv_step env d CallConnect = snd (Connect env d)"
| "drv_step env d CallConfigure = snd (Configure env d)"
| "drv_step env d CallStart = snd (StartScanning env d)"
| "drv_step env d CallStop = snd (StopScanning env d)"
| "drv_step env d CallDisconnect = snd (Disconnect env d)"
| "drv_step env d CallTelemetry = RequestTelemetry env d"
| "drv_step env d (CallSetCallback on) = SetTelegramCallback on d"
| "drv_step env d (Worker k) = work env d k"

section \<open>The invariant\<close>

definition sound :: "'w driver \<Rightarrow> bool" where
  "sound d \<longleftrightarrow> ms_inv (drv_shutdown d) \<and> client_ok d \<and> (have_workers d \<longrightarrow> ch_tcp (drv_chan d) \<noteq> None)"

lemma sound_new: "sound (new_driver cfg t w)"
  by (simp add: sound_def new_driver_def ms_inv_ops client_ok_def new_CommandChannel_def have_workers_def)

lemma sound_fields [simp]:
  "sound (d\<lparr>drv_state := st\<rparr>) = sound d" "sound (d\<lparr>drv_monitor := m\<rparr>) = sound d"
  "sound (d\<lparr>drv_receiver := fr\<rparr>) = sound d" "sound (d\<lparr>drv_scanning := b\<rparr>) = sound d"
  "sound (d\<lparr>drv_receive_running := b\<rparr>) = sound d" "sound (d\<lparr>drv_ntp_running := b\<rparr>) = sound d"
  "sound (d\<lparr>drv_stream_start_requested := b\<rparr>) = sound d" "sound (d\<lparr>drv_telegram_callback := b\<rparr>) = sound d"
  "sound (d\<lparr>drv_identity := i\<rparr>) = sound d" "sound (d\<lparr>drv_audit := j\<rparr>) = sound d"
  by (simp_all add: sound_def have_workers_def)

lemma sound_controls: "\<lbrakk> sound a; controls a b; ms_inv (drv_shutdown a) \<Longrightarrow> ms_inv (drv_shutdown b) \<rbrakk> \<Longrightarrow> sound b"
  by (auto simp: sound_def controls_def have_workers_def)

lemma sound_worked: "\<lbrakk> sound a; worked a b \<rbrakk> \<Longrightarrow> sound b"
  by (rule sound_controls [OF _ worked_controls]) (simp_all add: worked_def)

lemma sound_grows: "\<lbrakk> sound d; grows (drv_chan d) ch \<rbrakk> \<Longrightarrow> sound (d\<lparr>drv_chan := ch\<rparr>)"
  by (rule sound_controls [OF _ controls_chan]) simp_all

lemma sound_on_chan: "\<lbrakk> sound d; \<And>ch. grows ch (snd (f ch)) \<rbrakk> \<Longrightarrow> sound (snd (on_chan f d))"
  by (auto simp: on_chan_def split_beta intro: sound_grows)

lemma sound_shutdown: "\<lbrakk> sound d; ms_inv m \<rbrakk> \<Longrightarrow> sound (d\<lparr>drv_shutdown := m\<rparr>)"
  by (simp add: sound_def have_workers_def)

lemma sound_outside: "sound d \<Longrightarrow> sound (set_outside nw d)"
  by (cases nw) (simp add: sound_def have_workers_def set_outside_def client_ok_def put_def tcp_inv_def
      split: option.splits)

section \<open>Every call keeps it\<close>

lemma sound_stop: "sound d \<Longrightarrow> sound (snd (Impl_StopMeasurement env over reconnect d))"
  using Impl_StopMeasurement_effect(1,4) [OF prod.collapse [symmetric]] by (blast intro: sound_controls)

lemma sound_StopScanning: "sound d \<Longrightarrow> sound (snd (StopScanning env d))"
  using StopScanning_effect [OF prod.collapse [symmetric]] by (auto simp: sound_def)

lemma sound_Connect: "sound d \<Longrightarrow> sound (snd (Connect env d))"
proof -
  assume s: "sound d"
  obtain e x where c: "connect_client env (renew_client env (d\<lparr>drv_state := kConnecting\<rparr>)) = (e, x)" by fastforce
  have "controls d x"
    using controls_trans [OF controls_renew controls_connect, of "d\<lparr>drv_state := kConnecting\<rparr>" env env] c by simp
  moreover have "drv_shutdown x = drv_shutdown d"
    using c by (auto simp: connect_client_def renew_client_def disconnect_client_def Let_def split: option.splits prod.splits)
  ultimately have "sound x" using s by (auto intro: sound_controls)
  then show ?thesis
    using sound_controls [OF _ controls_Reset [OF controls_refl], of "x\<lparr>drv_state := kConnected\<rparr>"]
    by (auto simp: Connect_def c split: option.split)
qed

lemma sound_Disconnect: "sound d \<Longrightarrow> sound (snd (Disconnect env d))"
proof -
  assume "sound d"
  then have "sound (snd (StopScanning env d))" by (rule sound_StopScanning)
  then have "sound (disconnect_client env (snd (StopScanning env d)))"
    by (rule sound_controls [OF _ controls_disconnect]) (simp add: disconnect_client_def split: option.splits)
  then show ?thesis by (simp add: Disconnect_def split_beta)
qed

lemma sound_read_state: "sound d \<Longrightarrow> sound (snd (read_state env t d))"
proof -
  assume "sound d"
  then have "sound (snd (on_chan (\<lambda>ch. ReadVariable (env_os env) ''SCdevicestate'' (max t (MethodTimeout [] ch)) ch) d))"
    by (rule sound_on_chan) (rule ReadVariable_grows)
  then show ?thesis by (auto simp: read_state_def split: prod.splits sum.splits)
qed

lemma sound_await_ready: "sound d \<Longrightarrow> sound (snd (await_ready env t deadline d))"
proof (induction env t deadline d rule: await_ready.induct)
  case (1 env t deadline d)
  obtain r x where r: "read_state env t d = (r, x)" by fastforce
  have x: "sound x" using sound_read_state [OF 1(2), of env t] r by simp
  show ?case
  proof (cases r)
    case (Inr s)
    have "sound (snd (await_ready env t deadline (sleep_for env (ms kReadyPollMs) x)))"
      if "s \<noteq> 1" "\<not> (s = 2 \<or> now x \<ge> deadline)"
      by (rule 1(1) [OF r [symmetric] Inr that]) (simp_all add: sound_worked [OF x worked_sleep])
    then show ?thesis
      using r Inr x sound_on_chan [OF x LogActiveMessages_grows] by (subst await_ready.simps) auto
  qed (use r x in \<open>subst await_ready.simps; simp\<close>)
qed

lemma sound_check_ntp: "sound d \<Longrightarrow> sound (snd (check_ntp env d))"
  using sound_worked [OF _ worked_probe, of d env] by (auto simp: check_ntp_def split_beta)

lemma sound_steps: "\<lbrakk> sound d; f \<in> set (configure_steps env t) \<rbrakk> \<Longrightarrow> sound (snd (f d))"
  using sound_await_ready sound_check_ntp
  by (auto simp: configure_steps_def read_identity_def read_audit_def call_method_def start_measurement_def
      apply_parameters_def WaitDeviceReady_def split_beta ms_inv_ops
      intro!: sound_on_chan [OF _ ReadIdentity_grows] sound_on_chan [OF _ ReadAudit_grows]
        sound_on_chan [OF _ CallMethod_grows] sound_on_chan [OF _ apply_rows_grows] sound_shutdown
      split: option.split)

lemma sound_Configure: "sound d \<Longrightarrow> sound (snd (Configure env d))"
proof -
  assume d: "sound d"
  let ?t = "net_config_timeout_ms (cfg_network (drv_config d))"
  obtain e x where r: "run_steps (configure_steps env ?t) (d\<lparr>drv_state := kConfiguring\<rparr>) = (e, x)" by fastforce
  have "sound (d\<lparr>drv_state := kConfiguring\<rparr>) \<longrightarrow> sound (snd (run_steps (configure_steps env ?t) (d\<lparr>drv_state := kConfiguring\<rparr>)))"
    by (rule run_steps_keep [where R = "\<lambda>a b. sound a \<longrightarrow> sound b"]) (auto intro: sound_steps)
  then have "sound x" using d r by simp
  then show ?thesis using d sound_stop by (auto simp: Configure_def r split: option.split)
qed

lemma sound_start_thread:
  "\<lbrakk> sound d; ch_tcp (drv_chan d) \<noteq> None \<rbrakk> \<Longrightarrow> sound (snd (start_thread env k d)) \<and> ch_tcp (drv_chan (snd (start_thread env k d))) \<noteq> None"
  by (auto simp: start_thread_def Let_def split_beta sound_def have_workers_def set_outside_def client_ok_def put_def tcp_inv_def)

lemma sound_start_workers:
  assumes "sound d" "ch_tcp (drv_chan d) \<noteq> None"
  shows "sound (snd (start_workers env d))"
proof -
  obtain e x where r: "start_thread env Receiver d = (e, x)" by fastforce
  have x: "sound x" "ch_tcp (drv_chan x) \<noteq> None" using sound_start_thread [OF assms, of env Receiver] r by simp_all
  have "sound (meanwhile env x)" "ch_tcp (drv_chan (meanwhile env x)) \<noteq> None"
    using sound_worked [OF x(1) worked_meanwhile] worked_meanwhile [of x env] x(2) by (simp_all add: worked_def)
  then show ?thesis
    using x r sound_start_thread [of "(meanwhile env x)\<lparr>drv_ntp_running := True\<rparr>" env NtpWatch]
    by (auto simp: start_workers_def split: option.split)
qed

lemma sound_subscribe:
  assumes "sound d" "ch_tcp (drv_chan d) \<noteq> None"
  shows "sound (snd (subscribe env d)) \<and> ch_tcp (drv_chan (snd (subscribe env d))) \<noteq> None"
proof -
  let ?t = "net_response_timeout_ms (cfg_network (drv_config d))"
  have g: "grows (drv_chan d) (drv_chan (snd (subscribe env d)))"
    using SendAndReceive_grows [of "drv_chan d" "env_os env" BuildStartStream ?t]
    by (auto simp: subscribe_def Let_def ValidateResponse_def intro: grows_uncertain split: sum.splits prod.splits)
  have "\<exists>ch. snd (subscribe env d) = d\<lparr>drv_stream_start_requested := True, drv_chan := ch\<rparr>"
    by (auto simp: subscribe_def Let_def split: sum.splits prod.splits option.splits)
  then obtain ch where e: "snd (subscribe env d) = d\<lparr>drv_stream_start_requested := True, drv_chan := ch\<rparr>" ..
  with g have "grows (drv_chan (d\<lparr>drv_stream_start_requested := True\<rparr>)) ch" by simp
  from sound_grows [OF _ this] show ?thesis using e g assms by (auto simp: grows_def split: option.splits)
qed

lemma sound_StartScanning: "sound d \<Longrightarrow> sound (snd (StartScanning env d))"
proof -
  assume d: "sound d"
  show ?thesis
  proof (cases "is_connected d \<and> \<not> drv_scanning d")
    case True
    then have c: "ch_tcp (drv_chan d) \<noteq> None" by (auto simp: is_connected_def split: option.splits)
    obtain e x where r: "subscribe env (reset_stream d) = (e, x)" by fastforce
    have x: "sound x" "ch_tcp (drv_chan x) \<noteq> None"
      using sound_subscribe [of "reset_stream d" env] d c r by (simp_all add: reset_stream_def Let_def)
    show ?thesis
    proof (cases e)
      case None
      let ?y = "(on_monitor (\<lambda>m. m\<lparr>mon_time_gate := (mon_time_gate m)\<lparr>gate_deadline :=
          now x + unat (ntp_lock_timeout_s (cfg_ntp (drv_config x))) * 10 ^ 9\<rparr>\<rparr>) x)\<lparr>drv_scanning := True, drv_receive_running := True\<rparr>"
      obtain e2 z where w: "start_workers env ?y = (e2, z)" by fastforce
      have z: "sound z" using sound_start_workers [of ?y env] x w by simp
      then have "sound (meanwhile env z)" by (rule sound_worked [OF _ worked_meanwhile])
      then show ?thesis using True r None w z sound_StopScanning
        by (cases e2) (simp_all add: StartScanning_def Let_def)
    qed (use True r x sound_StopScanning in \<open>simp add: StartScanning_def\<close>)
  qed (use d sound_StopScanning in \<open>auto simp: StartScanning_def\<close>)
qed

lemma worked_telemetry: "worked d (RequestTelemetry env d)"
proof -
  have "worked d (request_all env names d)" for names d
  proof (induction names arbitrary: d)
    case (Cons n ns)
    obtain e x where w: "write_owner env (Encode kReadByName n []) (meanwhile env d) = (e, x)" by fastforce
    have "worked d x" using worked_trans [OF worked_meanwhile worked_write] w by (metis snd_conv)
    then show ?case using Cons [of x] by (auto simp: w split: option.split intro: worked_trans)
  qed simp
  then show ?thesis by (simp add: RequestTelemetry_def del: request_all.simps)
qed

interpretation driver: machine "drv_step env" sound for env
proof
  fix d :: "'a driver" and a
  assume d: "sound d"
  have "worked d (work env d k)" for k by (cases k) (simp_all add: worked_rx worked_ntp_step)
  then show "sound (drv_step env d a)"
    using d by (cases a) (auto simp: sound_Connect sound_Configure sound_StartScanning sound_StopScanning
        sound_Disconnect SetTelegramCallback_def intro: sound_worked worked_telemetry)
qed

lemma driver_sound: "sound (foldl (drv_step env) (new_driver cfg t w) ops)"
  by (rule driver.run_inv) (rule sound_new)

section \<open>Properties\<close>


text \<open>
  C27: joining ends: in every state the driver can reach, once the owner has lowered the two running flags each thread
  that exists returns within three of its own steps, wherever it was, so the joins of a stop cannot hang.
\<close>

theorem threads_join:
  "let d = (foldl (drv_step env) (new_driver cfg t w) ops)\<lparr>drv_receive_running := False, drv_ntp_running := False\<rparr>
   in drv_rx ((rx_step env ^^ 3) d) \<in> {RxNotJoinable, RxEnded} \<and>
      drv_ntp ((ntp_step env ^^ 3) d) \<in> {NtpNotJoinable, NtpEnded}"
proof -
  let ?d = "foldl (drv_step env) (new_driver cfg t w) ops"
  let ?s = "?d\<lparr>drv_receive_running := False, drv_ntp_running := False\<rparr>"
  have c: "have_workers ?d \<longrightarrow> ch_tcp (drv_chan ?d) \<noteq> None" using driver_sound [of env cfg t w ops] by (simp add: sound_def)
  have k: "drv_rx ((rx_step env ^^ 3) ?s) = RxNotJoinable \<longleftrightarrow> drv_rx ?d = RxNotJoinable"
    "drv_ntp ((ntp_step env ^^ 3) ?s) = NtpNotJoinable \<longleftrightarrow> drv_ntp ?d = NtpNotJoinable"
    using worked_funpow [of "rx_step env" ?s 3, OF worked_rx] worked_funpow [of "ntp_step env" ?s 3, OF worked_ntp_step]
    by (simp_all add: worked_def)
  have "drv_rx ?d \<noteq> RxNotJoinable \<Longrightarrow> drv_rx ((rx_step env ^^ 3) ?s) = RxEnded"
    using c by (intro rx_joins) (simp_all add: have_workers_def)
  moreover have "drv_ntp ?d \<noteq> NtpNotJoinable \<Longrightarrow> drv_ntp ((ntp_step env ^^ 3) ?s) = NtpEnded"
    by (intro ntp_joins) simp_all
  ultimately show ?thesis unfolding Let_def using k by blast
qed

end
