(* ===== verification/String_Util.thy ===== *)
theory String_Util
  imports Prelude
begin

text \<open>
  \<^verbatim>\<open>common/include/string_util.h\<close> on character lists, in the "C" locale: white space is the six ASCII blanks and only the
  ASCII letters have a case. The decimal texts of \<^verbatim>\<open>std::to_string\<close> are here too.
\<close>

section \<open>Characters\<close>

definition is_space :: "char \<Rightarrow> bool" where
  "is_space c \<longleftrightarrow> c \<in> set [CHR 0x20, CHR 0x09, CHR 0x0A, CHR 0x0B, CHR 0x0C, CHR 0x0D]"

definition is_digit :: "char \<Rightarrow> bool" where
  "is_digit c \<longleftrightarrow> (48 :: nat) \<le> of_char c \<and> of_char c \<le> (57 :: nat)"

definition is_upper :: "char \<Rightarrow> bool" where
  "is_upper c \<longleftrightarrow> (65 :: nat) \<le> of_char c \<and> of_char c \<le> (90 :: nat)"

definition is_alpha :: "char \<Rightarrow> bool" where
  "is_alpha c \<longleftrightarrow> is_upper c \<or> (97 :: nat) \<le> of_char c \<and> of_char c \<le> (122 :: nat)"

definition is_alnum :: "char \<Rightarrow> bool" where
  "is_alnum c \<longleftrightarrow> is_alpha c \<or> is_digit c"

definition is_xdigit :: "char \<Rightarrow> bool" where
  "is_xdigit c \<longleftrightarrow> is_digit c \<or> (65 :: nat) \<le> of_char c \<and> of_char c \<le> (70 :: nat) \<or>
     (97 :: nat) \<le> of_char c \<and> of_char c \<le> (102 :: nat)"

definition to_lower :: "char \<Rightarrow> char" where
  "to_lower c = (if is_upper c then char_of ((of_char c :: nat) + 32) else c)"

section \<open>Strings\<close>

definition Trim :: "string \<Rightarrow> string" where
  "Trim s = rev (dropWhile is_space (rev (dropWhile is_space s)))"

definition ToLower :: "string \<Rightarrow> string" where
  "ToLower s = map to_lower s"

definition EqualsCi :: "string \<Rightarrow> string \<Rightarrow> bool" where
  "EqualsCi a b \<longleftrightarrow> ToLower a = ToLower b"

definition StartsWithCi :: "string \<Rightarrow> string \<Rightarrow> bool" where
  "StartsWithCi s prefix \<longleftrightarrow>
     (if length s < length prefix then False else ToLower (take (length prefix) s) = ToLower prefix)"

fun Split :: "string \<Rightarrow> char \<Rightarrow> string list" where
  "Split [] d = [[]]"
| "Split (c # s) d =
     (if c = d then [] # Split s d
      else case Split s d of [] \<Rightarrow> [[c]] | t # ts \<Rightarrow> (c # t) # ts)"

text \<open>Reading with \<^verbatim>\<open>std::getline\<close>: a last part that is empty is not a part.\<close>

definition getlines :: "string \<Rightarrow> char \<Rightarrow> string list" where
  "getlines s sep = (let ts = Split s sep in if last ts = [] then butlast ts else ts)"

definition SplitTrim :: "string \<Rightarrow> char \<Rightarrow> string list" where
  "SplitTrim s sep = map Trim (getlines s sep)"

fun Join :: "string list \<Rightarrow> char \<Rightarrow> string" where
  "Join [] sep = []"
| "Join [p] sep = p"
| "Join (p # ps) sep = p @ sep # Join ps sep"

fun mac_digits :: "string \<Rightarrow> string option" where
  "mac_digits [] = Some []"
| "mac_digits (c # s) =
     (if c \<in> set '':-.'' then mac_digits s
      else if \<not> is_xdigit c then None
      else map_option ((#) (to_lower c)) (mac_digits s))"

definition NormalizeMac :: "string \<Rightarrow> string" where
  "NormalizeMac mac =
     (case mac_digits mac of None \<Rightarrow> [] | Some out \<Rightarrow> if length out = 12 then out else [])"

definition OneLine :: "string \<Rightarrow> string" where
  "OneLine s = map (\<lambda>c. if c \<in> set [CHR 0x0D, CHR 0x0A, CHR 0x09] then CHR 0x20 else c) s"

text \<open>The part of a string before and after the first place where another one occurs.\<close>

fun find_text :: "string \<Rightarrow> string \<Rightarrow> (string \<times> string) option" where
  "find_text pat [] = (if pat = [] then Some ([], []) else None)"
| "find_text pat (c # s) =
     (if take (length pat) (c # s) = pat then Some ([], drop (length pat) (c # s))
      else map_option (\<lambda>(a, b). (c # a, b)) (find_text pat s))"

section \<open>Decimal texts\<close>

definition digit_char :: "nat \<Rightarrow> char" where
  "digit_char n = char_of (48 + n mod 10)"

fun nat_text :: "nat \<Rightarrow> string" where
  "nat_text n = (if n < 10 then [digit_char n] else nat_text (n div 10) @ [digit_char (n mod 10)])"

declare nat_text.simps [simp del]

definition int_text :: "int \<Rightarrow> string" where
  "int_text i = (if i < 0 then CHR ''-'' # nat_text (nat (- i)) else nat_text (nat i))"

definition pad_zeros :: "nat \<Rightarrow> string \<Rightarrow> string" where
  "pad_zeros w s = replicate (w - length s) CHR ''0'' @ s"

section \<open>Splitting and joining\<close>

lemma Split_nonempty [simp]: "Split s d \<noteq> []"
  by (cases s) (auto split: list.split)

lemma Split_none [simp]: "d \<notin> set s \<Longrightarrow> Split s d = [s]"
  by (induction s) auto

lemma Split_append [simp]: "d \<notin> set s \<Longrightarrow> Split (s @ d # t) d = s # Split t d"
  by (induction s) auto

lemma Split_sep [simp]: "Split (d # t) d = [] # Split t d"
  by simp

lemma Split_Join:
  "\<lbrakk> ps \<noteq> []; \<forall>p \<in> set ps. d \<notin> set p \<rbrakk> \<Longrightarrow> Split (Join ps d) d = ps"
  by (induction ps d rule: Join.induct) auto

lemma Join_Split: "Join (Split s d) d = s"
proof (induction s)
  case (Cons c s)
  obtain t ts where s: "Split s d = t # ts" by (cases "Split s d") auto
  show ?case
  proof (cases "c = d")
    case True
    then show ?thesis using Cons s by simp
  next
    case False
    then show ?thesis using Cons s by (cases ts) auto
  qed
qed simp

lemma set_Join: "set (Join ps d) \<subseteq> insert d (\<Union> (set ` set ps))"
  by (induction ps d rule: Join.induct) auto

lemma ToLower_simps [simp]: "ToLower [] = []" "ToLower (c # s) = to_lower c # ToLower s" "ToLower (s @ t) = ToLower s @ ToLower t"
  "length (ToLower s) = length s"
  by (simp_all add: ToLower_def)

lemma EqualsCi_refl [simp]: "EqualsCi s s"
  by (simp add: EqualsCi_def)

lemma EqualsCi_sym: "EqualsCi a b \<Longrightarrow> EqualsCi b a"
  by (simp add: EqualsCi_def)

lemma EqualsCi_trans: "\<lbrakk> EqualsCi a b; EqualsCi b c \<rbrakk> \<Longrightarrow> EqualsCi a c"
  by (simp add: EqualsCi_def)

text \<open>Only letters change under \<open>to_lower\<close>.\<close>

lemma to_lower_same: "to_lower c = d \<Longrightarrow> \<not> is_alpha d \<Longrightarrow> c = d"
proof (rule ccontr)
  assume l: "to_lower c = d" and d: "\<not> is_alpha d" and n: "c \<noteq> d"
  then have u: "is_upper c" by (auto simp: to_lower_def split: if_splits)
  then have "d = char_of ((of_char c :: nat) + 32)" using l by (simp add: to_lower_def)
  moreover have "(of_char c :: nat) + 32 < 256" using u by (simp add: is_upper_def)
  ultimately have "of_char d = (of_char c :: nat) + 32" by (simp add: of_char_of)
  with u d show False by (simp add: is_alpha_def is_upper_def)
qed

lemma EqualsCi_keeps_out:
  assumes "EqualsCi a b" "c \<notin> set b" "\<not> is_alpha c"
  shows "c \<notin> set a"
proof
  assume c: "c \<in> set a"
  have n: "to_lower c = c" using assms(3) by (simp add: to_lower_def is_alpha_def)
  from c have "to_lower c \<in> set (ToLower a)" by (auto simp: ToLower_def)
  then have "c \<in> set (ToLower b)" using assms(1) n by (simp add: EqualsCi_def)
  then have "c \<in> to_lower ` set b" by (simp add: ToLower_def)
  then obtain e where "e \<in> set b" "c = to_lower e" by blast
  then show False using assms(2,3) to_lower_same [of e c] by simp
qed

lemma Trim_id: "\<lbrakk> s = [] \<or> \<not> is_space (hd s); s = [] \<or> \<not> is_space (last s) \<rbrakk> \<Longrightarrow> Trim s = s"
proof (cases s)
  case (Cons c t)
  assume "s = [] \<or> \<not> is_space (hd s)" "s = [] \<or> \<not> is_space (last s)"
  then have "dropWhile is_space s = s" "dropWhile is_space (rev s) = rev s"
    using Cons by (simp_all add: dropWhile_eq_self_iff hd_rev del: rev.simps(2))
  then show ?thesis by (simp add: Trim_def)
qed (simp add: Trim_def)

lemma Trim_space [simp]: "is_space c \<Longrightarrow> Trim (c # s) = Trim s"
  by (simp add: Trim_def)

lemma set_Trim: "set (Trim s) \<subseteq> set s"
  unfolding Trim_def by (metis set_dropWhileD set_rev subsetI)

lemma is_space_blank [simp]: "is_space CHR '' ''"
  by (simp add: is_space_def)

lemma nat_text_digits: "c \<in> set (nat_text n) \<Longrightarrow> is_digit c"
proof (induction n rule: nat_text.induct)
  case (1 n)
  have d: "is_digit (digit_char k)" for k
  proof -
    have "k mod 10 < 10" by simp
    then have "48 + k mod 10 < 256" by linarith
    then show ?thesis by (simp add: is_digit_def digit_char_def of_char_of)
  qed
  show ?case using 1 d by (subst (asm) nat_text.simps) (auto split: if_splits)
qed

lemma nat_text_nonempty [simp]: "nat_text n \<noteq> []"
  by (subst nat_text.simps) simp

lemma length_nat_text: "n < 10 ^ k \<Longrightarrow> 0 < k \<Longrightarrow> length (nat_text n) \<le> k"
proof (induction k arbitrary: n)
  case (Suc k)
  show ?case
  proof (cases "n < 10")
    case False
    then have "n div 10 < 10 ^ k" "0 < k" using Suc.prems(1) by (auto simp: less_mult_imp_div_less mult.commute intro: Suc_lessI gr0I)
    then show ?thesis using Suc.IH [of "n div 10"] False by (subst nat_text.simps) simp
  qed (simp add: nat_text.simps)
qed simp

end
