(* ===== verification/Receiver_Settings.thy ===== *)
theory Receiver_Settings
  imports Complex_Main String_Util
begin

text \<open>
  \<^verbatim>\<open>asterx_driver/include/commands.h\<close> and the first part of \<^verbatim>\<open>src/commands.cpp\<close>: the settings of the receiver and what
  \<^verbatim>\<open>ValidateReceiverSettings\<close> demands of them. A double is the rational number it denotes (a NaN or an infinity is out
  of every range and refused); an error is the leading words of its message.
\<close>

type_synonym ConfigError = string

section \<open>Settings\<close>

record SbfStream =
  sbf_id :: int
  sbf_blocks :: "string list"
  sbf_interval :: string

record NmeaPinStream =
  nmea_id :: int
  nmea_descriptor :: string
  nmea_messages :: "string list"
  nmea_interval :: string

record Vec3 =
  vec_x :: rat
  vec_y :: rat
  vec_z :: rat

record AttitudeOffset =
  heading_deg :: rat
  pitch_deg :: rat

record ReceiverCapabilities =
  has_main :: bool
  has_aux1 :: bool

record AntennaSettings =
  main_type :: string
  aux_type :: string
  attitude_offset_deg :: AttitudeOffset
  lever_arm_m :: Vec3

record GnssSettings =
  cn0_mask_dbhz :: int
  elevation_mask_deg :: int
  satellite_tracking :: string
  satellite_usage :: string
  satellite_health_override :: string
  signal_tracking :: string
  signal_usage :: string

record ImuSettings =
  startup_data_mode :: string
  orientation_mode :: string
  theta_x_deg :: rat
  theta_y_deg :: rat
  theta_z_deg :: rat

record PpsSettings =
  pps_interval :: string
  pps_polarity :: string
  pps_delay_ns :: rat
  pps_time_scale :: string
  pps_max_holdover_s :: int
  pps_pulse_width_ms :: rat

record TimeSystemSettings =
  ptp_server :: bool
  ntp_server_on :: bool
  ts_pps :: PpsSettings

record NtripSettings =
  ntrip_enabled :: bool
  caster :: string
  ntrip_port :: int
  username :: string
  ntrip_password :: string
  mount_point :: string
  ntrip_version :: string
  ntrip_tls :: bool
  send_gga :: string

record NavigationSettings =
  pvt_mode :: string
  receiver_dynamics :: string
  vehicle_application :: string
  clock_sync_threshold :: string
  multipath_mitigation :: bool
  ins_output_location :: string

record WarmupSettings =
  warm_min_recording_s :: int
  warm_require_finetime :: bool

record ReceiverSettings =
  rx_user :: string
  rx_password :: string
  sbf_streams :: "SbfStream list"
  nmea_streams :: "NmeaPinStream list"
  rx_antenna :: AntennaSettings
  rx_gnss :: GnssSettings
  rx_imu :: ImuSettings
  time_system :: TimeSystemSettings
  rx_ntrip :: NtripSettings
  rx_navigation :: NavigationSettings
  rx_warmup :: WarmupSettings

section \<open>Receiver enumerations\<close>

definition kMaxAsciiCommandLength :: nat where "kMaxAsciiCommandLength = 2000"
definition kMaxUserLength :: nat where "kMaxUserLength = 16"
definition kMaxPasswordLength :: nat where "kMaxPasswordLength = 32"
definition kGpsMaxTracking :: int where "kGpsMaxTracking = 39"
definition kGpsMaxUsage :: int where "kGpsMaxUsage = 32"

definition kConstellations :: "string list" where
  "kConstellations = [''GPS'', ''GLONASS'', ''GALILEO'', ''SBAS'', ''BEIDOU'', ''QZSS'']"

definition kSignals :: "string list" where
  "kSignals = [''GPSL1CA'', ''GPSL2PY'', ''GPSL2C'', ''GPSL5'', ''GPSL1C'', ''GLOL1CA'', ''GLOL2P'', ''GLOL2CA'',
     ''GALE1BC'', ''GALE5a'', ''GALE5b'', ''GALE5'', ''GEOL1'', ''GEOL5'', ''BDSB1I'', ''BDSB2I'', ''BDSB3I'',
     ''QZSL1CA'', ''QZSL2C'', ''QZSL5'', ''QZSL1C'', ''QZSL1CB'']"

definition kPpsIntervals :: "string list" where
  "kPpsIntervals = [''off'', ''msec10'', ''msec20'', ''msec50'', ''msec100'', ''msec200'', ''msec250'', ''msec500'',
     ''sec1'', ''sec2'', ''sec4'', ''sec5'', ''sec10'', ''sec30'', ''sec60'']"

definition kPpsPolarities :: "string list" where "kPpsPolarities = [''Low2High'', ''High2Low'']"
definition kTimeScales :: "string list" where
  "kTimeScales = [''GPS'', ''Galileo'', ''BeiDou'', ''GLONASS'', ''UTC'', ''RxClock'']"
definition kSendGga :: "string list" where "kSendGga = [''auto'', ''off'', ''sec1'', ''sec5'', ''sec10'', ''sec60'']"
definition kNtripVersions :: "string list" where "kNtripVersions = [''v1'', ''v2'']"
definition kPvtModes :: "string list" where
  "kPvtModes = [''StandAlone'', ''SBAS'', ''DGNSS'', ''RTKFloat'', ''RTKFixed'', ''RTK'']"
definition kDynamics :: "string list" where "kDynamics = [''Max'', ''High'', ''Moderate'', ''Low'']"
definition kVehicleApplications :: "string list" where
  "kVehicleApplications = [''Unknown'', ''RoadVehicle'', ''HaulTruck'', ''Tractor'', ''TerminalTractor'',
     ''ReachStacker'', ''LiftTruck'', ''Excavator'', ''Loader'', ''Grader'', ''Dozer'', ''RoadRobot'',
     ''OffroadRobot'', ''FixedWing'', ''Multirotor'', ''USV'', ''RailVehicle'']"
definition kClockSyncThresholds :: "string list" where
  "kClockSyncThresholds = [''ClockSteering'', ''usec500'', ''msec1'', ''msec2'', ''msec3'', ''msec4'', ''msec5'']"
definition kInsOutputLocations :: "string list" where "kInsOutputLocations = [''MainAnt'', ''POI1'']"
definition kImuStartupModes :: "string list" where "kImuStartupModes = [''Boot'', ''GnssTimeKnown'']"
definition kImuOrientationModes :: "string list" where
  "kImuOrientationModes = [''SensorDefault'', ''manual'', ''fixed'']"

section \<open>Checks\<close>

definition InListCi :: "string list \<Rightarrow> string \<Rightarrow> bool" where
  "InListCi names value = list_ex (\<lambda>v. EqualsCi v value) names"

definition HasWhitespace :: "string \<Rightarrow> bool" where
  "HasWhitespace s = list_ex is_space s"

text \<open>Up to three digits: \<^verbatim>\<open>std::stoi\<close> of a number in range.\<close>

definition digits_value :: "string \<Rightarrow> int" where
  "digits_value s = foldl (\<lambda>n c. 10 * n + (int (of_char c) - 48)) 0 s"

definition IsSatelliteId :: "string \<Rightarrow> int \<Rightarrow> bool" where
  "IsSatelliteId tok gps_max =
     (if length tok < 3 \<or> length tok > 4 then False
      else
        let system = to_lower (hd tok); digits = tl tok; n = digits_value digits in
        if \<not> list_all is_digit digits then False
        else if system = CHR ''g'' then
          (if length digits \<noteq> 2 then False
           else if gps_max \<ge> 38 then (n \<ge> 1 \<and> n \<le> 36) \<or> n = 38 \<or> n = 39 else n \<ge> 1 \<and> n \<le> gps_max)
        else if system = CHR ''r'' then length digits = 2 \<and> n \<ge> 1 \<and> n \<le> 30
        else if system = CHR ''e'' then length digits = 2 \<and> n \<ge> 1 \<and> n \<le> 36
        else if system = CHR ''s'' then length digits = 3 \<and> n \<ge> 120 \<and> n \<le> 158
        else if system = CHR ''c'' then length digits = 2 \<and> n \<ge> 1 \<and> n \<le> 63
        else if system = CHR ''j'' then length digits = 2 \<and> n \<ge> 1 \<and> n \<le> 10
        else False)"

definition ValidPlusList :: "string \<Rightarrow> bool \<Rightarrow> (string \<Rightarrow> bool) \<Rightarrow> bool" where
  "ValidPlusList value allow_none token_ok =
     (let v = Trim value in
      if v = [] then False
      else if EqualsCi v ''all'' then True
      else if EqualsCi v ''none'' then allow_none
      else list_all (\<lambda>raw. let tok = Trim raw in
             \<not> (tok = [] \<or> hd tok = CHR ''+'' \<or> hd tok = CHR ''-'' \<or> \<not> token_ok tok)) (Split v CHR ''+''))"

definition extra_chars :: string where
  "extra_chars = '' !#%@()*+-./:;<=>?['' @ [CHR 0x5C] @ '']^_'' @ [CHR 0x60] @ ''{|}~''"

definition escapable_chars :: string where
  "escapable_chars = [CHR 0x22, CHR 0x27, CHR ''$'', CHR ''&'', CHR '','']"

definition ReceiverTextOk :: "string \<Rightarrow> bool \<Rightarrow> bool" where
  "ReceiverTextOk s allow_escapable =
     list_all (\<lambda>c. is_alnum c \<or> c \<in> set extra_chars \<or> allow_escapable \<and> c \<in> set escapable_chars) s"

definition RequireEnum :: "string \<Rightarrow> string list \<Rightarrow> string \<Rightarrow> ConfigError option" where
  "RequireEnum value allowed key = (if InListCi allowed value then None else Some key)"

definition RequireRange :: "rat \<Rightarrow> rat \<Rightarrow> rat \<Rightarrow> string \<Rightarrow> ConfigError option" where
  "RequireRange v lo hi key = (if v \<ge> lo \<and> v \<le> hi then None else Some key)"

definition IsValidSbfInterval :: "string \<Rightarrow> bool" where
  "IsValidSbfInterval interval \<longleftrightarrow> ToLower interval \<in> set
     [''onchange'', ''msec5'', ''msec10'', ''msec20'', ''msec40'', ''msec50'', ''msec100'', ''msec200'', ''msec500'',
      ''sec1'', ''sec2'', ''sec5'', ''sec10'', ''sec15'', ''sec30'', ''sec60'',
      ''min2'', ''min5'', ''min10'', ''min15'', ''min30'', ''min60'']"

definition IsValidNmeaMessage :: "string \<Rightarrow> bool" where
  "IsValidNmeaMessage message \<longleftrightarrow> ToLower message \<in> set
     [''gga'', ''gll'', ''gns'', ''gst'', ''hdt'', ''rmc'', ''vtg'', ''zda'', ''hrp'', ''ths'', ''pashr'']"

definition IsValidPinDescriptor :: "string \<Rightarrow> bool" where
  "IsValidPinDescriptor descriptor \<longleftrightarrow> ToLower descriptor \<in> set
     [''com1'', ''com2'', ''usb1'', ''usb2'', ''ip10'', ''ip11'', ''ip12'', ''ip13'', ''ip14'', ''ip15'', ''ip16'',
      ''ip17'', ''ntr1'', ''ntr2'', ''ntr3'', ''ips1'', ''ips2'', ''ips3'', ''ips4'', ''ips5'',
      ''ipr1'', ''ipr2'', ''ipr3'', ''ipr4'', ''ipr5'', ''log1'', ''log2'']"

definition IsValidSatelliteList :: "string \<Rightarrow> bool \<Rightarrow> int \<Rightarrow> bool" where
  "IsValidSatelliteList value allow_none gps_max =
     ValidPlusList value allow_none (\<lambda>tok. InListCi kConstellations tok \<or> IsSatelliteId tok gps_max)"

definition IsValidSignalList :: "string \<Rightarrow> bool \<Rightarrow> bool" where
  "IsValidSignalList value allow_constellation_alias =
     ValidPlusList value False (\<lambda>tok. InListCi kSignals tok \<or> allow_constellation_alias \<and> InListCi kConstellations tok)"

section \<open>Stream commands\<close>

fun commas :: "string list \<Rightarrow> string" where
  "commas [] = []"
| "commas [p] = p"
| "commas (p # ps) = p @ '', '' @ commas ps"

definition EnforceCommandLength :: "string \<Rightarrow> ConfigError + string" where
  "EnforceCommandLength cmd =
     (if length cmd > kMaxAsciiCommandLength then Inl ''ASCII command exceeds'' else Inr cmd)"

definition EnforceDescriptor :: "string \<Rightarrow> bool" where
  "EnforceDescriptor descriptor \<longleftrightarrow> descriptor \<noteq> [] \<and> CHR '','' \<notin> set descriptor \<and> CHR '' '' \<notin> set descriptor"

definition BuildNmeaOutputCommand :: "NmeaPinStream \<Rightarrow> ConfigError + string" where
  "BuildNmeaOutputCommand stream =
     (if nmea_id stream < 1 \<or> nmea_id stream > 10 then Inl ''NMEA stream id''
      else if \<not> IsValidPinDescriptor (nmea_descriptor stream) then Inl ''Unsupported NMEA pin descriptor''
      else if nmea_messages stream = [] then Inl ''NMEA pin stream must contain''
      else if \<not> list_all IsValidNmeaMessage (nmea_messages stream) then Inl ''Unsupported NMEA message''
      else if \<not> IsValidSbfInterval (nmea_interval stream) then Inl ''Unsupported NMEA interval''
      else EnforceCommandLength (commas [''setNMEAOutput'', ''Stream'' @ int_text (nmea_id stream),
             nmea_descriptor stream, Join (nmea_messages stream) CHR ''+'', nmea_interval stream]))"

definition BuildSbfOutputCommand :: "SbfStream \<Rightarrow> string \<Rightarrow> ConfigError + string" where
  "BuildSbfOutputCommand stream descriptor =
     (if sbf_id stream < 1 \<or> sbf_id stream > 10 then Inl ''SBF stream id''
      else if \<not> EnforceDescriptor descriptor then Inl ''invalid connection descriptor''
      else if sbf_blocks stream = [] then Inl ''SBF stream must contain''
      else if \<not> IsValidSbfInterval (sbf_interval stream) then Inl ''Unsupported SBF interval''
      else EnforceCommandLength (commas [''setSBFOutput'', ''Stream'' @ int_text (sbf_id stream), descriptor,
             Join (sbf_blocks stream) CHR ''+'', sbf_interval stream]))"

section \<open>Validation\<close>

fun first_error :: "ConfigError option list \<Rightarrow> ConfigError option" where
  "first_error [] = None"
| "first_error (None # es) = first_error es"
| "first_error (Some e # es) = Some e"

definition demand :: "bool \<Rightarrow> string \<Rightarrow> ConfigError option" where
  "demand ok key = (if ok then None else Some key)"

definition built :: "ConfigError + string \<Rightarrow> ConfigError option" where
  "built r = (case r of Inl e \<Rightarrow> Some e | Inr _ \<Rightarrow> None)"

definition credential :: "string \<Rightarrow> string \<Rightarrow> nat \<Rightarrow> ConfigError option list" where
  "credential key v max_length =
     [demand (\<not> (v = [] \<or> length v > max_length)) key, demand (ReceiverTextOk v False) key]"

definition antenna_name :: "string \<Rightarrow> string \<Rightarrow> ConfigError option" where
  "antenna_name key type =
     demand (\<not> (type = [] \<or> length type > 20 \<or> CHR 0x22 \<in> set type \<or> CHR '','' \<in> set type)) key"

definition ntrip_text :: "string \<Rightarrow> string \<Rightarrow> nat \<Rightarrow> bool \<Rightarrow> ConfigError option list" where
  "ntrip_text key v max_length is_password =
     [demand (\<not> (v = [] \<or> v = ''<?>'')) key, demand (\<not> length v > max_length) key, demand (ReceiverTextOk v is_password) key]"

definition check_ntrip :: "NtripSettings \<Rightarrow> ConfigError option list" where
  "check_ntrip n =
     (if \<not> ntrip_enabled n then []
      else ntrip_text ''receiver.ntrip.caster'' (caster n) 40 False @
        [demand (\<not> (HasWhitespace (caster n) \<or> HasWhitespace (mount_point n))) ''receiver.ntrip.caster and mount_point'',
         demand (\<not> (ntrip_port n < 1 \<or> ntrip_port n > 65535)) ''receiver.ntrip.port''] @
        ntrip_text ''receiver.ntrip.username'' (username n) 128 False @
        ntrip_text ''receiver.ntrip.password'' (ntrip_password n) 32 True @
        ntrip_text ''receiver.ntrip.mount_point'' (mount_point n) 32 False @
        [RequireEnum (ntrip_version n) kNtripVersions ''receiver.ntrip.version'',
         RequireEnum (send_gga n) kSendGga ''receiver.ntrip.send_gga_to_caster''])"

fun check_sbf_streams :: "int list \<Rightarrow> SbfStream list \<Rightarrow> ConfigError option list" where
  "check_sbf_streams ids [] = []"
| "check_sbf_streams ids (s # ss) =
     demand (sbf_id s \<notin> set ids) ''receiver.sbf_streams contains duplicate stream id'' #
     built (BuildSbfOutputCommand s ''IP10'') # check_sbf_streams (sbf_id s # ids) ss"

fun check_nmea_streams :: "int list \<Rightarrow> NmeaPinStream list \<Rightarrow> ConfigError option list" where
  "check_nmea_streams ids [] = []"
| "check_nmea_streams ids (s # ss) =
     demand (nmea_id s \<notin> set ids) ''receiver.nmea_streams contains duplicate stream id'' #
     built (BuildNmeaOutputCommand s) # check_nmea_streams (nmea_id s # ids) ss"

definition has_receiver_status :: "SbfStream list \<Rightarrow> bool" where
  "has_receiver_status ss =
     list_ex (\<lambda>s. list_ex (\<lambda>b. EqualsCi b ''ReceiverStatus'' \<or> EqualsCi b ''Status'' \<or> EqualsCi b ''Support'') (sbf_blocks s)) ss"

definition check_antenna :: "AntennaSettings \<Rightarrow> ConfigError option list" where
  "check_antenna a =
     [antenna_name ''receiver.antenna.main_antenna_type'' (main_type a),
      antenna_name ''receiver.antenna.aux_antenna_type'' (aux_type a),
      RequireRange (vec_x (lever_arm_m a)) (-100) 100 ''receiver.antenna.antenna_lever_arm_m.x'',
      RequireRange (vec_y (lever_arm_m a)) (-100) 100 ''receiver.antenna.antenna_lever_arm_m.y'',
      RequireRange (vec_z (lever_arm_m a)) (-100) 100 ''receiver.antenna.antenna_lever_arm_m.z'',
      RequireRange (heading_deg (attitude_offset_deg a)) (-360) 360 ''receiver.antenna.attitude_offset_deg.heading'',
      RequireRange (pitch_deg (attitude_offset_deg a)) (-90) 90 ''receiver.antenna.attitude_offset_deg.pitch'']"

definition check_gnss :: "GnssSettings \<Rightarrow> ConfigError option list" where
  "check_gnss g =
     [demand (\<not> (cn0_mask_dbhz g < 0 \<or> cn0_mask_dbhz g > 60)) ''receiver.gnss.cn0_mask_dbhz'',
      demand (\<not> (elevation_mask_deg g < -90 \<or> elevation_mask_deg g > 90)) ''receiver.gnss.elevation_mask_deg'',
      demand (IsValidSatelliteList (satellite_tracking g) True kGpsMaxTracking) ''receiver.gnss.satellite_tracking'',
      demand (IsValidSatelliteList (satellite_usage g) True kGpsMaxUsage) ''receiver.gnss.satellite_usage'',
      demand (IsValidSatelliteList (satellite_health_override g) True kGpsMaxTracking)
        ''receiver.gnss.satellite_health_override'',
      demand (IsValidSignalList (signal_tracking g) True) ''receiver.gnss.signal_tracking'',
      demand (IsValidSignalList (signal_usage g) False) ''receiver.gnss.signal_usage'']"

definition check_imu :: "ImuSettings \<Rightarrow> ConfigError option list" where
  "check_imu imu =
     [RequireEnum (startup_data_mode imu) kImuStartupModes ''receiver.imu.startup_data_mode'',
      RequireEnum (orientation_mode imu) kImuOrientationModes ''receiver.imu.imu_orientation.orientation_mode'',
      RequireRange (theta_x_deg imu) (-180) 180 ''receiver.imu.imu_orientation.theta_x_deg'',
      RequireRange (theta_y_deg imu) (-90) 90 ''receiver.imu.imu_orientation.theta_y_deg'',
      RequireRange (theta_z_deg imu) (-180) 180 ''receiver.imu.imu_orientation.theta_z_deg'']"

definition check_navigation :: "NavigationSettings \<Rightarrow> ConfigError option list" where
  "check_navigation nav =
     [demand (ValidPlusList (pvt_mode nav) False (InListCi kPvtModes)) ''receiver.navigation.pvt_mode'',
      RequireEnum (receiver_dynamics nav) kDynamics ''receiver.navigation.receiver_dynamics'',
      RequireEnum (vehicle_application nav) kVehicleApplications ''receiver.navigation.vehicle_application'',
      RequireEnum (clock_sync_threshold nav) kClockSyncThresholds ''receiver.navigation.clock_sync_threshold'',
      RequireEnum (ins_output_location nav) kInsOutputLocations ''receiver.navigation.ins_output_location'']"

definition check_pps :: "PpsSettings \<Rightarrow> ConfigError option list" where
  "check_pps pps =
     [RequireEnum (pps_interval pps) kPpsIntervals ''receiver.time_system.pps.interval'',
      demand (InListCi kPpsPolarities (pps_polarity pps)) ''receiver.time_system.pps.polarity'',
      RequireRange (pps_delay_ns pps) (-1000000) 1000000 ''receiver.time_system.pps.delay_ns'',
      RequireEnum (pps_time_scale pps) kTimeScales ''receiver.time_system.pps.time_scale'',
      demand (\<not> (pps_max_holdover_s pps < 0 \<or> pps_max_holdover_s pps > 3600)) ''receiver.time_system.pps.max_holdover_s'',
      RequireRange (pps_pulse_width_ms pps) (1 / 1000000) 1000 ''receiver.time_system.pps.pulse_width_ms'']"

definition ValidateReceiverSettings :: "ReceiverSettings \<Rightarrow> ConfigError option" where
  "ValidateReceiverSettings s = first_error
     (credential ''device.user'' (rx_user s) kMaxUserLength @ credential ''device.password'' (rx_password s) kMaxPasswordLength @
      [demand (\<not> EqualsCi (rx_user s) ''RxAdmin'') ''device.user must not be the reserved factory name''] @
      check_antenna (rx_antenna s) @ check_gnss (rx_gnss s) @ check_imu (rx_imu s) @
      check_navigation (rx_navigation s) @ check_pps (ts_pps (time_system s)) @ check_ntrip (rx_ntrip s) @
      [demand (\<not> warm_min_recording_s (rx_warmup s) < 0) ''receiver.warmup.min_recording_s'',
       demand (sbf_streams s \<noteq> []) ''receiver.sbf_streams must contain''] @
      check_sbf_streams [] (sbf_streams s) @
      [demand (has_receiver_status (sbf_streams s)) ''receiver.sbf_streams must include ReceiverStatus''] @
      check_nmea_streams [] (nmea_streams s))"

lemma first_error_None: "first_error es = None \<longleftrightarrow> list_all (\<lambda>e. e = None) es"
  by (induction es rule: first_error.induct) auto

lemma demand_None [simp]: "demand ok key = None \<longleftrightarrow> ok"
  by (simp add: demand_def)

lemma RequireEnum_None [simp]: "RequireEnum v names key = None \<longleftrightarrow> InListCi names v"
  by (simp add: RequireEnum_def)

end
