(* ===== verification/Receiver_Commands.thy ===== *)
theory Receiver_Commands
  imports Receiver_Settings
begin

text \<open>
  The second part of \<^verbatim>\<open>asterx_driver/src/commands.cpp\<close>: the configure sequence built from the settings, what is read out
  of the receiver's replies and listings, and the redaction of logged commands.
\<close>

section \<open>Building commands\<close>

definition OnOff :: "bool \<Rightarrow> string" where "OnOff v = (if v then ''on'' else ''off'')"

text \<open>\<^verbatim>\<open>std::fixed\<close> with a precision prints the value rounded half to even.\<close>

definition round_half_even :: "rat \<Rightarrow> int" where
  "round_half_even x =
     (let f = \<lfloor>x\<rfloor>; r = x - of_int f
      in if r < 1 / 2 then f else if r > 1 / 2 then f + 1 else if even f then f else f + 1)"

definition FmtCommandDecimal :: "rat \<Rightarrow> nat \<Rightarrow> string" where
  "FmtCommandDecimal v digits =
     (let v = (if \<bar>v\<bar> < 1 / 2 / 10 ^ digits then 0 else v);
          n = nat (round_half_even (\<bar>v\<bar> * 10 ^ digits))
      in (if v < 0 then ''-'' else []) @ nat_text (n div 10 ^ digits) @
         (if digits = 0 then [] else CHR ''.'' # pad_zeros digits (nat_text (n mod 10 ^ digits))))"

definition quoted :: "string \<Rightarrow> string" where "quoted s = CHR 0x22 # s @ [CHR 0x22]"

definition QuoteIfWhitespace :: "string \<Rightarrow> string" where
  "QuoteIfWhitespace s = (if HasWhitespace s then quoted s else s)"

definition SetVec3Command :: "string \<Rightarrow> Vec3 \<Rightarrow> string" where
  "SetVec3Command name v =
     commas [name, FmtCommandDecimal (vec_x v) 3, FmtCommandDecimal (vec_y v) 3, FmtCommandDecimal (vec_z v) 3]"

definition BuildInsAntLeverArmCommand :: "Vec3 \<Rightarrow> string" where
  "BuildInsAntLeverArmCommand v = SetVec3Command ''setINSAntLeverArm'' v"

definition BuildImuOrientationCommand :: "ImuSettings \<Rightarrow> string" where
  "BuildImuOrientationCommand imu =
     (if EqualsCi (orientation_mode imu) ''SensorDefault'' then ''setIMUOrientation, SensorDefault''
      else commas [''setIMUOrientation'', orientation_mode imu, FmtCommandDecimal (theta_x_deg imu) 3,
             FmtCommandDecimal (theta_y_deg imu) 3, FmtCommandDecimal (theta_z_deg imu) 3])"

definition BuildAntennaTypeCommand :: "string \<Rightarrow> string \<Rightarrow> string" where
  "BuildAntennaTypeCommand which type = commas [''setAntennaType'', which, QuoteIfWhitespace type]"

definition BuildPpsCommand :: "PpsSettings \<Rightarrow> string" where
  "BuildPpsCommand pps =
     commas [''setPPSParameters'', pps_interval pps, pps_polarity pps, FmtCommandDecimal (pps_delay_ns pps) 2,
       pps_time_scale pps, int_text (pps_max_holdover_s pps), FmtCommandDecimal (pps_pulse_width_ms pps) 6]"

definition escape_char :: "char \<Rightarrow> string" where
  "escape_char c =
     (if c = CHR 0x22 then ''%%DQ'' else if c = CHR 0x27 then ''%%SQ'' else if c = CHR ''$'' then ''%%DL''
      else if c = CHR ''&'' then ''%%AM'' else if c = CHR '','' then ''%%CM'' else [c])"

definition EscapeNtripPassword :: "string \<Rightarrow> string" where
  "EscapeNtripPassword raw = concat (map escape_char raw)"

definition ntrip_fields :: "NtripSettings \<Rightarrow> string list" where
  "ntrip_fields n =
     [''setNtripSettings'', ''NTR1'', ''Client'', caster n, int_text (ntrip_port n), QuoteIfWhitespace (username n),
      QuoteIfWhitespace (EscapeNtripPassword (ntrip_password n)), mount_point n, ntrip_version n, send_gga n]"

definition BuildNtripCommands :: "NtripSettings \<Rightarrow> ConfigError + string list" where
  "BuildNtripCommands n =
     (if \<not> ntrip_enabled n then Inr [''setNtripSettings, NTR1, off'']
      else bindE (EnforceCommandLength (commas (ntrip_fields n)))
             (\<lambda>settings. Inr [settings, commas [''setNtripTlsSettings'', ''NTR1'', OnOff (ntrip_tls n), quoted []]]))"

section \<open>The configure sequence\<close>

datatype CommandKind = kPlain | kCheckCapabilities | kListAntennaInfo | kListConfig | kVerifyEcho

record Command =
  cmd_text :: string
  cmd_kind :: CommandKind
  cmd_verify_key :: string
  cmd_verify_fields :: "string list"

definition command :: "string \<Rightarrow> CommandKind \<Rightarrow> Command" where
  "command text kind = \<lparr>cmd_text = text, cmd_kind = kind, cmd_verify_key = [], cmd_verify_fields = []\<rparr>"

definition set_and_echo :: "string \<Rightarrow> string \<Rightarrow> string \<Rightarrow> string list \<Rightarrow> Command list" where
  "set_and_echo set_text get_text key expected =
     [command set_text kPlain,
      \<lparr>cmd_text = get_text, cmd_kind = kVerifyEcho, cmd_verify_key = key, cmd_verify_fields = expected\<rparr>]"

definition time_commands :: "TimeSystemSettings \<Rightarrow> Command list" where
  "time_commands ts =
     (let pps = ts_pps ts in
      set_and_echo (BuildPpsCommand pps) ''getPPSParameters'' ''PPSParameters''
        [pps_interval pps, pps_polarity pps, FmtCommandDecimal (pps_delay_ns pps) 2, pps_time_scale pps,
         int_text (pps_max_holdover_s pps), FmtCommandDecimal (pps_pulse_width_ms pps) 6] @
      set_and_echo (commas [''setNTPServer'', OnOff (ntp_server_on ts)]) ''getNTPServer'' ''NTPServer'' [OnOff (ntp_server_on ts)] @
      set_and_echo (commas [''setPTPServer'', OnOff (ptp_server ts)]) ''getPTPServer'' ''PTPServer'' [OnOff (ptp_server ts)])"

fun nmea_commands :: "string list \<Rightarrow> NmeaPinStream list \<Rightarrow> ConfigError + Command list" where
  "nmea_commands ports [] = Inr []"
| "nmea_commands ports (s # ss) =
     (let known = InListCi ports (nmea_descriptor s); stream = ''Stream'' @ int_text (nmea_id s);
          enable = (if known then []
                    else set_and_echo (commas [''setDataInOut'', nmea_descriptor s, [], ''+NMEA''])
                           (commas [''getDataInOut'', nmea_descriptor s]) ''DataInOut'' [nmea_descriptor s])
      in bindE (BuildNmeaOutputCommand s) (\<lambda>text.
         bindE (nmea_commands (if known then ports else ports @ [nmea_descriptor s]) ss) (\<lambda>rest.
         Inr (enable @ set_and_echo text (commas [''getNMEAOutput'', stream]) ''NMEAOutput''
                [stream, nmea_descriptor s, [], nmea_interval s] @ rest))))"

definition antenna_commands :: "AntennaSettings \<Rightarrow> Command list" where
  "antenna_commands a =
     (let heading = FmtCommandDecimal (heading_deg (attitude_offset_deg a)) 3;
          pitch = FmtCommandDecimal (pitch_deg (attitude_offset_deg a)) 3; v = lever_arm_m a in
      (if \<not> EqualsCi (main_type a) ''Unknown'' \<or> \<not> EqualsCi (aux_type a) ''Unknown''
       then [command ''lstAntennaInfo, Overview'' kListAntennaInfo] else []) @
      set_and_echo (BuildAntennaTypeCommand ''Main'' (main_type a)) ''getAntennaType, Main'' ''AntennaType'' [''Main'', main_type a] @
      set_and_echo (BuildAntennaTypeCommand ''Aux1'' (aux_type a)) ''getAntennaType, Aux1'' ''AntennaType'' [''Aux1'', aux_type a] @
      set_and_echo (commas [''setAttitudeOffset'', heading, pitch]) ''getAttitudeOffset'' ''AttitudeOffset'' [heading, pitch] @
      set_and_echo (BuildInsAntLeverArmCommand v) ''getINSAntLeverArm'' ''INSAntLeverArm''
        [FmtCommandDecimal (vec_x v) 3, FmtCommandDecimal (vec_y v) 3, FmtCommandDecimal (vec_z v) 3])"

definition none_or_blank :: "string \<Rightarrow> string" where
  "none_or_blank v = (if EqualsCi v ''none'' then ''none'' else [])"

definition gnss_commands :: "GnssSettings \<Rightarrow> Command list" where
  "gnss_commands g =
     (let cn0 = int_text (cn0_mask_dbhz g); elevation = int_text (elevation_mask_deg g); health = satellite_health_override g in
      set_and_echo (commas [''setCN0Mask'', ''all'', cn0]) ''getCN0Mask'' ''CN0Mask'' [[], cn0] @
      set_and_echo (commas [''setElevationMask'', ''all'', elevation]) ''getElevationMask'' ''ElevationMask'' [[], elevation] @
      set_and_echo (commas [''setSatelliteTracking'', satellite_tracking g]) ''getSatelliteTracking'' ''SatelliteTracking''
        [none_or_blank (satellite_tracking g)] @
      set_and_echo (commas [''setSatelliteUsage'', satellite_usage g]) ''getSatelliteUsage'' ''SatelliteUsage''
        [none_or_blank (satellite_usage g)] @
      set_and_echo (commas [''setSatelliteHealthOverride'', health, health]) ''getSatelliteHealthOverride''
        ''SatelliteHealthOverride'' [none_or_blank health, none_or_blank health] @
      set_and_echo (commas [''setSignalTracking'', signal_tracking g]) ''getSignalTracking'' ''SignalTracking'' [] @
      set_and_echo (commas [''setSignalUsage'', signal_usage g, signal_usage g]) ''getSignalUsage'' ''SignalUsage'' [])"

definition imu_commands :: "ImuSettings \<Rightarrow> Command list" where
  "imu_commands imu =
     set_and_echo (commas [''setIMUStartupDataMode'', startup_data_mode imu]) ''getIMUStartupDataMode''
       ''IMUStartupDataMode'' [startup_data_mode imu] @
     set_and_echo (BuildImuOrientationCommand imu) ''getIMUOrientation'' ''IMUOrientation''
       (if EqualsCi (orientation_mode imu) ''SensorDefault'' then [''SensorDefault'']
        else [orientation_mode imu, FmtCommandDecimal (theta_x_deg imu) 3, FmtCommandDecimal (theta_y_deg imu) 3,
              FmtCommandDecimal (theta_z_deg imu) 3])"

definition ntrip_commands :: "NtripSettings \<Rightarrow> ConfigError + Command list" where
  "ntrip_commands n =
     bindE (BuildNtripCommands n) (\<lambda>cmds. Inr
       (set_and_echo (hd cmds) ''getNtripSettings, NTR1'' ''NtripSettings''
          (if ntrip_enabled n
           then [''NTR1'', ''Client'', caster n, int_text (ntrip_port n), username n, [], mount_point n, ntrip_version n, send_gga n]
           else [''NTR1'', ''off'']) @
        (if length cmds > 1
         then set_and_echo (cmds ! 1) ''getNtripTlsSettings, NTR1'' ''NtripTlsSettings'' [''NTR1'', OnOff (ntrip_tls n)]
         else [])))"

definition navigation_commands :: "NavigationSettings \<Rightarrow> Command list" where
  "navigation_commands nav =
     (let mitigation = OnOff (multipath_mitigation nav) in
      set_and_echo (commas [''setPVTMode'', ''Rover'', pvt_mode nav]) ''getPVTMode'' ''PVTMode'' [''Rover''] @
      set_and_echo (commas [''setReceiverDynamics'', receiver_dynamics nav]) ''getReceiverDynamics'' ''ReceiverDynamics''
        [receiver_dynamics nav] @
      set_and_echo (commas [''setVehicleApplication'', vehicle_application nav]) ''getVehicleApplication''
        ''VehicleApplication'' [vehicle_application nav] @
      set_and_echo (commas [''setClockSyncThreshold'', clock_sync_threshold nav]) ''getClockSyncThreshold''
        ''ClockSyncThreshold'' [clock_sync_threshold nav] @
      set_and_echo (commas [''setMultipathMitigation'', mitigation, mitigation]) ''getMultipathMitigation''
        ''MultipathMitigation'' [mitigation, mitigation] @
      set_and_echo (commas [''setINSNavConfig'', ''on'', ''all'', ins_output_location nav]) ''getINSNavConfig''
        ''INSNavConfig'' [''on'', [], ins_output_location nav])"

fun sbf_commands :: "string \<Rightarrow> SbfStream list \<Rightarrow> ConfigError + Command list" where
  "sbf_commands descriptor [] = Inr []"
| "sbf_commands descriptor (s # ss) =
     (let stream = ''Stream'' @ int_text (sbf_id s)
      in bindE (BuildSbfOutputCommand s descriptor) (\<lambda>text.
         bindE (sbf_commands descriptor ss) (\<lambda>rest.
         Inr (set_and_echo text (commas [''getSBFOutput'', stream]) ''SBFOutput'' [stream, descriptor, [], sbf_interval s] @ rest))))"

definition BuildCommandList :: "ReceiverSettings \<Rightarrow> string \<Rightarrow> ConfigError + Command list" where
  "BuildCommandList s descriptor =
     (if \<not> EnforceDescriptor descriptor then Inl ''invalid connection descriptor''
      else bindE (nmea_commands [] (nmea_streams s)) (\<lambda>nmea.
           bindE (ntrip_commands (rx_ntrip s)) (\<lambda>ntrip.
           bindE (sbf_commands descriptor (sbf_streams s)) (\<lambda>sbf. Inr
             ([command (commas [''login'', rx_user s, rx_password s]) kPlain,
               command ''exeCopyConfigFile, Boot, Current'' kPlain,
               command ''getReceiverCapabilities'' kCheckCapabilities] @
              time_commands (time_system s) @ nmea @ antenna_commands (rx_antenna s) @ gnss_commands (rx_gnss s) @
              imu_commands (rx_imu s) @
              set_and_echo ''setGNSSAttitude, MultiAntenna'' ''getGNSSAttitude'' ''GNSSAttitude'' [''MultiAntenna''] @
              ntrip @ navigation_commands (rx_navigation s) @
              set_and_echo (commas [''setDataInOut'', descriptor, [], ''+SBF'']) (commas [''getDataInOut'', descriptor])
                ''DataInOut'' [descriptor] @
              [command ''lstConfigFile, Current'' kListConfig] @ sbf)))))"

section \<open>Listings\<close>

definition CommandNameOf :: "string \<Rightarrow> string" where
  "CommandNameOf line =
     (let s = Trim line;
          s = (if length s \<ge> 3 \<and> take 2 s = ''$R'' then Trim (drop 3 s) else s);
          s = (if s \<noteq> [] \<and> hd s = CHR ''#'' then Trim (tl s) else s)
      in takeWhile (\<lambda>c. c \<notin> set [CHR '','', CHR '' '', CHR 0x09, CHR '':'']) s)"

record ConfigLine =
  cl_permanent :: bool
  cl_command_name :: string
  cl_full_line :: string

definition config_line :: "string \<Rightarrow> ConfigLine list" where
  "config_line raw =
     (let line = Trim raw
      in if line = [] \<or> hd line = CHR ''$'' \<or> CommandNameOf line = [] then []
         else [\<lparr>cl_permanent = hd line = CHR ''#'', cl_command_name = CommandNameOf line, cl_full_line = line\<rparr>])"

definition ParseConfigFileListing :: "string \<Rightarrow> ConfigLine list" where
  "ParseConfigFileListing text = concat (map config_line (getlines text CHR 0x0A))"

fun add_names :: "string list \<Rightarrow> Command list \<Rightarrow> string list" where
  "add_names names [] = names"
| "add_names names (c # cs) =
     (let name = CommandNameOf (cmd_text c)
      in if \<not> StartsWithCi name ''set'' then add_names names cs
         else add_names (if InListCi names name then names else names @ [name]) cs)"

definition DriverCommandWhitelist :: "Command list \<Rightarrow> string list" where
  "DriverCommandWhitelist cmds = add_names [''setUserAccessLevel''] cmds"

text \<open>Only the remote credential is masked, line by line.\<close>

definition RedactLine :: "string \<Rightarrow> string" where
  "RedactLine cmd =
     (let body = Trim cmd;
          (prefix, body) = (if length body \<ge> 3 \<and> take 2 body = ''$R'' then (take 3 body @ '' '', Trim (drop 3 body)) else ([], body));
          (prefix, body) = (if body \<noteq> [] \<and> hd body = CHR ''#'' then (prefix @ ''#'', Trim (tl body)) else (prefix, body));
          fields = SplitTrim body CHR '',''
      in if length fields \<ge> 7 \<and> (EqualsCi (fields ! 0) ''setNtripSettings'' \<or> EqualsCi (fields ! 0) ''NtripSettings'' \<or>
              EqualsCi (fields ! 0) ''snts'')
         then prefix @ commas (fields[6 := ''<REDACTED>'']) else cmd)"

definition RedactCmd :: "string \<Rightarrow> string" where
  "RedactCmd cmd =
     (if CHR 0x0A \<in> set cmd then Join (map RedactLine (Split cmd CHR 0x0A)) CHR 0x0A else RedactLine cmd)"

definition VerifyConfigListing :: "ConfigLine list \<Rightarrow> string list \<Rightarrow> ConfigError option" where
  "VerifyConfigListing lines whitelist =
     (let foreign = filter (\<lambda>l. \<not> cl_permanent l \<and> \<not> InListCi whitelist (cl_command_name l)) lines
      in if foreign = [] then None
         else Some (''foreign command(s): '' @ Join (map (RedactCmd \<circ> cl_full_line) foreign) CHR '';''))"

section \<open>Antennas and capabilities\<close>

lemma find_text_length: "find_text pat s = Some (a, b) \<Longrightarrow> length b + length pat \<le> length s"
proof (induction s arbitrary: a)
  case (Cons c s)
  show ?case
  proof (cases "take (length pat) (c # s) = pat")
    case True
    then have "length pat \<le> length (c # s)" by (metis length_take min.cobounded1)
    then show ?thesis using Cons.prems True by auto
  qed (use Cons in \<open>auto split: if_splits\<close>)
qed (auto split: if_splits)

definition kMarker :: string where "kMarker = ''ID='' @ [CHR 0x22]"

function ParseAntennaOverview :: "string \<Rightarrow> string list" where
  "ParseAntennaOverview text =
     (case find_text kMarker text of
        None \<Rightarrow> []
      | Some (_, rest) \<Rightarrow>
          (if CHR 0x22 \<notin> set rest then []
           else takeWhile (\<lambda>c. c \<noteq> CHR 0x22) rest # ParseAntennaOverview (tl (dropWhile (\<lambda>c. c \<noteq> CHR 0x22) rest))))"
  by pat_completeness auto
termination
proof (relation "measure length", simp)
  fix s :: string and p a b
  assume "find_text kMarker s = Some p" "(a, b) = p"
  then have "length b + 4 \<le> length s" using find_text_length [of kMarker s a b] by (simp add: kMarker_def)
  moreover have "length (tl (dropWhile (\<lambda>c. c \<noteq> CHR 0x22) b)) \<le> length b"
    using length_dropWhile_le [of "\<lambda>c. c \<noteq> CHR 0x22" b] by simp
  ultimately show "(tl (dropWhile (\<lambda>c. c \<noteq> CHR 0x22) b), s) \<in> measure length" by simp
qed

declare ParseAntennaOverview.simps [simp del]

definition suggest_antenna_names :: "string list \<Rightarrow> string \<Rightarrow> nat \<Rightarrow> string list" where
  "suggest_antenna_names ids name max_names =
     (let prefix = take 4 (ToLower (Trim name))
      in if prefix = [] then []
         else take max_names (filter (\<lambda>id. take (length prefix) (ToLower id) = prefix) ids))"

definition known_antenna :: "string list \<Rightarrow> string \<Rightarrow> bool" where
  "known_antenna ids type \<longleftrightarrow> EqualsCi type ''Unknown'' \<or> type \<in> set ids"

definition VerifyAntennaTypes :: "string list \<Rightarrow> AntennaSettings \<Rightarrow> ConfigError option" where
  "VerifyAntennaTypes ids antenna = first_error
     [demand (known_antenna ids (main_type antenna)) ''receiver.antenna.main_antenna_type'',
      demand (known_antenna ids (aux_type antenna)) ''receiver.antenna.aux_antenna_type'']"

definition CompactPayloadAfterKey :: "string \<Rightarrow> string \<Rightarrow> ConfigError + string" where
  "CompactPayloadAfterKey reply key =
     (case find_text (key @ '','') reply of
        None \<Rightarrow> Inl (''receiver reply did not contain '' @ key)
      | Some (_, payload) \<Rightarrow> Inr (OneLine (takeWhile (\<lambda>c. c \<noteq> CHR ''>'') payload)))"

definition ParseReceiverCapabilitiesReply :: "string \<Rightarrow> ConfigError + ReceiverCapabilities" where
  "ParseReceiverCapabilitiesReply reply =
     bindE (CompactPayloadAfterKey reply ''ReceiverCapabilities'') (\<lambda>payload.
       let fields = SplitTrim payload CHR '','' in
       if length fields < 7 then Inl ''ReceiverCapabilities reply had too few fields''
       else Inr \<lparr>has_main = list_ex (\<lambda>a. EqualsCi a ''Main'') (SplitTrim (fields ! 0) CHR ''+''),
                 has_aux1 = list_ex (\<lambda>a. EqualsCi a ''Aux1'') (SplitTrim (fields ! 0) CHR ''+'')\<rparr>)"

section \<open>Readbacks\<close>

definition Unquote :: "string \<Rightarrow> string" where
  "Unquote s =
     (let out = Trim s
      in if length out \<ge> 2 \<and> hd out = CHR 0x22 \<and> last out = CHR 0x22 then butlast (tl out) else out)"

fun find_line :: "string list \<Rightarrow> string \<Rightarrow> string option" where
  "find_line [] prefix = None"
| "find_line (l # ls) prefix =
     (let line = Trim l
      in if StartsWithCi line prefix then Some (Trim (drop (length prefix) line)) else find_line ls prefix)"

definition FindConfigLinePayload :: "string \<Rightarrow> string \<Rightarrow> ConfigError + string" where
  "FindConfigLinePayload reply key =
     (case find_line (getlines reply CHR 0x0A) (key @ '','') of
        None \<Rightarrow> Inl (''receiver reply did not contain '' @ key @ '' line: '' @ OneLine (Trim reply))
      | Some payload \<Rightarrow> Inr payload)"

fun fields_match :: "string list \<Rightarrow> string list \<Rightarrow> bool" where
  "fields_match fs [] = True"
| "fields_match [] (e # es) = False"
| "fields_match (f # fs) (e # es) = ((e = [] \<or> EqualsCi (Unquote f) e) \<and> fields_match fs es)"

definition verify_first_fields :: "string \<Rightarrow> string \<Rightarrow> string list \<Rightarrow> ConfigError + string" where
  "verify_first_fields reply key expected =
     bindE (FindConfigLinePayload reply key) (\<lambda>payload.
       let parts = SplitTrim payload CHR '','' in
       if length parts < length expected
       then Inl (key @ '' reply had '' @ nat_text (length parts) @ '' field(s), expected at least '' @
                 nat_text (length expected) @ '': '' @ OneLine (Trim reply))
       else if fields_match parts expected then Inr payload else Inl (key @ '' field reads back another value''))"

end
