(* ===== verification/Warmup_Gate.thy ===== *)
theory Warmup_Gate
  imports String_Util
begin

text \<open>
  \<^verbatim>\<open>asterx_driver/include/warmup_gate.h\<close>: when the rig may be released. Times of the steady clock are natural numbers of
  nanoseconds.
\<close>

definition FormatHms :: "u32 \<Rightarrow> string" where
  "FormatHms seconds =
     (let h = unat (seconds div 3600); m = unat ((seconds mod 3600) div 60); s = unat (seconds mod 60);
          two = (\<lambda>n. pad_zeros 2 (nat_text n))
      in if h > 0 then nat_text h @ '':'' @ two m @ '':'' @ two s else two m @ '':'' @ two s)"

definition kFineTime :: u32 where "kFineTime = 0x40"

record WarmupGate =
  min_recording_s :: int
  require_finetime :: bool
  gate_up_time_s :: "u32 option"
  finetime :: bool
  recording_started :: "nat option"

definition new_WarmupGate :: "int \<Rightarrow> bool \<Rightarrow> WarmupGate" where
  "new_WarmupGate min_s require =
     \<lparr>min_recording_s = min_s, require_finetime = require, gate_up_time_s = None, finetime = False, recording_started = None\<rparr>"

definition Observe :: "u32 \<Rightarrow> u32 \<Rightarrow> WarmupGate \<Rightarrow> bool \<times> WarmupGate" where
  "Observe up_time rx_status g =
     ((case gate_up_time_s g of None \<Rightarrow> False | Some previous \<Rightarrow> up_time < previous),
      g\<lparr>gate_up_time_s := Some up_time, finetime := (rx_status AND kFineTime) \<noteq> 0\<rparr>)"

definition StartRecording :: "nat \<Rightarrow> WarmupGate \<Rightarrow> WarmupGate" where
  "StartRecording now g = (if recording_started g = None then g\<lparr>recording_started := Some now\<rparr> else g)"

definition RecordingElapsedSeconds :: "nat \<Rightarrow> WarmupGate \<Rightarrow> u32 option" where
  "RecordingElapsedSeconds now g =
     (case recording_started g of
        None \<Rightarrow> None
      | Some start \<Rightarrow> if now < start then Some 0 else Some (word_of_nat ((now - start) div 10 ^ 9)))"

definition Ready :: "nat \<Rightarrow> WarmupGate \<Rightarrow> bool" where
  "Ready now g \<longleftrightarrow>
     (min_recording_s g \<le> 0 \<or>
      (case recording_started g of None \<Rightarrow> False | Some start \<Rightarrow> int now - int start \<ge> min_recording_s g * 10 ^ 9)) \<and>
     (\<not> require_finetime g \<or> finetime g)"

definition Progress :: "nat \<Rightarrow> WarmupGate \<Rightarrow> string" where
  "Progress now g =
     (case RecordingElapsedSeconds now g of
        None \<Rightarrow> ''waiting for first recorded SBF block''
      | Some elapsed \<Rightarrow>
          ''recorded '' @ FormatHms elapsed @
          (if min_recording_s g > 0 then '' / '' @ FormatHms (word_of_int (min_recording_s g)) else []) @
          (if require_finetime g \<and> \<not> finetime g then '', FINETIME not yet set'' else []))"

definition ResetReceiverStatus :: "WarmupGate \<Rightarrow> WarmupGate" where
  "ResetReceiverStatus g = g\<lparr>gate_up_time_s := None, finetime := False\<rparr>"

definition Reset :: "WarmupGate \<Rightarrow> WarmupGate" where
  "Reset g = ResetReceiverStatus (g\<lparr>recording_started := None\<rparr>)"

text \<open>Time alone never closes the gate, and the start of the recording is kept once it is set.\<close>

lemma Ready_mono: "\<lbrakk> Ready t g; t \<le> u \<rbrakk> \<Longrightarrow> Ready u g"
  by (auto simp: Ready_def split: option.splits)

lemma StartRecording_keeps: "recording_started g = Some t \<Longrightarrow> StartRecording u g = g"
  by (simp add: StartRecording_def)

end
