(* ===== verification/Sbf_Parsers.thy ===== *)
theory Sbf_Parsers
  imports Byte_Util
begin

text \<open>
  \<^verbatim>\<open>asterx_driver/include/sbf_types.h\<close> and \<^verbatim>\<open>src/sbf_parsers.cpp\<close>: the two receiver blocks the driver interprets. Floating
  point fields keep their bit pattern, since the parser only copies them and maps one pattern, the Do-Not-Use value, to
  NaN. A parser that returns \<open>false\<close> gives \<open>None\<close>: its callers drop what was filled in. The reader holds the bytes still
  ahead of it inside the declared size; the index of a byte in the block is the size less their number.
\<close>

section \<open>Types\<close>

type_synonym float64 = "64 word"

definition kIdReceiverStatus :: u16 where "kIdReceiverStatus = 4014"
definition kIdINSNavGeod :: u16 where "kIdINSNavGeod = 4226"
definition kIdExtEventINSNavGeod :: u16 where "kIdExtEventINSNavGeod = 4230"

definition kDnuU32 :: u32 where "kDnuU32 = 4294967295"
definition kDnuU16 :: u16 where "kDnuU16 = 65535"
definition kDnuFloat :: float32 where "kDnuFloat = 0xD09502F9"
definition kDnuDouble :: float64 where "kDnuDouble = 0xC212A05F20000000"
definition kNanF :: float32 where "kNanF = 0x7FC00000"
definition kNanD :: float64 where "kNanD = 0x7FF8000000000000"

text \<open>Only one pattern is equal to a finite number other than zero.\<close>

definition DnuToNanF :: "float32 \<Rightarrow> float32" where
  "DnuToNanF v = (if v = kDnuFloat then kNanF else v)"

definition DnuToNanD :: "float64 \<Rightarrow> float64" where
  "DnuToNanD v = (if v = kDnuDouble then kNanD else v)"

definition kGpsUtcLeapSeconds :: u64 where "kGpsUtcLeapSeconds = 18"

definition GpsToUnixNs :: "u32 \<Rightarrow> u16 \<Rightarrow> u64" where
  "GpsToUnixNs tow_ms wnc =
     (if tow_ms = kDnuU32 \<or> wnc = kDnuU16 then 0
      else 315964800 * 1000000000 + ucast tow_ms * 1000000 + ucast wnc * 604800 * 1000000000
           - kGpsUtcLeapSeconds * 1000000000)"

record BlockHeader =
  sync_1 :: u8
  sync_2 :: u8
  bh_crc :: u16
  bh_id :: u16
  bh_revision :: u8
  bh_length :: u16
  bh_tow :: u32
  bh_wnc :: u16

type_synonym floats3 = "float32 \<times> float32 \<times> float32"

record INSNavGeod =
  nav_header :: BlockHeader
  gnss_mode :: u8
  nav_error :: u8
  nav_info :: u16
  gnss_age :: u16
  nav_latitude :: float64
  nav_longitude :: float64
  nav_height :: float64
  nav_undulation :: float32
  nav_accuracy :: u16
  nav_latency :: u16
  nav_datum :: u8
  sb_list :: u16
  pos_std_dev :: floats3
  attitude :: floats3
  attitude_std_dev :: floats3
  velocity :: floats3
  velocity_std_dev :: floats3
  pos_cov :: floats3
  attitude_cov :: floats3
  velocity_cov :: floats3

record AgcState =
  frontend_id :: u8
  agc_gain :: u8
  sample_var :: u8
  blanking_stat :: u8

record ReceiverStatus =
  rs_header :: BlockHeader
  cpu_load :: u8
  ext_error :: u8
  up_time :: u32
  rx_status :: u32
  rx_error :: u32
  rs_n :: u8
  sb_length :: u8
  cmd_count :: u8
  rs_temperature :: u8
  agc_state :: "AgcState list"

section \<open>The reader\<close>

record Reader =
  sbf_rest :: bytes
  sbf_ok :: bool

definition Need :: "nat \<Rightarrow> Reader \<Rightarrow> bool \<times> Reader" where
  "Need k r = (if sbf_ok r \<and> length (sbf_rest r) < k then (False, r\<lparr>sbf_ok := False\<rparr>) else (sbf_ok r, r))"

definition rd_u8 :: "Reader \<Rightarrow> u8 \<times> Reader" where
  "rd_u8 r = (case Need 1 r of (False, r) \<Rightarrow> (0, r)
                | (True, r) \<Rightarrow> (byte_at (sbf_rest r) 0, r\<lparr>sbf_rest := drop 1 (sbf_rest r)\<rparr>))"

definition U16 :: "Reader \<Rightarrow> u16 \<times> Reader" where
  "U16 r = (case Need 2 r of (False, r) \<Rightarrow> (0, r)
              | (True, r) \<Rightarrow> (LoadLittleU16 (sbf_rest r), r\<lparr>sbf_rest := drop 2 (sbf_rest r)\<rparr>))"

definition U32 :: "Reader \<Rightarrow> u32 \<times> Reader" where
  "U32 r = (case Need 4 r of (False, r) \<Rightarrow> (0, r)
              | (True, r) \<Rightarrow> (LoadLittleU32 (sbf_rest r), r\<lparr>sbf_rest := drop 4 (sbf_rest r)\<rparr>))"

definition U64 :: "Reader \<Rightarrow> u64 \<times> Reader" where
  "U64 r = (case Need 8 r of (False, r) \<Rightarrow> (0, r)
              | (True, r) \<Rightarrow> (LoadLittleU64 (sbf_rest r), r\<lparr>sbf_rest := drop 8 (sbf_rest r)\<rparr>))"

definition F32 :: "Reader \<Rightarrow> float32 \<times> Reader" where
  "F32 r = (case U32 r of (bits, r) \<Rightarrow> (DnuToNanF bits, r))"

definition F64 :: "Reader \<Rightarrow> float64 \<times> Reader" where
  "F64 r = (case U64 r of (bits, r) \<Rightarrow> (DnuToNanD bits, r))"

definition rd_skip :: "nat \<Rightarrow> Reader \<Rightarrow> bool \<times> Reader" where
  "rd_skip k r = (case Need k r of (False, r) \<Rightarrow> (False, r)
                    | (True, r) \<Rightarrow> (True, r\<lparr>sbf_rest := drop k (sbf_rest r)\<rparr>))"

section \<open>Headers\<close>

definition ReadHeader :: "Reader \<Rightarrow> (BlockHeader \<times> Reader) option" where
  "ReadHeader r =
     (case rd_u8 r of (s1, r) \<Rightarrow>
      if s1 \<noteq> 0x24 then None
      else case rd_u8 r of (s2, r) \<Rightarrow>
      if s2 \<noteq> 0x40 then None
      else case U16 r of (crc, r) \<Rightarrow>
      case U16 r of (raw, r) \<Rightarrow>
      case U16 r of (len, r) \<Rightarrow>
      case U32 r of (tow, r) \<Rightarrow>
      case U16 r of (wnc, r) \<Rightarrow>
      if sbf_ok r
      then Some (\<lparr>sync_1 = s1, sync_2 = s2, bh_crc = crc, bh_id = raw AND 8191, bh_revision = ucast (drop_bit 13 raw),
                  bh_length = len, bh_tow = tow, bh_wnc = wnc\<rparr>, r)
      else None)"

definition kHeaderBytes :: nat where "kHeaderBytes = 14"

text \<open>The declared length bounds everything that follows: 14 bytes of the size are behind the reader.\<close>

definition ReadFrameHeader :: "bytes \<Rightarrow> (BlockHeader \<times> Reader) option" where
  "ReadFrameHeader data =
     (case ReadHeader \<lparr>sbf_rest = data, sbf_ok = True\<rparr> of
        None \<Rightarrow> None
      | Some (h, r) \<Rightarrow>
          if unat (bh_length h) < kHeaderBytes \<or> unat (bh_length h) > length data then None
          else Some (h, r\<lparr>sbf_rest := take (unat (bh_length h) - kHeaderBytes) (sbf_rest r)\<rparr>))"

definition PeekId :: "bytes \<Rightarrow> u16" where
  "PeekId data = (if length data < 6 then 0 else LoadLittleU16 (drop 4 data) AND 8191)"

definition ParseBlockHeader :: "bytes \<Rightarrow> BlockHeader option" where
  "ParseBlockHeader data = map_option fst (ReadHeader \<lparr>sbf_rest = data, sbf_ok = True\<rparr>)"

section \<open>INSNavGeod\<close>

definition read3 :: "Reader \<Rightarrow> floats3 \<times> Reader" where
  "read3 r = (case F32 r of (a, r) \<Rightarrow> case F32 r of (b, r) \<Rightarrow> case F32 r of (c, r) \<Rightarrow> ((a, b, c), r))"

definition optional_group :: "u16 \<Rightarrow> nat \<Rightarrow> Reader \<Rightarrow> floats3 \<times> Reader" where
  "optional_group list n r = (if bit list n then read3 r else ((kNanF, kNanF, kNanF), r))"

definition read_fixed_part :: "BlockHeader \<Rightarrow> Reader \<Rightarrow> INSNavGeod \<times> Reader" where
  "read_fixed_part h r =
     (case rd_u8 r of (mode, r) \<Rightarrow> case rd_u8 r of (err, r) \<Rightarrow> case U16 r of (info, r) \<Rightarrow> case U16 r of (age, r) \<Rightarrow>
      case F64 r of (lat, r) \<Rightarrow> case F64 r of (lon, r) \<Rightarrow> case F64 r of (height, r) \<Rightarrow> case F32 r of (und, r) \<Rightarrow>
      case U16 r of (acc, r) \<Rightarrow> case U16 r of (latency, r) \<Rightarrow> case rd_u8 r of (datum, r) \<Rightarrow>
      case rd_skip 1 r of (_, r) \<Rightarrow> case U16 r of (list, r) \<Rightarrow>
      let nan = (kNanF, kNanF, kNanF) in
      (\<lparr>nav_header = h, gnss_mode = mode, nav_error = err, nav_info = info, gnss_age = age, nav_latitude = lat,
        nav_longitude = lon, nav_height = height, nav_undulation = und, nav_accuracy = acc, nav_latency = latency,
        nav_datum = datum, sb_list = list, pos_std_dev = nan, attitude = nan, attitude_std_dev = nan, velocity = nan,
        velocity_std_dev = nan, pos_cov = nan, attitude_cov = nan, velocity_cov = nan\<rparr>, r))"

definition read_groups :: "INSNavGeod \<Rightarrow> Reader \<Rightarrow> INSNavGeod \<times> Reader" where
  "read_groups m r =
     (case optional_group (sb_list m) 0 r of (g0, r) \<Rightarrow> case optional_group (sb_list m) 1 r of (g1, r) \<Rightarrow>
      case optional_group (sb_list m) 2 r of (g2, r) \<Rightarrow> case optional_group (sb_list m) 3 r of (g3, r) \<Rightarrow>
      case optional_group (sb_list m) 4 r of (g4, r) \<Rightarrow> case optional_group (sb_list m) 5 r of (g5, r) \<Rightarrow>
      case optional_group (sb_list m) 6 r of (g6, r) \<Rightarrow> case optional_group (sb_list m) 7 r of (g7, r) \<Rightarrow>
      (m\<lparr>pos_std_dev := g0, attitude := g1, attitude_std_dev := g2, velocity := g3, velocity_std_dev := g4,
         pos_cov := g5, attitude_cov := g6, velocity_cov := g7\<rparr>, r))"

definition ParseINSNavGeod :: "bytes \<Rightarrow> INSNavGeod option" where
  "ParseINSNavGeod data =
     (case ReadFrameHeader data of
        None \<Rightarrow> None
      | Some (h, r) \<Rightarrow>
          if bh_id h \<noteq> kIdINSNavGeod \<and> bh_id h \<noteq> kIdExtEventINSNavGeod then None
          else case read_fixed_part h r of (m, r) \<Rightarrow> case read_groups m r of (m, r) \<Rightarrow>
                 if sbf_ok r then Some m else None)"

section \<open>ReceiverStatus\<close>

fun read_agc :: "nat \<Rightarrow> nat \<Rightarrow> Reader \<Rightarrow> AgcState list \<times> Reader" where
  "read_agc 0 padding r = ([], r)"
| "read_agc (Suc n) padding r =
     (case rd_u8 r of (frontend, r) \<Rightarrow> case rd_u8 r of (gain, r) \<Rightarrow> case rd_u8 r of (var, r) \<Rightarrow>
      case rd_u8 r of (blank, r) \<Rightarrow> case rd_skip padding r of (_, r) \<Rightarrow> case read_agc n padding r of (rest, r) \<Rightarrow>
      (\<lparr>frontend_id = frontend, agc_gain = gain, sample_var = var, blanking_stat = blank\<rparr> # rest, r))"

definition ParseReceiverStatus :: "bytes \<Rightarrow> ReceiverStatus option" where
  "ParseReceiverStatus data =
     (case ReadFrameHeader data of
        None \<Rightarrow> None
      | Some (h, r) \<Rightarrow>
          if bh_id h \<noteq> kIdReceiverStatus then None
          else case rd_u8 r of (cpu, r) \<Rightarrow> case rd_u8 r of (ext, r) \<Rightarrow> case U32 r of (up, r) \<Rightarrow>
               case U32 r of (status, r) \<Rightarrow> case U32 r of (err, r) \<Rightarrow> case rd_u8 r of (n, r) \<Rightarrow>
               case rd_u8 r of (sbl, r) \<Rightarrow> case rd_u8 r of (cmds, r) \<Rightarrow> case rd_u8 r of (temp, r) \<Rightarrow>
               if \<not> sbf_ok r then None
               else if n > 0 \<and> sbl < 4 then None
               else case read_agc (unat n) (unat sbl - 4) r of (agc, r) \<Rightarrow>
                    if sbf_ok r
                    then Some \<lparr>rs_header = h, cpu_load = cpu, ext_error = ext, up_time = up, rx_status = status,
                               rx_error = err, rs_n = n, sb_length = sbl, cmd_count = cmds, rs_temperature = temp,
                               agc_state = agc\<rparr>
                    else None)"

section \<open>Reading what was laid out\<close>

text \<open>Reading back stored bytes: \<open>at xs r\<close> is a reader that is fine and has \<open>xs\<close> ahead of it.\<close>

abbreviation ahead :: "bytes \<Rightarrow> Reader" where "ahead xs \<equiv> \<lparr>sbf_rest = xs, sbf_ok = True\<rparr>"

definition le16 :: "u16 \<Rightarrow> bytes" where "le16 v = [ucast v, ucast (drop_bit 8 v)]"
definition le32 :: "u32 \<Rightarrow> bytes" where "le32 v = [ucast v, ucast (drop_bit 8 v), ucast (drop_bit 16 v), ucast (drop_bit 24 v)]"
definition le64 :: "u64 \<Rightarrow> bytes" where "le64 v = le32 (ucast v) @ le32 (ucast (drop_bit 32 v))"

lemma Load_le16 [simp]: "LoadLittleU16 (le16 v @ xs) = v"
  unfolding LoadLittleU16_def le16_def by (rule bit_word_eqI) (auto simp: bit_simps)

lemma Load_le32 [simp]: "LoadLittleU32 (le32 v @ xs) = v"
  using join_u32 [of v] unfolding LoadLittleU32_def le32_def by (simp add: or.commute or.left_commute or.assoc)

lemma join_u64: "ucast (ucast v :: u32) OR push_bit 32 (ucast (ucast (drop_bit 32 v) :: u32)) = (v :: u64)"
  by (rule bit_word_eqI) (auto simp: bit_simps)

lemma length_le [simp]: "length (le16 v) = 2" "length (le32 w) = 4" "length (le64 x) = 8"
  by (simp_all add: le16_def le32_def le64_def)

lemma Load_le64 [simp]: "LoadLittleU64 (le64 v @ xs) = v"
  by (simp add: LoadLittleU64_def le64_def join_u64)

lemma reads_ahead [simp]:
  "rd_u8 (ahead (b # xs)) = (b, ahead xs)" "U16 (ahead (le16 v @ xs)) = (v, ahead xs)"
  "U32 (ahead (le32 w @ xs)) = (w, ahead xs)" "U64 (ahead (le64 x @ xs)) = (x, ahead xs)"
  "length ys = k \<Longrightarrow> rd_skip k (ahead (ys @ xs)) = (True, ahead xs)"
  by (simp_all add: rd_u8_def U16_def U32_def U64_def rd_skip_def Need_def)

lemma floats_ahead [simp]:
  "w \<noteq> kDnuFloat \<Longrightarrow> F32 (ahead (le32 w @ xs)) = (w, ahead xs)"
  "x \<noteq> kDnuDouble \<Longrightarrow> F64 (ahead (le64 x @ xs)) = (x, ahead xs)"
  by (simp_all add: F32_def F64_def DnuToNanF_def DnuToNanD_def)

text \<open>A reader that is fine after a read was fine before it and had enough ahead.\<close>

definition moved :: "nat \<Rightarrow> Reader \<Rightarrow> Reader \<Rightarrow> bool" where
  "moved k r r' \<longleftrightarrow> (sbf_ok r' \<longrightarrow> sbf_ok r \<and> k \<le> length (sbf_rest r) \<and> r' = ahead (drop k (sbf_rest r)))"

lemma moved_reads:
  "moved 1 r (snd (rd_u8 r))" "moved 2 r (snd (U16 r))" "moved 4 r (snd (U32 r))"
  by (simp_all add: moved_def rd_u8_def U16_def U32_def Need_def split: bool.split) (cases r; auto simp: Suc_le_eq)+

lemma moved_trans: "\<lbrakk> moved a r s; moved b s t \<rbrakk> \<Longrightarrow> moved (a + b) r t"
  by (auto simp: moved_def add.commute)

definition header_at :: "bytes \<Rightarrow> BlockHeader" where
  "header_at xs = \<lparr>sync_1 = byte_at xs 0, sync_2 = byte_at xs 1, bh_crc = LoadLittleU16 (drop 2 xs),
     bh_id = LoadLittleU16 (drop 4 xs) AND 8191, bh_revision = ucast (drop_bit 13 (LoadLittleU16 (drop 4 xs))),
     bh_length = LoadLittleU16 (drop 6 xs), bh_tow = LoadLittleU32 (drop 8 xs), bh_wnc = LoadLittleU16 (drop 12 xs)\<rparr>"

lemma byte_at_drop: "byte_at (drop n xs) i = byte_at xs (n + i)"
  by (auto simp: byte_at_def)

lemma ReadHeader_ahead:
  "ReadHeader (ahead xs) =
     (if kHeaderBytes \<le> length xs \<and> byte_at xs 0 = 0x24 \<and> byte_at xs 1 = 0x40
      then Some (header_at xs, ahead (drop 14 xs)) else None)"
proof (cases "kHeaderBytes \<le> length xs")
  case True
  then have l: "14 \<le> length xs" by (simp add: kHeaderBytes_def)
  have s: "rd_u8 (ahead xs) = (byte_at xs 0, ahead (drop 1 xs))"
    "rd_u8 (ahead (drop 1 xs)) = (byte_at xs 1, ahead (drop 2 xs))"
    using l by (auto simp: rd_u8_def Need_def byte_at_drop numeral_2_eq_2)
  have s': "U16 (ahead (drop 2 xs)) = (LoadLittleU16 (drop 2 xs), ahead (drop 4 xs))"
    "U16 (ahead (drop 4 xs)) = (LoadLittleU16 (drop 4 xs), ahead (drop 6 xs))"
    "U16 (ahead (drop 6 xs)) = (LoadLittleU16 (drop 6 xs), ahead (drop 8 xs))"
    "U32 (ahead (drop 8 xs)) = (LoadLittleU32 (drop 8 xs), ahead (drop 12 xs))"
    "U16 (ahead (drop 12 xs)) = (LoadLittleU16 (drop 12 xs), ahead (drop 14 xs))"
    using l by (auto simp: U16_def U32_def Need_def)
  show ?thesis using True unfolding ReadHeader_def by (simp only: s s' prod.case header_at_def) simp
next
  case False
  have "ReadHeader (ahead xs) = None"
  proof (rule ccontr)
    assume "ReadHeader (ahead xs) \<noteq> None"
    then obtain h r where h: "ReadHeader (ahead xs) = Some (h, r)" by auto
    let ?r1 = "snd (rd_u8 (ahead xs))"
    let ?r2 = "snd (rd_u8 ?r1)" let ?r3 = "snd (U16 ?r2)" let ?r4 = "snd (U16 ?r3)" let ?r5 = "snd (U16 ?r4)"
    let ?r6 = "snd (U32 ?r5)" let ?r7 = "snd (U16 ?r6)"
    have ok: "sbf_ok ?r7" using h by (simp add: ReadHeader_def split_beta split: if_splits)
    have "moved (1 + 1 + 2 + 2 + 2 + 4 + 2) (ahead xs) ?r7"
      by (rule moved_reads moved_trans)+
    with ok False show False by (simp add: moved_def kHeaderBytes_def)
  qed
  then show ?thesis using False by simp
qed

section \<open>Properties\<close>

definition declared_length :: "bytes \<Rightarrow> nat" where
  "declared_length data = unat (LoadLittleU16 (drop 6 data))"

lemma byte_at_take': "byte_at (take n xs) i = (if i < n then byte_at xs i else 0)"
  by (simp add: byte_at_def)

lemma LoadLittle_take:
  "2 \<le> n \<Longrightarrow> LoadLittleU16 (take n p) = LoadLittleU16 p" "4 \<le> n \<Longrightarrow> LoadLittleU32 (take n p) = LoadLittleU32 p"
  by (simp_all add: LoadLittleU16_def LoadLittleU32_def byte_at_take)

lemma ReadFrameHeader_take: "ReadFrameHeader (take (declared_length data) data) = ReadFrameHeader data"
proof (cases "kHeaderBytes \<le> length data \<and> byte_at data 0 = 0x24 \<and> byte_at data 1 = 0x40 \<and>
    kHeaderBytes \<le> declared_length data \<and> declared_length data \<le> length data")
  case True
  let ?L = "declared_length data"
  have L: "14 \<le> ?L" using True by (simp add: kHeaderBytes_def)
  then have "2 \<le> ?L - 2" "2 \<le> ?L - 4" "2 \<le> ?L - 6" "4 \<le> ?L - 8" "2 \<le> ?L - 12" by linarith+
  then have h: "header_at (take ?L data) = header_at data"
    using L by (simp add: header_at_def drop_take LoadLittle_take byte_at_take')
  have l: "unat (bh_length (header_at data)) = ?L" by (simp add: header_at_def declared_length_def)
  show ?thesis
    using True h l by (simp add: ReadFrameHeader_def ReadHeader_ahead byte_at_take' kHeaderBytes_def drop_take)
next
  case False
  have l: "unat (bh_length (header_at data)) = declared_length data" by (simp add: header_at_def declared_length_def)
  have "ReadFrameHeader data = None"
    using False l by (auto simp: ReadFrameHeader_def ReadHeader_ahead not_less)
  moreover have "ReadFrameHeader (take (declared_length data) data) = None"
  proof (cases "declared_length data \<le> length data")
    case True
    then show ?thesis using False
      by (auto simp: ReadFrameHeader_def ReadHeader_ahead byte_at_take' kHeaderBytes_def)
  qed (use \<open>ReadFrameHeader data = None\<close> in simp)
  ultimately show ?thesis by simp
qed

text \<open>
  C31: a block ends where its header says: both parsers give the same answer on the block cut at its declared length,
  so neither padding nor the bytes of the next block can ever be read as a field, an optional group or a sub-block.
\<close>

theorem parsers_stop_at_declared_length:
  "ParseINSNavGeod (take (declared_length data) data) = ParseINSNavGeod data \<and>
   ParseReceiverStatus (take (declared_length data) data) = ParseReceiverStatus data"
  by (simp add: ParseINSNavGeod_def ParseReceiverStatus_def ReadFrameHeader_take)

text \<open>The layout of the two blocks.\<close>

definition print_header :: "BlockHeader \<Rightarrow> bytes" where
  "print_header h = [sync_1 h, sync_2 h] @ le16 (bh_crc h) @ le16 (bh_id h OR push_bit 13 (ucast (bh_revision h))) @
     le16 (bh_length h) @ le32 (bh_tow h) @ le16 (bh_wnc h)"

definition print3 :: "u16 \<Rightarrow> nat \<Rightarrow> floats3 \<Rightarrow> bytes" where
  "print3 list n g = (if bit list n then case g of (a, b, c) \<Rightarrow> le32 a @ le32 b @ le32 c else [])"

definition print_nav :: "INSNavGeod \<Rightarrow> bytes" where
  "print_nav m = print_header (nav_header m) @ [gnss_mode m, nav_error m] @ le16 (nav_info m) @ le16 (gnss_age m) @
     le64 (nav_latitude m) @ le64 (nav_longitude m) @ le64 (nav_height m) @ le32 (nav_undulation m) @
     le16 (nav_accuracy m) @ le16 (nav_latency m) @ [nav_datum m, 0] @ le16 (sb_list m) @
     print3 (sb_list m) 0 (pos_std_dev m) @ print3 (sb_list m) 1 (attitude m) @
     print3 (sb_list m) 2 (attitude_std_dev m) @ print3 (sb_list m) 3 (velocity m) @
     print3 (sb_list m) 4 (velocity_std_dev m) @ print3 (sb_list m) 5 (pos_cov m) @
     print3 (sb_list m) 6 (attitude_cov m) @ print3 (sb_list m) 7 (velocity_cov m)"

definition print_agc :: "nat \<Rightarrow> AgcState \<Rightarrow> bytes" where
  "print_agc padding a = [frontend_id a, agc_gain a, sample_var a, blanking_stat a] @ replicate padding 0"

definition print_status :: "ReceiverStatus \<Rightarrow> bytes" where
  "print_status m = print_header (rs_header m) @ [cpu_load m, ext_error m] @ le32 (up_time m) @ le32 (rx_status m) @
     le32 (rx_error m) @ [rs_n m, sb_length m, cmd_count m, rs_temperature m] @
     concat (map (print_agc (unat (sb_length m) - 4)) (agc_state m))"

definition header_ok :: "BlockHeader \<Rightarrow> bytes \<Rightarrow> bool" where
  "header_ok h block \<longleftrightarrow> sync_1 h = 0x24 \<and> sync_2 h = 0x40 \<and> bh_id h AND 8191 = bh_id h \<and> bh_revision h < 8 \<and>
     unat (bh_length h) = length block"

definition group_ok :: "u16 \<Rightarrow> nat \<Rightarrow> floats3 \<Rightarrow> bool" where
  "group_ok list n g \<longleftrightarrow> (if bit list n then case g of (a, b, c) \<Rightarrow> a \<noteq> kDnuFloat \<and> b \<noteq> kDnuFloat \<and> c \<noteq> kDnuFloat
     else g = (kNanF, kNanF, kNanF))"

definition nav_ok :: "INSNavGeod \<Rightarrow> bool" where
  "nav_ok m \<longleftrightarrow> header_ok (nav_header m) (print_nav m) \<and> bh_id (nav_header m) \<in> {kIdINSNavGeod, kIdExtEventINSNavGeod} \<and>
     nav_latitude m \<noteq> kDnuDouble \<and> nav_longitude m \<noteq> kDnuDouble \<and> nav_height m \<noteq> kDnuDouble \<and>
     nav_undulation m \<noteq> kDnuFloat \<and> group_ok (sb_list m) 0 (pos_std_dev m) \<and> group_ok (sb_list m) 1 (attitude m) \<and>
     group_ok (sb_list m) 2 (attitude_std_dev m) \<and> group_ok (sb_list m) 3 (velocity m) \<and>
     group_ok (sb_list m) 4 (velocity_std_dev m) \<and> group_ok (sb_list m) 5 (pos_cov m) \<and>
     group_ok (sb_list m) 6 (attitude_cov m) \<and> group_ok (sb_list m) 7 (velocity_cov m)"

definition status_ok :: "ReceiverStatus \<Rightarrow> bool" where
  "status_ok m \<longleftrightarrow> header_ok (rs_header m) (print_status m) \<and> bh_id (rs_header m) = kIdReceiverStatus \<and>
     unat (rs_n m) = length (agc_state m) \<and> (agc_state m \<noteq> [] \<longrightarrow> 4 \<le> sb_length m)"

lemma id_revision:
  assumes "i AND 8191 = (i :: u16)" "v < (8 :: u8)"
  shows "(i OR push_bit 13 (ucast v)) AND 8191 = i" "ucast (drop_bit 13 (i OR push_bit 13 (ucast v))) = v"
proof -
  have m: "x AND 8191 = take_bit 13 x" for x :: u16 by (simp add: take_bit_eq_mask mask_eq_exp_minus_1)
  have i: "bit i n \<Longrightarrow> n < 13" for n
    using assms(1) unfolding m by (metis bit_take_bit_iff)
  have v: "bit v n \<Longrightarrow> n < 3" for n
  proof (rule ccontr)
    assume b: "bit v n" "\<not> n < 3"
    have "v AND mask 3 = v" using assms(2) by (intro less_mask_eq) simp
    then have "bit (v AND mask 3) n" using b(1) by simp
    with b(2) show False by (simp add: bit_simps)
  qed
  show "(i OR push_bit 13 (ucast v)) AND 8191 = i"
    unfolding m by (rule bit_word_eqI) (auto simp: bit_simps dest: i)
  show "ucast (drop_bit 13 (i OR push_bit 13 (ucast v))) = v"
    by (rule bit_word_eqI) (auto simp: bit_simps dest: i v)
qed

lemma ReadFrameHeader_print:
  assumes "header_ok h (print_header h @ body)"
  shows "ReadFrameHeader (print_header h @ body @ padding) = Some (h, ahead body)"
proof -
  note k = assms [unfolded header_ok_def]
  have l: "length (print_header h) = 14" by (simp add: print_header_def)
  have len: "unat (bh_length h) = 14 + length body" using k by (simp add: l)
  have "ReadHeader (ahead (print_header h @ body @ padding)) = Some (h, ahead (body @ padding))"
    using k id_revision [of "bh_id h" "bh_revision h"] by (simp add: ReadHeader_def print_header_def)
  then show ?thesis by (simp add: ReadFrameHeader_def len l kHeaderBytes_def)
qed

lemma optional_group_print:
  "group_ok list n g \<Longrightarrow> optional_group list n (ahead (print3 list n g @ xs)) = (g, ahead xs)"
  by (cases g) (auto simp: optional_group_def print3_def group_ok_def read3_def)

lemma ParseINSNavGeod_print:
  assumes "nav_ok m"
  shows "ParseINSNavGeod (print_nav m @ padding) = Some m"
proof -
  note k = assms [unfolded nav_ok_def]
  define body where "body = drop 14 (print_nav m)"
  have p: "print_nav m = print_header (nav_header m) @ body"
    by (simp add: body_def print_nav_def print_header_def)
  have f: "ReadFrameHeader (print_nav m @ padding) = Some (nav_header m, ahead body)"
    using k by (simp add: p ReadFrameHeader_print)
  let ?nan = "(kNanF, kNanF, kNanF)"
  let ?m = "m\<lparr>pos_std_dev := ?nan, attitude := ?nan, attitude_std_dev := ?nan, velocity := ?nan,
      velocity_std_dev := ?nan, pos_cov := ?nan, attitude_cov := ?nan, velocity_cov := ?nan\<rparr>"
  let ?groups = "print3 (sb_list m) 0 (pos_std_dev m) @ print3 (sb_list m) 1 (attitude m) @
     print3 (sb_list m) 2 (attitude_std_dev m) @ print3 (sb_list m) 3 (velocity m) @
     print3 (sb_list m) 4 (velocity_std_dev m) @ print3 (sb_list m) 5 (pos_cov m) @
     print3 (sb_list m) 6 (attitude_cov m) @ print3 (sb_list m) 7 (velocity_cov m)"
  have skip: "rd_skip (Suc 0) (ahead (0 # xs)) = (True, ahead xs)" for xs
    using reads_ahead(5) [of "[0]" 1 xs] by simp
  have "read_fixed_part (nav_header m) (ahead body) = (?m, ahead ?groups)"
    using k by (simp add: body_def print_nav_def print_header_def read_fixed_part_def skip Let_def)
  moreover have "read_groups ?m (ahead ?groups) = (m, ahead [])"
    using k optional_group_print [where xs = "[]"] by (simp add: read_groups_def optional_group_print)
  ultimately show ?thesis using k by (auto simp: ParseINSNavGeod_def f)
qed

lemma read_agc_print:
  "read_agc (length as) padding (ahead (concat (map (print_agc padding) as) @ xs)) = (as, ahead xs)"
  by (induction as) (simp_all add: print_agc_def)

lemma ParseReceiverStatus_print:
  assumes "status_ok m"
  shows "ParseReceiverStatus (print_status m @ padding) = Some m"
proof -
  note k = assms [unfolded status_ok_def]
  define body where "body = drop 14 (print_status m)"
  have p: "print_status m = print_header (rs_header m) @ body"
    by (simp add: body_def print_status_def print_header_def)
  have f: "ReadFrameHeader (print_status m @ padding) = Some (rs_header m, ahead body)"
    using k by (simp add: p ReadFrameHeader_print)
  have "rs_n m > 0 \<longrightarrow> agc_state m \<noteq> []" using k by (metis length_0_conv unat_eq_zero word_gt_0)
  then have n: "rs_n m > 0 \<longrightarrow> \<not> sb_length m < 4" using k by (auto simp: not_less)
  show ?thesis
    using k n read_agc_print [of "agc_state m" "unat (sb_length m) - 4" "[]"]
    by (simp add: ParseReceiverStatus_def f) (simp add: body_def print_status_def print_header_def)
qed

text \<open>
  C30: the layout of the blocks: a navigation block printed field after field with the optional groups its list
  announces, and a status block with its sub-blocks at their declared size, are read back field by field whatever
  follows them; an absent group is NaN.
\<close>

theorem sbf_layout:
  assumes "nav_ok m" "status_ok s"
  shows "ParseINSNavGeod (print_nav m @ padding) = Some m \<and> ParseReceiverStatus (print_status s @ padding) = Some s"
  using ParseINSNavGeod_print [OF assms(1)] ParseReceiverStatus_print [OF assms(2)] by simp

definition sample_header :: "u16 \<Rightarrow> u16 \<Rightarrow> BlockHeader" where
  "sample_header block_id len = \<lparr>sync_1 = 0x24, sync_2 = 0x40, bh_crc = 7, bh_id = block_id, bh_revision = 1,
     bh_length = len, bh_tow = 1000, bh_wnc = 2300\<rparr>"

definition sample_nav :: INSNavGeod where
  "sample_nav = \<lparr>nav_header = sample_header 4226 68, gnss_mode = 4, nav_error = 0, nav_info = 1, gnss_age = 5,
     nav_latitude = 6, nav_longitude = 7, nav_height = 8, nav_undulation = 9, nav_accuracy = 10, nav_latency = 11,
     nav_datum = 0, sb_list = 2, pos_std_dev = (kNanF, kNanF, kNanF), attitude = (1, 2, 3),
     attitude_std_dev = (kNanF, kNanF, kNanF), velocity = (kNanF, kNanF, kNanF),
     velocity_std_dev = (kNanF, kNanF, kNanF), pos_cov = (kNanF, kNanF, kNanF),
     attitude_cov = (kNanF, kNanF, kNanF), velocity_cov = (kNanF, kNanF, kNanF)\<rparr>"

definition sample_status :: ReceiverStatus where
  "sample_status = \<lparr>rs_header = sample_header 4014 38, cpu_load = 20, ext_error = 0, up_time = 100, rx_status = 64,
     rx_error = 0, rs_n = 1, sb_length = 6, cmd_count = 3, rs_temperature = 130,
     agc_state = [\<lparr>frontend_id = 0, agc_gain = 30, sample_var = 100, blanking_stat = 0\<rparr>]\<rparr>"

theorem sbf_layout_witness:
  "ParseINSNavGeod (print_nav sample_nav @ [1, 2]) = Some sample_nav \<and>
   ParseReceiverStatus (print_status sample_status @ [1, 2]) = Some sample_status"
proof (rule sbf_layout)
  show "nav_ok sample_nav" by code_simp
  show "status_ok sample_status" by code_simp
qed

end
