(* ===== verification/Rotating_Writer.thy ===== *)
theory Rotating_Writer
  imports Prelude
begin

text \<open>
  \<^verbatim>\<open>common/include/file_writer.h\<close>, \<^verbatim>\<open>RotatingFileWriter\<close>: an output stream that moves to the next file of a sequence by
  size or by time. Every stream operation asks the environment, a function of the number of operations made so far:
  \<open>None\<close> is success, \<open>Some n\<close> an error of the stream after \<open>n\<close> bytes. A file is torn when some of what was handed to the
  stream may be missing. The hook for new files writes fixed bytes. The counters are natural numbers, and the buffer
  handed to the stream is left out.
\<close>

section \<open>State\<close>

record rw_options =
  opt_max_file_bytes :: nat
  opt_rotate_interval :: nat
  opt_precheck_size_cap :: bool
  opt_new_file :: "bytes option"

record rw_env =
  io :: "nat \<Rightarrow> nat option"
  clock :: "nat \<Rightarrow> nat"

record out_file =
  fl_data :: bytes
  fl_torn :: bool

record rotating =
  rw_opts :: rw_options
  rw_files :: "out_file list"
  rw_is_open :: bool
  rw_good :: bool
  rw_current_bytes :: nat
  rw_file_start :: nat
  rw_seq :: u32
  rw_bytes_written :: nat
  rw_records_written :: nat
  rw_files_opened :: nat
  rw_failed :: bool
  rw_calls :: nat

definition new_rotating :: "rw_options \<Rightarrow> rotating" where
  "new_rotating opts =
     \<lparr>rw_opts = opts, rw_files = [], rw_is_open = False, rw_good = True, rw_current_bytes = 0, rw_file_start = 0,
      rw_seq = 0, rw_bytes_written = 0, rw_records_written = 0, rw_files_opened = 0, rw_failed = False, rw_calls = 0\<rparr>"

section \<open>The stream\<close>

definition ask_stream :: "rw_env \<Rightarrow> rotating \<Rightarrow> nat option \<times> rotating" where
  "ask_stream env w = (io env (rw_calls w), w\<lparr>rw_calls := rw_calls w + 1\<rparr>)"

definition on_file :: "(out_file \<Rightarrow> out_file) \<Rightarrow> rotating \<Rightarrow> rotating" where
  "on_file f w = w\<lparr>rw_files := (if rw_files w = [] then [] else butlast (rw_files w) @ [f (last (rw_files w))])\<rparr>"

definition tear :: "rotating \<Rightarrow> rotating" where
  "tear w = on_file (\<lambda>f. f\<lparr>fl_torn := True\<rparr>) (w\<lparr>rw_good := False\<rparr>)"

definition stream_write :: "rw_env \<Rightarrow> bytes \<Rightarrow> rotating \<Rightarrow> rotating" where
  "stream_write env bs w =
     (if \<not> rw_good w then w
      else case ask_stream env w of
        (None, w) \<Rightarrow> on_file (\<lambda>f. f\<lparr>fl_data := fl_data f @ bs\<rparr>) w
      | (Some n, w) \<Rightarrow> tear (on_file (\<lambda>f. f\<lparr>fl_data := fl_data f @ take n bs\<rparr>) w))"

definition stream_flush :: "rw_env \<Rightarrow> rotating \<Rightarrow> rotating" where
  "stream_flush env w =
     (if \<not> rw_good w then w
      else case ask_stream env w of (None, w) \<Rightarrow> w | (Some n, w) \<Rightarrow> tear w)"

definition stream_close :: "rw_env \<Rightarrow> rotating \<Rightarrow> rotating" where
  "stream_close env w =
     (case ask_stream env w of
        (None, w) \<Rightarrow> w\<lparr>rw_is_open := False\<rparr>
      | (Some n, w) \<Rightarrow> (tear w)\<lparr>rw_is_open := False\<rparr>)"

section \<open>The rotating writer\<close>

definition CloseCurrent :: "rw_env \<Rightarrow> rotating \<Rightarrow> bool \<times> rotating" where
  "CloseCurrent env w =
     (let w = (if rw_is_open w then
                 let w = stream_flush env w;
                     w = w\<lparr>rw_failed := rw_failed w \<or> \<not> rw_good w\<rparr>;
                     w = stream_close env w
                 in w\<lparr>rw_failed := rw_failed w \<or> \<not> rw_good w\<rparr>
               else w)
      in (\<not> rw_failed w, w))"

definition open_file :: "rw_env \<Rightarrow> rotating \<Rightarrow> bool \<times> rotating" where
  "open_file env w =
     (case ask_stream env w of
        (Some n, w) \<Rightarrow> (False, w\<lparr>rw_good := False, rw_failed := True\<rparr>)
      | (None, w) \<Rightarrow>
          (True, w\<lparr>rw_files := rw_files w @ [\<lparr>fl_data = [], fl_torn = False\<rparr>], rw_is_open := True, rw_good := True,
                   rw_current_bytes := 0, rw_seq := rw_seq w + 1, rw_files_opened := rw_files_opened w + 1,
                   rw_file_start := clock env (rw_calls w)\<rparr>))"

definition new_file_hook :: "rw_env \<Rightarrow> rotating \<Rightarrow> bool \<times> rotating" where
  "new_file_hook env w =
     (case opt_new_file (rw_opts w) of
        None \<Rightarrow> (True, w)
      | Some h \<Rightarrow>
          (let w = stream_write env h w
           in if \<not> rw_good w then (False, snd (CloseCurrent env (w\<lparr>rw_failed := True\<rparr>)))
              else (True, w\<lparr>rw_current_bytes := length (fl_data (last (rw_files w)))\<rparr>)))"

definition OpenNext :: "rw_env \<Rightarrow> rotating \<Rightarrow> bool \<times> rotating" where
  "OpenNext env w =
     (case CloseCurrent env w of
        (False, w) \<Rightarrow> (False, w)
      | (True, w) \<Rightarrow> (case open_file env w of
                       (False, w) \<Rightarrow> (False, w)
                     | (True, w) \<Rightarrow> new_file_hook env w))"

definition RotateIfNeeded :: "rw_env \<Rightarrow> rotating \<Rightarrow> bool \<times> rotating" where
  "RotateIfNeeded env w =
     (let max_bytes = opt_max_file_bytes (rw_opts w); interval = opt_rotate_interval (rw_opts w);
          by_size = max_bytes > 0 \<and> rw_current_bytes w \<ge> max_bytes;
          by_time = interval > 0 \<and> clock env (rw_calls w) - rw_file_start w \<ge> interval
      in if by_size \<or> by_time then OpenNext env w else (True, w))"

text \<open>Making room before a record: with the hard cap a record that can never fit fails the writer.\<close>

definition make_room :: "rw_env \<Rightarrow> nat \<Rightarrow> rotating \<Rightarrow> bool \<times> rotating" where
  "make_room env len w =
     (let max_bytes = opt_max_file_bytes (rw_opts w)
      in if opt_precheck_size_cap (rw_opts w) \<and> max_bytes > 0 then
           (if len > max_bytes then (False, w\<lparr>rw_failed := True\<rparr>)
            else if rw_current_bytes w > max_bytes - len then OpenNext env w else (True, w))
         else (True, w))"

definition write_record :: "rw_env \<Rightarrow> bytes \<Rightarrow> rotating \<Rightarrow> bool \<times> rotating" where
  "write_record env bs w =
     (let w = stream_write env bs w
      in if \<not> rw_good w then (False, w\<lparr>rw_failed := True\<rparr>)
         else RotateIfNeeded env
                (w\<lparr>rw_current_bytes := rw_current_bytes w + length bs, rw_bytes_written := rw_bytes_written w + length bs,
                   rw_records_written := rw_records_written w + 1\<rparr>))"

definition Append :: "rw_env \<Rightarrow> bytes \<Rightarrow> rotating \<Rightarrow> bool \<times> rotating" where
  "Append env bs w =
     (if rw_failed w then (False, w)
      else case (if \<not> rw_is_open w then OpenNext env w else (True, w)) of
        (False, w) \<Rightarrow> (False, w)
      | (True, w) \<Rightarrow>
          (case make_room env (length bs) w of
             (False, w) \<Rightarrow> (False, w)
           | (True, w) \<Rightarrow> write_record env bs w))"

definition Close :: "rw_env \<Rightarrow> rotating \<Rightarrow> bool \<times> rotating" where
  "Close env w = CloseCurrent env w"

definition EndSegment :: "rw_env \<Rightarrow> rotating \<Rightarrow> bool \<times> rotating" where
  "EndSegment env w = CloseCurrent env w"

section \<open>What the files hold\<close>

text \<open>
  Without a hook the files are the records one after the other. The invariant for a writer that has not failed: the
  stream is good while a file is open, no file is torn, the current size is that of the last file, and no file is
  beyond the hard cap.
\<close>

definition disk :: "rotating \<Rightarrow> bytes" where
  "disk w = concat (map fl_data (rw_files w))"

definition capped :: "rotating \<Rightarrow> bool" where
  "capped w \<longleftrightarrow> (opt_precheck_size_cap (rw_opts w) \<and> opt_max_file_bytes (rw_opts w) > 0 \<longrightarrow>
     (\<forall>f \<in> set (rw_files w). length (fl_data f) \<le> opt_max_file_bytes (rw_opts w)))"

definition rw_inv :: "rotating \<Rightarrow> bool" where
  "rw_inv w \<longleftrightarrow> opt_new_file (rw_opts w) = None \<and> capped w \<and>
     (\<not> rw_failed w \<longrightarrow> (\<forall>f \<in> set (rw_files w). \<not> fl_torn f) \<and>
        (rw_is_open w \<longrightarrow> rw_good w \<and> rw_files w \<noteq> [] \<and> rw_current_bytes w = length (fl_data (last (rw_files w)))))"

lemma rw_inv_new: "opt_new_file opts = None \<Longrightarrow> rw_inv (new_rotating opts)"
  by (simp add: rw_inv_def new_rotating_def capped_def)

lemma map_but_last: "xs \<noteq> [] \<Longrightarrow> map f (butlast xs) @ [f (last xs)] = map f xs"
  by (metis append_butlast_last_id list.simps(8,9) map_append)

lemma on_file_simps [simp]:
  "rw_opts (on_file f w) = rw_opts w" "rw_is_open (on_file f w) = rw_is_open w" "rw_good (on_file f w) = rw_good w"
  "rw_failed (on_file f w) = rw_failed w" "rw_current_bytes (on_file f w) = rw_current_bytes w"
  "rw_calls (on_file f w) = rw_calls w" "rw_files (on_file f w) = [] \<longleftrightarrow> rw_files w = []"
  "rw_records_written (on_file f w) = rw_records_written w" "rw_bytes_written (on_file f w) = rw_bytes_written w"
  by (simp_all add: on_file_def)

lemma tear_simps [simp]:
  "rw_opts (tear w) = rw_opts w" "rw_is_open (tear w) = rw_is_open w" "\<not> rw_good (tear w)"
  "rw_failed (tear w) = rw_failed w" "map fl_data (rw_files (tear w)) = map fl_data (rw_files w)"
  "rw_files (tear w) = [] \<longleftrightarrow> rw_files w = []" "rw_records_written (tear w) = rw_records_written w"
  "rw_bytes_written (tear w) = rw_bytes_written w"
  by (simp_all add: tear_def) (simp add: on_file_def map_but_last)

lemma capped_cong: "\<lbrakk> map fl_data (rw_files b) = map fl_data (rw_files a); rw_opts b = rw_opts a \<rbrakk> \<Longrightarrow> capped b = capped a"
proof -
  assume m: "map fl_data (rw_files b) = map fl_data (rw_files a)" and o: "rw_opts b = rw_opts a"
  have "fl_data ` set (rw_files b) = fl_data ` set (rw_files a)" using arg_cong [OF m, of set] by simp
  then have "(\<forall>d \<in> fl_data ` set (rw_files b). length d \<le> n) = (\<forall>d \<in> fl_data ` set (rw_files a). length d \<le> n)" for n by simp
  then show ?thesis by (simp add: capped_def o)
qed

text \<open>Closing changes no data.\<close>

lemma CloseCurrent_effect:
  assumes "CloseCurrent env w = (ok, w')"
  shows "map fl_data (rw_files w') = map fl_data (rw_files w)" "rw_opts w' = rw_opts w" "ok = (\<not> rw_failed w')"
    "\<not> rw_is_open w'" "rw_failed w \<Longrightarrow> rw_failed w'" "ok \<Longrightarrow> rw_files w' = rw_files w"
    "rw_records_written w' = rw_records_written w" "rw_bytes_written w' = rw_bytes_written w"
  using assms
  by (auto simp: CloseCurrent_def Let_def stream_flush_def stream_close_def ask_stream_def
      split: if_splits option.splits prod.splits)

lemma CloseCurrent_inv:
  assumes "rw_inv w" "CloseCurrent env w = (ok, w')"
  shows "rw_inv w'" "disk w' = disk w"
proof -
  note e = CloseCurrent_effect [OF assms(2)]
  show "disk w' = disk w" by (simp add: disk_def e(1))
  show "rw_inv w'"
    using assms(1) e capped_cong [OF e(1,2)] by (auto simp: rw_inv_def)
qed

lemma OpenNext_inv:
  assumes "rw_inv w" "OpenNext env w = (ok, w')"
  shows "rw_inv w'" "disk w' = disk w" "ok = (\<not> rw_failed w')" "rw_opts w' = rw_opts w"
    "ok \<Longrightarrow> rw_is_open w' \<and> rw_current_bytes w' = 0"
    "rw_records_written w' = rw_records_written w" "rw_bytes_written w' = rw_bytes_written w"
proof -
  obtain b x where c: "CloseCurrent env w = (b, x)" by fastforce
  note e = CloseCurrent_effect [OF c] and i = CloseCurrent_inv [OF assms(1) c]
  have h: "opt_new_file (rw_opts x) = None" using i(1) by (simp add: rw_inv_def)
  show "rw_inv w'" "disk w' = disk w" "ok = (\<not> rw_failed w')" "rw_opts w' = rw_opts w"
    "ok \<Longrightarrow> rw_is_open w' \<and> rw_current_bytes w' = 0"
    "rw_records_written w' = rw_records_written w" "rw_bytes_written w' = rw_bytes_written w"
    using assms(2) c e(2,3,7,8) i h
    by (auto simp: OpenNext_def open_file_def ask_stream_def new_file_hook_def rw_inv_def capped_def disk_def
        split: bool.splits option.splits)
qed

lemma room_effect:
  assumes "rw_inv w" "\<not> rw_failed w" "rw_is_open w" "make_room env len w = (ok, w')"
  shows "rw_inv w'" "disk w' = disk w" "ok = (\<not> rw_failed w')" "rw_opts w' = rw_opts w" "ok \<Longrightarrow> rw_is_open w'"
    "ok \<Longrightarrow> opt_precheck_size_cap (rw_opts w) \<and> opt_max_file_bytes (rw_opts w) > 0 \<Longrightarrow>
       rw_current_bytes w' + len \<le> opt_max_file_bytes (rw_opts w)"
    "rw_records_written w' = rw_records_written w"
  using assms OpenNext_inv [OF assms(1)]
  by (auto simp: make_room_def Let_def rw_inv_def capped_def disk_def split: if_splits)

lemma write_effect:
  assumes "rw_inv w" "\<not> rw_failed w" "rw_is_open w" "write_record env bs w = (ok, w')"
    and "opt_precheck_size_cap (rw_opts w) \<and> opt_max_file_bytes (rw_opts w) > 0 \<Longrightarrow>
           rw_current_bytes w + length bs \<le> opt_max_file_bytes (rw_opts w)"
  shows "rw_inv w'" "ok = (\<not> rw_failed w')" "rw_opts w' = rw_opts w" "\<exists>n. disk w' = disk w @ take n bs"
    "ok \<Longrightarrow> disk w' = disk w @ bs \<and> rw_records_written w' = rw_records_written w + 1"
proof -
  have s: "rw_good w" "rw_files w \<noteq> []" "rw_current_bytes w = length (fl_data (last (rw_files w)))"
    using assms(1-3) by (simp_all add: rw_inv_def)
  define fs f where "fs = butlast (rw_files w)" and "f = last (rw_files w)"
  have l: "rw_files w = fs @ [f]" using s(2) by (simp add: fs_def f_def)
  note defs = write_record_def stream_write_def ask_stream_def on_file_def tear_def Let_def
  have "rw_inv w' \<and> ok = (\<not> rw_failed w') \<and> rw_opts w' = rw_opts w \<and> (\<exists>n. disk w' = disk w @ take n bs) \<and>
      (ok \<longrightarrow> disk w' = disk w @ bs \<and> rw_records_written w' = rw_records_written w + 1)"
  proof (cases "io env (rw_calls w)")
    case (Some n)
    have "length (fl_data f) + min (length bs) n \<le> m" if "length (fl_data f) + length bs \<le> m" for m using that by simp
    then show ?thesis
      using Some s assms l by (auto simp: defs rw_inv_def capped_def disk_def)
  next
    case None
    define x where "x = w\<lparr>rw_calls := rw_calls w + 1, rw_files := fs @ [f\<lparr>fl_data := fl_data f @ bs\<rparr>],
      rw_current_bytes := rw_current_bytes w + length bs, rw_bytes_written := rw_bytes_written w + length bs,
      rw_records_written := rw_records_written w + 1\<rparr>"
    have w': "RotateIfNeeded env x = (ok, w')"
      using None s(1) l assms(4) by (simp add: defs x_def)
    have x: "rw_inv x" "disk x = disk w @ bs" "rw_records_written x = rw_records_written w + 1" "\<not> rw_failed x"
        "rw_opts x = rw_opts w"
      using s assms(1,2,5) l by (auto simp: x_def rw_inv_def capped_def disk_def)
    show ?thesis
    proof (cases "OpenNext env x = (ok, w')")
      case True
      from OpenNext_inv [OF x(1) this] x show ?thesis by (auto intro: exI [of _ "length bs"])
    next
      case False
      then have "ok" "w' = x" using w' by (auto simp: RotateIfNeeded_def Let_def split: if_splits)
      then show ?thesis using x by (auto intro: exI [of _ "length bs"])
    qed
  qed
  then show "rw_inv w'" "ok = (\<not> rw_failed w')" "rw_opts w' = rw_opts w" "\<exists>n. disk w' = disk w @ take n bs"
    "ok \<Longrightarrow> disk w' = disk w @ bs \<and> rw_records_written w' = rw_records_written w + 1" by blast+
qed

text \<open>One record: it is on the file when the answer is yes, and otherwise the writer has failed for good.\<close>

lemma Append_effect:
  assumes "rw_inv w" "Append env bs w = (ok, w')"
  shows "rw_inv w'" "ok = (\<not> rw_failed w')" "rw_opts w' = rw_opts w" "\<exists>n. disk w' = disk w @ take n bs"
    "ok \<Longrightarrow> disk w' = disk w @ bs \<and> rw_records_written w' = rw_records_written w + 1" "rw_failed w \<Longrightarrow> w' = w"
proof -
  have "rw_inv w' \<and> ok = (\<not> rw_failed w') \<and> rw_opts w' = rw_opts w \<and> (\<exists>n. disk w' = disk w @ take n bs) \<and>
      (ok \<longrightarrow> disk w' = disk w @ bs \<and> rw_records_written w' = rw_records_written w + 1)"
  proof (cases "rw_failed w")
    case True
    then show ?thesis using assms by (auto simp: Append_def intro: exI [of _ 0])
  next
    case False
    obtain a x where o: "(if \<not> rw_is_open w then OpenNext env w else (True, w)) = (a, x)" by fastforce
    have x: "rw_inv x" "disk x = disk w" "a = (\<not> rw_failed x)" "rw_opts x = rw_opts w" "a \<Longrightarrow> rw_is_open x"
        "rw_records_written x = rw_records_written w"
      using o False assms(1) OpenNext_inv [OF assms(1), of env a x] by (auto split: if_splits)
    show ?thesis
    proof (cases a)
      case True
      obtain b y where r: "make_room env (length bs) x = (b, y)" by fastforce
      have ax: "\<not> rw_failed x" "rw_is_open x" using x(3,5) True by simp_all
      note y = room_effect [OF x(1) ax r]
      show ?thesis
      proof (cases b)
        case True
        have w: "write_record env bs y = (ok, w')" using assms(2) False o \<open>a\<close> r True by (simp add: Append_def)
        have ay: "\<not> rw_failed y" "rw_is_open y" using y(3,5) True by simp_all
        have cap: "opt_precheck_size_cap (rw_opts y) \<and> opt_max_file_bytes (rw_opts y) > 0 \<Longrightarrow>
            rw_current_bytes y + length bs \<le> opt_max_file_bytes (rw_opts y)" using y(4,6) True by simp
        from write_effect [OF y(1) ay w cap] show ?thesis using x y by auto
      next
        case b: False
        then have "ok = False" "w' = y" using assms(2) False o \<open>a\<close> r by (simp_all add: Append_def)
        then show ?thesis using x y b by (auto intro: exI [of _ 0])
      qed
    next
      case a: False
      then have "ok = False" "w' = x" using assms(2) False o by (simp_all add: Append_def)
      then show ?thesis using x a by (auto intro: exI [of _ 0])
    qed
  qed
  then show "rw_inv w'" "ok = (\<not> rw_failed w')" "rw_opts w' = rw_opts w" "\<exists>n. disk w' = disk w @ take n bs"
    "ok \<Longrightarrow> disk w' = disk w @ bs \<and> rw_records_written w' = rw_records_written w + 1" by blast+
  show "rw_failed w \<Longrightarrow> w' = w" using assms(2) by (simp add: Append_def)
qed

end
