(* ===== verification/Sbf_Write_Queue.thy ===== *)
theory Sbf_Write_Queue
  imports Rotating_Writer Machines
begin

text \<open>
  \<^verbatim>\<open>asterx_driver/src/sbf_write_queue.cpp\<close> and \<^verbatim>\<open>sbf_writer.cpp\<close>: the byte-bounded queue between the socket reader and
  the disk. The owner calls \<open>Start\<close>, \<open>Enqueue\<close> and \<open>Close\<close>; the writer thread moves between them, one step per critical
  section. \<open>Close\<close> joins the thread, which then runs to its end. The failure callback is a count. The byte counts are
  natural numbers: the budget is far below the width of the counters.
\<close>

section \<open>The writer of one session\<close>

definition sbf_options :: "nat \<Rightarrow> nat \<Rightarrow> rw_options" where
  "sbf_options rotate_bytes rotate_interval =
     \<lparr>opt_max_file_bytes = rotate_bytes, opt_rotate_interval = rotate_interval, opt_precheck_size_cap = True,
      opt_new_file = None\<rparr>"

definition WriteBlock :: "rw_env \<Rightarrow> bytes \<Rightarrow> rotating \<Rightarrow> bool \<times> rotating" where
  "WriteBlock env block w = (if block = [] then (True, w) else Append env block w)"

section \<open>The queue\<close>

datatype sq_error = BudgetExceeded nat nat | WriteFailed | CloseFailed

datatype sq_loc = NoThread | Waiting | Holding bytes | Written bytes | Ended

record sbf_queue =
  sq_writer :: rotating
  sq_max_pending :: nat
  sq_thread :: sq_loc
  sq_queue :: "bytes list"
  sq_pending :: nat
  sq_stop :: bool
  sq_closed :: bool
  sq_error :: "sq_error option"
  sq_failed :: bool
  sq_write_failed :: bool
  sq_records_written :: nat
  sq_bytes_written :: nat
  sq_files_opened :: nat
  sq_high_water :: nat
  sq_notified :: nat

definition new_sbf_queue :: "rw_options \<Rightarrow> nat \<Rightarrow> sbf_queue" where
  "new_sbf_queue opts max_pending =
     \<lparr>sq_writer = new_rotating opts, sq_max_pending = max_pending, sq_thread = NoThread, sq_queue = [], sq_pending = 0,
      sq_stop = False, sq_closed = False, sq_error = None, sq_failed = False, sq_write_failed = False,
      sq_records_written = 0, sq_bytes_written = 0, sq_files_opened = 0, sq_high_water = 0, sq_notified = 0\<rparr>"

definition Fail :: "sq_error \<Rightarrow> bool \<Rightarrow> sbf_queue \<Rightarrow> sbf_queue" where
  "Fail e notify q =
     (if sq_failed q then q
      else q\<lparr>sq_failed := True, sq_error := Some e,
             sq_notified := (if notify then sq_notified q + 1 else sq_notified q)\<rparr>)"

definition Start :: "sbf_queue \<Rightarrow> sbf_queue" where
  "Start q = (if sq_thread q \<noteq> NoThread \<or> sq_closed q then q else q\<lparr>sq_stop := False, sq_thread := Waiting\<rparr>)"

definition Enqueue :: "bytes \<Rightarrow> sbf_queue \<Rightarrow> bool \<times> sbf_queue" where
  "Enqueue block q =
     (if block = [] then (True, q)
      else if sq_failed q then (False, q)
      else if sq_stop q \<or> sq_closed q then (False, q)
      else if sq_pending q + length block > sq_max_pending q
      then (False, Fail (BudgetExceeded (sq_pending q) (sq_max_pending q)) False q)
      else (True, q\<lparr>sq_queue := sq_queue q @ [block], sq_pending := sq_pending q + length block,
                    sq_high_water := max (sq_high_water q) (sq_pending q + length block)\<rparr>))"

definition WriteOne :: "rw_env \<Rightarrow> bytes \<Rightarrow> sbf_queue \<Rightarrow> sbf_queue" where
  "WriteOne env block q =
     (if sq_write_failed q then q
      else case WriteBlock env block (sq_writer q) of
        (False, w) \<Rightarrow> Fail WriteFailed True (q\<lparr>sq_writer := w, sq_write_failed := True\<rparr>)
      | (True, w) \<Rightarrow>
          q\<lparr>sq_writer := w, sq_records_written := rw_records_written w, sq_bytes_written := rw_bytes_written w,
            sq_files_opened := rw_files_opened w\<rparr>)"

fun writer_step :: "rw_env \<Rightarrow> sbf_queue \<Rightarrow> sbf_queue" where
  "writer_step env q =
     (case sq_thread q of
        NoThread \<Rightarrow> q
      | Ended \<Rightarrow> q
      | Waiting \<Rightarrow>
          (case sq_queue q of
             [] \<Rightarrow> (if sq_stop q then q\<lparr>sq_thread := Ended\<rparr> else q)
           | b # bs \<Rightarrow> q\<lparr>sq_queue := bs, sq_thread := Holding b\<rparr>)
      | Holding b \<Rightarrow> (WriteOne env b q)\<lparr>sq_thread := Written b\<rparr>
      | Written b \<Rightarrow> q\<lparr>sq_pending := sq_pending q - length b, sq_thread := Waiting\<rparr>)"

declare writer_step.simps [simp del]

text \<open>Once the stop flag is up the thread has at most three steps per queued block, and three more.\<close>

definition join_writer :: "rw_env \<Rightarrow> sbf_queue \<Rightarrow> sbf_queue" where
  "join_writer env q = ((writer_step env ^^ (3 * length (sq_queue q) + 3)) q)\<lparr>sq_thread := NoThread\<rparr>"

fun write_rest :: "rw_env \<Rightarrow> bytes list \<Rightarrow> sbf_queue \<Rightarrow> sbf_queue" where
  "write_rest env [] q = q"
| "write_rest env (b # bs) q = write_rest env bs (WriteOne env b q)"

definition close_writer :: "rw_env \<Rightarrow> sbf_queue \<Rightarrow> sbf_queue" where
  "close_writer env q =
     (case Rotating_Writer.Close env (sq_writer q) of
        (True, w) \<Rightarrow> q\<lparr>sq_writer := w\<rparr>
      | (False, w) \<Rightarrow> Fail CloseFailed False (q\<lparr>sq_writer := w\<rparr>))"

definition Close :: "rw_env \<Rightarrow> sbf_queue \<Rightarrow> bool \<times> sbf_queue" where
  "Close env q =
     (if sq_closed q then (\<not> sq_failed q, q)
      else
        let q = q\<lparr>sq_stop := True\<rparr>;
            q = (if sq_thread q \<noteq> NoThread then join_writer env q
                 else write_rest env (sq_queue q) (q\<lparr>sq_queue := [], sq_pending := 0\<rparr>));
            q = (close_writer env q)\<lparr>sq_closed := True\<rparr>
        in (\<not> sq_failed q, q))"

section \<open>The machine\<close>

datatype sq_op = CallStart | CallEnqueue bytes | CallClose | WriterMoves

text \<open>The second component collects the blocks that were accepted.\<close>

fun sq_step :: "rw_env \<Rightarrow> sbf_queue \<times> bytes list \<Rightarrow> sq_op \<Rightarrow> sbf_queue \<times> bytes list" where
  "sq_step env (q, acc) CallStart = (Start q, acc)"
| "sq_step env (q, acc) (CallEnqueue b) =
     (let (ok, q') = Enqueue b q in (q', if ok then acc @ [b] else acc))"
| "sq_step env (q, acc) CallClose = (snd (Close env q), acc)"
| "sq_step env (q, acc) WriterMoves = (writer_step env q, acc)"

definition in_hand :: "sbf_queue \<Rightarrow> bytes list" where
  "in_hand q = (case sq_thread q of Holding b \<Rightarrow> [b] | _ \<Rightarrow> [])"

definition unaccounted :: "sbf_queue \<Rightarrow> bytes list" where
  "unaccounted q = (case sq_thread q of Holding b \<Rightarrow> [b] | Written b \<Rightarrow> [b] | _ \<Rightarrow> [])"

text \<open>
  The bytes on the disk and those still to come are the accepted ones in order, as long as no write failed; a failed
  write stops the file inside them. The budget bounds what waits, and failures are latched.
\<close>

definition sq_core :: "rw_options \<Rightarrow> nat \<Rightarrow> sbf_queue \<Rightarrow> bytes list \<Rightarrow> bool" where
  "sq_core opts budget q acc \<longleftrightarrow> rw_inv (sq_writer q) \<and> rw_opts (sq_writer q) = opts \<and> sq_max_pending q = budget \<and> (\<exists>n. disk (sq_writer q) = take n (concat acc)) \<and>
     (\<not> sq_write_failed q \<longrightarrow> disk (sq_writer q) @ concat (in_hand q) @ concat (sq_queue q) = concat acc) \<and>
     (rw_failed (sq_writer q) \<longrightarrow> sq_failed q) \<and> (sq_write_failed q \<longrightarrow> sq_failed q) \<and>
     sq_pending q = length (concat (unaccounted q)) + length (concat (sq_queue q)) \<and> sq_pending q \<le> sq_max_pending q \<and>
     sq_notified q = (if sq_error q = Some WriteFailed then 1 else 0) \<and> (sq_error q = None \<longleftrightarrow> \<not> sq_failed q)"

definition sq_inv :: "rw_options \<Rightarrow> nat \<Rightarrow> sbf_queue \<times> bytes list \<Rightarrow> bool" where
  "sq_inv opts budget s \<longleftrightarrow> (case s of (q, acc) \<Rightarrow> sq_core opts budget q acc \<and> sq_thread q \<noteq> Ended \<and> sq_stop q = sq_closed q \<and>
     (sq_closed q \<longrightarrow> sq_queue q = [] \<and> sq_thread q = NoThread \<and> \<not> rw_is_open (sq_writer q)))"

lemma Fail_simps [simp]:
  "sq_writer (Fail e b q) = sq_writer q" "sq_queue (Fail e b q) = sq_queue q" "sq_thread (Fail e b q) = sq_thread q"
  "sq_pending (Fail e b q) = sq_pending q" "sq_max_pending (Fail e b q) = sq_max_pending q"
  "sq_stop (Fail e b q) = sq_stop q" "sq_closed (Fail e b q) = sq_closed q" "sq_failed (Fail e b q)"
  "sq_write_failed (Fail e b q) = sq_write_failed q" "in_hand (Fail e b q) = in_hand q"
  "unaccounted (Fail e b q) = unaccounted q"
  by (simp_all add: Fail_def in_hand_def unaccounted_def)

lemma core_Fail: "\<lbrakk> sq_core opts budget q acc; b \<longleftrightarrow> e = WriteFailed \<rbrakk> \<Longrightarrow> sq_core opts budget (Fail e b q) acc"
  by (cases "sq_failed q") (auto simp: Fail_def sq_core_def in_hand_def unaccounted_def)

text \<open>Writing the block in hand.\<close>

lemma WriteOne_core:
  assumes "sq_core opts budget q acc" "sq_thread q = Holding b"
  shows "sq_core opts budget ((WriteOne env b q)\<lparr>sq_thread := Written b\<rparr>) acc"
proof (cases "sq_write_failed q")
  case True
  then show ?thesis using assms by (simp add: WriteOne_def sq_core_def in_hand_def unaccounted_def)
next
  case False
  let ?w = "sq_writer q"
  obtain ok w where a: "WriteBlock env b ?w = (ok, w)" by fastforce
  have all: "disk ?w @ b @ concat (sq_queue q) = concat acc" using assms False by (simp add: sq_core_def in_hand_def)
  have i: "rw_inv ?w" using assms(1) by (simp add: sq_core_def)
  have w: "rw_inv w" "rw_opts w = rw_opts ?w" "\<exists>n. disk w = disk ?w @ take n b" "ok \<Longrightarrow> disk w = disk ?w @ b" "\<not> ok \<Longrightarrow> rw_failed w"
      "ok \<Longrightarrow> rw_failed w \<Longrightarrow> rw_failed ?w"
    using a i Append_effect [OF i, of env b ok w] by (auto simp: WriteBlock_def split: if_splits)
  obtain n where n: "disk w = disk ?w @ take n b" using w(3) by blast
  have "concat acc = disk w @ drop n b @ concat (sq_queue q)" by (simp add: n flip: all)
  then have prefix: "\<exists>n. disk w = take n (concat acc)" by (intro exI [of _ "length (disk w)"]) simp
  show ?thesis
  proof (cases ok)
    case True
    then show ?thesis using a False assms w prefix all
      by (auto simp: WriteOne_def sq_core_def in_hand_def unaccounted_def)
  next
    case no: False
    let ?q = "q\<lparr>sq_writer := w, sq_write_failed := True\<rparr>"
    have "WriteOne env b q = Fail WriteFailed True ?q" using a no False by (simp add: WriteOne_def)
    then show ?thesis using a no False assms w prefix
      by (cases "sq_failed q") (auto simp: Fail_def sq_core_def in_hand_def unaccounted_def)
  qed
qed

lemma writer_step_core: "sq_core opts budget q acc \<Longrightarrow> sq_core opts budget (writer_step env q) acc"
proof (cases "sq_thread q")
  case (Holding b)
  then show "sq_core opts budget q acc \<Longrightarrow> ?thesis" using WriteOne_core [of opts budget q acc b env] by (simp add: writer_step.simps)
qed (auto simp: writer_step.simps sq_core_def in_hand_def unaccounted_def split: list.split)

lemma writer_step_frame:
  "sq_stop (writer_step env q) = sq_stop q" "sq_closed (writer_step env q) = sq_closed q"
  "sq_thread (writer_step env q) = NoThread \<longleftrightarrow> sq_thread q = NoThread"
  by (auto simp: writer_step.simps WriteOne_def Fail_def split: sq_loc.split list.split prod.split bool.split)

section \<open>Joining\<close>

definition steps_left :: "sbf_queue \<Rightarrow> nat" where
  "steps_left q = 3 * length (sq_queue q) +
     (case sq_thread q of Holding b \<Rightarrow> 3 | Written b \<Rightarrow> 2 | Waiting \<Rightarrow> 1 | _ \<Rightarrow> 0)"

lemma WriteOne_queue [simp]: "sq_queue (WriteOne env b q) = sq_queue q"
  by (simp add: WriteOne_def split: prod.split bool.split)

lemma writer_step_left:
  "\<lbrakk> sq_stop q; sq_thread q \<noteq> NoThread \<rbrakk> \<Longrightarrow> steps_left (writer_step env q) = steps_left q - 1 \<or>
     sq_thread q = Ended \<and> writer_step env q = q"
  by (auto simp: writer_step.simps steps_left_def split: sq_loc.split list.split)

lemma join_runs:
  assumes "sq_core opts budget q acc" "sq_stop q" "sq_thread q \<noteq> NoThread" "sq_thread q = Ended \<longrightarrow> sq_queue q = []" "steps_left q \<le> n"
  shows "(let r = (writer_step env ^^ n) q in sq_core opts budget r acc \<and> sq_thread r = Ended \<and> sq_queue r = [] \<and>
     sq_closed r = sq_closed q \<and> sq_stop r)"
  using assms
proof (induction n arbitrary: q)
  case 0
  then show ?case by (auto simp: steps_left_def split: sq_loc.splits)
next
  case (Suc n)
  let ?r = "writer_step env q"
  have e: "sq_thread ?r = Ended \<longrightarrow> sq_queue ?r = []" using Suc.prems(3,4)
    by (auto simp: writer_step.simps split: sq_loc.splits list.splits)
  have "steps_left ?r \<le> n"
    using writer_step_left [OF Suc.prems(2,3), of env] Suc.prems(4,5) by (auto simp: steps_left_def)
  from Suc.IH [OF writer_step_core [OF Suc.prems(1)] _ _ e this] Suc.prems(2,3)
  show ?case by (simp add: writer_step_frame funpow_Suc_right del: funpow.simps)
qed

lemma core_joined: "\<lbrakk> sq_core opts budget q acc; sq_thread q = Ended \<rbrakk> \<Longrightarrow> sq_core opts budget (q\<lparr>sq_thread := NoThread\<rparr>) acc"
  by (simp add: sq_core_def in_hand_def unaccounted_def)

lemma join_writer_core:
  assumes "sq_core opts budget q acc" "sq_stop q" "sq_thread q \<noteq> NoThread" "sq_thread q = Ended \<longrightarrow> sq_queue q = []"
  shows "sq_core opts budget (join_writer env q) acc \<and> sq_queue (join_writer env q) = [] \<and> sq_thread (join_writer env q) = NoThread \<and>
     sq_closed (join_writer env q) = sq_closed q \<and> sq_stop (join_writer env q)"
proof -
  have "steps_left q \<le> 3 * length (sq_queue q) + 3" by (simp add: steps_left_def split: sq_loc.split)
  from join_runs [OF assms this, of env] show ?thesis
    by (simp add: join_writer_def Let_def core_joined)
qed

section \<open>The machine keeps its invariant\<close>

lemma WriteOne_frame [simp]:
  "sq_thread (WriteOne env b q) = sq_thread q" "sq_stop (WriteOne env b q) = sq_stop q"
  "sq_closed (WriteOne env b q) = sq_closed q" "sq_pending (WriteOne env b q) = sq_pending q"
  by (simp_all add: WriteOne_def split: prod.split bool.split)

text \<open>Without a thread \<open>Close\<close> writes what is queued itself, block by block.\<close>

lemma rest_core:
  assumes "sq_core opts budget (q\<lparr>sq_queue := bs, sq_pending := length (concat bs)\<rparr>) acc" "sq_thread q = NoThread" "sq_queue q = []"
    "sq_pending q = 0"
  shows "sq_core opts budget (write_rest env bs q) acc \<and> sq_queue (write_rest env bs q) = [] \<and>
     sq_thread (write_rest env bs q) = NoThread \<and> sq_stop (write_rest env bs q) = sq_stop q \<and>
     sq_closed (write_rest env bs q) = sq_closed q"
  using assms
proof (induction bs arbitrary: q)
  case Nil
  have "q\<lparr>sq_queue := [], sq_pending := 0\<rparr> = q" using Nil by (cases q) simp
  then have "sq_core opts budget (q\<lparr>sq_queue := [], sq_pending := 0\<rparr>) acc = sq_core opts budget q acc" by (rule arg_cong)
  then show ?case using Nil by simp
next
  case (Cons b bs)
  let ?h = "q\<lparr>sq_queue := bs, sq_pending := length (concat (b # bs)), sq_thread := Holding b\<rparr>"
  have h: "sq_core opts budget ?h acc" using Cons.prems(1,2) by (simp add: sq_core_def in_hand_def unaccounted_def)
  have "sq_core opts budget ((WriteOne env b ?h)\<lparr>sq_thread := Written b\<rparr>) acc" by (rule WriteOne_core [OF h]) simp
  moreover have "WriteOne env b ?h = (WriteOne env b q)\<lparr>sq_queue := bs, sq_pending := length (concat (b # bs)), sq_thread := Holding b\<rparr>"
    by (auto simp: WriteOne_def Fail_def split: prod.split bool.split)
  ultimately have "sq_core opts budget ((WriteOne env b q)\<lparr>sq_queue := bs, sq_pending := length (concat bs)\<rparr>) acc"
    using Cons.prems(2) by (auto simp: sq_core_def in_hand_def unaccounted_def)
  from Cons.IH [OF this] Cons.prems(2-4) show ?case by simp
qed

lemma Close_effect:
  assumes "sq_inv opts budget (q, acc)" "Close env q = (ok, q')"
  shows "sq_inv opts budget (q', acc)" "sq_closed q'" "ok = (\<not> sq_failed q')"
proof -
  have "sq_inv opts budget (q', acc) \<and> sq_closed q' \<and> ok = (\<not> sq_failed q')"
  proof (cases "sq_closed q")
    case True
    then show ?thesis using assms by (auto simp: Close_def)
  next
    case False
    have i: "sq_core opts budget q acc" "sq_thread q \<noteq> Ended" using assms(1) by (simp_all add: sq_inv_def)
    let ?s = "q\<lparr>sq_stop := True\<rparr>"
    define r where "r = (if sq_thread q \<noteq> NoThread then join_writer env ?s
        else write_rest env (sq_queue q) (?s\<lparr>sq_queue := [], sq_pending := 0\<rparr>))"
    have s: "sq_core opts budget ?s acc" using i by (simp add: sq_core_def in_hand_def unaccounted_def)
    have r: "sq_core opts budget r acc \<and> sq_queue r = [] \<and> sq_thread r = NoThread \<and> sq_stop r \<and> \<not> sq_closed r"
    proof (cases "sq_thread q = NoThread")
      case True
      have "sq_core opts budget ((?s\<lparr>sq_queue := [], sq_pending := 0\<rparr>)\<lparr>sq_queue := sq_queue q, sq_pending := length (concat (sq_queue q))\<rparr>) acc"
        using i(1) True by (simp add: sq_core_def in_hand_def unaccounted_def)
      from rest_core [OF this, of env] True False show ?thesis by (simp add: r_def)
    next
      case thread: False
      then show ?thesis using join_writer_core [OF s, of env] i(2) False by (simp add: r_def)
    qed
    obtain b w where c: "Rotating_Writer.Close env (sq_writer r) = (b, w)" by fastforce
    note e = CloseCurrent_effect [OF c [unfolded Rotating_Writer.Close_def]]
    have v: "rw_inv w" "disk w = disk (sq_writer r)"
      using CloseCurrent_inv [OF _ c [unfolded Rotating_Writer.Close_def]] r by (simp_all add: sq_core_def)
    have "sq_core opts budget (close_writer env r) acc" "\<not> rw_is_open (sq_writer (close_writer env r))"
      using r v c e(2,3,4) by (auto simp: close_writer_def Fail_def sq_core_def in_hand_def unaccounted_def split: bool.split)
    moreover have "q' = (close_writer env r)\<lparr>sq_closed := True\<rparr>" "ok = (\<not> sq_failed q')"
      using assms(2) False by (auto simp: Close_def Let_def r_def)
    moreover have "sq_queue (close_writer env r) = []" "sq_thread (close_writer env r) = NoThread" "sq_stop (close_writer env r)"
      using r by (auto simp: close_writer_def split: prod.split bool.split)
    ultimately show ?thesis by (simp add: sq_inv_def sq_core_def in_hand_def unaccounted_def)
  qed
  then show "sq_inv opts budget (q', acc)" "sq_closed q'" "ok = (\<not> sq_failed q')" by blast+
qed

lemma Enqueue_inv:
  assumes "sq_inv opts budget (q, acc)" "Enqueue b q = (ok, q')"
  shows "sq_inv opts budget (q', if ok then acc @ [b] else acc)"
proof (cases "ok \<and> b \<noteq> []")
  case False
  have "q' = q \<or> q' = Fail (BudgetExceeded (sq_pending q) (sq_max_pending q)) False q"
    using False assms(2) by (auto simp: Enqueue_def split: if_splits)
  moreover have "sq_inv opts budget (Fail (BudgetExceeded m n) False q, acc)" for m n
    using assms(1) core_Fail [of opts budget q acc False "BudgetExceeded m n"] by (simp add: sq_inv_def)
  ultimately have "sq_inv opts budget (q', acc)" using assms(1) by metis
  moreover have "sq_inv opts budget (q', acc @ [[]])" if "sq_inv opts budget (q', acc)" using that by (simp add: sq_inv_def sq_core_def)
  ultimately show ?thesis using False by (cases ok) simp_all
next
  case True
  obtain n where n: "disk (sq_writer q) = take n (concat acc)" using assms(1) by (auto simp: sq_inv_def sq_core_def)
  have "take n (concat acc) = take (min n (length (concat acc))) (concat acc @ b)" by (cases "n \<le> length (concat acc)") simp_all
  with n have p: "\<exists>n. disk (sq_writer q) = take n (concat acc @ b)" by metis
  have q': "q' = q\<lparr>sq_queue := sq_queue q @ [b], sq_pending := sq_pending q + length b,
      sq_high_water := max (sq_high_water q) (sq_pending q + length b)\<rparr>"
    "sq_pending q + length b \<le> sq_max_pending q" "\<not> sq_closed q" "\<not> sq_failed q"
    using True assms(2) by (auto simp: Enqueue_def split: if_splits)
  moreover have "sq_stop q = sq_closed q" using assms(1) by (simp add: sq_inv_def)
  ultimately show ?thesis using True assms(1) p
    by (auto simp: sq_inv_def sq_core_def in_hand_def unaccounted_def)
qed

interpretation sbf_queue: machine "sq_step env" "sq_inv opts budget" for env opts budget
proof
  fix s :: "sbf_queue \<times> bytes list" and e
  assume i: "sq_inv opts budget s"
  obtain q acc where s: "s = (q, acc)" by fastforce
  show "sq_inv opts budget (sq_step env s e)"
  proof (cases e)
    case CallStart
    then show ?thesis using i by (auto simp: s Start_def sq_inv_def sq_core_def in_hand_def unaccounted_def)
  next
    case (CallEnqueue b)
    obtain ok q' where "Enqueue b q = (ok, q')" by fastforce
    then show ?thesis using Enqueue_inv [of opts budget q acc b ok q'] i CallEnqueue by (simp add: s)
  next
    case CallClose
    obtain ok q' where "Close env q = (ok, q')" by fastforce
    then show ?thesis using Close_effect(1) [of opts budget q acc env ok q'] i CallClose by (simp add: s)
  next
    case WriterMoves
    have "sq_thread (writer_step env q) \<noteq> Ended" if "sq_stop q = sq_closed q" "sq_thread q \<noteq> Ended"
        "sq_closed q \<longrightarrow> sq_thread q = NoThread"
      using that by (auto simp: writer_step.simps split: sq_loc.splits list.splits)
    moreover have "writer_step env q = q" if "sq_thread q = NoThread" using that by (simp add: writer_step.simps)
    ultimately show ?thesis using i WriterMoves writer_step_core [of opts budget q acc env]
      by (auto simp: s sq_inv_def writer_step_frame)
  qed
qed

lemma sq_inv_new: "sq_inv (sbf_options rb ri) budget (new_sbf_queue (sbf_options rb ri) budget, [])"
  by (simp add: sq_inv_def sq_core_def new_sbf_queue_def sbf_options_def rw_inv_new disk_def in_hand_def unaccounted_def)
    (simp add: new_rotating_def)

section \<open>Properties\<close>


end
