(* ===== verification/Session.thy ===== *)
theory Session
  imports Receiver_Commands Warmup_Gate Sbf_Parsers Sbf_Write_Queue
begin

text \<open>
  \<^verbatim>\<open>asterx_driver/src/session.cpp\<close>: the life of a connection to the receiver, from the first attempt to the recording. One
  step is one event of the Qt loop (a signal of the SDK, a timeout, a notice of the writer) at a time of the steady
  clock in nanoseconds, or a move of the writer thread. The SDK, the host program and the disk are seen through the
  calls made on them, which are collected in order; the live CSV side channel and the log are left out. A timer is its
  deadline. An acknowledged command stands for the log line of its reply. The socket reports \<open>connected\<close> once per
  attempt and not after it was closed (\<open>ses_connecting\<close>). Closing the socket may make the SDK report the closing at once: the state is left before the call, so that
  report is one of the events that change nothing.
\<close>

section \<open>State\<close>

datatype State = kIdle | kConnecting | kWaitingDescriptor | kConfiguring | kWarmingUp | kRecording | kBackoff | kStopping

datatype timer = ConnectTimer | RetryTimer | RecoveryTimer | WatchdogTimer | CommandTimer | StatsTimer | WarmupLogTimer

datatype ses_call = ConnectTcp | SendPromptRequest | SendASCIICommand string | CloseConnection | Recorded bytes
  | Acknowledged Command string
  | EmitFatalError | EmitConfigured

record AppConfig =
  app_receiver :: ReceiverSettings
  app_rotate_bytes :: nat
  app_rotate_interval :: nat
  app_write_queue_bytes :: nat
  app_stats_period_ms :: nat

record Session =
  ses_cfg :: AppConfig
  ses_rx :: bool
  ses_connecting :: bool
  ses_writer :: sbf_queue
  ses_notices :: nat
  ses_state :: State
  ever_configured :: bool
  descriptor :: string
  ses_cmds :: "Command list"
  cmd_index :: nat
  ses_whitelist :: "string list"
  lst_reply_seen :: bool
  lst_text :: string
  ses_timers :: "timer \<Rightarrow> nat option"
  ses_warmup :: WarmupGate
  ses_temperature :: "int option"
  ses_liveness :: nat
  crc_errors :: nat
  length_errors :: nat
  discarded_bytes :: nat
  recovery_events :: nat
  recording_errors :: nat
  ses_calls :: "ses_call list"

definition new_Session :: "AppConfig \<Rightarrow> Session" where
  "new_Session cfg =
     \<lparr>ses_cfg = cfg, ses_rx = False, ses_connecting = False,
      ses_writer = new_sbf_queue (sbf_options (app_rotate_bytes cfg) (app_rotate_interval cfg)) (app_write_queue_bytes cfg),
      ses_notices = 0, ses_state = kIdle, ever_configured = False, descriptor = [], ses_cmds = [], cmd_index = 0,
      ses_whitelist = [], lst_reply_seen = False, lst_text = [], ses_timers = (\<lambda>_. None),
      ses_warmup = new_WarmupGate 90 False, ses_temperature = None, ses_liveness = 0, crc_errors = 0, length_errors = 0,
      discarded_bytes = 0, recovery_events = 0, recording_errors = 0, ses_calls = []\<rparr>"

definition kConnectTimeoutMs :: nat where "kConnectTimeoutMs = 5000"
definition kRetryDelayMs :: nat where "kRetryDelayMs = 5000"
definition kRecoveryTimeoutMs :: nat where "kRecoveryTimeoutMs = 60000"
definition kWatchdogMs :: nat where "kWatchdogMs = 3000"
definition kCommandTimeoutMs :: nat where "kCommandTimeoutMs = 15000"
definition kWarmupLogMs :: nat where "kWarmupLogMs = 3000"

definition call :: "ses_call \<Rightarrow> Session \<Rightarrow> Session" where
  "call c s = s\<lparr>ses_calls := ses_calls s @ [c]\<rparr>"

definition start_timer :: "timer \<Rightarrow> nat \<Rightarrow> nat \<Rightarrow> Session \<Rightarrow> Session" where
  "start_timer t ms now s = s\<lparr>ses_timers := (ses_timers s)(t := Some (now + ms * 10 ^ 6))\<rparr>"

definition stop_timer :: "timer \<Rightarrow> Session \<Rightarrow> Session" where
  "stop_timer t s = s\<lparr>ses_timers := (ses_timers s)(t := None)\<rparr>"

definition recording_error :: "Session \<Rightarrow> Session" where
  "recording_error s = s\<lparr>recording_errors := recording_errors s + 1\<rparr>"

definition close_connection :: "Session \<Rightarrow> Session" where
  "close_connection s = (if ses_rx s then call CloseConnection (s\<lparr>ses_connecting := False\<rparr>) else s)"

definition FirstLine :: "string \<Rightarrow> string" where
  "FirstLine s = takeWhile (\<lambda>c. c \<noteq> CHR 0x0D \<and> c \<noteq> CHR 0x0A) s"

section \<open>Ending\<close>

definition Shutdown :: "rw_env \<Rightarrow> Session \<Rightarrow> Session" where
  "Shutdown env s =
     (if ses_state s = kStopping then s
      else
        let s = close_connection (s\<lparr>ses_state := kStopping, ses_liveness := 0, ses_timers := (\<lambda>_. None)\<rparr>)
        in case Sbf_Write_Queue.Close env (ses_writer s) of
             (clean, w) \<Rightarrow>
               let s = s\<lparr>ses_writer := w\<rparr>
               in if clean then s else call EmitFatalError (recording_error s))"

definition fatal :: "rw_env \<Rightarrow> Session \<Rightarrow> Session" where
  "fatal env s = call EmitFatalError (Shutdown env s)"

definition FailStartup :: "rw_env \<Rightarrow> Session \<Rightarrow> Session" where
  "FailStartup env s = (if ses_state s = kStopping then s else fatal env s)"

definition HandleFailure :: "rw_env \<Rightarrow> nat \<Rightarrow> Session \<Rightarrow> Session" where
  "HandleFailure env now s =
     (if ses_state s = kStopping \<or> ses_state s = kBackoff then s
      else
        let s = recording_error s in
        if \<not> ever_configured s then FailStartup env s
        else if ses_state s = kRecording then fatal env s
        else
          let s = s\<lparr>recovery_events := recovery_events s + 1, ses_state := kBackoff\<rparr>;
              s = stop_timer WarmupLogTimer (stop_timer WatchdogTimer (stop_timer CommandTimer (stop_timer ConnectTimer s)));
              s = (if ses_timers s RecoveryTimer = None then start_timer RecoveryTimer kRecoveryTimeoutMs now s else s)
          in start_timer RetryTimer kRetryDelayMs now (close_connection (s\<lparr>ses_liveness := 0\<rparr>)))"

definition OnWriteFailed :: "rw_env \<Rightarrow> Session \<Rightarrow> Session" where
  "OnWriteFailed env s = (if ses_state s = kStopping then s else fatal env (recording_error s))"

definition OnStreamDamage :: "rw_env \<Rightarrow> Session \<Rightarrow> Session" where
  "OnStreamDamage env s =
     (if ses_state s = kStopping then s
      else let s = recording_error s in if ses_state s \<noteq> kRecording then s else fatal env s)"

section \<open>Connecting\<close>

definition StartConnect :: "nat \<Rightarrow> Session \<Rightarrow> Session" where
  "StartConnect now s =
     call ConnectTcp (start_timer ConnectTimer kConnectTimeoutMs now
       (s\<lparr>ses_state := kConnecting, ses_warmup := ResetReceiverStatus (ses_warmup s), descriptor := [], ses_cmds := [],
          cmd_index := 0, ses_whitelist := [], lst_reply_seen := False, lst_text := [], ses_rx := True, ses_connecting := True\<rparr>))"

definition Start :: "nat \<Rightarrow> Session \<Rightarrow> Session" where
  "Start now s =
     (let w = rx_warmup (app_receiver (ses_cfg s));
          s = s\<lparr>ses_warmup := Warmup_Gate.Reset ((ses_warmup s)\<lparr>min_recording_s := warm_min_recording_s w,
                                                   require_finetime := warm_require_finetime w\<rparr>),
                ses_writer := Sbf_Write_Queue.Start (ses_writer s)\<rparr>
      in StartConnect now (start_timer StatsTimer (app_stats_period_ms (ses_cfg s)) now s))"

definition OnConnected :: "nat \<Rightarrow> Session \<Rightarrow> Session" where
  "OnConnected now s =
     call SendPromptRequest (start_timer CommandTimer kCommandTimeoutMs now
       ((stop_timer ConnectTimer s)\<lparr>ses_state := kWaitingDescriptor, ses_connecting := False\<rparr>))"

section \<open>Warming up and recording\<close>

definition EnterRecording :: "rw_env \<Rightarrow> nat \<Rightarrow> Session \<Rightarrow> Session" where
  "EnterRecording env now s =
     (if ses_state s \<noteq> kWarmingUp then s
      else if sq_failed (ses_writer s) then OnWriteFailed env s
      else
        let s = (stop_timer RecoveryTimer s)\<lparr>ses_state := kRecording\<rparr>;
            s = start_timer WatchdogTimer kWatchdogMs now (stop_timer WarmupLogTimer (stop_timer CommandTimer s))
        in call EmitConfigured (s\<lparr>ses_liveness := now div 1000\<rparr>))"

definition EnterWarmup :: "rw_env \<Rightarrow> nat \<Rightarrow> Session \<Rightarrow> Session" where
  "EnterWarmup env now s =
     (let s = stop_timer CommandTimer (s\<lparr>ses_state := kWarmingUp, ever_configured := True\<rparr>);
          s = start_timer WatchdogTimer kWatchdogMs now
                (s\<lparr>ses_warmup := ResetReceiverStatus (ses_warmup s), ses_liveness := 0\<rparr>)
      in if Ready now (ses_warmup s) then EnterRecording env now s else start_timer WarmupLogTimer kWarmupLogMs now s)"

definition OnReceiverStatus :: "rw_env \<Rightarrow> bytes \<Rightarrow> Session \<Rightarrow> Session" where
  "OnReceiverStatus env block s =
     (if PeekId block \<noteq> kIdReceiverStatus then s
      else case ParseReceiverStatus block of
        None \<Rightarrow> s
      | Some status \<Rightarrow>
          (case Observe (up_time status) (rx_status status) (ses_warmup s) of
             (went_back, g) \<Rightarrow>
               let t = rs_temperature status;
                   s = s\<lparr>ses_temperature := (if t = 0 then None else Some (uint t - 100)), ses_warmup := g\<rparr>
               in if ses_state s = kWarmingUp then (if went_back then recording_error s else s)
                  else if ses_state s = kRecording \<and> went_back then fatal env (recording_error s)
                  else s))"

definition after_block :: "rw_env \<Rightarrow> nat \<Rightarrow> Session \<Rightarrow> Session" where
  "after_block env now s =
     (let s = (if ses_state s = kWarmingUp \<and> Ready now (ses_warmup s) then EnterRecording env now s else s)
      in if ses_state s = kRecording then s\<lparr>ses_liveness := now div 1000\<rparr> else s)"

definition OnSbfBlock :: "rw_env \<Rightarrow> nat \<Rightarrow> bytes \<Rightarrow> Session \<Rightarrow> Session" where
  "OnSbfBlock env now block s =
     (if ses_state s = kBackoff \<or> ses_state s = kStopping then s
      else case Enqueue block (ses_writer s) of
        (False, w) \<Rightarrow> fatal env (recording_error (s\<lparr>ses_writer := w\<rparr>))
      | (True, w) \<Rightarrow>
          (let s = call (Recorded block) (s\<lparr>ses_writer := w\<rparr>);
               s = (if block = [] then s else s\<lparr>ses_warmup := StartRecording now (ses_warmup s)\<rparr>);
               s = (if ses_state s = kWarmingUp \<or> ses_state s = kRecording
                    then OnReceiverStatus env block (start_timer WatchdogTimer kWatchdogMs now s) else s)
           in after_block env now s))"

section \<open>Configuring\<close>

definition SendCurrentCommand :: "rw_env \<Rightarrow> nat \<Rightarrow> Session \<Rightarrow> Session" where
  "SendCurrentCommand env now s =
     (if cmd_index s \<ge> length (ses_cmds s) then EnterWarmup env now s
      else call (SendASCIICommand (cmd_text (ses_cmds s ! cmd_index s)))
             (start_timer CommandTimer kCommandTimeoutMs now (s\<lparr>lst_reply_seen := False, lst_text := []\<rparr>)))"

definition next_command :: "rw_env \<Rightarrow> nat \<Rightarrow> Session \<Rightarrow> Session" where
  "next_command env now s = SendCurrentCommand env now (s\<lparr>cmd_index := cmd_index s + 1\<rparr>)"

definition OnDescriptor :: "rw_env \<Rightarrow> nat \<Rightarrow> string \<Rightarrow> Session \<Rightarrow> Session" where
  "OnDescriptor env now d s =
     (let s = s\<lparr>descriptor := d\<rparr> in
      if ses_state s \<noteq> kWaitingDescriptor then s
      else case BuildCommandList (app_receiver (ses_cfg s)) (descriptor s) of
        Inl e \<Rightarrow> FailStartup env s
      | Inr cmds \<Rightarrow>
          SendCurrentCommand env now
            (s\<lparr>ses_cmds := cmds, ses_whitelist := DriverCommandWhitelist cmds, cmd_index := 0, ses_state := kConfiguring\<rparr>))"

text \<open>What a reply must say for the sequence to go on.\<close>

definition reply_accepted :: "Command \<Rightarrow> string \<Rightarrow> bool" where
  "reply_accepted cmd reply \<longleftrightarrow>
     (case cmd_kind cmd of
        kCheckCapabilities \<Rightarrow>
          (case ParseReceiverCapabilitiesReply reply of Inl _ \<Rightarrow> False | Inr caps \<Rightarrow> has_aux1 caps)
      | kVerifyEcho \<Rightarrow>
          (case verify_first_fields reply (cmd_verify_key cmd) (cmd_verify_fields cmd) of Inl _ \<Rightarrow> False | Inr _ \<Rightarrow> True)
      | _ \<Rightarrow> True)"

definition echoes_other :: "Command \<Rightarrow> string \<Rightarrow> bool" where
  "echoes_other cmd reply \<longleftrightarrow>
     length reply \<ge> 3 \<and> take 2 reply = ''$R'' \<and> reply ! 2 \<in> set '':;?'' \<and>
     (let echoed = CommandNameOf (FirstLine reply)
      in echoed \<noteq> [] \<and> \<not> EqualsCi echoed (CommandNameOf (cmd_text cmd)))"

definition listing_header :: "string \<Rightarrow> bool" where
  "listing_header reply \<longleftrightarrow> length reply \<ge> 3 \<and> take 2 reply = ''$R'' \<and> reply ! 2 = CHR '';''"

definition list_kind :: "Command \<Rightarrow> bool" where
  "list_kind cmd \<longleftrightarrow> cmd_kind cmd = kListConfig \<or> cmd_kind cmd = kListAntennaInfo"

definition HandleCommandReply :: "rw_env \<Rightarrow> nat \<Rightarrow> string \<Rightarrow> bool \<Rightarrow> Session \<Rightarrow> Session" where
  "HandleCommandReply env now reply error s =
     (if ses_state s \<noteq> kConfiguring \<or> cmd_index s \<ge> length (ses_cmds s) then s
      else
        let cmd = ses_cmds s ! cmd_index s in
        if echoes_other cmd reply then s
        else if error then HandleFailure env now (stop_timer CommandTimer s)
        else
          let s = stop_timer CommandTimer s in
          if listing_header reply \<noteq> list_kind cmd then HandleFailure env now s
          else if listing_header reply
          then start_timer CommandTimer kCommandTimeoutMs now (s\<lparr>lst_text := reply @ [CHR 0x0A], lst_reply_seen := True\<rparr>)
          else if \<not> reply_accepted cmd reply then HandleFailure env now s
          else next_command env now (call (Acknowledged cmd reply) s))"

definition OnFormattedBlock :: "nat \<Rightarrow> string \<Rightarrow> Session \<Rightarrow> Session" where
  "OnFormattedBlock now contents s =
     (if ses_state s \<noteq> kConfiguring \<or> \<not> lst_reply_seen s then s
      else start_timer CommandTimer kCommandTimeoutMs now (s\<lparr>lst_text := lst_text s @ contents @ [CHR 0x0A]\<rparr>))"

definition listing_accepted :: "ReceiverSettings \<Rightarrow> string list \<Rightarrow> Command \<Rightarrow> string \<Rightarrow> bool" where
  "listing_accepted settings whitelist cmd text \<longleftrightarrow>
     (if cmd_kind cmd = kListAntennaInfo
      then VerifyAntennaTypes (ParseAntennaOverview text) (rx_antenna settings) = None
      else VerifyConfigListing (ParseConfigFileListing text) whitelist = None)"

definition CompleteListCommand :: "rw_env \<Rightarrow> nat \<Rightarrow> Session \<Rightarrow> Session" where
  "CompleteListCommand env now s =
     (let s = stop_timer CommandTimer s; cmd = ses_cmds s ! cmd_index s
      in if \<not> listing_accepted (app_receiver (ses_cfg s)) (ses_whitelist s) cmd (lst_text s) then HandleFailure env now s
         else next_command env now
                (call (Acknowledged cmd (lst_text s)) (s\<lparr>lst_reply_seen := False, lst_text := []\<rparr>)))"

definition OnPrompt :: "rw_env \<Rightarrow> nat \<Rightarrow> Session \<Rightarrow> Session" where
  "OnPrompt env now s =
     (if ses_state s = kConfiguring \<and> cmd_index s < length (ses_cmds s) \<and> lst_reply_seen s
      then CompleteListCommand env now s else s)"

section \<open>Errors and timeouts\<close>

definition OnCommunicationError :: "rw_env \<Rightarrow> nat \<Rightarrow> string \<Rightarrow> Session \<Rightarrow> Session" where
  "OnCommunicationError env now message s =
     (if find_text ''SBF CRC error'' message \<noteq> None then s
      else if find_text ''Invalid SBF block length'' message \<noteq> None
      then OnStreamDamage env (s\<lparr>length_errors := length_errors s + 1\<rparr>)
      else HandleFailure env now s)"

definition OnWatchdog :: "rw_env \<Rightarrow> nat \<Rightarrow> Session \<Rightarrow> Session" where
  "OnWatchdog env now s =
     (if ses_state s \<noteq> kRecording \<and> ses_state s \<noteq> kWarmingUp then s else HandleFailure env now s)"

definition OnCommandTimeout :: "rw_env \<Rightarrow> nat \<Rightarrow> Session \<Rightarrow> Session" where
  "OnCommandTimeout env now s =
     (if ses_state s \<noteq> kConfiguring \<and> ses_state s \<noteq> kWaitingDescriptor then s else HandleFailure env now s)"

fun OnTimeout :: "rw_env \<Rightarrow> nat \<Rightarrow> timer \<Rightarrow> Session \<Rightarrow> Session" where
  "OnTimeout env now ConnectTimer s = (if ses_state s = kConnecting then HandleFailure env now s else s)"
| "OnTimeout env now RetryTimer s = (if ses_state s = kBackoff then StartConnect now s else s)"
| "OnTimeout env now RecoveryTimer s = FailStartup env s"
| "OnTimeout env now WatchdogTimer s = OnWatchdog env now s"
| "OnTimeout env now CommandTimer s = OnCommandTimeout env now s"
| "OnTimeout env now StatsTimer s = s"
| "OnTimeout env now WarmupLogTimer s =
     (if ses_state s = kWarmingUp \<and> Ready now (ses_warmup s) then EnterRecording env now s else s)"

text \<open>A single-shot timer stops when it fires, the other two run on.\<close>

definition fire :: "rw_env \<Rightarrow> nat \<Rightarrow> timer \<Rightarrow> Session \<Rightarrow> Session" where
  "fire env now t s =
     (case ses_timers s t of
        None \<Rightarrow> s
      | Some deadline \<Rightarrow>
          if now < deadline then s
          else OnTimeout env now t
                 (case t of
                    StatsTimer \<Rightarrow> start_timer t (app_stats_period_ms (ses_cfg s)) now s
                  | WarmupLogTimer \<Rightarrow> start_timer t kWarmupLogMs now s
                  | _ \<Rightarrow> stop_timer t s))"

section \<open>Results\<close>

definition RecordingIncomplete :: "Session \<Rightarrow> bool" where
  "RecordingIncomplete s \<longleftrightarrow> recording_errors s \<noteq> 0"

record FinalStats =
  blocks_written :: nat
  final_bytes_written :: nat
  final_files_opened :: nat
  write_queue_max_pending_bytes :: nat
  final_crc_errors :: nat
  final_length_errors :: nat
  discarded_stream_bytes :: nat
  final_recovery_events :: nat
  final_recording_errors :: nat
  known_acquisition_incomplete :: bool

definition FinalStatistics :: "Session \<Rightarrow> FinalStats" where
  "FinalStatistics s =
     (let w = ses_writer s in
      \<lparr>blocks_written = sq_records_written w, final_bytes_written = sq_bytes_written w,
       final_files_opened = sq_files_opened w, write_queue_max_pending_bytes = sq_high_water w,
       final_crc_errors = crc_errors s, final_length_errors = length_errors s, discarded_stream_bytes = discarded_bytes s,
       final_recovery_events = recovery_events s, final_recording_errors = recording_errors s,
       known_acquisition_incomplete = RecordingIncomplete s\<rparr>)"

section \<open>The machine\<close>

datatype ses_event = CallStart | CallShutdown | Connected | Descriptor string | Reply string bool | Formatted string
  | Prompt | SbfBlock bytes | CrcError | Discarded int | CommError string | Closed | Timeout timer | WriterThread | WriteNotice

text \<open>The signals of the SDK come from the client of the current attempt, so there is none before the first.\<close>

fun rx_signal :: "rw_env \<Rightarrow> nat \<Rightarrow> ses_event \<Rightarrow> Session \<Rightarrow> Session" where
  "rx_signal env now Connected s = (if ses_connecting s then OnConnected now s else s)"
| "rx_signal env now (Descriptor d) s = OnDescriptor env now d s"
| "rx_signal env now (Reply reply error) s = HandleCommandReply env now reply error s"
| "rx_signal env now (Formatted contents) s = OnFormattedBlock now contents s"
| "rx_signal env now Prompt s = OnPrompt env now s"
| "rx_signal env now (SbfBlock block) s = OnSbfBlock env now block s"
| "rx_signal env now CrcError s = OnStreamDamage env (s\<lparr>crc_errors := crc_errors s + 1\<rparr>)"
| "rx_signal env now (Discarded n) s = s\<lparr>discarded_bytes := discarded_bytes s + nat (if n > 0 then n else 0)\<rparr>"
| "rx_signal env now (CommError message) s = OnCommunicationError env now message s"
| "rx_signal env now Closed s = HandleFailure env now s"
| "rx_signal env now _ s = s"

definition ses_step :: "rw_env \<Rightarrow> Session \<Rightarrow> nat \<times> ses_event \<Rightarrow> Session" where
  "ses_step env s e =
     (case e of (now, ev) \<Rightarrow>
        (case ev of
           CallStart \<Rightarrow> (if ses_state s = kIdle then Start now s else s)
         | CallShutdown \<Rightarrow> Shutdown env s
         | Timeout t \<Rightarrow> fire env now t s
         | WriterThread \<Rightarrow> s\<lparr>ses_writer := writer_step env (ses_writer s)\<rparr>
         | WriteNotice \<Rightarrow>
             (if ses_notices s < sq_notified (ses_writer s)
              then OnWriteFailed env (s\<lparr>ses_notices := ses_notices s + 1\<rparr>) else s)
         | _ \<Rightarrow> (if ses_rx s then rx_signal env now ev s else s)))"

end
