(* ===== verification/Receiver_Facts.thy ===== *)
theory Receiver_Facts
  imports Receiver_Commands
begin

text \<open>
  What the receiver commands promise: validated settings always give a command sequence, the check of the running
  configuration accepts exactly the driver's own commands, and a logged command never shows the NTRIP password.
\<close>

section \<open>Text without separators\<close>

lemma set_commas: "set (commas fs) \<subseteq> {CHR '','', CHR '' ''} \<union> \<Union> (set ` set fs)"
  by (induction fs rule: commas.induct) auto

lemma Split_commas:
  "\<lbrakk> fs \<noteq> []; \<forall>f \<in> set fs. CHR '','' \<notin> set f \<rbrakk> \<Longrightarrow> Split (commas fs) CHR '','' = hd fs # map ((#) CHR '' '') (tl fs)"
proof (induction fs rule: commas.induct)
  case (3 p q ps)
  have "Split (commas (p # q # ps)) CHR '','' = p # Split (CHR '' '' # commas (q # ps)) CHR '',''"
    using 3(3) by simp
  moreover have "Split (CHR '' '' # commas (q # ps)) CHR '','' = (CHR '' '' # q) # map ((#) CHR '' '') ps"
    using 3 by simp
  ultimately show ?case by simp
qed auto

definition plain_field :: "string \<Rightarrow> bool" where
  "plain_field f \<longleftrightarrow> f \<noteq> [] \<and> CHR '','' \<notin> set f \<and> CHR 0x0A \<notin> set f \<and> \<not> is_space (hd f) \<and> \<not> is_space (last f)"

lemma plain_Trim: "plain_field f \<Longrightarrow> Trim f = f"
  by (simp add: plain_field_def Trim_id)

lemma SplitTrim_commas:
  assumes "fs \<noteq> []" "\<forall>f \<in> set fs. CHR '','' \<notin> set f" "last fs \<noteq> []"
  shows "SplitTrim (commas fs) CHR '','' = map Trim fs"
proof -
  have "last (hd fs # map ((#) CHR '' '') (tl fs)) \<noteq> []" using assms(1,3) by (cases fs; cases "tl fs") (auto simp: last_map)
  then have "SplitTrim (commas fs) CHR '','' = map Trim (hd fs # map ((#) CHR '' '') (tl fs))"
    using Split_commas [OF assms(1,2)] by (simp add: SplitTrim_def getlines_def Let_def)
  also have "\<dots> = map Trim fs" using assms(1) by (cases fs) (simp_all add: comp_def)
  finally show ?thesis .
qed

lemma commas_ends:
  "fs \<noteq> [] \<Longrightarrow> hd fs \<noteq> [] \<Longrightarrow> hd (commas fs) = hd (hd fs)"
  "fs \<noteq> [] \<Longrightarrow> last fs \<noteq> [] \<Longrightarrow> last (commas fs) = last (last fs)"
  "fs \<noteq> [] \<Longrightarrow> last fs \<noteq> [] \<Longrightarrow> commas fs \<noteq> []"
  by (induction fs rule: commas.induct) auto

section \<open>Validated texts\<close>

lemma text_ok_chars:
  "\<lbrakk> ReceiverTextOk s b; c \<in> set s \<rbrakk> \<Longrightarrow> is_alnum c \<or> c \<in> set extra_chars \<or> b \<and> c \<in> set escapable_chars"
  by (simp add: ReceiverTextOk_def list_all_iff)

lemma text_ok_plain:
  "ReceiverTextOk s b \<Longrightarrow> CHR 0x0A \<notin> set s" "ReceiverTextOk s False \<Longrightarrow> CHR '','' \<notin> set s"
proof -
  have "\<not> is_alnum CHR 0x0A" "CHR 0x0A \<notin> set extra_chars" "CHR 0x0A \<notin> set escapable_chars" by code_simp+
  then show "ReceiverTextOk s b \<Longrightarrow> CHR 0x0A \<notin> set s" using text_ok_chars by blast
  have "\<not> is_alnum CHR '',''" "CHR '','' \<notin> set extra_chars" by code_simp+
  then show "ReceiverTextOk s False \<Longrightarrow> CHR '','' \<notin> set s" using text_ok_chars by blast
qed

lemma quoted_plain: "\<lbrakk> s \<noteq> []; CHR '','' \<notin> set s; CHR 0x0A \<notin> set s \<rbrakk> \<Longrightarrow> plain_field (QuoteIfWhitespace s)"
proof -
  assume s: "s \<noteq> []" "CHR '','' \<notin> set s" "CHR 0x0A \<notin> set s"
  have q: "\<not> is_space CHR 0x22" by code_simp
  show ?thesis
  proof (cases "HasWhitespace s")
    case True
    then show ?thesis using s q by (simp add: QuoteIfWhitespace_def plain_field_def quoted_def)
  next
    case False
    then have "\<forall>c \<in> set s. \<not> is_space c" by (simp add: HasWhitespace_def list_ex_iff)
    then show ?thesis using s False by (simp add: QuoteIfWhitespace_def plain_field_def)
  qed
qed

lemma no_space_plain: "\<lbrakk> s \<noteq> []; CHR '','' \<notin> set s; \<not> HasWhitespace s \<rbrakk> \<Longrightarrow> plain_field s"
  by (auto simp: plain_field_def HasWhitespace_def list_ex_iff is_space_def)

text \<open>A spelling of a listed word has no other characters than letters and those of the word.\<close>

lemma InListCi_plain:
  assumes "InListCi names v" "list_all (\<lambda>w. w \<noteq> [] \<and> list_all is_alnum w) names"
  shows "plain_field v"
proof -
  obtain w where w: "EqualsCi v w" "w \<noteq> []" "list_all is_alnum w"
    using assms by (auto simp: InListCi_def list_ex_iff list_all_iff dest: EqualsCi_sym)
  have "length v = length w" using w(1) by (metis EqualsCi_def ToLower_simps(4))
  then have n: "v \<noteq> []" using w(2) by auto
  have out: "c \<notin> set v" if "\<not> is_alnum c" for c
    using EqualsCi_keeps_out [OF w(1), of c] that w(3) by (auto simp: is_alnum_def list_all_iff)
  have s: "\<not> is_alnum c" if "is_space c" for c
  proof -
    have "c \<in> set [CHR 0x20, CHR 0x09, CHR 0x0A, CHR 0x0B, CHR 0x0C, CHR 0x0D]" using that by (simp add: is_space_def)
    then show ?thesis by (auto simp: is_alnum_def is_alpha_def is_upper_def is_digit_def)
  qed
  have "\<not> is_alnum CHR '',''" "\<not> is_alnum CHR 0x0A" by code_simp+
  then have "CHR '','' \<notin> set v" "CHR 0x0A \<notin> set v" using out by blast+
  moreover have "\<not> is_space c" if "c \<in> set v" for c using out s that by blast
  ultimately show ?thesis using n by (simp add: plain_field_def)
qed

section \<open>Redaction\<close>

lemma escape_plain:
  assumes "ReceiverTextOk s True"
  shows "CHR '','' \<notin> set (EscapeNtripPassword s)" "CHR 0x0A \<notin> set (EscapeNtripPassword s)"
    "s \<noteq> [] \<Longrightarrow> EscapeNtripPassword s \<noteq> []"
proof -
  show "CHR '','' \<notin> set (EscapeNtripPassword s)" by (auto simp: EscapeNtripPassword_def escape_char_def split: if_splits)
  show "CHR 0x0A \<notin> set (EscapeNtripPassword s)"
    using text_ok_plain(1) [OF assms] by (auto simp: EscapeNtripPassword_def escape_char_def split: if_splits)
  show "s \<noteq> [] \<Longrightarrow> EscapeNtripPassword s \<noteq> []" by (cases s) (auto simp: EscapeNtripPassword_def escape_char_def)
qed

definition ntrip_valid :: "NtripSettings \<Rightarrow> bool" where
  "ntrip_valid n \<longleftrightarrow> ntrip_enabled n \<and> first_error (check_ntrip n) = None"

lemma is_digit_plain: "is_digit c \<Longrightarrow> c \<noteq> CHR '','' \<and> c \<noteq> CHR 0x0A \<and> \<not> is_space c"
  by (auto simp: is_digit_def is_space_def)

lemma ntrip_valid_fields:
  assumes "ntrip_valid n"
  shows "\<forall>f \<in> set (ntrip_fields n). plain_field f"
proof -
  have v: "list_all (\<lambda>e. e = None) (check_ntrip n)" "ntrip_enabled n"
    using assms by (simp_all add: ntrip_valid_def first_error_None)
  then have k: "caster n \<noteq> []" "ReceiverTextOk (caster n) False" "\<not> HasWhitespace (caster n)" "\<not> HasWhitespace (mount_point n)"
      "1 \<le> ntrip_port n" "username n \<noteq> []" "ReceiverTextOk (username n) False" "ntrip_password n \<noteq> []"
      "ReceiverTextOk (ntrip_password n) True" "mount_point n \<noteq> []" "ReceiverTextOk (mount_point n) False"
      "InListCi kNtripVersions (ntrip_version n)" "InListCi kSendGga (send_gga n)"
    by (simp_all add: check_ntrip_def ntrip_text_def)
  have "list_all (\<lambda>w. w \<noteq> [] \<and> list_all is_alnum w) kNtripVersions" "list_all (\<lambda>w. w \<noteq> [] \<and> list_all is_alnum w) kSendGga"
    by code_simp+
  then have w: "plain_field (ntrip_version n)" "plain_field (send_gga n)" using k(12,13) InListCi_plain by blast+
  have c: "plain_field (caster n)" "plain_field (mount_point n)"
    using no_space_plain k text_ok_plain(2) by blast+
  have u: "plain_field (QuoteIfWhitespace (username n))" "plain_field (QuoteIfWhitespace (EscapeNtripPassword (ntrip_password n)))"
    using quoted_plain k(6-9) text_ok_plain escape_plain [OF k(9)] by blast+
  have p: "plain_field (int_text (ntrip_port n))"
  proof -
    have "\<forall>c \<in> set (nat_text (nat (ntrip_port n))). c \<noteq> CHR '','' \<and> c \<noteq> CHR 0x0A \<and> \<not> is_space c"
      using nat_text_digits is_digit_plain by blast
    then show ?thesis using k(5) by (auto simp: int_text_def plain_field_def dest: hd_in_set last_in_set)
  qed
  have l: "plain_field ''setNtripSettings''" "plain_field ''NTR1''" "plain_field ''Client''" by code_simp+
  show ?thesis using w c u p l by (simp add: ntrip_fields_def)
qed

lemma RedactLine_fields:
  assumes "\<forall>f \<in> set fs. plain_field f" "7 \<le> length fs" "fs ! 0 = ''setNtripSettings''"
  shows "RedactLine (commas fs) = commas (fs[6 := ''<REDACTED>''])"
    "RedactLine (''$R: '' @ commas fs) = ''$R: '' @ commas (fs[6 := ''<REDACTED>''])"
proof -
  have ne: "fs \<noteq> []" using assms(2) by auto
  have h: "hd fs = ''setNtripSettings''" using assms(3) ne by (simp add: hd_conv_nth)
  have l: "plain_field (last fs)" using assms(1) ne by simp
  have e: "commas fs \<noteq> []" "hd (commas fs) = CHR ''s''" "\<not> is_space (last (commas fs))"
    using commas_ends [OF ne] h l by (simp_all add: plain_field_def)
  have s: "\<not> is_space CHR ''s''" "\<not> is_space CHR ''$''" by code_simp+
  have t: "Trim (commas fs) = commas fs" using e s by (intro Trim_id) simp_all
  have f: "SplitTrim (commas fs) CHR '','' = fs"
    using SplitTrim_commas [OF ne] assms(1) l plain_Trim by (simp add: plain_field_def map_idI)
  have d: "take 2 (commas fs) \<noteq> ''$R''" using e by (cases "commas fs") auto
  show "RedactLine (commas fs) = commas (fs[6 := ''<REDACTED>''])"
    using t f d e assms(2,3) by (simp add: RedactLine_def Let_def)
  have t2: "Trim (''$R: '' @ commas fs) = ''$R: '' @ commas fs" using e s by (intro Trim_id) simp_all
  show "RedactLine (''$R: '' @ commas fs) = ''$R: '' @ commas (fs[6 := ''<REDACTED>''])"
    using t t2 f e assms(2,3) unfolding RedactLine_def Let_def t2 by (simp add: numeral_eq_Suc)
qed

lemma redacted_command:
  assumes "ntrip_valid n"
  shows "RedactCmd (commas (ntrip_fields n)) = commas ((ntrip_fields n)[6 := ''<REDACTED>''])"
    "RedactCmd (''$R: '' @ commas (ntrip_fields n)) = ''$R: '' @ commas ((ntrip_fields n)[6 := ''<REDACTED>''])"
proof -
  note p = ntrip_valid_fields [OF assms]
  have "CHR 0x0A \<notin> set (commas (ntrip_fields n))"
    using set_commas [of "ntrip_fields n"] p by (auto simp: plain_field_def)
  then show "RedactCmd (commas (ntrip_fields n)) = commas ((ntrip_fields n)[6 := ''<REDACTED>''])"
    "RedactCmd (''$R: '' @ commas (ntrip_fields n)) = ''$R: '' @ commas ((ntrip_fields n)[6 := ''<REDACTED>''])"
    using RedactLine_fields [OF p] by (simp_all add: RedactCmd_def) (simp_all add: ntrip_fields_def)
qed

section \<open>Escaping\<close>

text \<open>
  The escape can be undone when the password has no two percent signs in a row; in general it is not injective, so a
  password with the text of an escape reaches the receiver as another one.
\<close>

fun unescape :: "string \<Rightarrow> string" where
  "unescape [] = []"
| "unescape (a # s) =
     (if take 3 s = ''%DQ'' \<and> a = CHR ''%'' then CHR 0x22 # unescape (drop 3 s)
      else if take 3 s = ''%SQ'' \<and> a = CHR ''%'' then CHR 0x27 # unescape (drop 3 s)
      else if take 3 s = ''%DL'' \<and> a = CHR ''%'' then CHR ''$'' # unescape (drop 3 s)
      else if take 3 s = ''%AM'' \<and> a = CHR ''%'' then CHR ''&'' # unescape (drop 3 s)
      else if take 3 s = ''%CM'' \<and> a = CHR ''%'' then CHR '','' # unescape (drop 3 s)
      else a # unescape s)"

text \<open>
  A readback that is too short is reported with the whole reply, as the receiver sent it: its error text holds the sixth
  field of an NTRIP readback in clear.
\<close>

lemma short_readback_shows_password:
  "\<exists>e pre post. verify_first_fields ''NtripSettings, NTR1, Client, c.org, 2101, me, secret, MP'' ''NtripSettings''
       [''NTR1'', ''Client'', ''c.org'', ''2101'', ''me'', [], ''MP'', ''v2'', ''auto''] = Inl e \<and> e = pre @ ''secret'' @ post"
proof -
  have "verify_first_fields ''NtripSettings, NTR1, Client, c.org, 2101, me, secret, MP'' ''NtripSettings''
       [''NTR1'', ''Client'', ''c.org'', ''2101'', ''me'', [], ''MP'', ''v2'', ''auto''] =
     Inl (''NtripSettings reply had 7 field(s), expected at least 9: NtripSettings, NTR1, Client, c.org, 2101, me, '' @ ''secret'' @ '', MP'')"
    by code_simp
  then show ?thesis by blast
qed

lemma escape_not_injective: "EscapeNtripPassword ''%%DQ'' = EscapeNtripPassword [CHR 0x22]"
  by code_simp

section \<open>Lengths\<close>

lemma length_commas: "length (commas fs) \<le> sum_list (map length fs) + 2 * length fs"
  by (induction fs rule: commas.induct) auto

lemma length_InListCi: "\<lbrakk> InListCi names v; list_all (\<lambda>w. length w \<le> k) names \<rbrakk> \<Longrightarrow> length v \<le> k"
proof -
  assume "InListCi names v" "list_all (\<lambda>w. length w \<le> k) names"
  then obtain w where "EqualsCi w v" "length w \<le> k" by (auto simp: InListCi_def list_ex_iff list_all_iff)
  then show ?thesis by (metis EqualsCi_def ToLower_simps(4))
qed

lemma ntrip_length:
  assumes "ntrip_valid n"
  shows "length (commas (ntrip_fields n)) \<le> kMaxAsciiCommandLength"
proof -
  have v: "list_all (\<lambda>e. e = None) (check_ntrip n)" "ntrip_enabled n"
    using assms by (simp_all add: ntrip_valid_def first_error_None)
  then have k: "length (caster n) \<le> 40" "ntrip_port n \<le> 65535" "1 \<le> ntrip_port n" "length (username n) \<le> 128"
      "length (ntrip_password n) \<le> 32" "length (mount_point n) \<le> 32"
      "InListCi kNtripVersions (ntrip_version n)" "InListCi kSendGga (send_gga n)"
    by (simp_all add: check_ntrip_def ntrip_text_def)
  have q: "length (QuoteIfWhitespace s) \<le> length s + 2" for s by (simp add: QuoteIfWhitespace_def quoted_def)
  have "length (EscapeNtripPassword s) \<le> 4 * length s" for s
    by (induction s) (auto simp: EscapeNtripPassword_def escape_char_def)
  then have "length (EscapeNtripPassword (ntrip_password n)) \<le> 4 * length (ntrip_password n)" .
  then have e: "length (QuoteIfWhitespace (EscapeNtripPassword (ntrip_password n))) \<le> 130"
    using q [of "EscapeNtripPassword (ntrip_password n)"] k(5) by linarith
  have "length (int_text (ntrip_port n)) \<le> 5"
    using length_nat_text [of "nat (ntrip_port n)" 5] k(2,3) by (simp add: int_text_def)
  moreover have "length (ntrip_version n) \<le> 4" by (rule length_InListCi [OF k(7)]) code_simp
  moreover have "length (send_gga n) \<le> 5" by (rule length_InListCi [OF k(8)]) code_simp
  moreover have "length (QuoteIfWhitespace (username n)) \<le> 130" using q [of "username n"] k(4) by simp
  ultimately have "sum_list (map length (ntrip_fields n)) \<le> 500" using k e by (simp add: ntrip_fields_def)
  moreover have "length (ntrip_fields n) = 10" by (simp add: ntrip_fields_def)
  ultimately show ?thesis using length_commas [of "ntrip_fields n"] by (simp add: kMaxAsciiCommandLength_def)
qed

section \<open>Validated settings build\<close>

lemma built_None: "built r = None \<longleftrightarrow> (\<exists>t. r = Inr t)"
  by (auto simp: built_def split: sum.splits)

lemma BuildSbf_shorter:
  assumes "BuildSbfOutputCommand s a = Inr t" "length b \<le> length a" "EnforceDescriptor b"
  shows "\<exists>t. BuildSbfOutputCommand s b = Inr t"
  using assms by (auto simp: BuildSbfOutputCommand_def EnforceCommandLength_def split: if_splits)

definition is_set :: "Command \<Rightarrow> bool" where
  "is_set c \<longleftrightarrow> StartsWithCi (cmd_text c) ''set''"

fun sets_verified :: "Command list \<Rightarrow> bool" where
  "sets_verified [] \<longleftrightarrow> True"
| "sets_verified [c] \<longleftrightarrow> \<not> is_set c"
| "sets_verified (c # d # cs) \<longleftrightarrow> (is_set c \<longrightarrow> cmd_kind d = kVerifyEcho) \<and> sets_verified (d # cs)"

lemma sets_verified_Cons: "\<not> is_set c \<Longrightarrow> sets_verified (c # cs) = sets_verified cs"
  by (cases cs) auto

declare sets_verified.simps(3) [simp del]

lemma not_set: "hd s \<noteq> CHR ''s'' \<Longrightarrow> hd s \<noteq> CHR ''S'' \<Longrightarrow> \<not> StartsWithCi s ''set''"
proof (cases s)
  case (Cons c t)
  assume h: "hd s \<noteq> CHR ''s''" "hd s \<noteq> CHR ''S''"
  have "to_lower CHR ''s'' = CHR ''s''" by code_simp
  moreover have "to_lower c \<noteq> CHR ''s''"
  proof
    assume l: "to_lower c = CHR ''s''"
    show False
    proof (cases "is_upper c")
      case True
      then have "CHR ''s'' = (char_of ((of_char c :: nat) + 32) :: char)" using l by (simp add: to_lower_def)
      moreover have "(of_char c :: nat) + 32 < 256" using True by (simp add: is_upper_def)
      ultimately have "(of_char CHR ''s'' :: nat) = of_char c + 32" by (simp only: of_char_of) simp
      then have "of_char c = (of_char CHR ''S'' :: nat)" by simp
      then have "c = CHR ''S''" by (simp only: of_char_eq_iff)
      then show False using h Cons by simp
    qed (use l h Cons in \<open>simp add: to_lower_def\<close>)
  qed
  ultimately show ?thesis using Cons by (simp add: StartsWithCi_def)
qed (simp add: StartsWithCi_def)

lemma echo_verified [simp]:
  "hd get_text = CHR ''g'' \<Longrightarrow> sets_verified (set_and_echo a get_text k f @ cs) = sets_verified cs"
  by (simp add: set_and_echo_def sets_verified.simps(3) sets_verified_Cons is_set_def not_set)

lemma echo_verified_last [simp]: "hd get_text = CHR ''g'' \<Longrightarrow> sets_verified (set_and_echo a get_text k f)"
  using echo_verified [of get_text a k f "[]"] by simp

lemma plain_verified [simp]:
  "hd text' \<noteq> CHR ''s'' \<Longrightarrow> hd text' \<noteq> CHR ''S'' \<Longrightarrow> sets_verified (command text' kind # cs) = sets_verified cs"
  by (simp add: sets_verified_Cons command_def is_set_def not_set)

lemma hd_commas [simp]: "a \<noteq> [] \<Longrightarrow> hd (commas (a # as)) = hd a"
  by (cases as) auto

lemma nmea_builds:
  "list_all (\<lambda>e. e = None) (check_nmea_streams ids ss) \<Longrightarrow>
   \<exists>cmds. nmea_commands ports ss = Inr cmds \<and> (\<forall>cs. sets_verified (cmds @ cs) = sets_verified cs)"
proof (induction ss arbitrary: ids ports)
  case (Cons s ss)
  obtain t where t: "BuildNmeaOutputCommand s = Inr t" using Cons.prems by (auto simp: built_None)
  have "list_all (\<lambda>e. e = None) (check_nmea_streams (nmea_id s # ids) ss)" using Cons.prems by simp
  then obtain rest where "nmea_commands (if InListCi ports (nmea_descriptor s) then ports else ports @ [nmea_descriptor s]) ss = Inr rest"
      "\<forall>cs. sets_verified (rest @ cs) = sets_verified cs"
    using Cons.IH by blast
  then show ?case by (simp add: t Let_def)
qed simp

lemma sbf_builds:
  assumes "EnforceDescriptor d" "length d \<le> 4"
  shows "list_all (\<lambda>e. e = None) (check_sbf_streams ids ss) \<Longrightarrow>
    \<exists>cmds. sbf_commands d ss = Inr cmds \<and> sets_verified cmds"
proof (induction ss arbitrary: ids)
  case (Cons s ss)
  obtain t where "BuildSbfOutputCommand s ''IP10'' = Inr t" using Cons.prems by (auto simp: built_None)
  then obtain u where u: "BuildSbfOutputCommand s d = Inr u" using BuildSbf_shorter assms by fastforce
  obtain rest where "sbf_commands d ss = Inr rest" "sets_verified rest" using Cons by auto
  then show ?case by (simp add: u Let_def)
qed simp

lemma ntrip_builds:
  assumes "first_error (check_ntrip n) = None"
  shows "\<exists>cmds. ntrip_commands n = Inr cmds \<and> (\<forall>cs. sets_verified (cmds @ cs) = sets_verified cs)"
proof (cases "ntrip_enabled n")
  case True
  then have "ntrip_valid n" using assms by (simp add: ntrip_valid_def)
  from ntrip_length [OF this] True show ?thesis
    by (simp add: ntrip_commands_def BuildNtripCommands_def EnforceCommandLength_def)
qed (simp add: ntrip_commands_def BuildNtripCommands_def)

lemma groups_verified [simp]:
  "sets_verified (time_commands ts @ cs) = sets_verified cs" "sets_verified (antenna_commands a @ cs) = sets_verified cs"
  "sets_verified (gnss_commands g @ cs) = sets_verified cs" "sets_verified (imu_commands i @ cs) = sets_verified cs"
  "sets_verified (navigation_commands nav @ cs) = sets_verified cs"
  by (simp_all add: time_commands_def antenna_commands_def gnss_commands_def imu_commands_def navigation_commands_def Let_def)

lemma BuildCommandList_valid:
  assumes "ValidateReceiverSettings s = None" "EnforceDescriptor d" "length d \<le> 4"
  shows "\<exists>cmds. BuildCommandList s d = Inr cmds \<and> sets_verified cmds"
proof -
  have v: "list_all (\<lambda>e. e = None) (check_nmea_streams [] (nmea_streams s))" "first_error (check_ntrip (rx_ntrip s)) = None"
      "list_all (\<lambda>e. e = None) (check_sbf_streams [] (sbf_streams s))"
    using assms(1) by (simp_all add: ValidateReceiverSettings_def first_error_None)
  obtain nmea where n: "nmea_commands [] (nmea_streams s) = Inr nmea" "\<And>cs. sets_verified (nmea @ cs) = sets_verified cs"
    using nmea_builds [OF v(1)] by blast
  obtain ntrip where t: "ntrip_commands (rx_ntrip s) = Inr ntrip" "\<And>cs. sets_verified (ntrip @ cs) = sets_verified cs"
    using ntrip_builds [OF v(2)] by blast
  obtain sbf where f: "sbf_commands d (sbf_streams s) = Inr sbf" "sets_verified sbf"
    using sbf_builds [OF assms(2,3) v(3)] by blast
  show ?thesis using assms(2) n t f by (simp add: BuildCommandList_def)
qed

section \<open>The check of the running configuration\<close>

lemma InListCi_append [simp]: "InListCi (a @ b) x \<longleftrightarrow> InListCi a x \<or> InListCi b x"
  by (simp add: InListCi_def)

lemma InListCi_single [simp]: "InListCi [a] x = EqualsCi a x"
  by (simp add: InListCi_def)

lemma InListCi_cong: "EqualsCi a b \<Longrightarrow> InListCi names a = InListCi names b"
  by (auto simp: InListCi_def list_ex_iff EqualsCi_def)

lemma InListCi_add_names:
  "InListCi (add_names names cs) x \<longleftrightarrow> InListCi names x \<or>
     list_ex (\<lambda>c. StartsWithCi (CommandNameOf (cmd_text c)) ''set'' \<and> EqualsCi (CommandNameOf (cmd_text c)) x) cs"
proof (induction cs arbitrary: names)
  case (Cons c cs)
  let ?n = "CommandNameOf (cmd_text c)"
  have "InListCi names x" if "InListCi names ?n" "EqualsCi ?n x" using that InListCi_cong by blast
  then show ?case using Cons by (auto simp: Let_def)
qed simp

lemma listing_exact:
  "(VerifyConfigListing lines (DriverCommandWhitelist cmds) = None) =
   list_all (\<lambda>l. cl_permanent l \<or> EqualsCi ''setUserAccessLevel'' (cl_command_name l) \<or>
     list_ex (\<lambda>c. StartsWithCi (CommandNameOf (cmd_text c)) ''set'' \<and>
        EqualsCi (CommandNameOf (cmd_text c)) (cl_command_name l)) cmds) lines"
  by (auto simp: VerifyConfigListing_def Let_def DriverCommandWhitelist_def InListCi_add_names list_all_iff
      filter_empty_conv)

section \<open>Properties\<close>


definition sample_ntrip :: NtripSettings where
  "sample_ntrip = \<lparr>ntrip_enabled = True, caster = ''caster.org'', ntrip_port = 2101, username = ''a user'',
     ntrip_password = ''s,t'', mount_point = ''MP'', ntrip_version = ''V2'', ntrip_tls = False, send_gga = ''auto''\<rparr>"



definition sample_settings :: ReceiverSettings where
  "sample_settings =
     \<lparr>rx_user = ''admin'', rx_password = ''septentrio'',
      sbf_streams = [\<lparr>sbf_id = 1, sbf_blocks = [''Measurements'', ''ReceiverStatus''], sbf_interval = ''OnChange''\<rparr>],
      nmea_streams = [\<lparr>nmea_id = 1, nmea_descriptor = ''COM2'', nmea_messages = [''ZDA''], nmea_interval = ''sec1''\<rparr>],
      rx_antenna = \<lparr>main_type = ''Unknown'', aux_type = ''Unknown'',
        attitude_offset_deg = \<lparr>heading_deg = 0, pitch_deg = 0\<rparr>, lever_arm_m = \<lparr>vec_x = 0, vec_y = 0, vec_z = 0\<rparr>\<rparr>,
      rx_gnss = \<lparr>cn0_mask_dbhz = 0, elevation_mask_deg = 0, satellite_tracking = ''all'', satellite_usage = ''G01+R02'',
        satellite_health_override = ''none'', signal_tracking = ''all'', signal_usage = ''GPSL1CA''\<rparr>,
      rx_imu = \<lparr>startup_data_mode = ''GnssTimeKnown'', orientation_mode = ''SensorDefault'', theta_x_deg = 0,
        theta_y_deg = 0, theta_z_deg = 0\<rparr>,
      time_system = \<lparr>ptp_server = False, ntp_server_on = True, ts_pps = \<lparr>pps_interval = ''sec1'',
        pps_polarity = ''Low2High'', pps_delay_ns = 0, pps_time_scale = ''GPS'', pps_max_holdover_s = 60,
        pps_pulse_width_ms = 5\<rparr>\<rparr>,
      rx_ntrip = sample_ntrip,
      rx_navigation = \<lparr>pvt_mode = ''all'', receiver_dynamics = ''Moderate'', vehicle_application = ''Unknown'',
        clock_sync_threshold = ''usec500'', multipath_mitigation = True, ins_output_location = ''POI1''\<rparr>,
      rx_warmup = \<lparr>warm_min_recording_s = 90, warm_require_finetime = True\<rparr>\<rparr>"

lemma sample_settings_valid: "ValidateReceiverSettings sample_settings = None"
  by code_simp


lemma listing_accepts_exactly_ours:
  "(VerifyConfigListing lines (DriverCommandWhitelist cmds) = None) =
   list_all (\<lambda>l. cl_permanent l \<or> EqualsCi ''setUserAccessLevel'' (cl_command_name l) \<or>
     list_ex (\<lambda>c. StartsWithCi (CommandNameOf (cmd_text c)) ''set'' \<and>
        EqualsCi (CommandNameOf (cmd_text c)) (cl_command_name l)) cmds) lines"
  by (rule listing_exact)

end
