(* ===== verification/Session_Safety.thy ===== *)
theory Session_Safety
  imports Session Receiver_Facts
begin

text \<open>
  What a session promises: a recording it calls complete holds every block the receiver delivered, the rig is released
  once and only after the whole configure sequence was acknowledged, nothing is reconnected after that, and a recovery
  has one window.
\<close>

section \<open>Fields\<close>

fun recorded :: "ses_call list \<Rightarrow> bytes list" where
  "recorded [] = []"
| "recorded (Recorded b # cs) = b # recorded cs"
| "recorded (_ # cs) = recorded cs"

lemma recorded_append [simp]: "recorded (xs @ ys) = recorded xs @ recorded ys"
  by (induction xs rule: recorded.induct) auto

abbreviation (input) options_of :: "Session \<Rightarrow> rw_options" where
  "options_of s \<equiv> sbf_options (app_rotate_bytes (ses_cfg s)) (app_rotate_interval (ses_cfg s))"

lemma small_ops [simp]:
  "ses_cfg (call c s) = ses_cfg s" "ses_writer (call c s) = ses_writer s" "ses_state (call c s) = ses_state s"
  "recording_errors (call c s) = recording_errors s" "ses_calls (call c s) = ses_calls s @ [c]" "ses_rx (call c s) = ses_rx s"
  "ever_configured (call c s) = ever_configured s" "ses_timers (call c s) = ses_timers s" "ses_warmup (call c s) = ses_warmup s"
  "ses_cmds (call c s) = ses_cmds s" "cmd_index (call c s) = cmd_index s" "ses_whitelist (call c s) = ses_whitelist s"
  "ses_cfg (start_timer t ms now s) = ses_cfg s" "ses_writer (start_timer t ms now s) = ses_writer s"
  "ses_state (start_timer t ms now s) = ses_state s" "recording_errors (start_timer t ms now s) = recording_errors s"
  "ses_calls (start_timer t ms now s) = ses_calls s" "ever_configured (start_timer t ms now s) = ever_configured s"
  "ses_warmup (start_timer t ms now s) = ses_warmup s" "ses_rx (start_timer t ms now s) = ses_rx s"
  "ses_cmds (start_timer t ms now s) = ses_cmds s" "cmd_index (start_timer t ms now s) = cmd_index s"
  "ses_whitelist (start_timer t ms now s) = ses_whitelist s" "ses_connecting (start_timer t ms now s) = ses_connecting s"
  "ses_cfg (stop_timer t s) = ses_cfg s" "ses_writer (stop_timer t s) = ses_writer s"
  "ses_state (stop_timer t s) = ses_state s" "recording_errors (stop_timer t s) = recording_errors s"
  "ses_calls (stop_timer t s) = ses_calls s" "ever_configured (stop_timer t s) = ever_configured s"
  "ses_warmup (stop_timer t s) = ses_warmup s" "ses_rx (stop_timer t s) = ses_rx s"
  "ses_cmds (stop_timer t s) = ses_cmds s" "cmd_index (stop_timer t s) = cmd_index s"
  "ses_whitelist (stop_timer t s) = ses_whitelist s" "ses_connecting (stop_timer t s) = ses_connecting s"
  "ses_connecting (call c s) = ses_connecting s" "lst_reply_seen (call c s) = lst_reply_seen s"
  "lst_reply_seen (start_timer t ms now s) = lst_reply_seen s" "lst_reply_seen (stop_timer t s) = lst_reply_seen s"
  "ses_rx (stop_timer t s) = ses_rx s"
  by (simp_all add: call_def start_timer_def stop_timer_def)

lemma error_ops [simp]:
  "ses_cfg (recording_error s) = ses_cfg s" "ses_writer (recording_error s) = ses_writer s"
  "ses_state (recording_error s) = ses_state s" "recording_errors (recording_error s) = Suc (recording_errors s)"
  "ses_calls (recording_error s) = ses_calls s" "ever_configured (recording_error s) = ever_configured s"
  "ses_timers (recording_error s) = ses_timers s" "ses_warmup (recording_error s) = ses_warmup s"
  "ses_rx (recording_error s) = ses_rx s" "ses_cmds (recording_error s) = ses_cmds s"
  "cmd_index (recording_error s) = cmd_index s" "ses_whitelist (recording_error s) = ses_whitelist s"
  "ses_connecting (recording_error s) = ses_connecting s" "lst_reply_seen (recording_error s) = lst_reply_seen s"
  by (simp_all add: recording_error_def)

lemma close_ops [simp]:
  "ses_cfg (close_connection s) = ses_cfg s" "ses_writer (close_connection s) = ses_writer s"
  "ses_state (close_connection s) = ses_state s" "recording_errors (close_connection s) = recording_errors s"
  "recorded (ses_calls (close_connection s)) = recorded (ses_calls s)" "ses_timers (close_connection s) = ses_timers s"
  "ever_configured (close_connection s) = ever_configured s" "ses_warmup (close_connection s) = ses_warmup s"
  by (simp_all add: close_connection_def)

section \<open>The recording\<close>

text \<open>The writer's own invariant, a stopped session has closed it, and an error is never forgotten.\<close>

definition good :: "Session \<Rightarrow> bool" where
  "good s \<longleftrightarrow> sq_inv (options_of s) (app_write_queue_bytes (ses_cfg s)) (ses_writer s, recorded (ses_calls s)) \<and>
     (ses_state s = kStopping \<longrightarrow> sq_closed (ses_writer s) \<and> (recording_errors s = 0 \<longrightarrow> \<not> sq_failed (ses_writer s))) \<and>
     (ses_state s = kBackoff \<longrightarrow> recording_errors s \<noteq> 0)"

definition keeps :: "Session \<Rightarrow> Session \<Rightarrow> bool" where
  "keeps a b \<longleftrightarrow> ses_cfg b = ses_cfg a \<and> recorded (ses_calls b) = recorded (ses_calls a) \<and>
     recording_errors a \<le> recording_errors b \<and> (good a \<longrightarrow> good b)"

lemma keeps_refl [simp]: "keeps a a"
  by (simp add: keeps_def)

lemma keeps_trans [trans]: "\<lbrakk> keeps a b; keeps b c \<rbrakk> \<Longrightarrow> keeps a c"
  by (auto simp: keeps_def)

text \<open>A change outside the writer, the calls and the end of the session.\<close>

lemma keeps_fields:
  assumes "ses_cfg b = ses_cfg a" "recorded (ses_calls b) = recorded (ses_calls a)" "ses_writer b = ses_writer a"
    "recording_errors a \<le> recording_errors b"
    "ses_state b = ses_state a \<or> ses_state b \<notin> {kStopping, kBackoff} \<or> ses_state b = kBackoff \<and> recording_errors b \<noteq> 0"
  shows "keeps a b"
  using assms by (auto simp: keeps_def good_def)

text \<open>
  The operations that end an attempt or the session say nothing to the receiver, leave the sequence where it is and do
  not move an open recovery window.
\<close>

definition quiet_call :: "ses_call \<Rightarrow> bool" where
  "quiet_call c \<longleftrightarrow> c = CloseConnection \<or> c = EmitFatalError \<or> c = SendPromptRequest"

definition quiet :: "Session \<Rightarrow> Session \<Rightarrow> bool" where
  "quiet a b \<longleftrightarrow> keeps a b \<and> ses_cmds b = ses_cmds a \<and> cmd_index b = cmd_index a \<and> ses_whitelist b = ses_whitelist a \<and>
     lst_reply_seen b = lst_reply_seen a \<and>
     (\<exists>xs. ses_calls b = ses_calls a @ xs \<and> list_all quiet_call xs) \<and>
     (ses_state b = ses_state a \<or> ses_state b = kStopping \<or> ses_state b = kBackoff \<and> ses_state a \<notin> {kRecording, kStopping}) \<and>
     (ses_state b = kStopping \<or> ses_timers a RecoveryTimer = None \<or> ses_timers b RecoveryTimer = ses_timers a RecoveryTimer) \<and>
     ses_rx b = ses_rx a \<and> (ses_connecting b \<longrightarrow> ses_connecting a \<and> (ses_state b = ses_state a \<or> \<not> ses_rx a))"

lemma quiet_keeps: "quiet a b \<Longrightarrow> keeps a b"
  by (simp add: quiet_def)

lemma quiet_refl [simp]: "quiet a a"
  by (simp add: quiet_def)

lemma quietD:
  assumes "quiet a b"
  shows "ses_state b = ses_state a \<or> ses_state b = kStopping \<or> ses_state b = kBackoff \<and> ses_state a \<notin> {kRecording, kStopping}"
    "ses_state b = kStopping \<or> ses_timers a RecoveryTimer = None \<or> ses_timers b RecoveryTimer = ses_timers a RecoveryTimer"
    "ses_connecting b \<longrightarrow> ses_connecting a \<and> (ses_state b = ses_state a \<or> \<not> ses_rx a)"
    "\<exists>xs. ses_calls b = ses_calls a @ xs \<and> list_all quiet_call xs" "ses_rx b = ses_rx a"
    "ses_cmds b = ses_cmds a" "cmd_index b = cmd_index a" "ses_whitelist b = ses_whitelist a" "lst_reply_seen b = lst_reply_seen a"
  using assms unfolding quiet_def by blast+

lemma quiet_trans:
  assumes "quiet a b" "quiet b c"
  shows "quiet a c"
proof -
  note p = quietD [OF assms(1)] and q = quietD [OF assms(2)]
  have "\<exists>zs. ses_calls c = ses_calls a @ zs \<and> list_all quiet_call zs" using p(4) q(4) by fastforce
  moreover have "keeps a c" using assms keeps_trans quiet_keeps by blast
  moreover have "ses_state c = ses_state a \<or> ses_state c = kStopping \<or> ses_state c = kBackoff \<and> ses_state a \<notin> {kRecording, kStopping}"
    using p(1) q(1) by (metis State.distinct insertCI)
  moreover have "ses_state c = kStopping \<or> ses_timers a RecoveryTimer = None \<or> ses_timers c RecoveryTimer = ses_timers a RecoveryTimer"
    using p(2) q(1,2) by (metis State.distinct insertCI)
  moreover have "ses_connecting c \<longrightarrow> ses_connecting a \<and> (ses_state c = ses_state a \<or> \<not> ses_rx a)"
    using p(3,5) q(3) by metis
  ultimately show ?thesis unfolding quiet_def using p(5-9) q(5-9) by simp
qed

lemma quiet_fields:
  assumes "ses_cfg b = ses_cfg a" "ses_writer b = ses_writer a" "recording_errors a \<le> recording_errors b"
    "ses_cmds b = ses_cmds a" "cmd_index b = cmd_index a" "ses_whitelist b = ses_whitelist a"
    "lst_reply_seen b = lst_reply_seen a" "\<exists>xs. ses_calls b = ses_calls a @ xs \<and> list_all quiet_call xs"
    "ses_state b = ses_state a \<or> ses_state b = kBackoff \<and> recording_errors b \<noteq> 0 \<and> ses_state a \<notin> {kRecording, kStopping}"
    "ses_timers a RecoveryTimer = None \<or> ses_timers b RecoveryTimer = ses_timers a RecoveryTimer"
    "ses_rx b = ses_rx a" "ses_connecting b \<longrightarrow> ses_connecting a \<and> (ses_state b = ses_state a \<or> \<not> ses_rx a)"
  shows "quiet a b"
proof -
  obtain xs where xs: "ses_calls b = ses_calls a @ xs" "list_all quiet_call xs" using assms(8) by blast
  have "recorded xs = []" using xs(2) by (induction xs rule: recorded.induct) (auto simp: quiet_call_def)
  then have "keeps a b" by (intro keeps_fields) (use assms xs in auto)
  then show ?thesis using assms by (auto simp: quiet_def)
qed

lemma quiet_call_simps [simp]: "quiet_call CloseConnection" "quiet_call EmitFatalError" "quiet_call SendPromptRequest"
  by (simp_all add: quiet_call_def)

lemma close_more [simp]:
  "ses_cmds (close_connection s) = ses_cmds s" "cmd_index (close_connection s) = cmd_index s"
  "ses_whitelist (close_connection s) = ses_whitelist s" "lst_reply_seen (close_connection s) = lst_reply_seen s"
  "ses_rx (close_connection s) = ses_rx s" "ses_connecting (close_connection s) = (ses_connecting s \<and> \<not> ses_rx s)"
  by (simp_all add: close_connection_def)

lemma close_calls: "\<exists>xs. ses_calls (close_connection s) = ses_calls s @ xs \<and> list_all quiet_call xs"
  by (simp add: close_connection_def)

lemma Shutdown_stops [simp]: "ses_state (Shutdown env s) = kStopping"
  by (simp add: Shutdown_def Let_def split: prod.split)

lemma quiet_Shutdown: "quiet s (Shutdown env s)"
proof (cases "ses_state s = kStopping")
  case False
  let ?s = "close_connection (s\<lparr>ses_state := kStopping, ses_liveness := 0, ses_timers := (\<lambda>_. None)\<rparr>)"
  obtain ok w where c: "Sbf_Write_Queue.Close env (ses_writer s) = (ok, w)" by fastforce
  obtain xs where x: "ses_calls ?s = ses_calls s @ xs" "list_all quiet_call xs" using close_calls [of "s\<lparr>ses_state := kStopping, ses_liveness := 0, ses_timers := (\<lambda>_. None)\<rparr>"] by auto
  have "keeps s (Shutdown env s)"
    using False Close_effect [OF _ c] by (auto simp: Shutdown_def Let_def c keeps_def good_def)
  moreover have "\<exists>xs. ses_calls (Shutdown env s) = ses_calls s @ xs \<and> list_all quiet_call xs"
    using False x by (simp add: Shutdown_def Let_def c)
  ultimately show ?thesis using False by (simp add: quiet_def Shutdown_def Let_def c)
qed (simp add: Shutdown_def)

lemma quiet_call_fatal: "quiet s (call EmitFatalError s)"
  by (rule quiet_fields) simp_all

lemma quiet_fatal: "quiet s (fatal env s)"
  unfolding fatal_def by (rule quiet_trans [OF quiet_Shutdown quiet_call_fatal])

lemma quiet_FailStartup: "quiet s (FailStartup env s)"
  by (simp add: FailStartup_def quiet_fatal)

lemma quiet_error: "quiet s (recording_error s)"
  by (rule quiet_fields) simp_all

lemma quiet_close: "quiet s (close_connection s)"
  using close_calls [of s] by (auto intro!: quiet_fields)

lemma timer_simps [simp]:
  "ses_timers (start_timer t ms now s) u = (if u = t then Some (now + ms * 10 ^ 6) else ses_timers s u)"
  "ses_timers (stop_timer t s) u = (if u = t then None else ses_timers s u)"
  by (simp_all add: start_timer_def stop_timer_def)

lemma quiet_timers:
  assumes "t \<noteq> RecoveryTimer"
  shows "quiet s (start_timer t ms now s)" "quiet s (stop_timer t s)"
  by (rule quiet_fields; use assms in simp)+

lemma quiet_HandleFailure: "quiet s (HandleFailure env now s)"
proof -
  let ?e = "recording_error s"
  define x where "x = stop_timer WarmupLogTimer (stop_timer WatchdogTimer (stop_timer CommandTimer (stop_timer ConnectTimer
      (?e\<lparr>recovery_events := recovery_events ?e + 1, ses_state := kBackoff\<rparr>))))"
  define y where "y = (if ses_timers x RecoveryTimer = None then start_timer RecoveryTimer kRecoveryTimeoutMs now x else x)"
  have f: "quiet s (fatal env ?e)" "quiet s (FailStartup env ?e)"
    by (rule quiet_trans [OF quiet_error], rule quiet_fatal quiet_FailStartup)+
  have r: "quiet s (start_timer RetryTimer kRetryDelayMs now (close_connection (y\<lparr>ses_liveness := 0\<rparr>)))"
    if "ses_state s \<noteq> kRecording" "ses_state s \<noteq> kStopping"
    by (rule quiet_fields) (use that close_calls [of "y\<lparr>ses_liveness := 0\<rparr>"] in \<open>auto simp: x_def y_def\<close>)
  have e: "HandleFailure env now s =
     (if ses_state s = kStopping \<or> ses_state s = kBackoff then s
      else if \<not> ever_configured ?e then FailStartup env ?e
      else if ses_state ?e = kRecording then fatal env ?e
      else start_timer RetryTimer kRetryDelayMs now (close_connection (y\<lparr>ses_liveness := 0\<rparr>)))"
    unfolding HandleFailure_def Let_def x_def y_def by (rule refl)
  show ?thesis unfolding e using f r by auto
qed

lemma quiet_damage: "quiet s (OnStreamDamage env s)" "quiet s (OnWriteFailed env s)"
  using quiet_trans [OF quiet_error quiet_fatal] quiet_error
  by (simp_all add: OnStreamDamage_def OnWriteFailed_def Let_def)

lemmas keeps_fatal = quiet_keeps [OF quiet_fatal]
lemmas keeps_FailStartup = quiet_keeps [OF quiet_FailStartup]
lemmas keeps_error = quiet_keeps [OF quiet_error]
lemmas keeps_HandleFailure = quiet_keeps [OF quiet_HandleFailure]
lemmas keeps_damage = quiet_keeps [OF quiet_damage(1)] quiet_keeps [OF quiet_damage(2)]
lemmas keeps_Shutdown = quiet_keeps [OF quiet_Shutdown]

lemma keeps_EnterRecording: "keeps s (EnterRecording env now s)"
  by (auto simp: EnterRecording_def Let_def keeps_damage intro!: keeps_fields)

lemma keeps_EnterWarmup: "keeps s (EnterWarmup env now s)"
proof -
  define x where "x = start_timer WatchdogTimer kWatchdogMs now
    ((stop_timer CommandTimer (s\<lparr>ses_state := kWarmingUp, ever_configured := True\<rparr>))
       \<lparr>ses_warmup := ResetReceiverStatus (ses_warmup s), ses_liveness := 0\<rparr>)"
  have e: "EnterWarmup env now s =
      (if Ready now (ses_warmup x) then EnterRecording env now x else start_timer WarmupLogTimer kWarmupLogMs now x)"
    by (simp add: EnterWarmup_def Let_def x_def)
  have x: "keeps s x" by (rule keeps_fields) (simp_all add: x_def)
  have "keeps x (start_timer WarmupLogTimer kWarmupLogMs now x)" by (rule keeps_fields) simp_all
  then show ?thesis unfolding e by (auto intro: keeps_trans [OF x] keeps_EnterRecording)
qed

lemma keeps_SendCurrentCommand: "keeps s (SendCurrentCommand env now s)"
  by (auto simp: SendCurrentCommand_def keeps_EnterWarmup intro!: keeps_fields)

lemma keeps_next: "keeps s (next_command env now s)"
  unfolding next_command_def by (rule keeps_trans [OF _ keeps_SendCurrentCommand], rule keeps_fields) simp_all

lemma keeps_stop_timer: "keeps s (stop_timer t s)"
  by (rule keeps_fields) simp_all

lemma keeps_reply: "keeps s (HandleCommandReply env now reply error s)"
proof -
  let ?t = "stop_timer CommandTimer s"
  have "keeps ?t (call (Acknowledged c r) ?t)" for c r by (rule keeps_fields) simp_all
  then have n: "keeps s (next_command env now (call (Acknowledged c r) ?t))" for c r
    using keeps_trans [OF keeps_stop_timer] keeps_trans [OF _ keeps_next] by blast
  have f: "keeps s (HandleFailure env now ?t)" by (rule keeps_trans [OF keeps_stop_timer keeps_HandleFailure])
  show ?thesis
    using n f by (auto simp: HandleCommandReply_def Let_def intro!: keeps_fields)
qed

lemma keeps_list: "keeps s (CompleteListCommand env now s)"
proof -
  let ?t = "stop_timer CommandTimer s"
  have "keeps ?t (call c (?t\<lparr>lst_reply_seen := False, lst_text := []\<rparr>))" if "\<And>b. c \<noteq> Recorded b" for c
    by (rule keeps_fields) (use that in \<open>cases c; simp\<close>)+
  then have n: "keeps s (next_command env now (call (Acknowledged c r) (?t\<lparr>lst_reply_seen := False, lst_text := []\<rparr>)))" for c r
    using keeps_trans [OF keeps_stop_timer] keeps_trans [OF _ keeps_next] by blast
  have f: "keeps s (HandleFailure env now ?t)" by (rule keeps_trans [OF keeps_stop_timer keeps_HandleFailure])
  show ?thesis using n f by (simp add: CompleteListCommand_def Let_def)
qed

lemma keeps_StartConnect: "keeps s (StartConnect now s)"
  by (rule keeps_fields) (simp_all add: StartConnect_def)

lemma keeps_descriptor: "keeps s (OnDescriptor env now d s)"
proof -
  have a: "keeps s (s\<lparr>descriptor := d\<rparr>)" by (rule keeps_fields) simp_all
  have b: "keeps s (SendCurrentCommand env now (s\<lparr>descriptor := d, ses_cmds := cs, ses_whitelist := w, cmd_index := i,
      ses_state := kConfiguring\<rparr>))" for cs w i
    by (rule keeps_trans [OF _ keeps_SendCurrentCommand], rule keeps_fields) simp_all
  show ?thesis using a b keeps_trans [OF a keeps_FailStartup]
    by (simp add: OnDescriptor_def Let_def split: sum.split)
qed

lemma quiet_status: "quiet s (OnReceiverStatus env block s)"
proof -
  have x: "quiet s (s\<lparr>ses_temperature := t, ses_warmup := g\<rparr>)" for t g by (rule quiet_fields) simp_all
  show ?thesis
    using x quiet_trans [OF x quiet_error] quiet_trans [OF x quiet_trans [OF quiet_error quiet_fatal]]
    by (auto simp: OnReceiverStatus_def Let_def split: option.split prod.split)
qed

lemmas keeps_status = quiet_keeps [OF quiet_status]

lemma keeps_after_block: "keeps s (after_block env now s)"
proof -
  define x where "x = (if ses_state s = kWarmingUp \<and> Ready now (ses_warmup s) then EnterRecording env now s else s)"
  have x: "keeps s x" by (simp add: x_def keeps_EnterRecording)
  have "keeps x (x\<lparr>ses_liveness := now div 1000\<rparr>)" by (rule keeps_fields) simp_all
  from x keeps_trans [OF x this] show ?thesis by (auto simp: after_block_def Let_def simp flip: x_def)
qed

lemma keeps_timeout: "keeps s (OnTimeout env now t s)"
  by (cases t) (simp_all add: keeps_HandleFailure keeps_StartConnect keeps_FailStartup keeps_EnterRecording OnWatchdog_def
      OnCommandTimeout_def)

lemma keeps_start_timer: "keeps s (start_timer t ms now s)"
  by (rule keeps_fields) simp_all

lemma fire_cases:
  "fire env now t s = s \<or> (\<exists>u. fire env now t s = OnTimeout env now t u \<and> (u = stop_timer t s \<or> (\<exists>ms. u = start_timer t ms now s)))"
  by (cases t) (auto simp: fire_def simp del: OnTimeout.simps split: option.split)

lemma keeps_fire: "keeps s (fire env now t s)"
  using fire_cases [of env now t s] keeps_trans [OF keeps_stop_timer keeps_timeout]
    keeps_trans [OF keeps_start_timer keeps_timeout] by (metis keeps_refl)

lemma keeps_writer:
  assumes "good s \<Longrightarrow> sq_inv (options_of s) (app_write_queue_bytes (ses_cfg s)) (w, recorded (ses_calls s))"
    "\<lbrakk> good s; ses_state s = kStopping \<rbrakk> \<Longrightarrow> w = ses_writer s"
  shows "keeps s (s\<lparr>ses_writer := w\<rparr>)"
  using assms by (auto simp: keeps_def good_def)

lemma keeps_Start: "ses_state s = kIdle \<Longrightarrow> keeps s (Session.Start now s)"
proof -
  assume i: "ses_state s = kIdle"
  have q: "keeps s (s\<lparr>ses_writer := Sbf_Write_Queue.Start (ses_writer s)\<rparr>)" (is "keeps s ?q")
    by (rule keeps_writer) (use sbf_queue.step_inv [of _ _ _ _ sq_op.CallStart] i in \<open>auto simp: good_def\<close>)
  have "keeps ?q (Session.Start now s)"
    by (rule keeps_fields) (simp_all add: Session.Start_def Let_def StartConnect_def)
  then show ?thesis using q keeps_trans by blast
qed

lemma keeps_writer_thread: "keeps s (s\<lparr>ses_writer := writer_step env (ses_writer s)\<rparr>)"
proof (rule keeps_writer)
  assume g: "good s"
  then show "sq_inv (options_of s) (app_write_queue_bytes (ses_cfg s)) (writer_step env (ses_writer s), recorded (ses_calls s))"
    using sbf_queue.step_inv [of _ _ _ env WriterMoves] by (auto simp: good_def)
qed (auto simp: good_def sq_inv_def writer_step.simps)

section \<open>Blocks\<close>

lemma OnSbfBlock_refused:
  "\<lbrakk> ses_state s \<noteq> kStopping; Enqueue b (ses_writer s) = (False, w) \<rbrakk> \<Longrightarrow>
   keeps s (fatal env (recording_error (s\<lparr>ses_writer := w\<rparr>)))"
  by (rule keeps_trans [OF keeps_writer keeps_trans [OF keeps_error keeps_fatal]])
    (auto simp: good_def dest: Enqueue_inv)

lemma OnSbfBlock_good:
  assumes "good s" "ses_state s \<noteq> kBackoff" "ses_state s \<noteq> kStopping"
  shows "good (OnSbfBlock env now b s)" "ses_cfg (OnSbfBlock env now b s) = ses_cfg s" "recording_errors s \<le> recording_errors (OnSbfBlock env now b s)"
    "recording_errors (OnSbfBlock env now b s) = 0 \<Longrightarrow> recorded (ses_calls (OnSbfBlock env now b s)) = recorded (ses_calls s) @ [b]"
proof -
  obtain ok w where q: "Enqueue b (ses_writer s) = (ok, w)" by fastforce
  have "good (OnSbfBlock env now b s) \<and> ses_cfg (OnSbfBlock env now b s) = ses_cfg s \<and> recording_errors s \<le> recording_errors (OnSbfBlock env now b s) \<and>
     (recording_errors (OnSbfBlock env now b s) = 0 \<longrightarrow>
        recorded (ses_calls (OnSbfBlock env now b s)) = recorded (ses_calls s) @ [b])"
  proof (cases ok)
    case False
    have e: "recording_errors (fatal env (recording_error (s\<lparr>ses_writer := w\<rparr>))) > 0"
      using keeps_fatal [of "recording_error (s\<lparr>ses_writer := w\<rparr>)" env] by (simp add: keeps_def)
    then show ?thesis using False assms q OnSbfBlock_refused [of s b w env]
      by (simp add: OnSbfBlock_def keeps_def)
  next
    case True
    define t where "t = call (Recorded b) (s\<lparr>ses_writer := w\<rparr>)"
    define u where "u = (if b = [] then t else t\<lparr>ses_warmup := StartRecording now (ses_warmup t)\<rparr>)"
    define v where "v = (if ses_state u = kWarmingUp \<or> ses_state u = kRecording
                    then OnReceiverStatus env b (start_timer WatchdogTimer kWatchdogMs now u) else u)"
    have t: "good t" "recorded (ses_calls t) = recorded (ses_calls s) @ [b]" "recording_errors t = recording_errors s" "ses_cfg t = ses_cfg s"
      using assms Enqueue_inv [OF _ q, of _ _ "recorded (ses_calls s)"] True by (auto simp: t_def good_def)
    have "keeps t u" by (rule keeps_fields) (simp_all add: u_def)
    moreover have "keeps u v" using keeps_trans [OF keeps_start_timer keeps_status] by (simp add: v_def)
    ultimately have "keeps t (after_block env now v)" using keeps_trans keeps_after_block by blast
    moreover have "OnSbfBlock env now b s = after_block env now v"
      using True q assms by (simp add: OnSbfBlock_def Let_def t_def u_def v_def)
    ultimately show ?thesis using t by (simp add: keeps_def)
  qed
  then show "good (OnSbfBlock env now b s)" "ses_cfg (OnSbfBlock env now b s) = ses_cfg s" "recording_errors s \<le> recording_errors (OnSbfBlock env now b s)"
    "recording_errors (OnSbfBlock env now b s) = 0 \<Longrightarrow> recorded (ses_calls (OnSbfBlock env now b s)) = recorded (ses_calls s) @ [b]"
    by blast+
qed

text \<open>What the receiver delivered: every block that reached a session that had not ended.\<close>

fun delivery :: "Session \<Rightarrow> nat \<times> ses_event \<Rightarrow> bytes list" where
  "delivery s (now, SbfBlock b) = (if ses_rx s \<and> ses_state s \<noteq> kStopping then [b] else [])"
| "delivery s (now, _) = []"

definition ses_run :: "rw_env \<Rightarrow> Session \<times> bytes list \<Rightarrow> nat \<times> ses_event \<Rightarrow> Session \<times> bytes list" where
  "ses_run env p e = (case p of (s, d) \<Rightarrow> (ses_step env s e, d @ delivery s e))"

definition recording_inv :: "AppConfig \<Rightarrow> Session \<times> bytes list \<Rightarrow> bool" where
  "recording_inv cfg p \<longleftrightarrow> (case p of (s, d) \<Rightarrow>
     ses_cfg s = cfg \<and> good s \<and> (recording_errors s = 0 \<longrightarrow> recorded (ses_calls s) = d))"

lemma keeps_other:
  assumes "\<And>b. ev \<noteq> SbfBlock b"
  shows "keeps s (ses_step env s (now, ev))"
proof -
  have f: "keeps s (s\<lparr>crc_errors := n\<rparr>)" "keeps s (s\<lparr>length_errors := n\<rparr>)" "keeps s (s\<lparr>discarded_bytes := n\<rparr>)"
      "keeps s (s\<lparr>ses_notices := n\<rparr>)" for n
    by (rule keeps_fields; simp)+
  have c: "keeps s (OnConnected now s)" "keeps s (OnFormattedBlock now x s)" for x
    by (rule keeps_fields; simp add: OnConnected_def OnFormattedBlock_def)+
  note d = keeps_trans [OF f(1) keeps_damage(1)] keeps_trans [OF f(2) keeps_damage(1)] keeps_trans [OF f(4) keeps_damage(2)]
  show ?thesis
  proof (cases ev)
    case (SbfBlock b)
    then show ?thesis using assms by blast
  qed (use f(3) c d in \<open>simp_all add: ses_step_def keeps_Start keeps_Shutdown keeps_fire keeps_writer_thread keeps_descriptor
      keeps_reply OnPrompt_def keeps_list OnCommunicationError_def keeps_HandleFailure split: option.split\<close>)
qed

interpretation session_recording: machine "ses_run env" "recording_inv cfg" for env cfg
proof
  fix p :: "Session \<times> bytes list" and e :: "nat \<times> ses_event"
  assume i: "recording_inv cfg p"
  obtain s d now ev where p: "p = (s, d)" "e = (now, ev)" by (metis surj_pair)
  have s: "ses_cfg s = cfg" "good s" "recording_errors s = 0 \<Longrightarrow> recorded (ses_calls s) = d"
    using i by (simp_all add: recording_inv_def p)
  show "recording_inv cfg (ses_run env p e)"
  proof (cases "\<exists>b. ev = SbfBlock b")
    case False
    then have "delivery s (now, ev) = []" by (cases ev) auto
    with keeps_other [of ev s env now] False s show ?thesis by (auto simp: recording_inv_def ses_run_def p keeps_def)
  next
    case True
    then obtain b where b: "ev = SbfBlock b" by blast
    show ?thesis
      using OnSbfBlock_good [OF s(2), of env now b] s
      by (auto simp: recording_inv_def ses_run_def p b ses_step_def OnSbfBlock_def good_def)
  qed
qed

lemma recording_inv_new: "recording_inv cfg (new_Session cfg, [])"
  using sq_inv_new by (simp add: recording_inv_def good_def new_Session_def)

text \<open>
  C1: a session that ended and does not call its recording incomplete has put every block the receiver delivered on the
  disk: for any sequence of signals, timeouts and moves of the writer thread, the files hold exactly the delivered bytes
  in order, none is torn and none still open. At any time the files are a prefix of what was taken over for recording.
\<close>

theorem complete_recording:
  "case foldl (ses_run env) (new_Session cfg, []) es of (s, delivered) \<Rightarrow>
     (\<exists>n. disk (sq_writer (ses_writer s)) = take n (concat (recorded (ses_calls s)))) \<and>
     (if ses_state s = kStopping \<and> \<not> known_acquisition_incomplete (FinalStatistics s)
      then disk (sq_writer (ses_writer s)) = concat delivered \<and> \<not> rw_is_open (sq_writer (ses_writer s)) \<and>
        list_all (\<lambda>f. \<not> fl_torn f) (rw_files (sq_writer (ses_writer s)))
      else True)"
proof -
  obtain s d where r: "foldl (ses_run env) (new_Session cfg, []) es = (s, d)" by fastforce
  have i: "recording_inv cfg (s, d)" using session_recording.run_inv [OF recording_inv_new, of cfg env es] by (simp add: r)
  then have q: "sq_inv (options_of s) (app_write_queue_bytes (ses_cfg s)) (ses_writer s, recorded (ses_calls s))"
    by (auto simp: recording_inv_def good_def)
  have "disk (sq_writer (ses_writer s)) = concat d \<and> \<not> rw_is_open (sq_writer (ses_writer s)) \<and>
      list_all (\<lambda>f. \<not> fl_torn f) (rw_files (sq_writer (ses_writer s)))"
    if e: "ses_state s = kStopping" "recording_errors s = 0"
  proof -
    have "sq_closed (ses_writer s)" "\<not> sq_failed (ses_writer s)" "recorded (ses_calls s) = d"
      using i e by (simp_all add: recording_inv_def good_def)
    with q show ?thesis by (auto simp: sq_inv_def sq_core_def in_hand_def rw_inv_def list_all_iff)
  qed
  moreover have "\<exists>n. disk (sq_writer (ses_writer s)) = take n (concat (recorded (ses_calls s)))"
    using q by (simp add: sq_inv_def sq_core_def)
  ultimately show ?thesis by (simp add: r FinalStatistics_def RecordingIncomplete_def Let_def)
qed

end
