(* ===== verification/Session_Release.thy ===== *)
theory Session_Release
  imports Session_Safety
begin

text \<open>
  When the session says it is configured, and how long it tries to recover: the announcement comes once, after every
  command of the configure sequence was sent and acknowledged in order on the connection in use; a failure before the
  recording opens one window of a minute that later failures do not move.
\<close>

section \<open>The dialogue of an attempt\<close>

fun dialogue :: "ses_call list \<Rightarrow> ses_call list" where
  "dialogue [] = []"
| "dialogue (SendASCIICommand t # cs) = SendASCIICommand t # dialogue cs"
| "dialogue (Acknowledged c r # cs) = Acknowledged c r # dialogue cs"
| "dialogue (_ # cs) = dialogue cs"

definition last_attempt :: "ses_call list \<Rightarrow> ses_call list" where
  "last_attempt cs = dialogue (rev (takeWhile (\<lambda>c. c \<noteq> ConnectTcp) (rev cs)))"

definition answer_accepted :: "ReceiverSettings \<Rightarrow> string list \<Rightarrow> Command \<Rightarrow> string \<Rightarrow> bool" where
  "answer_accepted settings whitelist c reply \<longleftrightarrow>
     (if list_kind c then listing_accepted settings whitelist c reply else reply_accepted c reply)"

text \<open>Every command was sent and got an answer that lets the sequence go on, in order, and nothing else was said.\<close>

fun follows :: "ReceiverSettings \<Rightarrow> string list \<Rightarrow> Command list \<Rightarrow> ses_call list \<Rightarrow> bool" where
  "follows settings whitelist (c # cs) (SendASCIICommand t # Acknowledged c' r # ds) =
     (t = cmd_text c \<and> c' = c \<and> answer_accepted settings whitelist c r \<and> follows settings whitelist cs ds)"
| "follows settings whitelist cs ds = (cs = [] \<and> ds = [])"

definition configured_by :: "ReceiverSettings \<Rightarrow> ses_call list \<Rightarrow> bool" where
  "configured_by settings ds \<longleftrightarrow>
     (\<exists>d cmds. BuildCommandList settings d = Inr cmds \<and> follows settings (DriverCommandWhitelist cmds) cmds ds)"

lemma dialogue_append [simp]: "dialogue (xs @ ys) = dialogue xs @ dialogue ys"
  by (induction xs rule: dialogue.induct) auto

lemma last_attempt_simps [simp]:
  "last_attempt [] = []" "last_attempt (cs @ [ConnectTcp]) = []"
  "last_attempt (cs @ [SendASCIICommand t]) = last_attempt cs @ [SendASCIICommand t]"
  "last_attempt (cs @ [Acknowledged c r]) = last_attempt cs @ [Acknowledged c r]"
  "last_attempt (cs @ [Recorded b]) = last_attempt cs" "last_attempt (cs @ [EmitConfigured]) = last_attempt cs"
  by (simp_all add: last_attempt_def)

lemma last_attempt_quiet: "list_all quiet_call xs \<Longrightarrow> last_attempt (cs @ xs) = last_attempt cs"
  by (induction xs rule: rev_induct) (auto simp: last_attempt_def quiet_call_def simp flip: append_assoc)

lemma follows_snoc:
  "\<lbrakk> follows st w cs ds; answer_accepted st w c r \<rbrakk> \<Longrightarrow>
   follows st w (cs @ [c]) (ds @ [SendASCIICommand (cmd_text c), Acknowledged c r])"
  by (induction st w cs ds rule: follows.induct) auto

section \<open>The invariant\<close>

text \<open>What follows the announcement: blocks, and the end.\<close>

definition after_release :: "ses_call \<Rightarrow> bool" where
  "after_release c \<longleftrightarrow> quiet_call c \<or> (case c of Recorded b \<Rightarrow> True | _ \<Rightarrow> False)"

definition released :: "ReceiverSettings \<Rightarrow> ses_call list \<Rightarrow> bool" where
  "released settings cs \<longleftrightarrow>
     (\<exists>a b. cs = a @ EmitConfigured # b \<and> EmitConfigured \<notin> set a \<and> configured_by settings (last_attempt a) \<and> list_all after_release b)"

definition conf :: "Session \<Rightarrow> bool" where
  "conf s \<longleftrightarrow>
     (case ses_state s of
        kConnecting \<Rightarrow> last_attempt (ses_calls s) = []
      | kWaitingDescriptor \<Rightarrow> last_attempt (ses_calls s) = []
      | kConfiguring \<Rightarrow>
          (\<exists>d ds. BuildCommandList (app_receiver (ses_cfg s)) d = Inr (ses_cmds s) \<and>
             ses_whitelist s = DriverCommandWhitelist (ses_cmds s) \<and> cmd_index s < length (ses_cmds s) \<and>
             follows (app_receiver (ses_cfg s)) (ses_whitelist s) (take (cmd_index s) (ses_cmds s)) ds \<and>
             last_attempt (ses_calls s) = ds @ [SendASCIICommand (cmd_text (ses_cmds s ! cmd_index s))]) \<and>
          (lst_reply_seen s \<longrightarrow> list_kind (ses_cmds s ! cmd_index s))
      | kWarmingUp \<Rightarrow> configured_by (app_receiver (ses_cfg s)) (last_attempt (ses_calls s))
      | _ \<Rightarrow> True) \<and>
     (if ses_state s = kRecording then released (app_receiver (ses_cfg s)) (ses_calls s)
      else if ses_state s = kStopping then EmitConfigured \<in> set (ses_calls s) \<longrightarrow> released (app_receiver (ses_cfg s)) (ses_calls s)
      else EmitConfigured \<notin> set (ses_calls s)) \<and>
     (ses_connecting s \<longrightarrow> ses_rx s \<and> ses_state s = kConnecting)"

lemma released_append: "\<lbrakk> released st cs; list_all after_release xs \<rbrakk> \<Longrightarrow> released st (cs @ xs)"
  unfolding released_def by (elim exE conjE) (rule exI, rule exI [where x = "_ @ xs"], auto)

lemma quiet_after: "list_all quiet_call xs \<Longrightarrow> list_all after_release xs"
  by (auto simp: list_all_iff after_release_def)

lemma quiet_no_release: "list_all quiet_call xs \<Longrightarrow> EmitConfigured \<notin> set xs"
  by (auto simp: list_all_iff quiet_call_def)

lemma conf_quiet:
  assumes "quiet a b" "conf a"
  shows "conf b"
proof -
  obtain xs where xs: "ses_calls b = ses_calls a @ xs" "list_all quiet_call xs" using assms(1) by (auto simp: quiet_def)
  have "last_attempt (ses_calls b) = last_attempt (ses_calls a)" "EmitConfigured \<notin> set xs"
    "released st (ses_calls a) \<Longrightarrow> released st (ses_calls b)" for st
    using xs last_attempt_quiet quiet_no_release released_append quiet_after by simp_all
  then show ?thesis using assms xs(1)
    by (cases "ses_state b"; cases "ses_state a") (auto simp: conf_def quiet_def keeps_def)
qed

text \<open>The next command may go out.\<close>

definition in_step :: "Session \<Rightarrow> bool" where
  "in_step s \<longleftrightarrow> (\<exists>d. BuildCommandList (app_receiver (ses_cfg s)) d = Inr (ses_cmds s)) \<and>
     ses_whitelist s = DriverCommandWhitelist (ses_cmds s) \<and>
     cmd_index s \<le> length (ses_cmds s) \<and> ses_state s = kConfiguring \<and> \<not> ses_connecting s \<and>
     EmitConfigured \<notin> set (ses_calls s) \<and>
     follows (app_receiver (ses_cfg s)) (ses_whitelist s) (take (cmd_index s) (ses_cmds s)) (last_attempt (ses_calls s))"

lemma conf_fields:
  assumes "conf a" "ses_cfg b = ses_cfg a" "ses_cmds b = ses_cmds a" "cmd_index b = cmd_index a" "ses_whitelist b = ses_whitelist a"
    "ses_calls b = ses_calls a" "ses_state b = ses_state a"
    "lst_reply_seen b \<longrightarrow> lst_reply_seen a" "ses_connecting b = ses_connecting a" "ses_rx b = ses_rx a"
  shows "conf b"
  using assms by (cases "ses_state a") (auto simp: conf_def)

lemma conf_EnterRecording: "conf s \<Longrightarrow> conf (EnterRecording env now s)"
proof -
  assume c: "conf s"
  have r: "released st (ses_calls s @ [EmitConfigured])" if "ses_state s = kWarmingUp" "st = app_receiver (ses_cfg s)" for st
    using c that unfolding released_def by (rule_tac exI [where x = "ses_calls s"], rule_tac exI [where x = "[]"]) (simp add: conf_def)
  show ?thesis
  proof (cases "ses_state s = kWarmingUp \<and> \<not> sq_failed (ses_writer s)")
    case True
    moreover have "\<not> ses_connecting s" using c True by (auto simp: conf_def)
    ultimately show ?thesis using r by (simp add: EnterRecording_def Let_def conf_def)
  next
    case False
    then show ?thesis using c conf_quiet [OF quiet_damage(2) c] by (auto simp: EnterRecording_def)
  qed
qed

lemma conf_EnterWarmup:
  assumes "configured_by (app_receiver (ses_cfg s)) (last_attempt (ses_calls s))" "EmitConfigured \<notin> set (ses_calls s)" "\<not> ses_connecting s"
  shows "conf (EnterWarmup env now s)"
proof -
  define x where "x = start_timer WatchdogTimer kWatchdogMs now
    ((stop_timer CommandTimer (s\<lparr>ses_state := kWarmingUp, ever_configured := True\<rparr>))
       \<lparr>ses_warmup := ResetReceiverStatus (ses_warmup s), ses_liveness := 0\<rparr>)"
  have e: "EnterWarmup env now s =
      (if Ready now (ses_warmup x) then EnterRecording env now x else start_timer WarmupLogTimer kWarmupLogMs now x)"
    by (simp add: EnterWarmup_def Let_def x_def)
  have x: "conf x" using assms by (simp add: conf_def x_def)
  have "conf (start_timer WarmupLogTimer kWarmupLogMs now x)" by (rule conf_fields [OF x]) simp_all
  then show ?thesis using x conf_EnterRecording by (simp add: e)
qed

lemma conf_SendCurrentCommand: "in_step s \<Longrightarrow> conf (SendCurrentCommand env now s)"
proof -
  assume i: "in_step s"
  show ?thesis
  proof (cases "cmd_index s < length (ses_cmds s)")
    case True
    then show ?thesis using i by (auto simp: SendCurrentCommand_def conf_def in_step_def)
  next
    case False
    then have "configured_by (app_receiver (ses_cfg s)) (last_attempt (ses_calls s))" "EmitConfigured \<notin> set (ses_calls s)" "\<not> ses_connecting s"
      using i unfolding configured_by_def by (auto simp: in_step_def intro!: exI [of _ "ses_cmds s"])
    then show ?thesis using False conf_EnterWarmup by (simp add: SendCurrentCommand_def)
  qed
qed

lemma conf_next:
  assumes "conf s" "ses_state s = kConfiguring" "answer_accepted (app_receiver (ses_cfg s)) (ses_whitelist s) c r"
    "c = ses_cmds s ! cmd_index s"
  shows "conf (next_command env now (call (Acknowledged c r) s))"
proof -
  obtain d ds where d: "BuildCommandList (app_receiver (ses_cfg s)) d = Inr (ses_cmds s)"
      "ses_whitelist s = DriverCommandWhitelist (ses_cmds s)" "cmd_index s < length (ses_cmds s)"
      "follows (app_receiver (ses_cfg s)) (ses_whitelist s) (take (cmd_index s) (ses_cmds s)) ds"
      "last_attempt (ses_calls s) = ds @ [SendASCIICommand (cmd_text c)]" "EmitConfigured \<notin> set (ses_calls s)"
      "\<not> ses_connecting s"
    using assms by (auto simp: conf_def)
  have "follows (app_receiver (ses_cfg s)) (ses_whitelist s) (take (Suc (cmd_index s)) (ses_cmds s)) (last_attempt (ses_calls s) @ [Acknowledged c r])"
    using follows_snoc [OF d(4) assms(3)] d(3,5) by (simp add: take_Suc_conv_app_nth assms(4))
  then show ?thesis using d assms(2) unfolding next_command_def
    by (intro conf_SendCurrentCommand) (auto simp: in_step_def)
qed

lemma conf_reply: "conf s \<Longrightarrow> conf (HandleCommandReply env now reply error s)"
proof -
  assume c: "conf s"
  let ?c = "ses_cmds s ! cmd_index s"
  let ?t = "stop_timer CommandTimer s"
  have t: "conf ?t" by (rule conf_fields [OF c]) simp_all
  have f: "conf (HandleFailure env now ?t)" by (rule conf_quiet [OF quiet_HandleFailure t])
  have l: "conf (start_timer CommandTimer kCommandTimeoutMs now (?t\<lparr>lst_text := x, lst_reply_seen := True\<rparr>))" if "list_kind ?c" for x
    using c that by (cases "ses_state s") (auto simp: conf_def)
  have n: "conf (next_command env now (call (Acknowledged ?c reply) ?t))"
    if "reply_accepted ?c reply" "\<not> list_kind ?c" "ses_state s = kConfiguring"
    by (rule conf_next [OF t]) (use that in \<open>simp_all add: answer_accepted_def\<close>)
  show ?thesis
  proof (cases "ses_state s = kConfiguring \<and> \<not> echoes_other ?c reply \<and> \<not> error \<and> listing_header reply = list_kind ?c")
    case True
    then show ?thesis using c l n f unfolding HandleCommandReply_def Let_def small_ops
      by (cases "list_kind ?c") (simp_all only: split: if_split, blast+)
  next
    case False
    then show ?thesis using c f unfolding HandleCommandReply_def Let_def by (auto simp only: small_ops split: if_split)
  qed
qed

lemma conf_list:
  assumes "conf s" "ses_state s = kConfiguring" "lst_reply_seen s"
  shows "conf (CompleteListCommand env now s)"
proof -
  let ?c = "ses_cmds s ! cmd_index s"
  let ?t = "stop_timer CommandTimer s"
  have t: "conf ?t" by (rule conf_fields [OF assms(1)]) simp_all
  have u: "conf (?t\<lparr>lst_reply_seen := False, lst_text := []\<rparr>)" by (rule conf_fields [OF assms(1)]) simp_all
  have k: "list_kind ?c" using assms by (simp add: conf_def)
  have n: "conf (next_command env now (call (Acknowledged ?c (lst_text s)) (?t\<lparr>lst_reply_seen := False, lst_text := []\<rparr>)))"
    if "listing_accepted (app_receiver (ses_cfg s)) (ses_whitelist s) ?c (lst_text s)"
    by (rule conf_next [OF u]) (use assms(2) k that in \<open>simp_all add: answer_accepted_def\<close>)
  have e: "lst_text ?t = lst_text s" by (simp add: stop_timer_def)
  show ?thesis
    unfolding CompleteListCommand_def Let_def small_ops e
    using n conf_quiet [OF quiet_HandleFailure t] by (simp only: split: if_split) blast
qed

lemma conf_descriptor: "conf s \<Longrightarrow> conf (OnDescriptor env now d s)"
proof -
  assume c: "conf s"
  let ?s = "s\<lparr>descriptor := d\<rparr>"
  have a: "conf ?s" by (rule conf_fields [OF c]) simp_all
  show ?thesis
  proof (cases "ses_state s = kWaitingDescriptor")
    case False
    then show ?thesis using a by (simp add: OnDescriptor_def)
  next
    case True
    have "in_step (?s\<lparr>ses_cmds := cs, ses_whitelist := DriverCommandWhitelist cs, cmd_index := 0, ses_state := kConfiguring\<rparr>)"
      if "BuildCommandList (app_receiver (ses_cfg s)) d = Inr cs" for cs
      using c True that by (auto simp: in_step_def conf_def)
    then show ?thesis
      using True conf_quiet [OF quiet_FailStartup a] conf_SendCurrentCommand by (simp add: OnDescriptor_def Let_def split: sum.split)
  qed
qed

lemma conf_StartConnect: "\<lbrakk> conf s; ses_state s \<notin> {kRecording, kStopping} \<rbrakk> \<Longrightarrow> conf (StartConnect now s)"
  by (simp add: StartConnect_def conf_def)

lemma conf_block: "\<lbrakk> conf s; ses_state s \<noteq> kStopping \<rbrakk> \<Longrightarrow> conf (call (Recorded b) (s\<lparr>ses_writer := w\<rparr>))"
  using released_append [of "app_receiver (ses_cfg s)" "ses_calls s" "[Recorded b]"]
  by (cases "ses_state s") (auto simp: conf_def after_release_def)

lemma conf_after_block: "conf s \<Longrightarrow> conf (after_block env now s)"
proof -
  assume c: "conf s"
  define x where "x = (if ses_state s = kWarmingUp \<and> Ready now (ses_warmup s) then EnterRecording env now s else s)"
  have x: "conf x" using c by (simp add: x_def conf_EnterRecording)
  have "conf (x\<lparr>ses_liveness := now div 1000\<rparr>)" by (rule conf_fields [OF x]) simp_all
  with x show ?thesis by (auto simp: after_block_def Let_def simp flip: x_def)
qed

lemma conf_Connected: "\<lbrakk> conf s; ses_connecting s \<rbrakk> \<Longrightarrow> conf (OnConnected now s)"
proof -
  assume c: "conf s" "ses_connecting s"
  then have "ses_state s = kConnecting" by (simp add: conf_def)
  then show ?thesis using c last_attempt_quiet [of "[SendPromptRequest]" "ses_calls s"] by (simp add: OnConnected_def conf_def)
qed

lemma conf_Start: "\<lbrakk> conf s; ses_state s = kIdle \<rbrakk> \<Longrightarrow> conf (Session.Start now s)"
proof -
  assume c: "conf s" "ses_state s = kIdle"
  let ?w = "rx_warmup (app_receiver (ses_cfg s))"
  let ?t = "start_timer StatsTimer (app_stats_period_ms (ses_cfg s)) now
    (s\<lparr>ses_warmup := Warmup_Gate.Reset ((ses_warmup s)\<lparr>min_recording_s := warm_min_recording_s ?w, require_finetime := warm_require_finetime ?w\<rparr>),
       ses_writer := Sbf_Write_Queue.Start (ses_writer s)\<rparr>)"
  have "conf ?t" by (rule conf_fields [OF c(1)]) simp_all
  moreover have "ses_state ?t = kIdle" using c(2) by simp
  ultimately have "conf (StartConnect now ?t)" by (intro conf_StartConnect) simp_all
  then show ?thesis by (simp add: Session.Start_def Let_def)
qed

lemma conf_timeout: "conf s \<Longrightarrow> conf (OnTimeout env now t s)"
  by (cases t) (simp_all add: conf_quiet [OF quiet_HandleFailure] conf_quiet [OF quiet_FailStartup] conf_StartConnect
      conf_EnterRecording OnWatchdog_def OnCommandTimeout_def)

lemma conf_fire: "conf s \<Longrightarrow> conf (fire env now t s)"
proof -
  assume c: "conf s"
  have "conf (stop_timer t s)" "conf (start_timer t ms now s)" for ms by (rule conf_fields [OF c]; simp)+
  then show ?thesis using fire_cases [of env now t s] c conf_timeout by metis
qed

lemma conf_OnSbfBlock: "conf s \<Longrightarrow> conf (OnSbfBlock env now b s)"
proof -
  assume c: "conf s"
  obtain ok w where q: "Enqueue b (ses_writer s) = (ok, w)" by fastforce
  define t where "t = call (Recorded b) (s\<lparr>ses_writer := w\<rparr>)"
  define u where "u = (if b = [] then t else t\<lparr>ses_warmup := StartRecording now (ses_warmup t)\<rparr>)"
  define v where "v = (if ses_state u = kWarmingUp \<or> ses_state u = kRecording
                  then OnReceiverStatus env b (start_timer WatchdogTimer kWatchdogMs now u) else u)"
  show ?thesis
  proof (cases "ses_state s = kBackoff \<or> ses_state s = kStopping")
    case False
    have t: "conf t" using conf_block [OF c] False by (simp add: t_def)
    have u: "conf u" by (rule conf_fields [OF t]) (simp_all add: u_def)
    have w: "conf (start_timer WatchdogTimer kWatchdogMs now u)" by (rule conf_fields [OF u]) simp_all
    have v: "conf v" using u conf_quiet [OF quiet_status w] by (simp add: v_def)
    have "conf (s\<lparr>ses_writer := w\<rparr>)" by (rule conf_fields [OF c]) simp_all
    from conf_quiet [OF quiet_trans [OF quiet_error quiet_fatal] this]
    moreover have "OnSbfBlock env now b s = (if ok then after_block env now v else fatal env (recording_error (s\<lparr>ses_writer := w\<rparr>)))"
      using False q by (cases ok) (simp_all add: OnSbfBlock_def Let_def t_def u_def v_def)
    ultimately show ?thesis using conf_after_block [OF v] by simp
  qed (use c in \<open>auto simp: OnSbfBlock_def\<close>)
qed

lemma conf_step: "conf s \<Longrightarrow> conf (ses_step env s (now, ev))"
proof -
  assume c: "conf s"
  have f: "conf (s\<lparr>crc_errors := n\<rparr>)" "conf (s\<lparr>length_errors := n\<rparr>)" "conf (s\<lparr>discarded_bytes := n\<rparr>)"
      "conf (s\<lparr>ses_notices := n\<rparr>)" "conf (s\<lparr>ses_writer := w\<rparr>)" for n w
    by (rule conf_fields [OF c]; simp)+
  have l: "conf (OnFormattedBlock now x s)" for x
    by (rule conf_fields [OF c]; simp add: OnFormattedBlock_def)
  note d = conf_quiet [OF quiet_damage(1) f(1)] conf_quiet [OF quiet_damage(1) f(2)] conf_quiet [OF quiet_damage(2) f(4)]
  show ?thesis
    by (cases ev) (simp_all add: c f d l ses_step_def conf_Start conf_quiet [OF quiet_Shutdown] conf_fire conf_descriptor conf_reply
        OnPrompt_def conf_list OnCommunicationError_def conf_quiet [OF quiet_HandleFailure] conf_Connected conf_OnSbfBlock
        split: option.split)
qed

interpretation session_configuration: machine "ses_step env" conf for env
  by unfold_locales (use conf_step in force)

lemma run_session: "fst (foldl (ses_run env) (s, d) es) = foldl (ses_step env) s es"
  by (induction es arbitrary: s d) (simp_all add: ses_run_def)

lemma conf_new: "conf (new_Session cfg)"
  by (simp add: conf_def new_Session_def)

text \<open>
  C5: the rig is released once and only by a receiver that is configured: in every reachable session, before the
  announcement the connection in use carried exactly the built command sequence, each command sent once and in order, and
  each answered by a reply the session may accept (the capabilities name the second antenna, an echo reads back the
  requested fields, the listing of the running configuration holds nothing but the driver's own commands). After it
  comes no second announcement, no reconnect and no further command.
\<close>

theorem released_once_configured:
  "let cs = ses_calls (foldl (ses_step env) (new_Session cfg) es);
       before = takeWhile (\<lambda>c. c \<noteq> EmitConfigured) cs
   in if EmitConfigured \<in> set cs
      then configured_by (app_receiver cfg) (last_attempt before) \<and> list_all after_release (drop (length before + 1) cs)
      else True"
proof -
  define s where "s = foldl (ses_step env) (new_Session cfg) es"
  have c: "conf s" unfolding s_def by (rule session_configuration.run_inv [OF conf_new])
  have g: "ses_cfg s = cfg"
    using session_recording.run_inv [OF recording_inv_new, of cfg env es] run_session [of env "new_Session cfg" "[]" es]
    by (auto simp: recording_inv_def s_def split: prod.splits)
  have "configured_by (app_receiver cfg) (last_attempt (takeWhile (\<lambda>c. c \<noteq> EmitConfigured) (ses_calls s))) \<and>
      list_all after_release (drop (length (takeWhile (\<lambda>c. c \<noteq> EmitConfigured) (ses_calls s)) + 1) (ses_calls s))"
    if "EmitConfigured \<in> set (ses_calls s)"
  proof -
    have "released (app_receiver cfg) (ses_calls s)" using c that g by (cases "ses_state s") (auto simp: conf_def)
    then obtain a b where r: "ses_calls s = a @ EmitConfigured # b" "EmitConfigured \<notin> set a"
        "configured_by (app_receiver cfg) (last_attempt a)" "list_all after_release b"
      by (auto simp: released_def)
    have "takeWhile (\<lambda>c. c \<noteq> EmitConfigured) (ses_calls s) = a" unfolding r(1) using r(2) by (induction a) auto
    with r show ?thesis by simp
  qed
  then show ?thesis by (simp add: Let_def flip: s_def)
qed

section \<open>The recovery window\<close>

text \<open>The window is open until the recording starts or the session ends, and its deadline does not move.\<close>

definition window :: "nat \<Rightarrow> Session \<Rightarrow> bool" where
  "window deadline s \<longleftrightarrow> ses_state s = kRecording \<or> ses_state s = kStopping \<or> ses_timers s RecoveryTimer = Some deadline"

lemma window_quiet: "\<lbrakk> quiet a b; window d a \<rbrakk> \<Longrightarrow> window d b"
  using quietD(1,2) [of a b] by (auto simp: window_def)

lemma window_fields:
  "\<lbrakk> window d a; ses_state b = ses_state a \<or> ses_state a \<notin> {kRecording, kStopping};
     ses_timers b RecoveryTimer = ses_timers a RecoveryTimer \<rbrakk> \<Longrightarrow> window d b"
  by (auto simp: window_def)

lemma window_EnterRecording: "window d s \<Longrightarrow> window d (EnterRecording env now s)"
  using window_quiet [OF quiet_damage(2)] by (simp add: EnterRecording_def Let_def) (simp add: window_def)

lemma window_SendCurrentCommand:
  assumes "window d s" "ses_state s \<notin> {kRecording, kStopping}"
  shows "window d (SendCurrentCommand env now s)"
proof -
  define x where "x = start_timer WatchdogTimer kWatchdogMs now
    ((stop_timer CommandTimer (s\<lparr>ses_state := kWarmingUp, ever_configured := True\<rparr>))
       \<lparr>ses_warmup := ResetReceiverStatus (ses_warmup s), ses_liveness := 0\<rparr>)"
  have e: "EnterWarmup env now s =
      (if Ready now (ses_warmup x) then EnterRecording env now x else start_timer WarmupLogTimer kWarmupLogMs now x)"
    by (simp add: EnterWarmup_def Let_def x_def)
  have x: "window d x" by (rule window_fields [OF assms(1)]) (use assms(2) in \<open>simp_all add: x_def\<close>)
  have "window d (start_timer WarmupLogTimer kWarmupLogMs now x)" by (rule window_fields [OF x]) simp_all
  then have "window d (EnterWarmup env now s)" using window_EnterRecording [OF x] by (simp add: e)
  moreover have "window d (call c (start_timer CommandTimer kCommandTimeoutMs now (s\<lparr>lst_reply_seen := False, lst_text := []\<rparr>)))" for c
    by (rule window_fields [OF assms(1)]) simp_all
  ultimately show ?thesis by (simp add: SendCurrentCommand_def)
qed

lemma window_next:
  assumes "window d s" "ses_state s = kConfiguring"
  shows "window d (next_command env now s)"
  unfolding next_command_def
  by (rule window_SendCurrentCommand [OF window_fields [OF assms(1)]]) (use assms(2) in simp_all)

lemma window_reply: "window d s \<Longrightarrow> window d (HandleCommandReply env now reply error s)"
proof -
  assume w: "window d s"
  let ?t = "stop_timer CommandTimer s"
  have t: "window d ?t" by (rule window_fields [OF w]) simp_all
  have f: "window d (HandleFailure env now ?t)" by (rule window_quiet [OF quiet_HandleFailure t])
  have l: "window d (start_timer CommandTimer kCommandTimeoutMs now (?t\<lparr>lst_text := x, lst_reply_seen := True\<rparr>))" for x
    by (rule window_fields [OF w]) simp_all
  have n: "window d (next_command env now (call (Acknowledged c reply) ?t))" if "ses_state s = kConfiguring" for c
    by (rule window_next [OF window_fields [OF w]]) (use that in simp_all)
  show ?thesis
  proof (cases "ses_state s = kConfiguring")
    case True
    then show ?thesis using w f l n unfolding HandleCommandReply_def Let_def by (simp only: split: if_split) blast
  qed (simp add: HandleCommandReply_def w)
qed

lemma window_list: "\<lbrakk> window d s; ses_state s = kConfiguring \<rbrakk> \<Longrightarrow> window d (CompleteListCommand env now s)"
proof -
  assume w: "window d s" "ses_state s = kConfiguring"
  let ?t = "stop_timer CommandTimer s"
  have t: "window d ?t" by (rule window_fields [OF w(1)]) simp_all
  have "window d (next_command env now (call c (?t\<lparr>lst_reply_seen := False, lst_text := []\<rparr>)))" for c
    by (rule window_next [OF window_fields [OF w(1)]]) (use w(2) in simp_all)
  then show ?thesis using window_quiet [OF quiet_HandleFailure t] unfolding CompleteListCommand_def Let_def by simp
qed

lemma window_descriptor: "window d s \<Longrightarrow> window d (OnDescriptor env now x s)"
proof -
  assume w: "window d s"
  let ?s = "s\<lparr>descriptor := x\<rparr>"
  have a: "window d ?s" by (rule window_fields [OF w]) simp_all
  have "window d (SendCurrentCommand env now (?s\<lparr>ses_cmds := cs, ses_whitelist := y, cmd_index := 0, ses_state := kConfiguring\<rparr>))"
    if "ses_state s = kWaitingDescriptor" for cs y
    by (rule window_SendCurrentCommand [OF window_fields [OF w]]) (use that in simp_all)
  then show ?thesis using a window_quiet [OF quiet_FailStartup a]
    by (simp add: OnDescriptor_def Let_def split: sum.split)
qed

lemma window_StartConnect: "\<lbrakk> window d s; ses_state s \<notin> {kRecording, kStopping} \<rbrakk> \<Longrightarrow> window d (StartConnect now s)"
  by (auto simp: StartConnect_def window_def)

lemma window_Start: "\<lbrakk> window d s; ses_state s = kIdle \<rbrakk> \<Longrightarrow> window d (Session.Start now s)"
  unfolding Session.Start_def Let_def by (rule window_StartConnect [OF window_fields]) simp_all

lemma window_after_block: "window d s \<Longrightarrow> window d (after_block env now s)"
proof -
  assume w: "window d s"
  define x where "x = (if ses_state s = kWarmingUp \<and> Ready now (ses_warmup s) then EnterRecording env now s else s)"
  have x: "window d x" using w by (simp add: x_def window_EnterRecording)
  have "window d (x\<lparr>ses_liveness := now div 1000\<rparr>)" by (rule window_fields [OF x]) simp_all
  with x show ?thesis by (auto simp: after_block_def Let_def simp flip: x_def)
qed

lemma window_OnSbfBlock: "window d s \<Longrightarrow> window d (OnSbfBlock env now b s)"
proof -
  assume c: "window d s"
  obtain ok w where q: "Enqueue b (ses_writer s) = (ok, w)" by fastforce
  define t where "t = call (Recorded b) (s\<lparr>ses_writer := w\<rparr>)"
  define u where "u = (if b = [] then t else t\<lparr>ses_warmup := StartRecording now (ses_warmup t)\<rparr>)"
  define v where "v = (if ses_state u = kWarmingUp \<or> ses_state u = kRecording
                  then OnReceiverStatus env b (start_timer WatchdogTimer kWatchdogMs now u) else u)"
  have u: "window d u" by (rule window_fields [OF c]) (simp_all add: u_def t_def)
  have w: "window d (start_timer WatchdogTimer kWatchdogMs now u)" by (rule window_fields [OF u]) simp_all
  have v: "window d v" using u window_quiet [OF quiet_status w] by (simp add: v_def)
  have s: "window d (s\<lparr>ses_writer := w\<rparr>)" by (rule window_fields [OF c]) simp_all
  have "OnSbfBlock env now b s =
     (if ses_state s = kBackoff \<or> ses_state s = kStopping then s
      else if ok then after_block env now v else fatal env (recording_error (s\<lparr>ses_writer := w\<rparr>)))"
    using q by (cases ok) (simp_all add: OnSbfBlock_def Let_def t_def u_def v_def)
  then show ?thesis using c window_after_block [OF v] window_quiet [OF quiet_trans [OF quiet_error quiet_fatal] s] by simp
qed

text \<open>The recovery timer itself ends the session when it fires.\<close>

lemma recovery_fires:
  "\<lbrakk> ses_timers s RecoveryTimer = Some d; d \<le> now \<rbrakk> \<Longrightarrow> ses_state (fire env now RecoveryTimer s) = kStopping"
  by (simp add: fire_def FailStartup_def fatal_def)

lemma window_fire: "window d s \<Longrightarrow> window d (fire env now t s)"
proof (cases "t = RecoveryTimer")
  case True
  assume w: "window d s"
  have "fire env now RecoveryTimer s = s \<or> ses_state (fire env now RecoveryTimer s) = kStopping"
    by (auto simp: fire_def FailStartup_def fatal_def split: option.split)
  then show ?thesis using w True by (auto simp: window_def)
next
  case False
  assume w: "window d s"
  have o: "window d (OnTimeout env now t u)" if "window d u" for u
    using False that by (cases t) (simp_all add: window_quiet [OF quiet_HandleFailure] window_StartConnect
        window_EnterRecording OnWatchdog_def OnCommandTimeout_def)
  have "window d (stop_timer t s)" "window d (start_timer t ms now s)" for ms
    by (rule window_fields [OF w]; use False in simp)+
  then show ?thesis using fire_cases [of env now t s] w o by metis
qed

lemma window_step: "\<lbrakk> conf s; window d s \<rbrakk> \<Longrightarrow> window d (ses_step env s (now, ev))"
proof -
  assume c: "conf s" "window d s"
  have f: "window d (s\<lparr>crc_errors := n\<rparr>)" "window d (s\<lparr>length_errors := n\<rparr>)" "window d (s\<lparr>discarded_bytes := n\<rparr>)"
      "window d (s\<lparr>ses_notices := n\<rparr>)" "window d (s\<lparr>ses_writer := w\<rparr>)" for n w
    by (rule window_fields [OF c(2)]; simp)+
  have l: "window d (OnFormattedBlock now x s)" for x
    by (rule window_fields [OF c(2)]; simp add: OnFormattedBlock_def)
  have o: "window d (OnConnected now s)" if "ses_connecting s"
    by (rule window_fields [OF c(2)]) (use c(1) that in \<open>simp_all add: conf_def OnConnected_def\<close>)
  note q = window_quiet [OF quiet_damage(1) f(1)] window_quiet [OF quiet_damage(1) f(2)] window_quiet [OF quiet_damage(2) f(4)]
    window_quiet [OF quiet_Shutdown c(2)] window_quiet [OF quiet_HandleFailure c(2)]
  show ?thesis
    by (cases ev) (simp_all add: c f q l o ses_step_def window_Start window_fire window_descriptor window_reply
        OnPrompt_def window_list OnCommunicationError_def window_OnSbfBlock split: option.split)
qed

interpretation session_recovery: machine "ses_step env" "\<lambda>s. conf s \<and> window d s" for env d
  by unfold_locales (use conf_step window_step in force)

text \<open>
  C29: a session recovers within one minute or ends: when a configured session that is not recording yet fails, the window
  of a minute opens (or the one that is open goes on), no reconnect, reconfiguration or later failure moves its deadline,
  and unless the recording has started by then the timeout at the deadline or after it ends the session.
\<close>

theorem recovery_has_one_window:
  "let s = foldl (ses_step env) (new_Session cfg) es;
       deadline = (case ses_timers s RecoveryTimer of None \<Rightarrow> t0 + kRecoveryTimeoutMs * 10 ^ 6 | Some d \<Rightarrow> d);
       u = foldl (ses_step env) (HandleFailure env t0 s) fs
   in if ever_configured s \<and> ses_state s \<notin> {kRecording, kStopping, kBackoff} \<and> ses_state u \<notin> {kRecording, kStopping}
      then ses_timers u RecoveryTimer = Some deadline \<and>
        ses_state (ses_step env u (deadline + late, Timeout RecoveryTimer)) = kStopping
      else True"
proof -
  define s where "s = foldl (ses_step env) (new_Session cfg) es"
  define d where "d = (case ses_timers s RecoveryTimer of None \<Rightarrow> t0 + kRecoveryTimeoutMs * 10 ^ 6 | Some d \<Rightarrow> d)"
  define u where "u = foldl (ses_step env) (HandleFailure env t0 s) fs"
  have "ses_timers u RecoveryTimer = Some d \<and> ses_state (ses_step env u (d + late, Timeout RecoveryTimer)) = kStopping"
    if a: "ever_configured s" "ses_state s \<notin> {kRecording, kStopping, kBackoff}" "ses_state u \<notin> {kRecording, kStopping}"
  proof -
    have c: "conf s" unfolding s_def by (rule session_configuration.run_inv [OF conf_new])
    have "ses_timers (HandleFailure env t0 s) RecoveryTimer = Some d"
      using a(1,2) by (simp add: HandleFailure_def Let_def d_def split: option.split)
    then have "conf (HandleFailure env t0 s) \<and> window d (HandleFailure env t0 s)"
      using conf_quiet [OF quiet_HandleFailure c] by (simp add: window_def)
    then have "window d u" using session_recovery.run_inv [of "HandleFailure env t0 s" d env fs] by (simp add: u_def)
    then have "ses_timers u RecoveryTimer = Some d" using a(3) by (simp add: window_def)
    then show ?thesis using recovery_fires by (simp add: ses_step_def)
  qed
  then show ?thesis by (simp add: Let_def flip: s_def d_def u_def)
qed

end
