(* ===== verification/Ipv4.thy ===== *)
theory Ipv4
  imports String_Util
begin

text \<open>
  \<^verbatim>\<open>common/src/ebus/ipv4.cpp\<close>: IPv4 addresses of the cameras as 32-bit words, their dotted form, subnet masks, and the
  check of an address before it is sent to a camera. Addresses that fail to parse leave the output untouched, which is
  \<open>None\<close> here; the empty text of \<open>ValidateSetIp\<close> is acceptance.
\<close>

section \<open>Addresses\<close>

definition dec_value :: "string \<Rightarrow> nat" where
  "dec_value s = foldl (\<lambda>n c. 10 * n + (of_char c - 48)) 0 s"

definition octet_ok :: "string \<Rightarrow> bool" where
  "octet_ok part \<longleftrightarrow>
     \<not> (part = [] \<or> length part > 3 \<or> \<not> list_all is_digit part \<or> (length part > 1 \<and> hd part = CHR ''0'')) \<and>
     dec_value part \<le> 255"

fun parse_octets :: "u32 \<Rightarrow> string list \<Rightarrow> u32 option" where
  "parse_octets value [] = Some value"
| "parse_octets value (p # ps) =
     (if octet_ok p then parse_octets (push_bit 8 value OR word_of_nat (dec_value p)) ps else None)"

definition ParseIpv4 :: "string \<Rightarrow> u32 option" where
  "ParseIpv4 text' = (let parts = Split text' CHR ''.'' in if length parts \<noteq> 4 then None else parse_octets 0 parts)"

definition octet :: "nat \<Rightarrow> u32 \<Rightarrow> nat" where
  "octet n value = unat (drop_bit n value AND 0xFF)"

definition FormatIpv4 :: "u32 \<Rightarrow> string" where
  "FormatIpv4 value = Join (map (\<lambda>n. nat_text (octet n value)) [24, 16, 8, 0]) CHR ''.''"

section \<open>Masks\<close>

definition IsContiguousMask :: "u32 \<Rightarrow> bool" where
  "IsContiguousMask m \<longleftrightarrow> (NOT m AND (NOT m + 1)) = 0"

text \<open>The loop from the top bit down; \<open>n\<close> bits are left to look at.\<close>

fun leading_ones :: "nat \<Rightarrow> u32 \<Rightarrow> nat" where
  "leading_ones 0 m = 0"
| "leading_ones (Suc n) m = (if bit m n then Suc (leading_ones n m) else 0)"

definition PrefixLength :: "u32 \<Rightarrow> int" where
  "PrefixLength m = (if \<not> IsContiguousMask m then - 1 else int (leading_ones 32 m))"

definition SameSubnet :: "u32 \<Rightarrow> u32 \<Rightarrow> u32 \<Rightarrow> bool" where
  "SameSubnet a b m \<longleftrightarrow> (a AND m) = (b AND m)"

definition IsUsableHost :: "u32 \<Rightarrow> u32 \<Rightarrow> bool" where
  "IsUsableHost ip m \<longleftrightarrow>
     (if ip = 0 then False
      else if drop_bit 24 ip = 127 \<or> drop_bit 24 ip \<ge> 224 then False
      else if m \<noteq> 0xFFFFFFFF \<and> m \<noteq> 0 then \<not> (ip AND m) = ip \<and> \<not> (ip OR NOT m) = ip
      else True)"

record HostAddress =
  host_ip :: string
  host_mask :: string

text \<open>The adapters of the host: the list for the message, whether one can reach the camera, or that it has the address.\<close>

fun scan_hosts :: "u32 \<Rightarrow> u32 \<Rightarrow> HostAddress list \<Rightarrow> string \<times> bool \<Rightarrow> (string \<times> bool) option" where
  "scan_hosts ip_v mask_v [] acc = Some acc"
| "scan_hosts ip_v mask_v (h # hs) (host_list, reachable) =
     (case (ParseIpv4 (host_ip h), ParseIpv4 (host_mask h)) of
        (Some h_ip, Some h_mask) \<Rightarrow>
          (let host_list' = (if host_list = [] then [] else host_list @ '', '') @ host_ip h @ ''/'' @ host_mask h
           in if h_ip = ip_v then None
              else scan_hosts ip_v mask_v hs
                     (host_list', reachable \<or> SameSubnet h_ip ip_v h_mask \<and> SameSubnet h_ip ip_v mask_v))
      | _ \<Rightarrow> scan_hosts ip_v mask_v hs (host_list, reachable))"

definition in_quotes :: "string \<Rightarrow> string" where
  "in_quotes s = CHR 0x22 # s @ [CHR 0x22]"

definition check_gateway :: "u32 \<Rightarrow> u32 \<Rightarrow> u32 \<Rightarrow> string \<Rightarrow> string" where
  "check_gateway ip_v mask_v gw_v gateway =
     (if gw_v = 0 then []
      else if \<not> SameSubnet gw_v ip_v mask_v \<or> \<not> IsUsableHost gw_v mask_v
      then ''gateway '' @ gateway @ '' is not a host on '' @ FormatIpv4 (ip_v AND mask_v) @ ''/'' @ int_text (PrefixLength mask_v)
      else if gw_v = ip_v then ''gateway '' @ gateway @ '' is the camera address itself''
      else [])"

definition check_reachable :: "string \<Rightarrow> u32 \<Rightarrow> u32 \<Rightarrow> HostAddress list \<Rightarrow> bool \<Rightarrow> string" where
  "check_reachable ip ip_v mask_v hosts allow_foreign_subnet =
     (case scan_hosts ip_v mask_v hosts ([], False) of
        None \<Rightarrow> ip @ '' is the address of the host adapter itself''
      | Some (host_list, reachable) \<Rightarrow>
          if \<not> reachable \<and> \<not> allow_foreign_subnet
          then ip @ ''/'' @ int_text (PrefixLength mask_v) @
            '' is not on a subnet of the host adapter that sees this camera (host: '' @
            (if host_list = [] then ''no IPv4 address'' else host_list) @
            ''); the camera would become unreachable from this machine. Pick an address in one of those '' @
            ''subnets, or pass --allow-foreign-subnet if the host will be re-addressed afterwards''
          else [])"

definition ValidateSetIp :: "string \<Rightarrow> string \<Rightarrow> string \<Rightarrow> HostAddress list \<Rightarrow> bool \<Rightarrow> string" where
  "ValidateSetIp ip subnet_mask gateway hosts allow_foreign_subnet =
     (case ParseIpv4 ip of
        None \<Rightarrow> in_quotes ip @ '' is not an IPv4 address''
      | Some ip_v \<Rightarrow> (case ParseIpv4 subnet_mask of
          None \<Rightarrow> in_quotes subnet_mask @ '' is not an IPv4 subnet mask''
        | Some mask_v \<Rightarrow> (case ParseIpv4 gateway of
            None \<Rightarrow> in_quotes gateway @ '' is not an IPv4 gateway address''
          | Some gw_v \<Rightarrow>
              if PrefixLength mask_v < 8 \<or> PrefixLength mask_v > 30
              then ''subnet mask '' @ subnet_mask @ '' must be contiguous and between /8 and /30''
              else if \<not> IsUsableHost ip_v mask_v
              then ip @ ''/'' @ int_text (PrefixLength mask_v) @
                '' is not a usable host address (network, broadcast, loopback, multicast or 0.0.0.0)''
              else if check_gateway ip_v mask_v gw_v gateway \<noteq> [] then check_gateway ip_v mask_v gw_v gateway
              else check_reachable ip ip_v mask_v hosts allow_foreign_subnet)))"

section \<open>Dotted form\<close>

lemma dec_value_snoc [simp]: "dec_value (s @ [c]) = 10 * dec_value s + (of_char c - 48)"
  by (simp add: dec_value_def)

lemma dec_value_Nil [simp]: "dec_value [] = 0"
  by (simp add: dec_value_def)

lemma of_digit_char [simp]: "(of_char (digit_char n) :: nat) = 48 + n mod 10"
  by (simp add: digit_char_def of_char_of)

lemma dec_value_nat_text [simp]: "dec_value (nat_text n) = n"
proof (induction n rule: nat_text.induct)
  case (1 n)
  show ?case
  proof (cases "n < 10")
    case True
    then have "nat_text n = [] @ [digit_char n]" by (simp add: nat_text.simps)
    then show ?thesis using True by (simp only: dec_value_snoc) simp
  next
    case False
    then have "nat_text n = nat_text (n div 10) @ [digit_char (n mod 10)]" by (subst nat_text.simps) simp
    then show ?thesis using 1 False by simp
  qed
qed

lemma zero_char_code: "of_char CHR ''0'' = (48 :: nat)"
  by code_simp

lemma digit_char_of: "is_digit c \<Longrightarrow> digit_char (of_char c - 48) = c"
proof -
  assume d: "is_digit c"
  then have "(of_char c :: nat) = 48 + (of_char c - 48) mod 10" by (auto simp: is_digit_def)
  then show "digit_char (of_char c - 48) = c" by (metis char_of_char digit_char_def)
qed

text \<open>A text of digits without a leading zero is the text of its value.\<close>

lemma nat_text_dec_value:
  "\<lbrakk> s \<noteq> []; list_all is_digit s; length s = 1 \<or> hd s \<noteq> CHR ''0'' \<rbrakk> \<Longrightarrow> nat_text (dec_value s) = s \<and> (hd s \<noteq> CHR ''0'' \<longrightarrow> 0 < dec_value s)"
proof (induction s rule: rev_induct)
  case (snoc c s)
  have c: "digit_char (of_char c - 48) = c" "of_char c - 48 < (10::nat)" "48 \<le> (of_char c :: nat)"
    using snoc.prems(2) digit_char_of by (auto simp: is_digit_def)
  show ?case
  proof (cases "s = []")
    case True
    have "c \<noteq> CHR ''0'' \<Longrightarrow> (of_char c :: nat) \<noteq> 48" by (metis char_of_char zero_char_code)
    then show ?thesis using True c by (auto simp: dec_value_def nat_text.simps)
  next
    case False
    then have "nat_text (dec_value s) = s" "0 < dec_value s" using snoc by (auto simp: neq_Nil_conv)
    moreover have "nat_text (10 * dec_value s + (of_char c - 48)) = nat_text (dec_value s) @ [digit_char (of_char c - 48)]"
      using c(2) \<open>0 < dec_value s\<close> by (subst nat_text.simps) (simp add: digit_char_def)
    ultimately show ?thesis using c(1) by simp
  qed
qed simp

lemma nat_text_head: "hd (nat_text n) = CHR ''0'' \<Longrightarrow> n = 0"
proof (induction n rule: nat_text.induct)
  case (1 n)
  show ?case
  proof (cases "n < 10")
    case True
    then have "digit_char n = CHR ''0''" using 1(2) by (simp add: nat_text.simps)
    then have "48 + n mod 10 = (48::nat)" by (metis of_digit_char zero_char_code)
    then show ?thesis using True by simp
  next
    case False
    then have "hd (nat_text n) = hd (nat_text (n div 10))" by (subst nat_text.simps) simp
    then show ?thesis using 1 False by simp
  qed
qed

lemma octet_ok_iff: "octet_ok p \<longleftrightarrow> (\<exists>n \<le> 255. p = nat_text n)"
proof
  assume o: "octet_ok p"
  then have "nat_text (dec_value p) = p" using nat_text_dec_value [of p] by (cases p) (auto simp: octet_ok_def)
  then show "\<exists>n \<le> 255. p = nat_text n" using o by (metis octet_ok_def)
next
  assume "\<exists>n \<le> 255. p = nat_text n"
  then obtain n where n: "n \<le> 255" "p = nat_text n" by blast
  have "length (nat_text n) \<le> 3" using n(1) by (intro length_nat_text) simp_all
  moreover have "list_all is_digit (nat_text n)" by (simp add: list_all_iff nat_text_digits)
  moreover have "\<not> (length (nat_text n) > 1 \<and> hd (nat_text n) = CHR ''0'')" 
    using nat_text_head [of n] by (auto simp: nat_text.simps [of 0])
  ultimately show "octet_ok p" using n by (simp add: octet_ok_def)
qed

lemma no_dot: "CHR ''.'' \<notin> set (nat_text n)"
proof -
  have "\<not> is_digit CHR ''.''" by code_simp
  then show ?thesis using nat_text_digits by blast
qed

lemma low_byte: "x AND 0xFF = (ucast (ucast x :: u8) :: u32)"
proof -
  have "x AND mask 8 = (ucast (ucast x :: u8) :: u32)" by (auto intro!: bit_word_eqI simp: bit_simps)
  then show ?thesis by (simp add: mask_eq_exp_minus_1)
qed

lemma unat_wide: "unat (ucast (b :: u8) :: u32) = unat b"
proof -
  have "unat b < 2 ^ 32" by (rule less_le_trans [OF unsigned_less]) simp
  then show ?thesis by (simp add: unsigned_ucast_eq take_bit_nat_eq_self)
qed

lemma byte_of_nat:
  assumes "n \<le> 255"
  shows "(word_of_nat n :: u32) = ucast (word_of_nat n :: u8)" "unat (word_of_nat n :: u8) = n"
proof -
  have "n < 2 ^ 8" "n < 2 ^ 32" using assms by simp_all
  then have u: "unat (word_of_nat n :: u32) = n" "unat (word_of_nat n :: u8) = n"
    by (simp_all add: unsigned_of_nat take_bit_nat_eq_self)
  then have "unat (ucast (word_of_nat n :: u8) :: u32) = n" using \<open>n < 2 ^ 32\<close> by (simp add: unsigned_ucast_eq take_bit_nat_eq_self)
  with u(1) show "(word_of_nat n :: u32) = ucast (word_of_nat n :: u8)" by (metis unsigned_word_eqI)
  show "unat (word_of_nat n :: u8) = n" by (rule u(2))
qed

text \<open>Four bytes shifted in, and taken out again.\<close>

definition four_bytes :: "u8 \<Rightarrow> u8 \<Rightarrow> u8 \<Rightarrow> u8 \<Rightarrow> u32" where
  "four_bytes a b c d = push_bit 8 (push_bit 8 (push_bit 8 (push_bit 8 0 OR ucast a) OR ucast b) OR ucast c) OR ucast d"

lemma octets_four_bytes:
  "octet 24 (four_bytes a b c d) = unat a" "octet 16 (four_bytes a b c d) = unat b" "octet 8 (four_bytes a b c d) = unat c"
  "octet 0 (four_bytes a b c d) = unat d"
proof -
  have "ucast (drop_bit 24 (four_bytes a b c d)) = a" "ucast (drop_bit 16 (four_bytes a b c d)) = b"
    "ucast (drop_bit 8 (four_bytes a b c d)) = c" "ucast (drop_bit 0 (four_bytes a b c d)) = d"
    unfolding four_bytes_def by (rule bit_word_eqI; auto simp: bit_simps)+
  then show "octet 24 (four_bytes a b c d) = unat a" "octet 16 (four_bytes a b c d) = unat b"
    "octet 8 (four_bytes a b c d) = unat c" "octet 0 (four_bytes a b c d) = unat d"
    by (simp_all add: octet_def low_byte unat_wide)
qed

lemma four_bytes_octets:
  "v = four_bytes (ucast (drop_bit 24 v)) (ucast (drop_bit 16 v)) (ucast (drop_bit 8 v)) (ucast v)"
proof (rule bit_word_eqI)
  fix n assume "n < LENGTH(32)"
  then consider "n < 8" | "8 \<le> n" "n < 16" | "16 \<le> n" "n < 24" | "24 \<le> n" "n < 32" using not_le_imp_less by fastforce
  then show "bit v n \<longleftrightarrow> bit (four_bytes (ucast (drop_bit 24 v)) (ucast (drop_bit 16 v)) (ucast (drop_bit 8 v)) (ucast v)) n"
    unfolding four_bytes_def by cases (auto simp: bit_simps)
qed

lemma octet_le [simp]: "octet n v \<le> 255"
proof -
  have "unat (ucast (drop_bit n v) :: u8) < 256" by (rule less_le_trans [OF unsigned_less]) simp
  then have "unat (ucast (drop_bit n v) :: u8) \<le> 255" by linarith
  then show ?thesis unfolding octet_def low_byte unat_wide .
qed

lemma parse_four:
  assumes "a \<le> 255" "b \<le> 255" "c \<le> 255" "d \<le> 255"
  shows "parse_octets 0 (map nat_text [a, b, c, d]) =
     Some (four_bytes (word_of_nat a) (word_of_nat b) (word_of_nat c) (word_of_nat d))"
proof -
  have "octet_ok (nat_text a)" "octet_ok (nat_text b)" "octet_ok (nat_text c)" "octet_ok (nat_text d)"
    using assms octet_ok_iff by blast+
  then show ?thesis using assms by (simp add: four_bytes_def byte_of_nat(1))
qed

lemma parse_octets_ok: "parse_octets v ps = Some w \<Longrightarrow> list_all octet_ok ps"
  by (induction ps arbitrary: v) (auto split: if_splits)

lemma Split_Format: "Split (FormatIpv4 v) CHR ''.'' = map (\<lambda>n. nat_text (octet n v)) [24, 16, 8, 0]"
  unfolding FormatIpv4_def by (rule Split_Join) (auto simp: no_dot)

lemma ParseIpv4_Format: "ParseIpv4 (FormatIpv4 v) = Some v"
proof -
  have "parse_octets 0 (map (\<lambda>n. nat_text (octet n v)) [24, 16, 8, 0]) =
      Some (four_bytes (word_of_nat (octet 24 v)) (word_of_nat (octet 16 v)) (word_of_nat (octet 8 v)) (word_of_nat (octet 0 v)))"
    using parse_four [of "octet 24 v" "octet 16 v" "octet 8 v" "octet 0 v"] by simp
  also have "\<dots> = Some v"
    using four_bytes_octets [of v] by (simp add: octet_def low_byte unat_wide)
  finally show ?thesis by (simp add: ParseIpv4_def Split_Format)
qed

lemma parse_printed: "ParseIpv4 s = Some v \<Longrightarrow> s = FormatIpv4 v"
proof -
  assume p: "ParseIpv4 s = Some v"
  obtain p q r t where parts: "Split s CHR ''.'' = [p, q, r, t]"
    using p by (auto simp: ParseIpv4_def Let_def length_Suc_conv numeral_eq_Suc split: if_splits)
  then have "list_all octet_ok [p, q, r, t]" using p parse_octets_ok [of 0 "[p, q, r, t]" v] by (simp add: ParseIpv4_def)
  then obtain a b c d where n: "a \<le> 255" "b \<le> 255" "c \<le> 255" "d \<le> 255" "[p, q, r, t] = map nat_text [a, b, c, d]"
    by (auto simp: octet_ok_iff)
  then have v: "v = four_bytes (word_of_nat a) (word_of_nat b) (word_of_nat c) (word_of_nat d)"
    using p parts parse_four [of a b c d] by (simp add: ParseIpv4_def)
  have "s = Join [p, q, r, t] CHR ''.''" using Join_Split [of s "CHR ''.''"] parts by simp
  then show ?thesis using n by (simp add: FormatIpv4_def v octets_four_bytes byte_of_nat(2))
qed

text \<open>
  C34: reading and printing IPv4 addresses are inverse to each other: the reader accepts exactly the texts the printer
  makes (four decimal numbers up to 255 without leading zeros, signs or blanks) and returns the address they stand for.
\<close>

theorem ParseIpv4_iff: "(ParseIpv4 s = Some v) = (s = FormatIpv4 v)"
  using ParseIpv4_Format parse_printed by blast

section \<open>Setting an address\<close>

definition host_address :: "HostAddress \<Rightarrow> (u32 \<times> u32) option" where
  "host_address h =
     (case (ParseIpv4 (host_ip h), ParseIpv4 (host_mask h)) of (Some a, Some b) \<Rightarrow> Some (a, b) | _ \<Rightarrow> None)"

lemma scan_hosts_iff:
  "(\<exists>l. scan_hosts i m hs (l0, r0) = Some (l, r)) =
   (list_all (\<lambda>h. map_option fst (host_address h) \<noteq> Some i) hs \<and>
    r = (r0 \<or> list_ex (\<lambda>h. case host_address h of None \<Rightarrow> False | Some (a, b) \<Rightarrow> SameSubnet a i b \<and> SameSubnet a i m) hs))"
  by (induction hs arbitrary: l0 r0) (auto simp: host_address_def Let_def split: option.split)

text \<open>
  An address is sent to a camera exactly when address, mask and gateway are dotted quads, the mask is contiguous and
  between /8 and /30, the address can be that of a host, a gateway is another host of the same subnet, no adapter of this
  machine has the address, and the camera stays reachable: some adapter agrees with it on the subnet, unless the caller
  allows a foreign one.
\<close>

lemma ValidateSetIp_accepts:
  "(ValidateSetIp ip subnet_mask gateway hosts allow_foreign_subnet = []) =
   (\<exists>i m g. ip = FormatIpv4 i \<and> subnet_mask = FormatIpv4 m \<and> gateway = FormatIpv4 g \<and>
      8 \<le> PrefixLength m \<and> PrefixLength m \<le> 30 \<and> IsUsableHost i m \<and>
      (g = 0 \<or> g \<noteq> i \<and> SameSubnet g i m \<and> IsUsableHost g m) \<and>
      list_all (\<lambda>h. map_option fst (host_address h) \<noteq> Some i) hosts \<and>
      (allow_foreign_subnet \<or>
       list_ex (\<lambda>h. case host_address h of None \<Rightarrow> False | Some (a, b) \<Rightarrow> SameSubnet a i b \<and> SameSubnet a i m) hosts))"
proof -
  have reach: "(check_reachable ip i m hosts allow_foreign_subnet = []) =
     (list_all (\<lambda>h. map_option fst (host_address h) \<noteq> Some i) hosts \<and> (allow_foreign_subnet \<or>
       list_ex (\<lambda>h. case host_address h of None \<Rightarrow> False | Some (a, b) \<Rightarrow> SameSubnet a i b \<and> SameSubnet a i m) hosts))" for i m
  proof (cases "scan_hosts i m hosts ([], False)")
    case None
    then show ?thesis using scan_hosts_iff [of i m hosts "[]" False] by (auto simp: check_reachable_def)
  next
    case (Some lr)
    then show ?thesis using scan_hosts_iff [of i m hosts "[]" False "snd lr"]
      by (cases lr) (auto simp: check_reachable_def)
  qed
  have gate: "(check_gateway i m g gateway = []) = (g = 0 \<or> g \<noteq> i \<and> SameSubnet g i m \<and> IsUsableHost g m)" for i m g
    by (simp add: check_gateway_def)
  show ?thesis
  proof (cases "ParseIpv4 ip"; cases "ParseIpv4 subnet_mask"; cases "ParseIpv4 gateway")
    fix i m g assume p: "ParseIpv4 ip = Some i" "ParseIpv4 subnet_mask = Some m" "ParseIpv4 gateway = Some g"
    then have e: "ip = FormatIpv4 j \<longleftrightarrow> j = i" "subnet_mask = FormatIpv4 j \<longleftrightarrow> j = m" "gateway = FormatIpv4 j \<longleftrightarrow> j = g" for j
      using ParseIpv4_Format by (metis option.inject parse_printed)+
    show ?thesis unfolding ValidateSetIp_def p option.case using e reach [of i m] gate [of i m g]
      by (auto simp: not_less)
  qed (auto simp: ValidateSetIp_def in_quotes_def ParseIpv4_Format)
qed

end
