(* ===== verification/Block_Ids.thy ===== *)
theory Block_Ids
  imports Prelude
begin

text \<open>
  \<^verbatim>\<open>ebus_driver/include/ebus_driver/block_ids.h\<close>: the continuity of the block numbers of a GigE stream, 64 bit or the
  16-bit cycle 1..65535. No subtraction of the code can wrap, so the numbers are natural ones.
\<close>

record BlockIds =
  extended_ids :: bool
  have_last :: bool
  last_id :: nat

definition new_BlockIds :: "bool \<Rightarrow> BlockIds" where
  "new_BlockIds extended = \<lparr>extended_ids = extended, have_last = False, last_id = 0\<rparr>"

record Observation =
  obs_gap :: nat
  obs_anomaly :: bool

definition ObserveId :: "nat \<Rightarrow> BlockIds \<Rightarrow> Observation \<times> BlockIds" where
  "ObserveId i s =
     (let anomaly = \<lparr>obs_gap = 0, obs_anomaly = True\<rparr>; fine = (\<lambda>gap. \<lparr>obs_gap = gap, obs_anomaly = False\<rparr>) in
      if i = 0 \<or> (\<not> extended_ids s \<and> i > 65535) then (anomaly, s)
      else if \<not> have_last s then (fine 0, s\<lparr>have_last := True, last_id := i\<rparr>)
      else if extended_ids s then
        (if i \<le> last_id s then (anomaly, s) else (fine (i - last_id s - 1), s\<lparr>last_id := i\<rparr>))
      else
        let expected = (if last_id s = 65535 then 1 else last_id s + 1);
            distance = (i + 65535 - expected) mod 65535
        in if distance > 32767 then (anomaly, s) else (fine distance, s\<lparr>last_id := i\<rparr>))"

section \<open>A stream with losses\<close>

text \<open>The number on the wire of the block number \<open>t\<close> of the camera, counted from zero.\<close>

definition wire_id :: "bool \<Rightarrow> nat \<Rightarrow> nat" where
  "wire_id extended t = (if extended then t + 1 else t mod 65535 + 1)"

text \<open>Received one after the other, with nothing or at most \<open>32767\<close> blocks lost between two in the 16-bit cycle.\<close>

fun loss_bounded :: "bool \<Rightarrow> nat list \<Rightarrow> bool" where
  "loss_bounded extended (a # b # ts) = (a < b \<and> (extended \<or> b - a \<le> 32768) \<and> loss_bounded extended (b # ts))"
| "loss_bounded extended ts = True"

fun count_gaps :: "nat list \<Rightarrow> nat \<times> nat \<Rightarrow> BlockIds \<Rightarrow> nat \<times> nat" where
  "count_gaps [] acc s = acc"
| "count_gaps (i # is) (gaps, anomalies) s =
     (case ObserveId i s of (ob, s) \<Rightarrow>
        count_gaps is (gaps + obs_gap ob, if obs_anomaly ob then anomalies + 1 else anomalies) s)"

lemma wire_id_pos [simp]: "0 < wire_id e t" "\<not> e \<Longrightarrow> wire_id e t \<le> 65535"
  using mod_less_divisor [of 65535 t] by (auto simp: wire_id_def simp del: mod_less_divisor)

lemma cyclic_distance:
  assumes "a < b" "b - a \<le> 32768"
  shows "(wire_id False b + 65535 - (if wire_id False a = 65535 then 1 else wire_id False a + 1)) mod 65535 = b - a - 1"
proof -
  obtain k where b: "b = Suc (a + k)" using assms(1) less_imp_Suc_add by blast
  have m: "a mod 65535 < 65535" by simp
  have "b mod 65535 = (if a mod 65535 + Suc k < 65535 then a mod 65535 + Suc k else a mod 65535 + Suc k - 65535)"
  proof -
    have "b mod 65535 = (a mod 65535 + Suc k) mod 65535" unfolding b by (simp add: mod_simps flip: add_Suc_right)
    then show ?thesis using m assms(2) b by (auto simp: le_mod_geq)
  qed
  then show ?thesis using assms(2) b m by (auto simp: wire_id_def le_mod_geq)
qed

lemma observe_next:
  assumes "loss_bounded e (a # b # ts)" "extended_ids s = e" "have_last s" "last_id s = wire_id e a"
  shows "ObserveId (wire_id e b) s = (\<lparr>obs_gap = b - a - 1, obs_anomaly = False\<rparr>, s\<lparr>last_id := wire_id e b\<rparr>)"
proof (cases e)
  case True
  then show ?thesis using assms by (simp add: ObserveId_def Let_def) (simp add: wire_id_def)
next
  case False
  have d: "(wire_id False b + 65535 - (if wire_id False a = 65535 then 1 else wire_id False a + 1)) mod 65535 = b - a - 1"
    using cyclic_distance [of a b] assms(1) False by simp
  have "wire_id False b \<le> 65535" "0 < wire_id False b" by simp_all
  moreover have "b - Suc a \<le> 32767" using assms(1) False by auto
  ultimately show ?thesis using assms False d
    by (cases "wire_id False a = 65535") (simp_all add: ObserveId_def Let_def not_less)
qed

lemma count_gaps_from:
  "\<lbrakk> loss_bounded e (a # ts); extended_ids s = e; have_last s; last_id s = wire_id e a \<rbrakk> \<Longrightarrow>
   count_gaps (map (wire_id e) ts) (g, n) s = (g + (last (a # ts) - a - length ts), n) \<and> a + length ts \<le> last (a # ts)"
proof (induction ts arbitrary: a g s)
  case (Cons b ts)
  have b: "a < b" "loss_bounded e (b # ts)" using Cons.prems(1) by simp_all
  note o = observe_next [OF Cons.prems]
  have "count_gaps (map (wire_id e) ts) (g + (b - a - 1), n) (s\<lparr>last_id := wire_id e b\<rparr>) =
      (g + (b - a - 1) + (last (b # ts) - b - length ts), n) \<and> b + length ts \<le> last (b # ts)"
    by (rule Cons.IH [OF b(2)]) (use Cons.prems in simp_all)
  then show ?case using o b(1) by auto
qed simp

text \<open>
  C35: lost blocks are counted exactly: when a receiver sees some of the blocks of a camera in order, with no anomaly and
  whatever the start of the cycle, the gaps add up to the blocks that are missing between the first and the last one; in
  the 16-bit cycle as long as at most 32767 blocks are lost in a row, which is half of the cycle.
\<close>

theorem gaps_count_losses:
  assumes "ts \<noteq> []" "loss_bounded e ts"
  shows "count_gaps (map (wire_id e) ts) (0, 0) (new_BlockIds e) = (last ts - hd ts + 1 - length ts, 0)"
proof -
  obtain a us where t: "ts = a # us" using assms(1) by (cases ts) auto
  have f: "ObserveId (wire_id e a) (new_BlockIds e) =
      (\<lparr>obs_gap = 0, obs_anomaly = False\<rparr>, \<lparr>extended_ids = e, have_last = True, last_id = wire_id e a\<rparr>)"
    by (cases e) (simp_all add: ObserveId_def new_BlockIds_def Let_def not_less)
  show ?thesis
    using count_gaps_from [of e a us "\<lparr>extended_ids = e, have_last = True, last_id = wire_id e a\<rparr>" 0 0] assms(2) f
    by (auto simp: t)
qed

theorem gaps_count_losses_witness:
  "count_gaps (map (wire_id False) [65533, 65534, 65536, 65540]) (0, 0) (new_BlockIds False) = (4, 0) \<and>
   map (wire_id False) [65533, 65534, 65536, 65540] = [65534, 65535, 2, 6]"
  using gaps_count_losses [of "[65533, 65534, 65536, 65540]" False] by (simp add: wire_id_def)

end
