(* ===== verification/Ebus_Raw_Format.thy ===== *)
theory Ebus_Raw_Format
  imports Byte_Util
begin

text \<open>
  \<^verbatim>\<open>ebus_driver/src/raw_format.cpp\<close>: the checksum CRC-32C and the headers of the raw camera files. The two instructions
  of the processor that the fast path uses are the bit by bit division they are documented to be.
\<close>

section \<open>CRC-32C\<close>

definition kPolynomial :: u32 where "kPolynomial = 0x82F63B78"

definition crc_bit :: "u32 \<Rightarrow> u32" where
  "crc_bit crc = drop_bit 1 crc XOR (if bit crc 0 then kPolynomial else 0)"

definition crc_table :: "u32 list" where
  "crc_table = map (\<lambda>i. (crc_bit ^^ 8) (word_of_nat i)) [0..<256]"

definition crc_step :: "u32 \<Rightarrow> u8 \<Rightarrow> u32" where
  "crc_step crc b = crc_table ! unat ((crc XOR ucast b) AND 255) XOR drop_bit 8 crc"

definition Software :: "bytes \<Rightarrow> u32" where
  "Software p = NOT (foldl crc_step (NOT 0) p)"

definition wide_bit :: "u64 \<Rightarrow> u64" where
  "wide_bit x = drop_bit 1 x XOR (if bit x 0 then ucast kPolynomial else 0)"

definition mm_crc32_u8 :: "u32 \<Rightarrow> u8 \<Rightarrow> u32" where
  "mm_crc32_u8 crc b = (crc_bit ^^ 8) (crc XOR ucast b)"

definition mm_crc32_u64 :: "u64 \<Rightarrow> u64 \<Rightarrow> u64" where
  "mm_crc32_u64 crc v = (wide_bit ^^ 64) (ucast (ucast crc :: u32) XOR v)"

fun crc_words :: "u64 \<Rightarrow> bytes \<Rightarrow> u64 \<times> bytes" where
  "crc_words crc p = (if length p \<ge> 8 then crc_words (mm_crc32_u64 crc (LoadLittleU64 p)) (drop 8 p) else (crc, p))"

declare crc_words.simps [simp del]

definition Hardware :: "bytes \<Rightarrow> u32" where
  "Hardware p = (case crc_words (ucast (NOT 0 :: u32)) p of (crc, rest) \<Rightarrow> NOT (foldl mm_crc32_u8 (ucast crc) rest))"

definition Crc32c :: "bool \<Rightarrow> bytes \<Rightarrow> u32" where
  "Crc32c sse42 p = (if sse42 then Hardware p else Software p)"

subsection \<open>Bit by bit\<close>

text \<open>The checksum is one division, fed with the bits of the message, lowest first.\<close>

definition feed_bits :: "u32 \<Rightarrow> bool list \<Rightarrow> u32" where
  "feed_bits crc bs = foldl (\<lambda>crc b. crc_bit (crc XOR (if b then 1 else 0))) crc bs"

definition bits_of :: "u8 \<Rightarrow> bool list" where
  "bits_of b = map (bit b) [0..<8]"

definition Crc32c_reference :: "bytes \<Rightarrow> u32" where
  "Crc32c_reference p = NOT (feed_bits (NOT 0) (concat (map bits_of p)))"

lemma feed_bits_append [simp]: "feed_bits c (xs @ ys) = feed_bits (feed_bits c xs) ys"
  by (simp add: feed_bits_def)

lemma feed_bits_simps [simp]: "feed_bits c [] = c" "feed_bits c [b] = crc_bit (c XOR (if b then 1 else 0))"
  by (simp_all add: feed_bits_def)

lemma drop_1_bit: "drop_bit 1 (c XOR (if b then 1 else 0)) = drop_bit 1 (c :: 'a::len word)"
  by (rule bit_word_eqI) (auto simp: bit_simps)

lemma wide_bit_step: "wide_bit (ucast c XOR v) = ucast (crc_bit (c XOR (if bit v 0 then 1 else 0))) XOR drop_bit 1 v"
proof -
  have "drop_bit 1 (ucast c XOR v) = (ucast (drop_bit 1 c) XOR drop_bit 1 v :: u64)"
    by (rule bit_word_eqI) (auto simp: bit_simps dest: bit_imp_le_length)
  moreover have "bit (ucast c XOR v :: u64) 0 = bit (c XOR (if bit v 0 then 1 else 0)) 0" by (auto simp: bit_simps)
  moreover have "ucast (x XOR y) = (ucast x XOR ucast y :: u64)" for x y :: u32 by (rule bit_word_eqI) (auto simp: bit_simps)
  ultimately show ?thesis by (simp only: wide_bit_def crc_bit_def drop_1_bit) (auto simp: ac_simps)
qed

lemma crc_bit_step: "crc_bit (c XOR v) = crc_bit (c XOR (if bit v 0 then 1 else 0)) XOR drop_bit 1 v"
proof -
  have "drop_bit 1 (c XOR v) = drop_bit 1 c XOR drop_bit 1 v" by (rule bit_word_eqI) (auto simp: bit_simps)
  moreover have "bit (c XOR v) 0 = bit (c XOR (if bit v 0 then 1 else 0)) 0" by (auto simp: bit_simps)
  ultimately show ?thesis by (simp only: crc_bit_def drop_1_bit) (auto simp: ac_simps)
qed

lemma wide_bits: "(wide_bit ^^ n) (ucast c XOR v) = ucast (feed_bits c (map (bit v) [0..<n])) XOR drop_bit n v"
proof (induction n)
  case (Suc n)
  have "bit (drop_bit n v) 0 = bit v n" "drop_bit 1 (drop_bit n v) = drop_bit (Suc n) v" by (simp_all add: bit_simps)
  then show ?case using Suc wide_bit_step [of _ "drop_bit n v"] by simp
qed simp

lemma crc_bits: "(crc_bit ^^ n) (c XOR v) = feed_bits c (map (bit v) [0..<n]) XOR drop_bit n v"
proof (induction n)
  case (Suc n)
  have "bit (drop_bit n v) 0 = bit v n" "drop_bit 1 (drop_bit n v) = drop_bit (Suc n) v" by (simp_all add: bit_simps)
  then show ?case using Suc crc_bit_step [of _ "drop_bit n v"] by simp
qed simp

lemma mm_crc32_u8: "mm_crc32_u8 c b = feed_bits c (bits_of b)"
proof -
  have "map (bit (ucast b :: u32)) [0..<8] = bits_of b" by (simp add: bits_of_def bit_simps)
  moreover have "drop_bit 8 (ucast b :: u32) = 0" by (rule bit_word_eqI) (auto simp: bit_simps)
  ultimately show ?thesis by (simp add: mm_crc32_u8_def crc_bits)
qed

lemma crc_step: "crc_step c b = feed_bits c (bits_of b)"
proof -
  let ?x = "c XOR ucast b :: u32"
  have lt: "unat (?x AND 255) < 256"
  proof -
    have "?x AND 255 \<le> 255" by (rule word_and_le1)
    then show ?thesis by (simp add: word_le_nat_alt)
  qed
  have m: "map (bit (?x AND 255)) [0..<8] = map (bit ?x) [0..<8]"
  proof -
    have "map (bit (?x AND mask 8)) [0..<8] = map (bit ?x) [0..<8]" by (simp add: bit_and_iff bit_mask_iff)
    then show ?thesis by (simp add: mask_eq_exp_minus_1)
  qed
  have z: "drop_bit 8 (?x AND 255) = 0"
  proof -
    have "drop_bit 8 (?x AND mask 8) = 0" by (rule bit_word_eqI) (auto simp: bit_simps)
    then show ?thesis by (simp add: mask_eq_exp_minus_1)
  qed
  have d: "drop_bit 8 ?x = drop_bit 8 c" by (rule bit_word_eqI) (auto simp: bit_simps)
  have "crc_step c b = (crc_bit ^^ 8) (?x AND 255) XOR drop_bit 8 c"
    using lt by (simp add: crc_step_def crc_table_def)
  also have "\<dots> = feed_bits 0 (map (bit ?x) [0..<8]) XOR drop_bit 8 ?x"
    using crc_bits [of 8 0 "?x AND 255"] m z d by simp
  also have "\<dots> = mm_crc32_u8 c b" using crc_bits [of 8 0 ?x] by (simp add: mm_crc32_u8_def)
  finally show ?thesis by (simp add: mm_crc32_u8)
qed

lemma wide_word: "length p \<ge> 8 \<Longrightarrow> mm_crc32_u64 (ucast c) (LoadLittleU64 p) = ucast (feed_bits c (concat (map bits_of (take 8 p))))"
proof -
  assume l: "length p \<ge> 8"
  have z: "drop_bit 64 (v :: u64) = 0" for v by (rule bit_word_eqI) (auto simp: bit_simps dest: bit_imp_le_length)
  have c: "ucast (ucast c :: u64) = c" by (rule bit_word_eqI) (auto simp: bit_simps)
  obtain b0 b1 b2 b3 b4 b5 b6 b7 q where p: "p = b0 # b1 # b2 # b3 # b4 # b5 # b6 # b7 # q"
    using l by (auto simp: numeral_eq_Suc Suc_le_length_iff)
  have b: "map (bit (LoadLittleU64 p)) [0..<64] = concat (map bits_of (take 8 p))"
    by (simp add: p LoadLittleU64_def LoadLittleU32_def bits_of_def bit_simps upt_rec)
  show ?thesis by (simp add: mm_crc32_u64_def c wide_bits z b)
qed

lemma crc_words_feed:
  "case crc_words (ucast c) p of (crc, rest) \<Rightarrow> foldl mm_crc32_u8 (ucast crc) rest = feed_bits c (concat (map bits_of p))"
proof (induction "length p" arbitrary: p c rule: less_induct)
  case less
  have c: "ucast (ucast c :: u64) = c" by (rule bit_word_eqI) (auto simp: bit_simps)
  have f: "foldl mm_crc32_u8 c q = feed_bits c (concat (map bits_of q))" for c q
    by (induction q arbitrary: c) (simp_all add: mm_crc32_u8)
  show ?case
  proof (cases "length p \<ge> 8")
    case False
    then show ?thesis by (subst crc_words.simps) (simp add: c f)
  next
    case True
    have "concat (map bits_of p) = concat (map bits_of (take 8 p)) @ concat (map bits_of (drop 8 p))"
      by (simp flip: concat_append map_append)
    then show ?thesis
      using True less [of "drop 8 p" "feed_bits c (concat (map bits_of (take 8 p)))"]
      by (subst crc_words.simps) (simp add: wide_word)
  qed
qed

lemma crc_paths_reference: "Crc32c sse42 p = Crc32c_reference p"
proof -
have "foldl crc_step c p = feed_bits c (concat (map bits_of p))" for c
    by (induction p arbitrary: c) (simp_all add: crc_step)
  moreover have "Hardware p = Crc32c_reference p"
    using crc_words_feed [of "NOT 0" p] by (simp add: Hardware_def Crc32c_reference_def split: prod.splits)
  ultimately show ?thesis by (simp add: Crc32c_def Software_def Crc32c_reference_def)
qed

text \<open>
  C36: the checksum does not depend on the machine: the path with the table and the path with the instructions of the
  processor, which takes eight bytes at a time, both compute the division of the message by the Castagnoli polynomial,
  bit by bit.
\<close>

theorem Crc32c_paths_agree: "Crc32c sse42 p = Crc32c_reference p"
  by (rule crc_paths_reference)

subsection \<open>Detection\<close>

lemma xor_cancel: "(a XOR k = b XOR k) = (a = (b :: u32))" "(k XOR a = k XOR b) = (a = (b :: u32))"
proof -
  have "(a XOR k) XOR k = a" "(b XOR k) XOR k = b" "k XOR (k XOR a) = a" "k XOR (k XOR b) = b"
    by (simp_all add: xor.assoc)
  then show "(a XOR k = b XOR k) = (a = b)" "(k XOR a = k XOR b) = (a = b)" by metis+
qed

lemma crc_bit_inj: "crc_bit x = crc_bit y \<Longrightarrow> x = y"
proof -
  assume e: "crc_bit x = crc_bit y"
  have top: "bit (crc_bit z) 31 = bit z 0" for z
    by (auto simp: crc_bit_def kPolynomial_def bit_simps dest: bit_imp_le_length)
  have zero: "bit x 0 = bit y 0" using top [of x] top [of y] e by simp
  then have "drop_bit 1 x = drop_bit 1 y" using e by (auto simp: crc_bit_def xor_cancel split: if_splits)
  then have "bit x (Suc n) = bit y (Suc n)" for n by (metis bit_drop_bit_eq comp_apply plus_1_eq_Suc)
  with zero show "x = y" by (metis bit_eqI not0_implies_Suc)
qed

lemma feed_bits_inj: "feed_bits x bs = feed_bits y bs \<Longrightarrow> x = y"
proof (induction bs rule: rev_induct)
  case (snoc b bs)
  then have "feed_bits x bs XOR (if b then 1 else 0) = feed_bits y bs XOR (if b then 1 else 0)" using crc_bit_inj by simp
  then have "feed_bits x bs = feed_bits y bs" by (simp only: xor_cancel)
  then show ?case by (rule snoc.IH)
qed simp

text \<open>A message in which one byte was changed has another checksum.\<close>

lemma changed_byte_detected: "a \<noteq> b \<Longrightarrow> Crc32c s (xs @ a # ys) \<noteq> Crc32c s (xs @ b # ys)"
proof
  assume ab: "a \<noteq> b" and e: "Crc32c s (xs @ a # ys) = Crc32c s (xs @ b # ys)"
  let ?c = "feed_bits (NOT 0) (concat (map bits_of xs))"
  have "feed_bits (feed_bits ?c (bits_of a)) (concat (map bits_of ys)) = feed_bits (feed_bits ?c (bits_of b)) (concat (map bits_of ys))"
    using e crc_paths_reference [of s] by (simp add: Crc32c_reference_def)
  then have "mm_crc32_u8 ?c a = mm_crc32_u8 ?c b" by (simp add: mm_crc32_u8 feed_bits_inj)
  then have "(crc_bit ^^ 8) (?c XOR ucast a) = (crc_bit ^^ 8) (?c XOR ucast b)" by (simp add: mm_crc32_u8_def)
  moreover have "(crc_bit ^^ n) x = (crc_bit ^^ n) y \<Longrightarrow> x = y" for n x y by (induction n) (auto dest: crc_bit_inj)
  ultimately have "?c XOR ucast a = ?c XOR ucast b" by blast
  then have "(ucast a :: u32) = ucast b" by (simp only: xor_cancel)
  then have "(ucast (ucast a :: u32) :: u8) = ucast (ucast b :: u32)" by simp
  moreover have "(ucast (ucast x :: u32) :: u8) = x" for x by (rule bit_word_eqI) (auto simp: bit_simps)
  ultimately show False using ab by simp
qed

section \<open>Headers\<close>

definition kFileHeaderSize :: nat where "kFileHeaderSize = 64"
definition kRecordHeaderSize :: nat where "kRecordHeaderSize = 48"
definition kMaxMetadataSize :: nat where "kMaxMetadataSize = 1024 * 1024"
definition kVersion :: u16 where "kVersion = 1"

text \<open>An integer of \<open>n\<close> bytes, lowest first, and bytes copied into a buffer.\<close>

definition little :: "nat \<Rightarrow> 'a::len word \<Rightarrow> bytes" where
  "little n v = map (\<lambda>i. ucast (drop_bit (8 * i) v)) [0..<n]"

definition put_at :: "nat \<Rightarrow> bytes \<Rightarrow> bytes \<Rightarrow> bytes" where
  "put_at off bs out = take off out @ bs @ drop (off + length bs) out"

definition kFileMagic :: bytes where "kFileMagic = [0x45, 0x42, 0x55, 0x53, 0x52, 0x41, 0x57, 0x00]"
definition kRecordMagic :: bytes where "kRecordMagic = [0x45, 0x42, 0x46, 0x52]"

definition MakeFileHeader :: "bool \<Rightarrow> u64 \<Rightarrow> u64 \<Rightarrow> bytes" where
  "MakeFileHeader sse42 created segment =
     (let h = replicate kFileHeaderSize 0;
          h = put_at 0 kFileMagic h;
          h = put_at 8 (little 2 kVersion) h;
          h = put_at 10 (little 2 (word_of_nat kFileHeaderSize :: u16)) h;
          h = put_at 16 (little 8 created) h;
          h = put_at 24 (little 8 segment) h
      in put_at 60 (little 4 (Crc32c sse42 (take 60 h))) h)"

definition MakeRecordHeader :: "bool \<Rightarrow> u32 \<Rightarrow> u64 \<Rightarrow> u64 \<Rightarrow> u32 \<Rightarrow> u32 \<Rightarrow> bytes" where
  "MakeRecordHeader sse42 metadata_size payload_size seqno metadata_crc payload_crc =
     (let h = replicate kRecordHeaderSize 0;
          h = put_at 0 kRecordMagic h;
          h = put_at 4 (little 4 (word_of_nat kRecordHeaderSize :: u32)) h;
          h = put_at 8 (little 4 metadata_size) h;
          h = put_at 16 (little 8 payload_size) h;
          h = put_at 24 (little 8 seqno) h;
          h = put_at 32 (little 4 metadata_crc) h;
          h = put_at 36 (little 4 payload_crc) h
      in put_at 40 (little 4 (Crc32c sse42 (take 40 h))) h)"

lemma length_little [simp]: "length (little n v) = n"
  by (simp add: little_def)

end
