(* ===== verification/Ebus_Raw_Recorder.thy ===== *)
theory Ebus_Raw_Recorder
  imports Ebus_Raw_Format Machines
begin

text \<open>
  \<^verbatim>\<open>ebus_driver/src/raw_recorder.cpp\<close>: the files of a camera. A call of the operating system is answered by a \<open>world\<close>,
  a function from the number of the call: the results of the writes of one loop, whether a single call succeeds, and the
  clock. The files are part of the state, so that a write that stops in the middle leaves what it wrote. An operation
  returns \<open>True\<close> or throws, which is \<open>False\<close>. Sizes are natural numbers, since the code keeps them below the largest file
  offset. A JSON document is known by its text.
\<close>

section \<open>Calls of the operating system\<close>

datatype sys = Took nat | Interrupted | Refused

type_synonym world = "nat \<Rightarrow> sys list \<times> bool \<times> u64"

text \<open>
  \<^verbatim>\<open>WriteAll\<close>: what it wrote and whether that is everything. The results of one loop are a list; where it ends early,
  the write has failed.
\<close>

function write_all :: "sys list \<Rightarrow> bytes \<Rightarrow> bytes \<times> bool" where
  "write_all as left =
     (if left = [] then ([], True)
      else case as of
        [] \<Rightarrow> ([], False)
      | Interrupted # as \<Rightarrow> write_all as left
      | Refused # as \<Rightarrow> ([], False)
      | Took n # as \<Rightarrow>
          if n = 0 then ([], False)
          else (case write_all as (drop n left) of (done, ok) \<Rightarrow> (take n left @ done, ok)))"
  by pat_completeness auto
termination by (relation "measure (\<lambda>(as, left). length as)") auto

declare write_all.simps [simp del]

record RawBuffer =
  b_object :: bool
  b_metadata :: bytes
  b_valid :: "bool option"
  b_payload :: bytes

record RecorderOptions =
  segment_bytes :: nat
  segment_records_limit :: nat
  flush_bytes :: nat

datatype event =
    SessionStart string u64
  | SegmentClosed nat nat nat bool
  | SessionEnd nat nat nat nat bool bool string u64
  | OtherEvent bytes

record RawRecorder =
  options :: RecorderOptions
  recording_format :: string
  directory_open :: bool
  data_open :: bool
  events_open :: bool
  segment :: nat
  offset :: nat
  synced :: nat
  segment_records :: nat
  records :: nat
  frames :: nat
  payload_bytes :: nat
  rec_failed :: bool
  rec_opened :: bool
  rec_closed :: bool
  seg_files :: "bytes list"
  device_file :: "bytes option"
  ev_rows :: "event list"
  ev_torn :: "(event \<times> bytes) option"
  rec_tick :: nat

definition new_RawRecorder :: "RecorderOptions \<Rightarrow> RawRecorder option" where
  "new_RawRecorder opts =
     (if segment_bytes opts \<le> kFileHeaderSize then None
      else Some \<lparr>options = opts, recording_format = [], directory_open = False, data_open = False, events_open = False,
        segment = 0, offset = 0, synced = 0, segment_records = 0, records = 0, frames = 0, payload_bytes = 0,
        rec_failed = False, rec_opened = False, rec_closed = False, seg_files = [], device_file = None, ev_rows = [],
        ev_torn = None, rec_tick = 0\<rparr>)"

type_synonym op = "RawRecorder \<Rightarrow> bool \<times> RawRecorder"

text \<open>One operation after the other, until one throws.\<close>

definition andthen :: "op \<Rightarrow> op \<Rightarrow> op" where
  "andthen f g s = (case f s of (ok, s) \<Rightarrow> if ok then g s else (False, s))"

fun in_order :: "op list \<Rightarrow> op" where
  "in_order [] s = (True, s)"
| "in_order (f # fs) s = andthen f (in_order fs) s"

definition Fail :: "RawRecorder \<Rightarrow> RawRecorder" where
  "Fail s = s\<lparr>rec_failed := True\<rparr>"

text \<open>\<^verbatim>\<open>catch (...) { Fail(); throw; }\<close>\<close>

definition or_fail :: "op \<Rightarrow> op" where
  "or_fail f s = (case f s of (ok, s) \<Rightarrow> (ok, if ok then s else Fail s))"

definition set_field :: "(RawRecorder \<Rightarrow> RawRecorder) \<Rightarrow> op" where
  "set_field f s = (True, f s)"

definition ticked :: "RawRecorder \<Rightarrow> RawRecorder" where
  "ticked s = s\<lparr>rec_tick := rec_tick s + 1\<rparr>"

text \<open>A call that only succeeds or fails: open, sync, link and the like.\<close>

definition single_call :: "world \<Rightarrow> op" where
  "single_call w s = (fst (snd (w (rec_tick s))), ticked s)"

definition clock :: "world \<Rightarrow> RawRecorder \<Rightarrow> u64" where
  "clock w s = snd (snd (w (rec_tick s)))"

definition writes :: "world \<Rightarrow> RawRecorder \<Rightarrow> bytes \<Rightarrow> bytes \<times> bool" where
  "writes w s data = write_all (fst (w (rec_tick s))) data"

text \<open>\<^verbatim>\<open>WriteAll\<close> on the open segment file.\<close>

definition write_data :: "world \<Rightarrow> bytes \<Rightarrow> op" where
  "write_data w data s =
     (case writes w s data of (done, ok) \<Rightarrow>
        (ok, ticked (s\<lparr>seg_files := butlast (seg_files s) @ [last (seg_files s) @ done]\<rparr>)))"

text \<open>\<^verbatim>\<open>CloseFd\<close>: the descriptor is given up before the call.\<close>

definition close_data :: "world \<Rightarrow> op" where
  "close_data w s = (if \<not> data_open s then (True, s) else single_call w (s\<lparr>data_open := False\<rparr>))"

definition close_directory :: "world \<Rightarrow> op" where
  "close_directory w s = (if \<not> directory_open s then (True, s) else single_call w (s\<lparr>directory_open := False\<rparr>))"

definition close_events :: "world \<Rightarrow> op" where
  "close_events w s = (if \<not> events_open s then (True, s) else single_call w (s\<lparr>events_open := False\<rparr>))"

section \<open>The event stream\<close>

text \<open>The text of an event comes from the JSON library.\<close>

definition Event :: "(event \<Rightarrow> bytes) \<Rightarrow> world \<Rightarrow> event \<Rightarrow> op" where
  "Event dump w e s =
     (if \<not> events_open s then (False, s)
      else or_fail (\<lambda>s.
        case single_call w s of
          (False, s) \<Rightarrow> (False, s)
        | (True, s) \<Rightarrow>
            (case writes w s (dump e @ [10]) of (done, ok) \<Rightarrow>
               let s = ticked s; (ok, s) = (if ok then single_call w s else (False, s)) in
               if ok then (True, s\<lparr>ev_rows := ev_rows s @ [e]\<rparr>)
               else
                 let s = Fail s; (truncated, s) = single_call w s;
                     (ok, s) = (if truncated then andthen (single_call w) (single_call w) s else (False, s)) in
                 if ok then (False, s)
                 else
                   let s = (if truncated then s else s\<lparr>ev_torn := Some (e, done)\<rparr>)
                   in (False, snd (close_events w s)))) s)"

section \<open>Segments\<close>

definition OpenSegment :: "bool \<Rightarrow> world \<Rightarrow> op" where
  "OpenSegment sse42 w s =
     (if segment s = 2 ^ 64 - 1 then (False, s)
      else
        let next_segment = segment s + 1 in
        andthen (single_call w) (\<lambda>s.
          let s = s\<lparr>data_open := True, seg_files := seg_files s @ [[]], segment := next_segment, offset := 0, synced := 0,
                    segment_records := 0\<rparr>;
              header = MakeFileHeader sse42 (clock w s) (word_of_nat (segment s)) in
          in_order
            [write_data w header,
             set_field (\<lambda>s. s\<lparr>offset := length header\<rparr>),
             single_call w,
             set_field (\<lambda>s. s\<lparr>synced := offset s\<rparr>),
             single_call w] s) s)"

definition CloseSegment :: "(event \<Rightarrow> bytes) \<Rightarrow> world \<Rightarrow> op" where
  "CloseSegment dump w s =
     (if \<not> data_open s then (True, s)
      else
        let (ok1, s) = or_fail (single_call w) s; (ok2, s) = or_fail (close_data w) s in
        if \<not> (ok1 \<and> ok2) then (False, s)
        else Event dump w (SegmentClosed (segment s) (offset s) (segment_records s) (\<not> rec_failed s)) s)"

definition max_offset :: nat where "max_offset = 2 ^ 63 - 1"

definition record_bytes :: "bool \<Rightarrow> nat \<Rightarrow> RawBuffer \<Rightarrow> bytes" where
  "record_bytes sse42 i b =
     MakeRecordHeader sse42 (word_of_nat (length (b_metadata b))) (word_of_nat (length (b_payload b))) (word_of_nat i)
       (Crc32c sse42 (b_metadata b)) (Crc32c sse42 (b_payload b)) @ b_metadata b @ b_payload b"

text \<open>The three writes of a record, and the rollback when one of them fails.\<close>

definition write_frame :: "bool \<Rightarrow> world \<Rightarrow> RawBuffer \<Rightarrow> op" where
  "write_frame sse42 w b s =
     (let header = MakeRecordHeader sse42 (word_of_nat (length (b_metadata b))) (word_of_nat (length (b_payload b)))
            (word_of_nat (records s)) (Crc32c sse42 (b_metadata b)) (Crc32c sse42 (b_payload b)) in
      case in_order [write_data w header, write_data w (b_metadata b), write_data w (b_payload b)] s of
        (True, s) \<Rightarrow> (True, s)
      | (False, s) \<Rightarrow>
          (case single_call w s of
             (True, s) \<Rightarrow> (False, s\<lparr>seg_files := butlast (seg_files s) @ [take (offset s) (last (seg_files s))]\<rparr>)
           | (False, s) \<Rightarrow> (False, Fail s)))"

definition needs_segment :: "nat \<Rightarrow> RawRecorder \<Rightarrow> bool" where
  "needs_segment len s =
     (let limit = min (segment_bytes (options s)) max_offset in
      segment_records s \<noteq> 0 \<and>
      ((segment_records_limit (options s) \<noteq> 0 \<and> segment_records s \<ge> segment_records_limit (options s)) \<or>
       offset s \<ge> limit \<or> len > limit - offset s))"

definition count_record :: "nat \<Rightarrow> bool \<Rightarrow> RawBuffer \<Rightarrow> RawRecorder \<Rightarrow> RawRecorder" where
  "count_record len valid b s =
     s\<lparr>offset := offset s + len, segment_records := segment_records s + 1, records := records s + 1,
       frames := (if valid then frames s + 1 else frames s), payload_bytes := payload_bytes s + length (b_payload b)\<rparr>"

definition Append :: "(event \<Rightarrow> bytes) \<Rightarrow> bool \<Rightarrow> world \<Rightarrow> RawBuffer \<Rightarrow> op" where
  "Append dump sse42 w b s =
     (if \<not> rec_opened s \<or> rec_closed s \<or> rec_failed s then (False, s)
      else or_fail (\<lambda>s.
        if \<not> b_object b \<or> length (b_metadata b) > kMaxMetadataSize then (False, s)
        else case b_valid b of
          None \<Rightarrow> (False, s)
        | Some valid \<Rightarrow>
            let overhead = kRecordHeaderSize + length (b_metadata b) in
            if length (b_payload b) > max_offset - kFileHeaderSize - overhead then (False, s)
            else
              let len = overhead + length (b_payload b) in
              in_order
                [\<lambda>s. if needs_segment len s then andthen (CloseSegment dump w) (OpenSegment sse42 w) s else (True, s),
                 write_frame sse42 w b,
                 set_field (count_record len valid b),
                 \<lambda>s. if flush_bytes (options s) \<noteq> 0 \<and> offset s - synced s \<ge> flush_bytes (options s)
                      then andthen (single_call w) (set_field (\<lambda>s. s\<lparr>synced := offset s\<rparr>)) s else (True, s)] s) s)"

section \<open>Opening and closing\<close>

definition attempted :: "op \<Rightarrow> bool \<times> RawRecorder \<Rightarrow> bool \<times> RawRecorder" where
  "attempted f r = (case r of (fine, s) \<Rightarrow> (case or_fail f s of (ok, s) \<Rightarrow> (fine \<and> ok, s)))"

definition end_event :: "world \<Rightarrow> bool \<Rightarrow> string \<Rightarrow> RawRecorder \<Rightarrow> event" where
  "end_event w complete reason s =
     SessionEnd (records s) (frames s) (payload_bytes s) (segment s) (rec_failed s) (complete \<and> \<not> rec_failed s) reason (clock w s)"

definition Close :: "(event \<Rightarrow> bytes) \<Rightarrow> world \<Rightarrow> bool \<Rightarrow> string \<Rightarrow> op" where
  "Close dump w complete reason s =
     (if rec_closed s then (True, s)
      else
        let r = (True, s\<lparr>rec_closed := True\<rparr>);
            r = attempted (CloseSegment dump w) r;
            r = (if directory_open (snd r) then attempted (single_call w) r else r);
            r = attempted (close_directory w) r;
            r = (if events_open (snd r) then attempted (\<lambda>s. Event dump w (end_event w complete reason s) s) r else r)
        in attempted (close_events w) r)"

text \<open>What the caller passes as the description of the device: its text and its format, if it has one.\<close>

definition Open :: "(event \<Rightarrow> bytes) \<Rightarrow> bool \<Rightarrow> world \<Rightarrow> bytes \<Rightarrow> string option \<Rightarrow> op" where
  "Open dump sse42 w device fmt s =
     (if rec_opened s \<or> rec_closed s then (False, s)
      else
        let body =
          (\<lambda>s. case fmt of
             None \<Rightarrow> (False, s)
           | Some f \<Rightarrow>
               let s = s\<lparr>recording_format := f\<rparr> in
               if f = [] then (False, s)
               else in_order
                 [single_call w,
                  single_call w,
                  single_call w,
                  set_field (\<lambda>s. s\<lparr>directory_open := True\<rparr>),
                  single_call w,
                  \<lambda>s. (snd (writes w s (device @ [10])), ticked s),
                  single_call w,
                  single_call w,
                  single_call w,
                  set_field (\<lambda>s. s\<lparr>device_file := Some (device @ [10])\<rparr>),
                  single_call w,
                  single_call w,
                  set_field (\<lambda>s. s\<lparr>events_open := True, rec_opened := True\<rparr>),
                  OpenSegment sse42 w,
                  single_call w,
                  single_call w,
                  single_call w,
                  single_call w,
                  \<lambda>s. Event dump w (SessionStart (recording_format s) (clock w s)) s] s)
        in case body s of
             (True, s) \<Rightarrow> (True, s)
           | (False, s) \<Rightarrow> (False, snd (Close dump w False ''recorder initialization failed'' (Fail s))))"

definition destroy_RawRecorder :: "(event \<Rightarrow> bytes) \<Rightarrow> world \<Rightarrow> RawRecorder \<Rightarrow> RawRecorder" where
  "destroy_RawRecorder dump w s = snd (Close dump w False ''recorder destroyed before finalization'' s)"

section \<open>What the files hold\<close>

text \<open>
  Segment files with the moments of their creation and their buffers: the numbers of the segments count from \<open>k\<close>, those of
  the records from \<open>i\<close> through all files.
\<close>

definition segment_file :: "bool \<Rightarrow> nat \<Rightarrow> nat \<Rightarrow> u64 \<times> RawBuffer list \<Rightarrow> bytes" where
  "segment_file sse42 k i p =
     MakeFileHeader sse42 (fst p) (word_of_nat k) @ concat (map (\<lambda>(j, b). record_bytes sse42 j b) (enumerate i (snd p)))"

fun files_of :: "bool \<Rightarrow> nat \<Rightarrow> nat \<Rightarrow> (u64 \<times> RawBuffer list) list \<Rightarrow> bytes list" where
  "files_of sse42 k i [] = []"
| "files_of sse42 k i (p # ps) = segment_file sse42 k i p # files_of sse42 (Suc k) (i + length (snd p)) ps"

definition buffers :: "(u64 \<times> RawBuffer list) list \<Rightarrow> RawBuffer list" where
  "buffers ps = concat (map snd ps)"

lemma length_files_of [simp]: "length (files_of sse k i ps) = length ps"
  by (induction ps arbitrary: k i) simp_all

lemma files_of_append:
  "files_of sse k i (ps @ qs) = files_of sse k i ps @ files_of sse (k + length ps) (i + length (buffers ps)) qs"
  by (induction ps arbitrary: k i) (simp_all add: buffers_def add.assoc)

lemma buffers_simps [simp]: "buffers [] = []" "buffers (ps @ qs) = buffers ps @ buffers qs" "buffers [p] = snd p"
  by (simp_all add: buffers_def)

lemma segment_file_snoc:
  "segment_file sse k i (t, bs @ [b]) = segment_file sse k i (t, bs) @ record_bytes sse (i + length bs) b"
  by (simp add: segment_file_def enumerate_append_eq)

lemma length_put_at: "off + length bs \<le> length out \<Longrightarrow> length (put_at off bs out) = length out"
  by (simp add: put_at_def)

lemma length_headers [simp]: "length (MakeFileHeader sse t k) = 64" "length (MakeRecordHeader sse m p i c d) = 48"
  by (simp_all add: MakeFileHeader_def MakeRecordHeader_def Let_def length_put_at kFileHeaderSize_def kRecordHeaderSize_def
      kFileMagic_def kRecordMagic_def)

lemma length_record [simp]: "length (record_bytes sse i b) = 48 + length (b_metadata b) + length (b_payload b)"
  by (simp add: record_bytes_def)

text \<open>The bytes after the last whole record, or the beginning of a header of a new file.\<close>

definition torn_from :: "bytes list \<Rightarrow> bytes list \<Rightarrow> bool" where
  "torn_from whole fs =
     (\<exists>rest. fs = whole @ [rest] \<or> whole \<noteq> [] \<and> fs = butlast whole @ [last whole @ rest])"

text \<open>
  The invariant: \<open>acc\<close> are the buffers that were accepted. As long as nothing has failed, the files are exactly those of
  the accepted buffers; afterwards the last one may be torn.
\<close>

definition holds :: "bool \<Rightarrow> RawBuffer list \<Rightarrow> (u64 \<times> RawBuffer list) list \<Rightarrow> RawRecorder \<Rightarrow> bool" where
  "holds sse42 acc ps s =
     (buffers ps = acc \<and> records s = length acc \<and>
      (seg_files s = files_of sse42 1 0 ps \<or> rec_failed s \<and> torn_from (files_of sse42 1 0 ps) (seg_files s)))"

definition is_complete_end :: "event \<Rightarrow> bool" where
  "is_complete_end e = (case e of SessionEnd _ _ _ _ _ complete _ _ \<Rightarrow> complete | _ \<Rightarrow> False)"

fun torn_end :: "(event \<times> bytes) option \<Rightarrow> bool" where
  "torn_end None = False"
| "torn_end (Some (e, done)) = is_complete_end e"

text \<open>The completion marker is in the event stream, or the beginning of its row.\<close>

definition marked_complete :: "RawRecorder \<Rightarrow> bool" where
  "marked_complete s =
     (list_ex is_complete_end (ev_rows s) \<or> torn_end (ev_torn s))"

text \<open>An open recorder that has not failed writes at the end of the last segment.\<close>

definition writing :: "(u64 \<times> RawBuffer list) list \<Rightarrow> RawRecorder \<Rightarrow> bool" where
  "writing ps s =
     (ps \<noteq> [] \<and> segment s = length ps \<and> data_open s \<and> offset s = length (last (seg_files s)) \<and>
      segment_records s = length (snd (last ps)))"

section \<open>Operations that leave the files alone\<close>

definition stays :: "RawRecorder \<Rightarrow> RawRecorder \<Rightarrow> bool" where
  "stays s t =
     (seg_files t = seg_files s \<and> records t = records s \<and> segment t = segment s \<and> offset t = offset s \<and>
      segment_records t = segment_records s \<and> options t = options s \<and> data_open t = data_open s \<and>
      rec_opened t = rec_opened s \<and> rec_closed t = rec_closed s \<and> (rec_failed s \<longrightarrow> rec_failed t) \<and>
      (marked_complete t \<longrightarrow> marked_complete s))"

lemma stays_refl [simp]: "stays s s"
  by (simp add: stays_def)

lemma stays_trans: "\<lbrakk> stays s t; stays t u \<rbrakk> \<Longrightarrow> stays s u"
  by (auto simp: stays_def)

lemma stays_fields [simp]:
  "stays s (ticked t) = stays s t" "stays s (t\<lparr>synced := n\<rparr>) = stays s t" "stays s (t\<lparr>directory_open := b\<rparr>) = stays s t"
  "stays s (t\<lparr>events_open := b\<rparr>) = stays s t" "stays s (t\<lparr>device_file := d\<rparr>) = stays s t"
  "stays s (t\<lparr>recording_format := f\<rparr>) = stays s t"
  by (simp_all add: stays_def ticked_def marked_complete_def)

lemma stays_Fail: "stays s t \<Longrightarrow> stays s (Fail t)"
  by (simp add: stays_def Fail_def marked_complete_def)

lemma ticked_simps [simp]: "rec_failed (ticked s) = rec_failed s" "events_open (ticked s) = events_open s"
  "offset (ticked s) = offset s" "data_open (ticked s) = data_open s" "records (ticked s) = records s"
  "seg_files (ticked s) = seg_files s" "segment (ticked s) = segment s" "segment_records (ticked s) = segment_records s"
  "rec_opened (ticked s) = rec_opened s" "rec_closed (ticked s) = rec_closed s" "marked_complete (ticked s) = marked_complete s"
  "ev_rows (ticked s) = ev_rows s" "ev_torn (ticked s) = ev_torn s" "options (ticked s) = options s"
  by (simp_all add: ticked_def marked_complete_def)

lemma stays_close_events: "stays s t \<Longrightarrow> stays s (snd (close_events w t))"
  "rec_failed (snd (close_events w t)) = rec_failed t"
  by (simp_all add: close_events_def single_call_def)

lemma stays_close_directory: "stays s t \<Longrightarrow> stays s (snd (close_directory w t))"
  "rec_failed (snd (close_directory w t)) = rec_failed t"
  by (simp_all add: close_directory_def single_call_def)

text \<open>The state an event leaves; the marker of completion is only there when that was the event.\<close>

lemma Event_rows:
  "seg_files (snd (Event dump w e s)) = seg_files s" "records (snd (Event dump w e s)) = records s"
  "segment (snd (Event dump w e s)) = segment s" "offset (snd (Event dump w e s)) = offset s"
  "segment_records (snd (Event dump w e s)) = segment_records s" "options (snd (Event dump w e s)) = options s"
  "data_open (snd (Event dump w e s)) = data_open s" "rec_opened (snd (Event dump w e s)) = rec_opened s"
  "rec_closed (snd (Event dump w e s)) = rec_closed s" "rec_failed s \<Longrightarrow> rec_failed (snd (Event dump w e s))"
  by (simp_all add: Event_def or_fail_def single_call_def andthen_def close_events_def Fail_def ticked_def Let_def
      split: prod.splits if_splits bool.splits)

lemma Event_marked:
  "marked_complete (snd (Event dump w e s)) \<Longrightarrow> marked_complete s \<or> is_complete_end e"
  by (auto simp: Event_def or_fail_def single_call_def andthen_def close_events_def Fail_def ticked_def Let_def
      marked_complete_def split: prod.splits if_splits bool.splits)

lemma Event_failed: "\<lbrakk> fst (Event dump w e s) \<rbrakk> \<Longrightarrow> rec_failed (snd (Event dump w e s)) = rec_failed s"
  by (auto simp: Event_def or_fail_def single_call_def andthen_def close_events_def Fail_def ticked_def Let_def
      split: prod.splits if_splits bool.splits)

lemma stays_Event: "\<lbrakk> stays s t; \<not> is_complete_end e \<rbrakk> \<Longrightarrow> stays s (snd (Event dump w e t))"
  using Event_rows(1-9) [of dump w e t] Event_rows(10) [of t dump w e] Event_marked [of dump w e t] by (auto simp: stays_def)

section \<open>Segments and records\<close>

lemma write_all_complete: "write_all as left = (done, True) \<Longrightarrow> done = left"
proof (induction as left arbitrary: "done" rule: write_all.induct)
  case (1 as left)
  show ?case
  proof (cases "left = [] \<or> as = []")
    case True
    then show ?thesis using 1(3) by (subst (asm) write_all.simps) (auto split: if_splits)
  next
    case False
    then obtain a bs where a: "left \<noteq> []" "as = a # bs" by (cases as) auto
    show ?thesis
    proof (cases a)
      case (Took n)
      obtain d ok where d: "write_all bs (drop n left) = (d, ok)" by fastforce
      have "n \<noteq> 0" "ok" "done = take n left @ d"
        using 1(3) a Took d by (subst (asm) write_all.simps; simp split: if_splits)+
      then show ?thesis using 1(1) [OF a(1) a(2) Took] d by (metis append_take_drop_id)
    next
      case Interrupted
      then show ?thesis using 1(2) [OF a(1) a(2) Interrupted] 1(3) a by (subst (asm) write_all.simps) simp
    next
      case Refused
      then show ?thesis using 1(3) a by (subst (asm) write_all.simps) simp
    qed
  qed
qed

lemma write_data_steps:
  assumes "write_data w data s = (ok, t)" "seg_files s \<noteq> []"
  shows "\<exists>done. seg_files t = butlast (seg_files s) @ [last (seg_files s) @ done] \<and> (ok \<longrightarrow> done = data) \<and>
    stays (s\<lparr>seg_files := seg_files t\<rparr>) t \<and> rec_failed t = rec_failed s"
proof -
  obtain d where d: "writes w s data = (d, ok)" using assms by (cases "writes w s data") (simp add: write_data_def)
  have "ok \<longrightarrow> d = data" using d write_all_complete by (auto simp: writes_def)
  moreover have t: "t = ticked (s\<lparr>seg_files := butlast (seg_files s) @ [last (seg_files s) @ d]\<rparr>)"
    using assms d by (simp add: write_data_def)
  ultimately show ?thesis unfolding t by (intro exI [of _ d]) simp
qed

lemma CloseSegment_stays: "stays (s\<lparr>data_open := data_open (snd (CloseSegment dump w s))\<rparr>) (snd (CloseSegment dump w s))"
proof (cases "data_open s")
  case True
  let ?a = "snd (or_fail (single_call w) s)"
  let ?b = "snd (or_fail (close_data w) ?a)"
  have a: "stays s ?a" using stays_Fail [of s] by (simp add: or_fail_def single_call_def)
  have "stays (?a\<lparr>data_open := False\<rparr>) ?b" "\<not> data_open ?b"
    using True by (auto simp: or_fail_def close_data_def single_call_def stays_def Fail_def marked_complete_def)
  moreover have "stays (s\<lparr>data_open := False\<rparr>) (?a\<lparr>data_open := False\<rparr>)" using a by (auto simp: stays_def marked_complete_def)
  ultimately have b: "stays (s\<lparr>data_open := False\<rparr>) ?b" "\<not> data_open ?b" using stays_trans by blast+
  have "stays (s\<lparr>data_open := False\<rparr>) (snd (Event dump w e ?b))" "data_open (snd (Event dump w e ?b)) = False"
    if "\<not> is_complete_end e" for e
    using stays_Event [OF b(1) that] Event_rows(7) [of dump w e ?b] b(2) by simp_all
  moreover have "\<not> is_complete_end (SegmentClosed i j k c)" for i j k c by (simp add: is_complete_end_def)
  ultimately show ?thesis using True b
    by (simp add: CloseSegment_def Let_def split_def)
next
  case False
  then have "stays (s\<lparr>data_open := False\<rparr>) s" by (simp add: stays_def marked_complete_def)
  with False show ?thesis by (simp add: CloseSegment_def)
qed

lemma CloseSegment_ok: "fst (CloseSegment dump w s) \<Longrightarrow> rec_failed (snd (CloseSegment dump w s)) = rec_failed s"
  using Event_failed
  by (auto simp: CloseSegment_def Let_def split_def or_fail_def close_data_def single_call_def split: if_splits)

lemma OpenSegment_steps:
  assumes "OpenSegment sse42 w s = (ok, t)" "segment s = length ps" "seg_files s = files_of sse42 1 0 ps"
  shows "records t = records s \<and> rec_failed t = rec_failed s \<and> rec_opened t = rec_opened s \<and> rec_closed t = rec_closed s \<and>
    (marked_complete t \<longrightarrow> marked_complete s) \<and>
    (if ok then \<exists>c. seg_files t = files_of sse42 1 0 (ps @ [(c, [])]) \<and> writing (ps @ [(c, [])]) t
     else seg_files t = seg_files s \<or> torn_from (files_of sse42 1 0 ps) (seg_files t))"
proof (cases "segment s = 2 ^ 64 - 1 \<or> \<not> fst (single_call w s)")
  case True
  then show ?thesis using assms(1) by (auto simp: OpenSegment_def andthen_def single_call_def split: if_splits)
next
  case False
  let ?s = "(ticked s)\<lparr>data_open := True, seg_files := seg_files (ticked s) @ [[]], segment := segment s + 1, offset := 0,
      synced := 0, segment_records := 0\<rparr>"
  define h where "h = MakeFileHeader sse42 (clock w ?s) (word_of_nat (segment s + 1))"
  obtain ok1 a where a: "write_data w h ?s = (ok1, a)" by fastforce
  obtain d where d: "seg_files a = seg_files s @ [d]" "ok1 \<longrightarrow> d = h" "stays (?s\<lparr>seg_files := seg_files a\<rparr>) a"
    "rec_failed a = rec_failed s"
    using write_data_steps [OF a] by auto
  have u: "(ok, t) = in_order [write_data w h, set_field (\<lambda>s. s\<lparr>offset := length h\<rparr>), single_call w,
      set_field (\<lambda>s. s\<lparr>synced := offset s\<rparr>), single_call w] ?s"
    using assms(1) False
    by (simp add: OpenSegment_def andthen_def single_call_def Let_def h_def add.commute del: in_order.simps length_headers)
  have base: "records a = records s" "rec_opened a = rec_opened s" "rec_closed a = rec_closed s"
    "marked_complete a \<longrightarrow> marked_complete s" "segment a = segment s + 1" "data_open a" "segment_records a = 0"
    using d(3) by (auto simp: stays_def marked_complete_def)
  have t: "seg_files t = seg_files a \<and> records t = records a \<and> rec_failed t = rec_failed a \<and> rec_opened t = rec_opened a \<and>
      rec_closed t = rec_closed a \<and> marked_complete t = marked_complete a \<and> segment t = segment a \<and> data_open t = data_open a \<and>
      segment_records t = segment_records a \<and> (ok \<longrightarrow> ok1 \<and> offset t = length h)"
    using u a by (cases ok1) (auto simp: andthen_def set_field_def single_call_def marked_complete_def split: if_splits)
  have "seg_files t = files_of sse42 1 0 ps @ [d]" using t d(1) assms(3) by simp
  moreover have "files_of sse42 1 0 (ps @ [(c, [])]) = files_of sse42 1 0 ps @ [MakeFileHeader sse42 c (word_of_nat (Suc (length ps)))]" for c
    by (simp add: files_of_append segment_file_def)
  ultimately show ?thesis
    using t base d(2,4) assms(2)
    by (auto simp: torn_from_def writing_def h_def intro!: exI [of _ "clock w ?s"])
qed

lemma write_datas_steps:
  assumes "in_order (map (write_data w) ds) s = (ok, t)" "seg_files s \<noteq> []"
  shows "\<exists>done. seg_files t = butlast (seg_files s) @ [last (seg_files s) @ done] \<and> (ok \<longrightarrow> done = concat ds) \<and>
    stays (s\<lparr>seg_files := seg_files t\<rparr>) t \<and> rec_failed t = rec_failed s"
  using assms
proof (induction ds arbitrary: s)
  case Nil
  then show ?case by (intro exI [of _ "[]"]) simp
next
  case (Cons d ds)
  obtain ok1 a where a: "write_data w d s = (ok1, a)" by fastforce
  obtain d1 where d1: "seg_files a = butlast (seg_files s) @ [last (seg_files s) @ d1]" "ok1 \<longrightarrow> d1 = d"
    "stays (s\<lparr>seg_files := seg_files a\<rparr>) a" "rec_failed a = rec_failed s"
    using write_data_steps [OF a Cons.prems(2)] by blast
  show ?case
  proof (cases ok1)
    case False
    then show ?thesis using Cons.prems(1) a d1 by (intro exI [of _ d1]) (simp add: andthen_def)
  next
    case True
    then have i: "in_order (map (write_data w) ds) a = (ok, t)" using Cons.prems(1) a by (simp add: andthen_def)
    have "seg_files a \<noteq> []" using d1(1) by simp
    from Cons.IH [OF i this] obtain d2 where d2: "seg_files t = butlast (seg_files a) @ [last (seg_files a) @ d2]"
      "ok \<longrightarrow> d2 = concat ds" "stays (a\<lparr>seg_files := seg_files t\<rparr>) t" "rec_failed t = rec_failed a" by blast
    have "stays (s\<lparr>seg_files := seg_files t\<rparr>) (a\<lparr>seg_files := seg_files t\<rparr>)"
      using d1(3) by (auto simp: stays_def marked_complete_def)
    with d2(3) have "stays (s\<lparr>seg_files := seg_files t\<rparr>) t" by (rule stays_trans [rotated])
    then show ?thesis using d1 d2 True by (intro exI [of _ "d1 @ d2"]) simp
  qed
qed

definition append_last :: "(u64 \<times> RawBuffer list) list \<Rightarrow> RawBuffer \<Rightarrow> (u64 \<times> RawBuffer list) list" where
  "append_last ps b = butlast ps @ [(fst (last ps), snd (last ps) @ [b])]"

lemma files_append_last:
  assumes "ps \<noteq> []"
  shows "files_of sse 1 0 (append_last ps b) =
      butlast (files_of sse 1 0 ps) @ [last (files_of sse 1 0 ps) @ record_bytes sse (length (buffers ps)) b]"
    "buffers (append_last ps b) = buffers ps @ [b]"
proof -
  obtain qs c bs where p: "ps = qs @ [(c, bs)]" using assms by (metis prod.exhaust rev_exhaust)
  show "files_of sse 1 0 (append_last ps b) =
      butlast (files_of sse 1 0 ps) @ [last (files_of sse 1 0 ps) @ record_bytes sse (length (buffers ps)) b]"
    by (simp add: append_last_def p files_of_append segment_file_snoc)
  show "buffers (append_last ps b) = buffers ps @ [b]" by (simp add: append_last_def p)
qed

lemma files_of_Nil [simp]: "(files_of sse k i ps = []) = (ps = [])"
  by (cases ps) simp_all

lemma write_record_steps:
  assumes "write_frame sse42 w b s = (ok, t)" "ps \<noteq> []" "seg_files s = files_of sse42 1 0 ps"
    "offset s = length (last (seg_files s))" "records s = length (buffers ps)"
  shows "stays (s\<lparr>seg_files := seg_files t\<rparr>) t \<and>
    (if ok then rec_failed t = rec_failed s \<and> seg_files t = files_of sse42 1 0 (append_last ps b)
     else seg_files t = seg_files s \<or> torn_from (files_of sse42 1 0 ps) (seg_files t))"
proof -
  let ?h = "MakeRecordHeader sse42 (word_of_nat (length (b_metadata b))) (word_of_nat (length (b_payload b)))
      (word_of_nat (records s)) (Crc32c sse42 (b_metadata b)) (Crc32c sse42 (b_payload b))"
  have ne: "seg_files s \<noteq> []" using assms(2,3) by simp
  obtain ok1 a where a: "in_order (map (write_data w) [?h, b_metadata b, b_payload b]) s = (ok1, a)" by fastforce
  obtain d where d: "seg_files a = butlast (seg_files s) @ [last (seg_files s) @ d]"
    "ok1 \<longrightarrow> d = concat [?h, b_metadata b, b_payload b]" "stays (s\<lparr>seg_files := seg_files a\<rparr>) a" "rec_failed a = rec_failed s"
    using write_datas_steps [OF a ne] by blast
  have o: "offset a = offset s" using d(3) by (simp add: stays_def)
  have r: "record_bytes sse42 (length (buffers ps)) b = concat [?h, b_metadata b, b_payload b]"
    by (simp add: record_bytes_def assms(5))
  show ?thesis
  proof (cases ok1)
    case True
    then have "ok" "t = a" using assms(1) a by (simp_all add: write_frame_def)
    then show ?thesis using d True assms(3) files_append_last(1) [OF assms(2), of sse42 b] r by simp
  next
    case False
    then have no: "\<not> ok" and t: "t = (if fst (single_call w a)
        then (ticked a)\<lparr>seg_files := butlast (seg_files a) @ [take (offset a) (last (seg_files a))]\<rparr> else Fail (ticked a))"
      using assms(1) a by (auto simp: write_frame_def single_call_def split: if_splits bool.splits)
    have b: "butlast (seg_files s) @ [last (seg_files s)] = seg_files s" using ne by simp
    have st: "stays (s\<lparr>seg_files := seg_files t\<rparr>) t"
      using d(3) unfolding t by (auto simp: stays_def marked_complete_def Fail_def)
    show ?thesis
    proof (cases "fst (single_call w a)")
      case True
      then have "seg_files t = seg_files s" using t d(1) o assms(4) b by simp
      then show ?thesis using no st by simp
    next
      case f: False
      then have "seg_files t = butlast (files_of sse42 1 0 ps) @ [last (files_of sse42 1 0 ps) @ d]"
        using t d(1) assms(3) by (simp add: Fail_def)
      then have "torn_from (files_of sse42 1 0 ps) (seg_files t)" using assms(2) by (auto simp: torn_from_def)
      then show ?thesis using no st by simp
    qed
  qed
qed

section \<open>The invariant of a recorder\<close>

definition rec_inv :: "bool \<Rightarrow> RawBuffer list \<Rightarrow> RawRecorder \<Rightarrow> bool" where
  "rec_inv sse42 acc s =
     (\<exists>ps. holds sse42 acc ps s \<and>
        (rec_opened s \<and> \<not> rec_closed s \<and> \<not> rec_failed s \<longrightarrow> writing ps s) \<and>
        (\<not> rec_opened s \<and> \<not> rec_closed s \<longrightarrow> ps = [] \<and> segment s = 0 \<and> seg_files s = []) \<and>
        (marked_complete s \<longrightarrow> rec_closed s \<and> seg_files s = files_of sse42 1 0 ps))"

lemma or_fail_state: "snd (or_fail f s) = (if fst (f s) then snd (f s) else Fail (snd (f s)))"
  by (simp add: or_fail_def split: prod.splits)

lemma Fail_fields [simp]: "seg_files (Fail s) = seg_files s" "records (Fail s) = records s" "rec_failed (Fail s)"
  "rec_opened (Fail s) = rec_opened s" "rec_closed (Fail s) = rec_closed s" "marked_complete (Fail s) = marked_complete s"
  "data_open (Fail s) = data_open s" "segment (Fail s) = segment s" "offset (Fail s) = offset s"
  "events_open (Fail s) = events_open s" "directory_open (Fail s) = directory_open s"
  by (simp_all add: Fail_def marked_complete_def)

text \<open>Into the next segment, where that is needed.\<close>

lemma roll_steps:
  assumes "(if needs_segment n s then andthen (CloseSegment dump w) (OpenSegment sse42 w) s else (True, s)) = (ok, t)"
    "writing ps s" "seg_files s = files_of sse42 1 0 ps"
  shows "records t = records s \<and> rec_opened t = rec_opened s \<and> rec_closed t = rec_closed s \<and>
    (marked_complete t \<longrightarrow> marked_complete s) \<and> (rec_failed s \<longrightarrow> rec_failed t) \<and>
    (if ok then rec_failed t = rec_failed s \<and> (\<exists>qs. buffers qs = buffers ps \<and> seg_files t = files_of sse42 1 0 qs \<and> writing qs t)
     else seg_files t = seg_files s \<or> torn_from (files_of sse42 1 0 ps) (seg_files t))"
proof (cases "needs_segment n s")
  case False
  then show ?thesis using assms by auto
next
  case True
  obtain ok1 a where a: "CloseSegment dump w s = (ok1, a)" by fastforce
  have st: "stays (s\<lparr>data_open := data_open a\<rparr>) a" using CloseSegment_stays [where s = s and dump = dump and w = w] a by simp
  then have base: "records a = records s" "rec_opened a = rec_opened s" "rec_closed a = rec_closed s"
    "marked_complete a \<longrightarrow> marked_complete s" "rec_failed s \<longrightarrow> rec_failed a" "seg_files a = seg_files s" "segment a = segment s"
    by (auto simp: stays_def marked_complete_def)
  show ?thesis
  proof (cases ok1)
    case no: False
    then show ?thesis using assms(1) True a base by (auto simp: andthen_def)
  next
    case yes: True
    then have o: "OpenSegment sse42 w a = (ok, t)" using assms(1) True a by (simp add: andthen_def)
    have f: "rec_failed a = rec_failed s" using CloseSegment_ok [of dump w s] a yes by simp
    have "segment a = length ps" "seg_files a = files_of sse42 1 0 ps" using base assms(2,3) by (simp_all add: writing_def)
    note op = OpenSegment_steps [OF o this]
    show ?thesis
    proof (cases ok)
      case True
      then obtain c where "seg_files t = files_of sse42 1 0 (ps @ [(c, [])])" "writing (ps @ [(c, [])]) t" using op by auto
      then show ?thesis using op base f True by (auto intro!: exI [of _ "ps @ [(c, [])]"])
    next
      case False
      then show ?thesis using op base f by auto
    qed
  qed
qed

lemma writing_append_last:
  assumes "writing ps s" "seg_files t = files_of sse42 1 0 (append_last ps b)" "seg_files s = files_of sse42 1 0 ps"
    "offset t = offset s + length (record_bytes sse42 (length (buffers ps)) b)" "segment_records t = segment_records s + 1"
    "segment t = segment s" "data_open t = data_open s"
  shows "writing (append_last ps b) t"
  using assms files_append_last(1) [of ps sse42 b] by (auto simp: writing_def append_last_def)

lemma Append_steps:
  assumes "Append dump sse42 w b s = (ok, t)" "rec_opened s" "\<not> rec_closed s" "\<not> rec_failed s"
    "writing ps s" "seg_files s = files_of sse42 1 0 ps" "records s = length (buffers ps)"
  shows "rec_opened t \<and> \<not> rec_closed t \<and> (marked_complete t \<longrightarrow> marked_complete s) \<and>
    (if records t = records s + 1
     then \<exists>qs. buffers qs = buffers ps @ [b] \<and> seg_files t = files_of sse42 1 0 qs \<and> (\<not> rec_failed t \<longrightarrow> writing qs t)
     else \<not> ok \<and> records t = records s \<and> rec_failed t \<and>
       (\<exists>qs. buffers qs = buffers ps \<and> (seg_files t = files_of sse42 1 0 qs \<or> torn_from (files_of sse42 1 0 qs) (seg_files t))))"
proof -
  let ?len = "kRecordHeaderSize + length (b_metadata b) + length (b_payload b)"
  show ?thesis
  proof (cases "\<not> b_object b \<or> length (b_metadata b) > kMaxMetadataSize \<or> b_valid b = None \<or>
      length (b_payload b) > max_offset - kFileHeaderSize - (kRecordHeaderSize + length (b_metadata b))")
    case True
    then have "t = Fail s" "\<not> ok" using assms(1-4) by (auto simp: Append_def or_fail_def Let_def split: if_splits option.splits)
    then show ?thesis using assms by auto
  next
    case False
    then obtain valid where v: "b_valid b = Some valid" by auto
    define flush where "flush = (\<lambda>s. if flush_bytes (options s) \<noteq> 0 \<and> offset s - synced s \<ge> flush_bytes (options s)
        then andthen (single_call w) (set_field (\<lambda>s. s\<lparr>synced := offset s\<rparr>)) s else (True, s))"
    define roll where "roll = (\<lambda>s. if needs_segment ?len s then andthen (CloseSegment dump w) (OpenSegment sse42 w) s else (True, s))"
    have ap: "Append dump sse42 w b s = or_fail (in_order [roll, write_frame sse42 w b, set_field (count_record ?len valid b), flush]) s"
      using False v assms(2-4) by (simp add: Append_def or_fail_def Let_def flush_def roll_def)
    obtain ok1 a where a: "roll s = (ok1, a)" by fastforce
    note r = roll_steps [OF a [unfolded roll_def] assms(5,6)]
    show ?thesis
    proof (cases ok1)
      case False
      then have "t = Fail a" "\<not> ok" using assms(1) ap a by (simp_all add: or_fail_def andthen_def)
      then show ?thesis using r False assms(2,3,6) by auto
    next
      case ok1: True
      obtain qs where q: "buffers qs = buffers ps" "seg_files a = files_of sse42 1 0 qs" "writing qs a" using r ok1 by auto
      obtain ok2 c where c: "write_frame sse42 w b a = (ok2, c)" by fastforce
      have "qs \<noteq> []" "offset a = length (last (seg_files a))" "records a = length (buffers qs)"
        using q r assms(7) by (simp_all add: writing_def)
      note wr = write_record_steps [OF c this(1) q(2) this(2,3)]
      have wb: "records c = records s" "rec_opened c = rec_opened s" "rec_closed c = rec_closed s"
        "marked_complete c \<longrightarrow> marked_complete s"
        using wr r by (auto simp: stays_def marked_complete_def)
      show ?thesis
      proof (cases ok2)
        case False
        then have t: "t = Fail c" "\<not> ok" using assms(1) ap a c ok1 by (simp_all add: or_fail_def andthen_def)
        have "seg_files c = files_of sse42 1 0 qs \<or> torn_from (files_of sse42 1 0 qs) (seg_files c)" using wr False q(2) by auto
        then show ?thesis using t wb q(1) assms(2,3) by auto
      next
        case ok2: True
        let ?d = "count_record ?len valid b c"
        obtain ok3 e where e: "flush ?d = (ok3, e)" by fastforce
        have t: "t = (if ok3 then e else Fail e)" using assms(1) ap a c e ok1 ok2
          by (cases ok3) (simp_all add: or_fail_def andthen_def set_field_def)
        have ee: "stays ?d e" using e by (auto simp: flush_def andthen_def single_call_def set_field_def split: if_splits)
        have cf: "seg_files c = files_of sse42 1 0 (append_last qs b)" using wr ok2 by simp
        have d: "seg_files ?d = seg_files c" "records ?d = records c + 1" "offset ?d = offset c + ?len"
          "segment_records ?d = segment_records c + 1" "segment ?d = segment c" "data_open ?d = data_open c"
          "rec_opened ?d = rec_opened c" "rec_closed ?d = rec_closed c" "marked_complete ?d = marked_complete c"
          by (simp_all add: count_record_def marked_complete_def)
        have ca: "offset c = offset a" "segment_records c = segment_records a" "segment c = segment a" "data_open c = data_open a"
          using wr by (auto simp: stays_def)
        have "writing (append_last qs b) e"
          by (rule writing_append_last [OF q(3) _ q(2)]) (use ee d ca cf in \<open>auto simp: stays_def kRecordHeaderSize_def\<close>)
        then have "writing (append_last qs b) t" using t by (simp add: writing_def Fail_def)
        moreover have "seg_files t = files_of sse42 1 0 (append_last qs b)" "records t = records s + 1"
          "rec_opened t" "\<not> rec_closed t" "marked_complete t \<longrightarrow> marked_complete s"
          using t ee d cf wb assms(2,3) by (auto simp: stays_def)
        moreover have "buffers (append_last qs b) = buffers ps @ [b]"
          using files_append_last(2) [of qs b] q(1,3) by (simp add: writing_def)
        ultimately show ?thesis by auto
      qed
    qed
  qed
qed

section \<open>Every operation keeps the invariant\<close>

definition kept :: "RawRecorder \<Rightarrow> RawRecorder \<Rightarrow> bool" where
  "kept s t =
     (seg_files t = seg_files s \<and> records t = records s \<and> rec_opened t = rec_opened s \<and> rec_closed t = rec_closed s \<and>
      (rec_failed s \<longrightarrow> rec_failed t) \<and> (marked_complete t \<longrightarrow> marked_complete s))"

lemma kept_refl [simp]: "kept s s"
  by (simp add: kept_def)

lemma kept_trans: "\<lbrakk> kept s t; kept t u \<rbrakk> \<Longrightarrow> kept s u"
  by (auto simp: kept_def)

lemma stays_kept: "stays s t \<Longrightarrow> kept s t"
  by (auto simp: stays_def kept_def)

lemma kept_Fail: "kept s t \<Longrightarrow> kept s (Fail t)"
  by (simp add: kept_def)

lemma kept_CloseSegment: "kept s (snd (CloseSegment dump w s))"
  using CloseSegment_stays [where s = s and dump = dump and w = w] by (auto simp: stays_def kept_def marked_complete_def)

lemma kept_attempt: "(\<And>x. kept x (snd (f x))) \<Longrightarrow> kept s (snd r) \<Longrightarrow> kept s (snd (attempted f r))"
proof -
  assume f: "\<And>x. kept x (snd (f x))" and r: "kept s (snd r)"
  have "snd (attempted f r) = snd (or_fail f (snd r))" by (simp add: attempted_def split_def)
  also have "kept s \<dots>" using kept_trans [OF r f [of "snd r"]] kept_Fail by (simp add: or_fail_state)
  finally show ?thesis .
qed

lemma kept_single: "kept s (snd (single_call w s))" "kept s (snd (close_directory w s))" "kept s (snd (close_events w s))"
  using stays_close_directory(1) [OF stays_refl] stays_close_events(1) [OF stays_refl] stays_kept
  by (auto simp: single_call_def)

lemma Close_steps:
  assumes "\<not> rec_closed s"
  shows "\<exists>m. kept (s\<lparr>rec_closed := True\<rparr>) m \<and>
    (let t = snd (Close dump w complete reason s) in
     seg_files t = seg_files m \<and> records t = records m \<and> rec_opened t = rec_opened m \<and> rec_closed t \<and>
     (rec_failed m \<longrightarrow> rec_failed t) \<and> (marked_complete t \<longrightarrow> marked_complete m \<or> complete \<and> \<not> rec_failed m))"
proof -
  define r1 where "r1 = attempted (CloseSegment dump w) (True, s\<lparr>rec_closed := True\<rparr>)"
  define r2 where "r2 = (if directory_open (snd r1) then attempted (single_call w) r1 else r1)"
  define r3 where "r3 = attempted (close_directory w) r2"
  define m where "m = snd r3"
  define r4 where "r4 = (if events_open m then attempted (\<lambda>s. Event dump w (end_event w complete reason s) s) r3 else r3)"
  have k1: "kept (s\<lparr>rec_closed := True\<rparr>) (snd r1)" unfolding r1_def by (rule kept_attempt) (simp_all add: kept_CloseSegment)
  then have "kept (s\<lparr>rec_closed := True\<rparr>) (snd r2)" unfolding r2_def by (auto intro: kept_attempt kept_single)
  then have k: "kept (s\<lparr>rec_closed := True\<rparr>) m" unfolding r3_def m_def by (intro kept_attempt kept_single)
  have e: "Close dump w complete reason s = attempted (close_events w) r4"
    using assms unfolding Close_def Let_def r4_def m_def r3_def r2_def r1_def by simp
  have k4: "kept (snd r4) (snd (attempted (close_events w) r4))" by (rule kept_attempt) (simp_all add: kept_single)
  let ?e = "end_event w complete reason m"
  have ev: "is_complete_end ?e = (complete \<and> \<not> rec_failed m)" by (simp add: end_event_def is_complete_end_def)
  have s4: "snd r4 = (if events_open m then snd (or_fail (\<lambda>s. Event dump w (end_event w complete reason s) s) m) else m)"
    by (simp add: r4_def m_def attempted_def split_def)
  have "seg_files (snd r4) = seg_files m \<and> records (snd r4) = records m \<and> rec_opened (snd r4) = rec_opened m \<and>
      rec_closed (snd r4) = rec_closed m \<and> (rec_failed m \<longrightarrow> rec_failed (snd r4)) \<and>
      (marked_complete (snd r4) \<longrightarrow> marked_complete m \<or> complete \<and> \<not> rec_failed m)"
    using Event_rows(1,2,8,9) [of dump w ?e m] Event_rows(10) [of m dump w ?e] Event_marked [of dump w ?e m] ev
    unfolding s4 by (auto simp: or_fail_state)
  moreover have "rec_closed m" using k by (simp add: kept_def)
  ultimately show ?thesis using k k4 unfolding e by (intro exI [of _ m]) (auto simp: Let_def kept_def)
qed

lemma Close_inv:
  assumes "rec_inv sse42 acc s"
  shows "rec_inv sse42 acc (snd (Close dump w complete reason s))"
proof (cases "rec_closed s")
  case True
  then show ?thesis using assms by (simp add: Close_def)
next
  case False
  obtain ps where p: "holds sse42 acc ps s" "\<not> marked_complete s"
    using assms False by (auto simp: rec_inv_def)
  let ?t = "snd (Close dump w complete reason s)"
  obtain m where k: "kept (s\<lparr>rec_closed := True\<rparr>) m" and
    t: "seg_files ?t = seg_files m" "records ?t = records m" "rec_closed ?t" "rec_failed m \<longrightarrow> rec_failed ?t"
      "marked_complete ?t \<longrightarrow> marked_complete m \<or> complete \<and> \<not> rec_failed m"
    using Close_steps [OF False, of dump w complete reason] by (auto simp: Let_def)
  have m: "seg_files m = seg_files s" "records m = records s" "rec_failed s \<longrightarrow> rec_failed m" "\<not> marked_complete m"
    using k p(2) by (auto simp: kept_def marked_complete_def)
  then have h: "holds sse42 acc ps m" using p(1) by (auto simp: holds_def)
  then have "holds sse42 acc ps ?t" using t by (auto simp: holds_def)
  moreover have "marked_complete ?t \<longrightarrow> seg_files ?t = files_of sse42 1 0 ps" using t(1,5) m(4) h by (auto simp: holds_def)
  ultimately show ?thesis using t(3) unfolding rec_inv_def by blast
qed

lemma Event_inv:
  assumes "rec_inv sse42 acc s" "\<not> is_complete_end e"
  shows "rec_inv sse42 acc (snd (Event dump w e s))"
proof -
  have st: "stays s (snd (Event dump w e s))" by (rule stays_Event [OF stays_refl assms(2)])
  obtain ps where p: "holds sse42 acc ps s" "rec_opened s \<and> \<not> rec_closed s \<and> \<not> rec_failed s \<longrightarrow> writing ps s"
    "\<not> rec_opened s \<and> \<not> rec_closed s \<longrightarrow> ps = [] \<and> segment s = 0 \<and> seg_files s = []"
    "marked_complete s \<longrightarrow> rec_closed s \<and> seg_files s = files_of sse42 1 0 ps"
    using assms(1) unfolding rec_inv_def by blast
  show ?thesis unfolding rec_inv_def
    by (rule exI [of _ ps]) (use p st in \<open>auto simp: stays_def holds_def writing_def\<close>)
qed

lemma Append_inv:
  assumes "rec_inv sse42 acc s" "Append dump sse42 w b s = (ok, t)"
  shows "rec_inv sse42 (if records t = records s + 1 then acc @ [b] else acc) t \<and> (ok \<longrightarrow> records t = records s + 1)"
proof (cases "\<not> rec_opened s \<or> rec_closed s \<or> rec_failed s")
  case True
  then have "t = s" "\<not> ok" using assms(2) by (auto simp: Append_def)
  then show ?thesis using assms(1) by simp
next
  case False
  then obtain ps where p: "holds sse42 acc ps s" "writing ps s" "\<not> marked_complete s"
    using assms(1) by (auto simp: rec_inv_def)
  then have f: "seg_files s = files_of sse42 1 0 ps" "records s = length (buffers ps)" "buffers ps = acc"
    using False by (auto simp: holds_def)
  have o: "rec_opened s" "\<not> rec_closed s" "\<not> rec_failed s" using False by simp_all
  note a = Append_steps [OF assms(2) o p(2) f(1,2)]
  show ?thesis
  proof (cases "records t = records s + 1")
    case True
    then obtain qs where "buffers qs = acc @ [b]" "seg_files t = files_of sse42 1 0 qs" "\<not> rec_failed t \<longrightarrow> writing qs t"
      using a f(3) by auto
    then show ?thesis using True a p(3) f(2,3) unfolding rec_inv_def
      by (intro conjI exI [of _ qs]) (auto simp: holds_def)
  next
    case False
    then obtain qs where "buffers qs = acc" "seg_files t = files_of sse42 1 0 qs \<or> torn_from (files_of sse42 1 0 qs) (seg_files t)"
      using a f(3) by auto
    then show ?thesis using False a p(3) f(2,3) unfolding rec_inv_def
      by (intro conjI exI [of _ qs]) (auto simp: holds_def)
  qed
qed

lemma in_order_append: "in_order (fs @ gs) s = andthen (in_order fs) (in_order gs) s"
  by (induction fs arbitrary: s) (simp_all add: andthen_def split_def)

lemma in_order_stays: "(\<And>f x. f \<in> set fs \<Longrightarrow> stays x (snd (f x))) \<Longrightarrow> stays s (snd (in_order fs s))"
proof (induction fs arbitrary: s)
  case (Cons f fs)
  have f: "stays s (snd (f s))" by (rule Cons.prems) simp
  have "stays (snd (f s)) (snd (in_order fs (snd (f s))))" by (rule Cons.IH) (simp add: Cons.prems)
  with f show ?case by (auto simp: andthen_def split_def intro: stays_trans)
qed simp

text \<open>The body of \<open>Open\<close> in three pieces.\<close>

definition open_before :: "world \<Rightarrow> bytes \<Rightarrow> op list" where
  "open_before w device =
     [single_call w, single_call w, single_call w, set_field (\<lambda>s. s\<lparr>directory_open := True\<rparr>), single_call w,
      \<lambda>s. (snd (writes w s (device @ [10])), ticked s), single_call w, single_call w, single_call w,
      set_field (\<lambda>s. s\<lparr>device_file := Some (device @ [10])\<rparr>), single_call w, single_call w]"

definition open_after :: "(event \<Rightarrow> bytes) \<Rightarrow> world \<Rightarrow> op list" where
  "open_after dump w =
     [single_call w, single_call w, single_call w, single_call w,
      \<lambda>s. Event dump w (SessionStart (recording_format s) (clock w s)) s]"

definition open_body :: "(event \<Rightarrow> bytes) \<Rightarrow> bool \<Rightarrow> world \<Rightarrow> bytes \<Rightarrow> string option \<Rightarrow> op" where
  "open_body dump sse42 w device fmt s =
     (case fmt of
        None \<Rightarrow> (False, s)
      | Some f \<Rightarrow>
          if f = [] then (False, s\<lparr>recording_format := f\<rparr>)
          else in_order (open_before w device @ set_field (\<lambda>s. s\<lparr>events_open := True, rec_opened := True\<rparr>) #
            OpenSegment sse42 w # open_after dump w) (s\<lparr>recording_format := f\<rparr>))"

lemma Open_body:
  "Open dump sse42 w device fmt s =
     (if rec_opened s \<or> rec_closed s then (False, s)
      else case open_body dump sse42 w device fmt s of
        (True, s) \<Rightarrow> (True, s)
      | (False, s) \<Rightarrow> (False, snd (Close dump w False ''recorder initialization failed'' (Fail s))))"
  by (simp add: Open_def open_body_def open_before_def open_after_def Let_def del: in_order.simps cong: if_cong split: option.splits)

lemma open_before_stays: "stays s (snd (in_order (open_before w device) s))"
  by (rule in_order_stays) (auto simp: open_before_def single_call_def set_field_def)

lemma open_after_stays: "stays s (snd (in_order (open_after dump w) s))"
  by (rule in_order_stays) (auto simp: open_after_def single_call_def is_complete_end_def intro: stays_Event)

lemma open_body_steps:
  assumes "open_body dump sse42 w device fmt s = (ok, t)" "\<not> rec_opened s" "\<not> rec_closed s" "segment s = 0"
    "seg_files s = []" "\<not> marked_complete s"
  shows "records t = records s \<and> \<not> rec_closed t \<and> \<not> marked_complete t \<and> segment t = (if rec_opened t then segment t else 0) \<and>
    (ok \<longrightarrow> rec_opened t) \<and> (\<not> rec_opened t \<longrightarrow> seg_files t = []) \<and>
    (\<exists>ps. buffers ps = [] \<and> (rec_opened t \<or> ps = []) \<and>
       (if ok then seg_files t = files_of sse42 1 0 ps \<and> writing ps t
        else seg_files t = files_of sse42 1 0 ps \<or> torn_from (files_of sse42 1 0 ps) (seg_files t)))"
proof (cases "fmt = None \<or> fmt = Some []")
  case True
  then show ?thesis using assms by (auto simp: open_body_def marked_complete_def intro!: exI [of _ "[]"])
next
  case False
  then obtain f where f: "fmt = Some f" "f \<noteq> []" by auto
  let ?s = "s\<lparr>recording_format := f\<rparr>"
  obtain ok1 a where a: "in_order (open_before w device) ?s = (ok1, a)" by fastforce
  have sa: "stays ?s a" using open_before_stays [of ?s w device] a by simp
  have base: "records a = records s" "rec_opened a = rec_opened s" "rec_closed a = rec_closed s" "segment a = 0"
    "seg_files a = []" "\<not> marked_complete a"
    using sa assms(4-6) by (auto simp: stays_def marked_complete_def)
  show ?thesis
  proof (cases ok1)
    case no: False
    then have "t = a" "\<not> ok" using assms(1) f a by (simp_all add: open_body_def in_order_append andthen_def)
    then show ?thesis using base assms(2,3) by (auto intro!: exI [of _ "[]"])
  next
    case yes: True
    let ?b = "a\<lparr>events_open := True, rec_opened := True\<rparr>"
    obtain ok2 c where c: "OpenSegment sse42 w ?b = (ok2, c)" by fastforce
    have "segment ?b = length []" "seg_files ?b = files_of sse42 1 0 []" using base by simp_all
    note op = OpenSegment_steps [OF c this]
    have mb: "\<not> marked_complete ?b" using base(6) by (simp add: marked_complete_def)
    have t: "(ok, t) = (if ok2 then in_order (open_after dump w) c else (False, c))"
      using assms(1) f a c yes by (simp add: open_body_def in_order_append andthen_def set_field_def)
    show ?thesis
    proof (cases ok2)
      case False
      then show ?thesis using t op mb base assms(3) by (auto intro!: exI [of _ "[]"])
    next
      case True
      obtain x where x: "seg_files c = files_of sse42 1 0 [(x, [])]" "writing [(x, [])] c" using op True by auto
      have st: "stays c t" using open_after_stays [of c dump w] t True by (metis snd_conv)
      have "records t = records s" "\<not> rec_closed t" "\<not> marked_complete t" "rec_opened t" "seg_files t = seg_files c"
        "writing [(x, [])] t"
        using st op mb base assms(3) x(2) by (auto simp: stays_def writing_def)
      then show ?thesis using x(1) by (intro conjI exI [of _ "[(x, [])]"]) (simp_all add: buffers_def)
    qed
  qed
qed

lemma Open_inv:
  assumes "rec_inv sse42 acc s"
  shows "rec_inv sse42 acc (snd (Open dump sse42 w device fmt s))"
proof (cases "rec_opened s \<or> rec_closed s")
  case True
  then show ?thesis using assms by (auto simp: Open_def)
next
  case False
  then have s: "segment s = 0" "seg_files s = []" "\<not> marked_complete s" "acc = []" "records s = 0"
    using assms by (auto simp: rec_inv_def holds_def)
  obtain ok t where t: "open_body dump sse42 w device fmt s = (ok, t)" by fastforce
  have o: "\<not> rec_opened s" "\<not> rec_closed s" using False by simp_all
  note b = open_body_steps [OF t o s(1-3)]
  then obtain ps where p: "buffers ps = []" "rec_opened t \<or> ps = []"
    "if ok then seg_files t = files_of sse42 1 0 ps \<and> writing ps t
     else seg_files t = files_of sse42 1 0 ps \<or> torn_from (files_of sse42 1 0 ps) (seg_files t)" by blast
  show ?thesis
  proof (cases ok)
    case True
    then have "rec_inv sse42 acc t" using b p s unfolding rec_inv_def by (intro exI [of _ ps]) (auto simp: holds_def)
    then show ?thesis using t True False by (simp add: Open_body)
  next
    case no: False
    then have "rec_inv sse42 acc (Fail t)" using b p s unfolding rec_inv_def by (intro exI [of _ ps]) (auto simp: holds_def)
    then show ?thesis using t no False Close_inv by (simp add: Open_body)
  qed
qed

section \<open>The files of a camera\<close>

datatype recorder_call =
    CallOpen bytes "string option"
  | CallAppend RawBuffer
  | CallEvent bytes
  | CallClose bool string

text \<open>The recorder and the buffers that were counted as written; an append that returns has counted its buffer.\<close>

fun recorder_step ::
  "(event \<Rightarrow> bytes) \<Rightarrow> bool \<Rightarrow> world \<Rightarrow> RawRecorder \<times> RawBuffer list \<Rightarrow> recorder_call \<Rightarrow> RawRecorder \<times> RawBuffer list" where
  "recorder_step dump sse42 w (s, acc) (CallOpen device fmt) = (snd (Open dump sse42 w device fmt s), acc)"
| "recorder_step dump sse42 w (s, acc) (CallAppend b) =
     (let t = snd (Append dump sse42 w b s) in (t, if records t = records s + 1 then acc @ [b] else acc))"
| "recorder_step dump sse42 w (s, acc) (CallEvent x) = (snd (Event dump w (OtherEvent x) s), acc)"
| "recorder_step dump sse42 w (s, acc) (CallClose complete reason) = (snd (Close dump w complete reason s), acc)"

lemma append_counts: "fst (Append dump sse42 w b s) \<Longrightarrow> rec_inv sse42 acc s \<Longrightarrow> records (snd (Append dump sse42 w b s)) = records s + 1"
  using Append_inv [of sse42 acc s dump w b] by (metis prod.collapse)

interpretation raw_recording: machine "recorder_step dump sse42 w" "\<lambda>r. rec_inv sse42 (snd r) (fst r)" for dump sse42 w
proof unfold_locales
  fix r :: "RawRecorder \<times> RawBuffer list" and e
  assume i: "rec_inv sse42 (snd r) (fst r)"
  obtain s acc where r: "r = (s, acc)" by (cases r)
  have "\<not> is_complete_end (OtherEvent x)" for x by (simp add: is_complete_end_def)
  moreover have "rec_inv sse42 (if records (snd (Append dump sse42 w b s)) = records s + 1 then acc @ [b] else acc)
      (snd (Append dump sse42 w b s))" for b
    using Append_inv [of sse42 acc s dump w b] i unfolding r by (metis fst_conv prod.collapse snd_conv)
  ultimately show "rec_inv sse42 (snd (recorder_step dump sse42 w r e)) (fst (recorder_step dump sse42 w r e))"
    using i unfolding r by (cases e) (simp_all add: Open_inv Event_inv Close_inv Let_def)
qed

text \<open>
  C14: the raw files of a camera hold what was recorded: after any sequence of calls, and whatever the file system does at
  any of its calls, the segment files are the accepted buffers one after the other, each with its header, its number and
  its checksums, cut into segments, except that the last file may end in a torn piece after something has failed; and once
  the row that says the recording is complete has been begun in the event stream, there is no torn piece and there never
  will be one.
\<close>

theorem raw_files_hold_the_buffers:
  assumes "new_RawRecorder opts = Some s0" "foldl (recorder_step dump sse42 w) (s0, []) cs = (s, acc)"
  shows "records s = length acc \<and>
    (\<exists>ps. buffers ps = acc \<and>
       (if marked_complete s \<or> \<not> rec_failed s then seg_files s = files_of sse42 1 0 ps
        else seg_files s = files_of sse42 1 0 ps \<or> torn_from (files_of sse42 1 0 ps) (seg_files s)))"
proof -
  have "rec_inv sse42 [] s0"
    using assms(1) unfolding rec_inv_def
    by (intro exI [of _ "[]"]) (auto simp: new_RawRecorder_def holds_def marked_complete_def split: if_splits)
  then have "rec_inv sse42 (snd (s0, [])) (fst (s0, []))" by simp
  from raw_recording.run_inv [OF this, of dump w cs] have "rec_inv sse42 acc s" unfolding assms(2) by simp
  then show ?thesis unfolding rec_inv_def holds_def by (elim exE conjE) auto
qed

text \<open>A recorder with one buffer that is closed as complete.\<close>

definition example_buffer :: RawBuffer where
  "example_buffer = \<lparr>b_object = True, b_metadata = [], b_valid = Some True, b_payload = []\<rparr>"

theorem raw_files_hold_the_buffers_witness:
  "\<exists>s0 s acc. new_RawRecorder \<lparr>segment_bytes = 1000, segment_records_limit = 0, flush_bytes = 0\<rparr> = Some s0 \<and>
     foldl (recorder_step (\<lambda>e. []) False (\<lambda>k. ([Took 1000], True, 7))) (s0, [])
       [CallOpen [] (Some ''raw''), CallAppend example_buffer, CallClose True []] = (s, acc) \<and>
     records s = length acc"
proof -
  obtain s0 where n: "new_RawRecorder \<lparr>segment_bytes = 1000, segment_records_limit = 0, flush_bytes = 0\<rparr> = Some s0"
    by (simp add: new_RawRecorder_def kFileHeaderSize_def)
  obtain s acc where f: "foldl (recorder_step (\<lambda>e. []) False (\<lambda>k. ([Took 1000], True, 7))) (s0, [])
       [CallOpen [] (Some ''raw''), CallAppend example_buffer, CallClose True []] = (s, acc)" by fastforce
  from raw_files_hold_the_buffers [OF n f] n f show ?thesis by blast
qed

end
