(* ===== verification/Run_Guards.thy ===== *)
theory Run_Guards
  imports Machines Complex_Main
begin

text \<open>
  \<^verbatim>\<open>common/src/run_guards.cpp\<close>: when a recording is no longer worth continuing. A threshold and a reading are
  rational numbers; a message keeps the numbers it prints.
\<close>

record GuardConfig =
  disk_min_free_gib :: rat
  disk_warn_free_gib :: rat
  no_data_warn_s :: rat
  no_data_abort_s :: rat

definition default_GuardConfig :: GuardConfig where
  "default_GuardConfig =
     \<lparr>disk_min_free_gib = 5, disk_warn_free_gib = 20, no_data_warn_s = 5, no_data_abort_s = 60\<rparr>"

datatype Verdict = kOk | kWarn | kStop

datatype guard_message =
    NoMessage
  | DiskBelowFloor rat rat
  | DiskBelowWarning rat rat
  | SilentTooLong rat rat
  | NoDataFor rat

type_synonym Result = "Verdict \<times> guard_message"

record RunGuards =
  cfg :: GuardConfig
  disk_warn_latched :: bool
  sensor_warn_latched :: "string \<rightharpoonup> bool"

definition new_RunGuards :: "GuardConfig \<Rightarrow> RunGuards" where
  "new_RunGuards c = \<lparr>cfg = c, disk_warn_latched = False, sensor_warn_latched = Map.empty\<rparr>"

text \<open>\<open>None\<close> when the file system cannot be asked, otherwise the bytes available to an unprivileged writer.\<close>

definition FreeSpaceGiB :: "nat option \<Rightarrow> rat" where
  "FreeSpaceGiB available =
     (case available of None \<Rightarrow> - 1
      | Some n \<Rightarrow> if n = 2 ^ 64 - 1 then - 1 else of_nat n / 2 ^ 30)"

definition CheckDisk :: "rat \<Rightarrow> RunGuards \<Rightarrow> Result \<times> RunGuards" where
  "CheckDisk free g =
     (if free < 0 then ((kOk, NoMessage), g)
      else if disk_min_free_gib (cfg g) > 0 \<and> free < disk_min_free_gib (cfg g) then
        ((kStop, DiskBelowFloor free (disk_min_free_gib (cfg g))), g)
      else if disk_warn_free_gib (cfg g) > 0 \<and> free < disk_warn_free_gib (cfg g) then
        (if disk_warn_latched g then ((kOk, NoMessage), g)
         else ((kWarn, DiskBelowWarning free (disk_warn_free_gib (cfg g))), g\<lparr>disk_warn_latched := True\<rparr>))
      else ((kOk, NoMessage), g\<lparr>disk_warn_latched := False\<rparr>))"

text \<open>The entry of a sensor, made when it is not there yet.\<close>

definition latch :: "string \<Rightarrow> RunGuards \<Rightarrow> bool" where
  "latch name g = (case sensor_warn_latched g name of None \<Rightarrow> False | Some b \<Rightarrow> b)"

definition set_latch :: "string \<Rightarrow> bool \<Rightarrow> RunGuards \<Rightarrow> RunGuards" where
  "set_latch name b g = g\<lparr>sensor_warn_latched := (sensor_warn_latched g)(name \<mapsto> b)\<rparr>"

definition CheckSensor :: "string \<Rightarrow> u64 option \<Rightarrow> RunGuards \<Rightarrow> Result \<times> RunGuards" where
  "CheckSensor name silent g =
     (case silent of None \<Rightarrow> ((kOk, NoMessage), set_latch name False g)
      | Some us \<Rightarrow>
          let s = rat_of_nat (unat us) / 10 ^ 6 in
          if no_data_abort_s (cfg g) > 0 \<and> s \<ge> no_data_abort_s (cfg g) then
            ((kStop, SilentTooLong s (no_data_abort_s (cfg g))), g)
          else if no_data_warn_s (cfg g) > 0 \<and> s \<ge> no_data_warn_s (cfg g) then
            (if latch name g then ((kOk, NoMessage), g) else ((kWarn, NoDataFor s), set_latch name True g))
          else ((kOk, NoMessage), set_latch name False g))"

section \<open>A run of checks\<close>

datatype guard_call = Disk rat | Sensor string "u64 option"

fun guard_check :: "guard_call \<Rightarrow> RunGuards \<Rightarrow> Result \<times> RunGuards" where
  "guard_check (Disk free) g = CheckDisk free g"
| "guard_check (Sensor name silent) g = CheckSensor name silent g"

fun guard_results :: "RunGuards \<Rightarrow> guard_call list \<Rightarrow> Verdict list" where
  "guard_results g [] = []"
| "guard_results g (e # es) = (case guard_check e g of ((v, _), g) \<Rightarrow> v # guard_results g es)"

text \<open>
  What a reading means on its own: nothing known, within the limits, to be warned about, or a reason to stop.
\<close>

datatype reading = Unknown | Fine | Low | Fatal

fun reading_of :: "GuardConfig \<Rightarrow> guard_call \<Rightarrow> reading" where
  "reading_of c (Disk free) =
     (if free < 0 then Unknown
      else if disk_min_free_gib c > 0 \<and> free < disk_min_free_gib c then Fatal
      else if disk_warn_free_gib c > 0 \<and> free < disk_warn_free_gib c then Low else Fine)"
| "reading_of c (Sensor name None) = Fine"
| "reading_of c (Sensor name (Some us)) =
     (let s = rat_of_nat (unat us) / 10 ^ 6 in
      if no_data_abort_s c > 0 \<and> s \<ge> no_data_abort_s c then Fatal
      else if no_data_warn_s c > 0 \<and> s \<ge> no_data_warn_s c then Low else Fine)"

fun source_of :: "guard_call \<Rightarrow> string option" where
  "source_of (Disk free) = None"
| "source_of (Sensor name silent) = Some name"

text \<open>The earlier readings that count: those of the same source that were within the limits or warned about.\<close>

definition counted :: "GuardConfig \<Rightarrow> string option \<Rightarrow> guard_call list \<Rightarrow> reading list" where
  "counted c src past = [r \<leftarrow> map (reading_of c) [e \<leftarrow> past. source_of e = src]. r = Fine \<or> r = Low]"

definition warned :: "GuardConfig \<Rightarrow> string option \<Rightarrow> guard_call list \<Rightarrow> bool" where
  "warned c src past = (counted c src past \<noteq> [] \<and> last (counted c src past) = Low)"

definition verdict_after :: "GuardConfig \<Rightarrow> guard_call list \<Rightarrow> guard_call \<Rightarrow> Verdict" where
  "verdict_after c past e =
     (case reading_of c e of Fatal \<Rightarrow> kStop
      | Low \<Rightarrow> if warned c (source_of e) past then kOk else kWarn
      | _ \<Rightarrow> kOk)"

definition latched :: "string option \<Rightarrow> RunGuards \<Rightarrow> bool" where
  "latched src g = (case src of None \<Rightarrow> disk_warn_latched g | Some name \<Rightarrow> latch name g)"

lemma latch_set_latch: "latch m (set_latch n b g) = (if m = n then b else latch m g)"
  by (simp add: latch_def set_latch_def)

lemma set_latch_simps [simp]: "cfg (set_latch n b g) = cfg g" "disk_warn_latched (set_latch n b g) = disk_warn_latched g"
  by (simp_all add: set_latch_def)

lemma latch_disk [simp]: "latch m (g\<lparr>disk_warn_latched := b\<rparr>) = latch m g"
  by (simp add: latch_def)

lemma warned_snoc:
  "warned c src (past @ [e]) =
     (if source_of e = src \<and> reading_of c e \<in> {Fine, Low} then reading_of c e = Low else warned c src past)"
  by (auto simp: warned_def counted_def)

lemma guard_check_step:
  assumes "\<And>src. latched src g = warned (cfg g) src past"
  shows "fst (fst (guard_check e g)) = verdict_after (cfg g) past e" "cfg (snd (guard_check e g)) = cfg g"
    "latched src (snd (guard_check e g)) = warned (cfg g) src (past @ [e])"
proof -
  have d: "disk_warn_latched g = warned (cfg g) None past" using assms [of None] by (simp add: latched_def)
  have s: "latch n g = warned (cfg g) (Some n) past" for n using assms [of "Some n"] by (simp add: latched_def)
  note ds = CheckDisk_def CheckSensor_def verdict_after_def warned_snoc latched_def latch_set_latch d s Let_def
  show "fst (fst (guard_check e g)) = verdict_after (cfg g) past e" "cfg (snd (guard_check e g)) = cfg g"
    "latched src (snd (guard_check e g)) = warned (cfg g) src (past @ [e])"
    by (induction "cfg g" e rule: reading_of.induct; auto simp: ds split: option.splits)+
qed

lemma guard_results_from:
  assumes "\<And>src. latched src g = warned (cfg g) src past"
  shows "guard_results g es = map (\<lambda>i. verdict_after (cfg g) (past @ take i es) (es ! i)) [0..<length es]"
  using assms
proof (induction es arbitrary: g past)
  case (Cons e es)
  obtain v m g' where k: "guard_check e g = ((v, m), g')" by (metis surj_pair)
  note s = guard_check_step [OF Cons.prems, where e = e, unfolded k, simplified]
  have "guard_results g' es = map (\<lambda>i. verdict_after (cfg g') ((past @ [e]) @ take i es) (es ! i)) [0..<length es]"
    by (rule Cons.IH) (use s in simp)
  then show ?case using s k by (simp add: upt_conv_Cons comp_def del: upt_Suc flip: map_Suc_upt)
qed simp

text \<open>
  C37: the guards of a run say of every reading what its history tells: stop exactly at a reading beyond a hard limit,
  warn exactly at the first reading of a crossing, and nothing else. A crossing belongs to one source (the disk or one
  sensor) and ends with a reading of that source within the limits; readings that could not be taken, and readings of
  other sources, neither end it nor start another.
\<close>

theorem guards_warn_once_per_crossing:
  "guard_results (new_RunGuards c) es = map (\<lambda>i. verdict_after c (take i es) (es ! i)) [0..<length es]"
proof -
  have "latched src (new_RunGuards c) = warned c src []" for src
    by (simp add: latched_def new_RunGuards_def warned_def counted_def latch_def split: option.splits)
  then show ?thesis
    using guard_results_from [of "new_RunGuards c" "[]" es] by (simp add: new_RunGuards_def)
qed

text \<open>A configuration of the defaults: one warning for two readings in a row, another one after a good one.\<close>

lemma guards_example:
  "guard_results (new_RunGuards default_GuardConfig) (map Disk [19, 18, - 1, 17, 25, 19, 4]) =
     [kWarn, kOk, kOk, kOk, kOk, kWarn, kStop]"
  by (simp add: new_RunGuards_def default_GuardConfig_def CheckDisk_def)

end
