(* ===== verification/Sensor_Sync_Hub.thy ===== *)
theory Sensor_Sync_Hub
  imports Machines Complex_Main "HOL-Library.Multiset"
begin

text \<open>
  \<^verbatim>\<open>common/src/sensor_sync_hub.cpp\<close>: the cameras that share one trigger board. Every camera registers, then arms; the
  pulses start once, when the last one has armed, and the first camera that goes down ends them for good. The board is
  outside: the calls on it are collected in order with their outcome, which is an argument of the operation that makes
  the call. The rates a pair of outputs can run are a parameter (\<^verbatim>\<open>trigger_groups.h\<close> is not part of the repository);
  a rate is a rational number and a point in time a number of nanoseconds.
\<close>

definition kChannelCount :: int where "kChannelCount = 4"
definition GROUP_COUNT :: nat where "GROUP_COUNT = 2"

record Participant =
  p_owner :: string
  p_channel :: int
  p_pulse_hz :: rat
  p_armed :: bool

type_synonym rates = "(int \<times> rat) list"

text \<open>A call on the board, with the text it was refused with.\<close>

datatype board_call =
    BOpen string "string option"
  | BStart string rates "string option"
  | BStop
  | BOk bool

datatype hub_error =
    NoName
  | NoPort string
  | LateRegistration string bool
  | ChannelOutside string int
  | InvalidRate string rat
  | BoardFull string
  | AlreadyRegistered string
  | ChannelTaken string string int
  | PairRate string rat string rat
  | NotRegistered string
  | ArmedAfterEnd string
  | ArmedAfterFailure string string
  | BoardRefused string

record SensorSyncHub =
  hub_log_path :: string
  hub_port :: string
  opened :: bool
  started :: bool
  ended :: bool
  hub_failed :: bool
  last_error :: string
  participants :: "Participant list"
  started_rates :: rates
  armed_at :: "nat \<Rightarrow> nat"
  board_calls :: "board_call list"

definition new_SensorSyncHub :: "string \<Rightarrow> string \<Rightarrow> SensorSyncHub" where
  "new_SensorSyncHub path port =
     \<lparr>hub_log_path = path, hub_port = port, opened = False, started = False, ended = False, hub_failed = False,
      last_error = [], participants = [], started_rates = [], armed_at = (\<lambda>_. 0), board_calls = []\<rparr>"

definition call_board :: "board_call \<Rightarrow> SensorSyncHub \<Rightarrow> SensorSyncHub" where
  "call_board c h = h\<lparr>board_calls := board_calls h @ [c]\<rparr>"

definition FailLocked :: "string \<Rightarrow> SensorSyncHub \<Rightarrow> SensorSyncHub" where
  "FailLocked what h = (let h = h\<lparr>hub_failed := True\<rparr> in if last_error h = [] then h\<lparr>last_error := what\<rparr> else h)"

section \<open>Registration\<close>

fun conflict :: "string \<Rightarrow> int \<Rightarrow> rat \<Rightarrow> Participant list \<Rightarrow> hub_error option" where
  "conflict own ch hz [] = None"
| "conflict own ch hz (p # ps) =
     (if p_owner p = own then Some (AlreadyRegistered own)
      else if p_channel p = ch then Some (ChannelTaken own (p_owner p) ch)
      else if p_channel p div 2 = ch div 2 \<and> p_pulse_hz p \<noteq> hz then Some (PairRate own hz (p_owner p) (p_pulse_hz p))
      else conflict own ch hz ps)"

definition Register ::
  "(int \<Rightarrow> rat \<Rightarrow> bool) \<Rightarrow> string \<Rightarrow> int \<Rightarrow> rat \<Rightarrow> string option \<Rightarrow> SensorSyncHub \<Rightarrow>
   (hub_error + unit) \<times> SensorSyncHub" where
  "Register valid_rate own ch hz open_result h =
     (if own = [] then (Inl NoName, h)
      else if hub_port h = [] then (Inl (NoPort own), h)
      else if started h \<or> ended h then (Inl (LateRegistration own (ended h)), h)
      else if ch < 0 \<or> ch \<ge> kChannelCount then (Inl (ChannelOutside own ch), h)
      else if \<not> valid_rate (ch div 2) hz then (Inl (InvalidRate own hz), h)
      else if int (length (participants h)) \<ge> kChannelCount then (Inl (BoardFull own), h)
      else case conflict own ch hz (participants h) of
        Some e \<Rightarrow> (Inl e, h)
      | None \<Rightarrow>
          let add = (\<lambda>h. (Inr (), h\<lparr>participants := participants h @
                       [\<lparr>p_owner = own, p_channel = ch, p_pulse_hz = hz, p_armed = False\<rparr>]\<rparr>)) in
          if opened h then add h
          else
            let h = call_board (BOpen (hub_port h) open_result) h in
            case open_result of
              Some what \<Rightarrow> (Inl (BoardRefused what), FailLocked what h)
            | None \<Rightarrow> add (h\<lparr>opened := True\<rparr>))"

section \<open>Arming and disarming\<close>

definition PlannedRates :: "SensorSyncHub \<Rightarrow> rates" where
  "PlannedRates h =
     map (\<lambda>g. (2 * int g, foldl (\<lambda>hz p. if p_channel p div 2 = int g then p_pulse_hz p else hz) 0 (participants h)))
       [0..<GROUP_COUNT]"

fun index_of :: "string \<Rightarrow> Participant list \<Rightarrow> nat option" where
  "index_of own [] = None"
| "index_of own (p # ps) = (if p_owner p = own then Some 0 else map_option Suc (index_of own ps))"

definition Arm :: "string \<Rightarrow> nat \<Rightarrow> string option \<Rightarrow> SensorSyncHub \<Rightarrow> (hub_error + bool) \<times> SensorSyncHub" where
  "Arm own now start_result h =
     (case index_of own (participants h) of
        None \<Rightarrow> (Inl (NotRegistered own), h)
      | Some i \<Rightarrow>
          if ended h then (Inl (ArmedAfterEnd own), h)
          else if hub_failed h then (Inl (ArmedAfterFailure own (last_error h)), h)
          else
            let p = participants h ! i;
                h = (if p_armed p then h
                     else h\<lparr>participants := (participants h)[i := p\<lparr>p_armed := True\<rparr>],
                            armed_at := (armed_at h)(i := now)\<rparr>) in
            if started h then (Inr True, h)
            else if \<not> list_all p_armed (participants h) then (Inr False, h)
            else
              let h = h\<lparr>started_rates := PlannedRates h\<rparr>;
                  h = call_board (BStart (hub_log_path h) (started_rates h) start_result) h in
              case start_result of
                Some what \<Rightarrow> (Inl (BoardRefused what), FailLocked what h)
              | None \<Rightarrow> (Inr True, h\<lparr>started := True\<rparr>))"

definition integrity_text :: string where
  "integrity_text = ''timing session failed integrity checks at stop (see the [TriggerLog] lines above)''"

definition Disarm :: "bool \<Rightarrow> SensorSyncHub \<Rightarrow> SensorSyncHub" where
  "Disarm board_ok h =
     (if ended h then h
      else
        let h = h\<lparr>ended := True\<rparr> in
        if \<not> started h then h
        else
          let h = call_board (BOk board_ok) (call_board BStop h) in
          if \<not> board_ok then FailLocked integrity_text h else h)"

section \<open>What the cameras and the run ask\<close>

definition Registered :: "string \<Rightarrow> SensorSyncHub \<Rightarrow> bool" where
  "Registered own h = list_ex (\<lambda>p. p_owner p = own) (participants h)"

definition HasParticipants :: "SensorSyncHub \<Rightarrow> bool" where
  "HasParticipants h = (participants h \<noteq> [])"

definition Ok :: "bool \<Rightarrow> SensorSyncHub \<Rightarrow> bool" where
  "Ok board_ok h = (\<not> hub_failed h \<and> (\<not> started h \<or> board_ok))"

definition StalledSeconds :: "rat \<Rightarrow> SensorSyncHub \<Rightarrow> rat" where
  "StalledSeconds stalled h = (if \<not> started h \<or> ended h then - 1 else stalled)"

definition WaitingSeconds :: "string \<Rightarrow> nat \<Rightarrow> SensorSyncHub \<Rightarrow> rat" where
  "WaitingSeconds own now h =
     (if started h \<or> ended h then 0
      else case index_of own (participants h) of
        None \<Rightarrow> 0
      | Some i \<Rightarrow>
          if \<not> p_armed (participants h ! i) then 0
          else (of_nat now - of_nat (armed_at h i)) / 10 ^ 9)"

section \<open>Calls in any order\<close>

datatype hub_event =
    EvRegister string int rat "string option"
  | EvArm string nat "string option"
  | EvDisarm bool

fun hub_step :: "(int \<Rightarrow> rat \<Rightarrow> bool) \<Rightarrow> SensorSyncHub \<Rightarrow> hub_event \<Rightarrow> SensorSyncHub" where
  "hub_step v h (EvRegister own ch hz r) = snd (Register v own ch hz r h)"
| "hub_step v h (EvArm own now r) = snd (Arm own now r h)"
| "hub_step v h (EvDisarm ok) = Disarm ok h"

definition hub_run :: "(int \<Rightarrow> rat \<Rightarrow> bool) \<Rightarrow> hub_event list \<Rightarrow> SensorSyncHub \<Rightarrow> SensorSyncHub" where
  "hub_run v es h = foldl (hub_step v) h es"

text \<open>
  What the board is promised: it is opened until that succeeds once, started at most once and only when it is open, and
  stopped at most once, after a start that succeeded.
\<close>

datatype board_phase = Closed | Opened | Pulsing | Stopped | Dead

fun board_next :: "board_phase \<Rightarrow> board_call \<Rightarrow> board_phase option" where
  "board_next Closed (BOpen port (Some e)) = Some Closed"
| "board_next Closed (BOpen port None) = Some Opened"
| "board_next Opened (BStart path r (Some e)) = Some Dead"
| "board_next Opened (BStart path r None) = Some Pulsing"
| "board_next Pulsing BStop = Some Stopped"
| "board_next Stopped (BOk ok) = Some Stopped"
| "board_next _ _ = None"

definition board_after :: "board_call list \<Rightarrow> board_phase option" where
  "board_after cs = foldl (\<lambda>p c. case p of None \<Rightarrow> None | Some p \<Rightarrow> board_next p c) (Some Closed) cs"

lemma board_after_simps [simp]:
  "board_after [] = Some Closed"
  "board_after (cs @ [c]) = (case board_after cs of None \<Rightarrow> None | Some p \<Rightarrow> board_next p c)"
  by (simp_all add: board_after_def)

lemma board_after_two: "board_after (cs @ [c, d]) = (case board_after (cs @ [c]) of None \<Rightarrow> None | Some p \<Rightarrow> board_next p d)"
  using board_after_simps(2) [of "cs @ [c]" d] by simp

definition starts :: "board_call list \<Rightarrow> rates list" where
  "starts cs = List.map_filter (\<lambda>c. case c of BStart path r e \<Rightarrow> Some r | _ \<Rightarrow> None) cs"

text \<open>The rate sent for the pair of a channel.\<close>

definition rate_for :: "int \<Rightarrow> rates \<Rightarrow> rat option" where
  "rate_for ch r = map_of r (2 * (ch div 2))"

definition pair_agrees :: "Participant list \<Rightarrow> bool" where
  "pair_agrees ps = list_all (\<lambda>p. list_all (\<lambda>q. p_channel p div 2 \<noteq> p_channel q div 2 \<or> p_pulse_hz p = p_pulse_hz q) ps) ps"

definition phase_fits :: "SensorSyncHub \<Rightarrow> board_phase option \<Rightarrow> bool" where
  "phase_fits h p =
     (case p of
        None \<Rightarrow> False
      | Some Closed \<Rightarrow> \<not> opened h \<and> \<not> started h \<and> participants h = [] \<and> starts (board_calls h) = []
      | Some Opened \<Rightarrow> opened h \<and> \<not> started h \<and> starts (board_calls h) = []
      | Some Dead \<Rightarrow> opened h \<and> \<not> started h \<and> hub_failed h
      | Some q \<Rightarrow>
          opened h \<and> started h \<and> ended h = (q = Stopped) \<and> list_all p_armed (participants h) \<and>
          participants h \<noteq> [] \<and> starts (board_calls h) = [PlannedRates h])"

definition well_registered :: "(int \<Rightarrow> rat \<Rightarrow> bool) \<Rightarrow> Participant list \<Rightarrow> bool" where
  "well_registered v ps =
     (distinct (map p_owner ps) \<and> distinct (map p_channel ps) \<and>
      list_all (\<lambda>p. 0 \<le> p_channel p \<and> p_channel p < 4 \<and> v (p_channel p div 2) (p_pulse_hz p)) ps \<and> pair_agrees ps)"

definition hub_inv :: "(int \<Rightarrow> rat \<Rightarrow> bool) \<Rightarrow> SensorSyncHub \<Rightarrow> bool" where
  "hub_inv v h = (well_registered v (participants h) \<and> phase_fits h (board_after (board_calls h)))"

lemma starts_simps [simp]:
  "starts [] = []" "starts (cs @ [BOpen p e]) = starts cs" "starts (cs @ [BStop]) = starts cs"
  "starts (cs @ [BOk b]) = starts cs" "starts (cs @ [BStart l r e]) = starts cs @ [r]"
  by (simp_all add: starts_def map_filter_def)

lemma starts_two: "starts (cs @ [BStop, BOk b]) = starts cs"
  using starts_simps(4) [of "cs @ [BStop]" b] by simp

lemma call_board_simps [simp]:
  "board_calls (call_board c h) = board_calls h @ [c]" "participants (call_board c h) = participants h"
  "opened (call_board c h) = opened h" "started (call_board c h) = started h" "ended (call_board c h) = ended h"
  "hub_failed (call_board c h) = hub_failed h" "PlannedRates (call_board c h) = PlannedRates h"
  by (simp_all add: call_board_def PlannedRates_def)

lemma FailLocked_simps [simp]:
  "board_calls (FailLocked w h) = board_calls h" "participants (FailLocked w h) = participants h"
  "opened (FailLocked w h) = opened h" "started (FailLocked w h) = started h" "ended (FailLocked w h) = ended h"
  "hub_failed (FailLocked w h) = True" "PlannedRates (FailLocked w h) = PlannedRates h"
  by (simp_all add: FailLocked_def PlannedRates_def Let_def)

lemma PlannedRates_cong: "participants h = participants k \<Longrightarrow> PlannedRates h = PlannedRates k"
  by (simp add: PlannedRates_def)

section \<open>The invariant\<close>

lemma conflict_None:
  "(conflict own ch hz ps = None) =
   list_all (\<lambda>p. p_owner p \<noteq> own \<and> p_channel p \<noteq> ch \<and> (p_channel p div 2 \<noteq> ch div 2 \<or> p_pulse_hz p = hz)) ps"
  by (induction ps) simp_all

lemma pair_agrees_snoc:
  "pair_agrees (ps @ [q]) =
   (pair_agrees ps \<and> list_all (\<lambda>p. p_channel p div 2 \<noteq> p_channel q div 2 \<or> p_pulse_hz p = p_pulse_hz q) ps)"
proof -
  have gen: "list_all (\<lambda>p. list_all (R p) (ps @ [q])) (ps @ [q]) = (list_all (\<lambda>p. list_all (R p) ps) ps \<and> list_all (\<lambda>p. R p q) ps)"
    if "\<And>p. R p p" "\<And>p q. R p q = R q p" for R :: "Participant \<Rightarrow> Participant \<Rightarrow> bool"
    using that by (auto simp: list_all_iff)
  show ?thesis unfolding pair_agrees_def by (rule gen) auto
qed

lemma well_registered_snoc:
  assumes "well_registered v ps" "conflict own ch hz ps = None" "0 \<le> ch" "ch < 4" "v (ch div 2) hz"
  shows "well_registered v (ps @ [\<lparr>p_owner = own, p_channel = ch, p_pulse_hz = hz, p_armed = False\<rparr>])"
proof -
  have "own \<notin> set (map p_owner ps)" "ch \<notin> set (map p_channel ps)"
    "list_all (\<lambda>p. p_channel p div 2 \<noteq> ch div 2 \<or> p_pulse_hz p = hz) ps"
    using assms(2) by (auto simp: conflict_None list_all_iff simp del: zdiv_numeral_Bit0)
  then show ?thesis using assms(1,3-5) by (simp add: well_registered_def pair_agrees_snoc)
qed

lemma phase_fits_simps [simp]:
  "\<not> phase_fits h None"
  "phase_fits h (Some Closed) = (\<not> opened h \<and> \<not> started h \<and> participants h = [] \<and> starts (board_calls h) = [])"
  "phase_fits h (Some Opened) = (opened h \<and> \<not> started h \<and> starts (board_calls h) = [])"
  "phase_fits h (Some Dead) = (opened h \<and> \<not> started h \<and> hub_failed h)"
  "phase_fits h (Some Pulsing) = (opened h \<and> started h \<and> \<not> ended h \<and> list_all p_armed (participants h) \<and>
     participants h \<noteq> [] \<and> starts (board_calls h) = [PlannedRates h])"
  "phase_fits h (Some Stopped) = (opened h \<and> started h \<and> ended h \<and> list_all p_armed (participants h) \<and>
     participants h \<noteq> [] \<and> starts (board_calls h) = [PlannedRates h])"
  by (simp_all add: phase_fits_def)

lemma phase_cases:
  assumes "phase_fits h p"
  obtains "p = Some Closed" | "p = Some Opened" | "p = Some Pulsing" | "p = Some Stopped" | "p = Some Dead"
  using assms by (cases p) (auto simp: phase_fits_def split: board_phase.splits)

lemma Register_inv: "hub_inv v h \<Longrightarrow> hub_inv v (snd (Register v own ch hz r h))"
proof -
  assume inv: "hub_inv v h"
  have w: "well_registered v (participants h)" and f: "phase_fits h (board_after (board_calls h))"
    using inv by (simp_all add: hub_inv_def)
  from f show ?thesis
    by (cases rule: phase_cases)
      (use w f well_registered_snoc [OF w, of own ch hz] in
        \<open>auto simp: Register_def hub_inv_def kChannelCount_def Let_def split: option.splits\<close>)
qed

lemma index_of_Some: "index_of own ps = Some i \<Longrightarrow> i < length ps \<and> p_owner (ps ! i) = own"
  by (induction own ps arbitrary: i rule: index_of.induct) (auto split: if_splits)

lemma well_registered_armed:
  assumes "well_registered v ps" "i < length ps"
  shows "well_registered v (ps[i := (ps ! i)\<lparr>p_armed := True\<rparr>])"
proof -
  let ?qs = "ps[i := (ps ! i)\<lparr>p_armed := True\<rparr>]"
  have m: "map f ?qs = map f ps" if "\<And>p. f (p\<lparr>p_armed := True\<rparr>) = f p" for f :: "Participant \<Rightarrow> 'b"
    using that assms(2) by (simp add: map_update list_update_same_conv)
  have "list_all P ?qs = list_all P ps" if "\<And>p. P (p\<lparr>p_armed := True\<rparr>) = P p" for P
    using that assms(2) by (auto simp: list_all_length nth_list_update)
  then show ?thesis using assms(1) m [of p_owner] m [of p_channel] by (simp add: well_registered_def pair_agrees_def)
qed

text \<open>The participants and the moment after an arm, before the board is asked.\<close>

definition armed :: "nat \<Rightarrow> nat \<Rightarrow> SensorSyncHub \<Rightarrow> SensorSyncHub" where
  "armed i now h =
     (if p_armed (participants h ! i) then h
      else h\<lparr>participants := (participants h)[i := (participants h ! i)\<lparr>p_armed := True\<rparr>], armed_at := (armed_at h)(i := now)\<rparr>)"

lemma armed_simps [simp]:
  "board_calls (armed i now h) = board_calls h" "opened (armed i now h) = opened h" "started (armed i now h) = started h"
  "ended (armed i now h) = ended h" "hub_failed (armed i now h) = hub_failed h" "hub_log_path (armed i now h) = hub_log_path h"
  "participants (armed i now h) = (participants h)[i := (participants h ! i)\<lparr>p_armed := True\<rparr>]"
  by (simp_all add: armed_def) (metis (full_types) Participant.surjective Participant.update_convs(4) list_update_id)

lemma Arm_armed:
  "Arm own now r h =
     (case index_of own (participants h) of
        None \<Rightarrow> (Inl (NotRegistered own), h)
      | Some i \<Rightarrow>
          if ended h then (Inl (ArmedAfterEnd own), h)
          else if hub_failed h then (Inl (ArmedAfterFailure own (last_error h)), h)
          else let k = armed i now h in
            if started k then (Inr True, k)
            else if \<not> list_all p_armed (participants k) then (Inr False, k)
            else
              let k = k\<lparr>started_rates := PlannedRates k\<rparr>; k = call_board (BStart (hub_log_path k) (started_rates k) r) k in
              case r of Some what \<Rightarrow> (Inl (BoardRefused what), FailLocked what k) | None \<Rightarrow> (Inr True, k\<lparr>started := True\<rparr>))"
  unfolding Arm_def armed_def Let_def by (rule refl)

lemma PlannedRates_armed [simp]: "PlannedRates (armed i now h) = PlannedRates h"
proof -
  let ?f = "\<lambda>g hz p. if p_channel p div 2 = int g then p_pulse_hz p else hz"
  have f: "foldl (?f g) a (ps[i := (ps ! i)\<lparr>p_armed := True\<rparr>]) = foldl (?f g) a ps" for g a ps
    by (induction ps arbitrary: i a) (auto split: nat.splits)
  show ?thesis by (simp add: PlannedRates_def f)
qed

lemma PlannedRates_update [simp]:
  "PlannedRates (h\<lparr>started_rates := r\<rparr>) = PlannedRates h" "PlannedRates (h\<lparr>started := b\<rparr>) = PlannedRates h"
  "PlannedRates (h\<lparr>ended := b\<rparr>) = PlannedRates h"
  by (simp_all add: PlannedRates_def)

lemma Arm_inv: "hub_inv v h \<Longrightarrow> hub_inv v (snd (Arm own now r h))"
proof -
  assume inv: "hub_inv v h"
  have w: "well_registered v (participants h)" and f: "phase_fits h (board_after (board_calls h))"
    using inv by (simp_all add: hub_inv_def)
  show ?thesis
  proof (cases "index_of own (participants h)")
    case (Some i)
    then have i: "i < length (participants h)" by (simp add: index_of_Some)
    note a = well_registered_armed [OF w i]
    have n: "participants h \<noteq> []" using i by auto
    have l: "list_all p_armed (participants h) \<Longrightarrow> list_all p_armed ((participants h)[i := (participants h ! i)\<lparr>p_armed := True\<rparr>])"
      using i by (simp add: list_all_length nth_list_update)
    from f show ?thesis
      by (cases rule: phase_cases) (use inv Some f a n l in \<open>auto simp: Arm_armed hub_inv_def Let_def split: option.splits\<close>)
  qed (use inv in \<open>simp add: Arm_armed\<close>)
qed

lemma Disarm_inv: "hub_inv v h \<Longrightarrow> hub_inv v (Disarm ok h)"
proof -
  assume inv: "hub_inv v h"
  then have "phase_fits h (board_after (board_calls h))" by (simp add: hub_inv_def)
  then show ?thesis
    by (cases rule: phase_cases) (use inv in \<open>auto simp: Disarm_def hub_inv_def Let_def board_after_two starts_two\<close>)
qed

interpretation hub: machine "hub_step v" "hub_inv v" for v
proof unfold_locales
  show "hub_inv v h \<Longrightarrow> hub_inv v (hub_step v h e)" for h e
    by (cases e) (simp_all add: Register_inv Arm_inv Disarm_inv)
qed

lemma hub_inv_new: "hub_inv v (new_SensorSyncHub path port)"
  by (simp add: hub_inv_def new_SensorSyncHub_def well_registered_def pair_agrees_def)

section \<open>What the board sees\<close>

lemma pair_rate:
  "\<lbrakk> \<forall>q\<in>set ps. p_channel q div 2 = g \<longrightarrow> p_pulse_hz q = z; (\<exists>q\<in>set ps. p_channel q div 2 = g) \<or> a = z \<rbrakk> \<Longrightarrow>
   foldl (\<lambda>hz p. if p_channel p div 2 = g then p_pulse_hz p else hz) a ps = z"
  by (induction ps arbitrary: a) auto

lemma rate_of_participant:
  assumes "well_registered v (participants h)" "p \<in> set (participants h)"
  shows "rate_for (p_channel p) (PlannedRates h) = Some (p_pulse_hz p)"
proof -
  have c: "p_channel p div 2 = 0 \<or> p_channel p div 2 = 1"
  proof -
    have "list_all (\<lambda>p. 0 \<le> p_channel p \<and> p_channel p < 4 \<and> v (p_channel p div 2) (p_pulse_hz p)) (participants h)"
      using assms(1) by (simp only: well_registered_def)
    then have "0 \<le> p_channel p" "p_channel p < 4" using assms(2) unfolding list_all_iff by blast+
    then show ?thesis by presburger
  qed
  define g where "g = p_channel p div 2"
  have "pair_agrees (participants h)" using assms(1) by (simp only: well_registered_def)
  from bspec [OF this [unfolded pair_agrees_def list_all_iff] assms(2)]
  have "\<forall>q\<in>set (participants h). p_channel q div 2 = g \<longrightarrow> p_pulse_hz q = p_pulse_hz p" unfolding g_def by metis
  moreover have "\<exists>q\<in>set (participants h). p_channel q div 2 = g" using assms(2) g_def by blast
  ultimately have f: "foldl (\<lambda>hz q. if p_channel q div 2 = g then p_pulse_hz q else hz) 0 (participants h) = p_pulse_hz p"
    by (intro pair_rate disjI1)
  have "rate_for (p_channel p) (PlannedRates h) = map_of (PlannedRates h) (2 * g)" by (simp only: rate_for_def g_def)
  moreover have "g = 0 \<or> g = 1" using c g_def by simp
  ultimately show ?thesis using f by (auto simp: PlannedRates_def GROUP_COUNT_def numeral_2_eq_2)
qed

text \<open>
  C15: whatever the cameras do, in any order, with refusals of the board in between, the board is opened before anything
  else, started at most once and stopped at most once after that; when it has been started, every registered camera has
  armed, and the one START gave every camera's pair the rate that camera asked for; the pulses have been stopped exactly
  when the session has ended.
\<close>

theorem board_protocol:
  "let h = hub_run v es (new_SensorSyncHub path port); phase = board_after (board_calls h) in
   phase \<noteq> None \<and> (phase = Some Stopped) = (started h \<and> ended h) \<and>
   (if started h
    then list_all p_armed (participants h) \<and>
         (\<exists>r. starts (board_calls h) = [r] \<and>
              list_all (\<lambda>p. rate_for (p_channel p) r = Some (p_pulse_hz p)) (participants h))
    else phase \<noteq> Some Pulsing)"
proof -
  let ?h = "hub_run v es (new_SensorSyncHub path port)"
  have "hub_inv v ?h" unfolding hub_run_def by (rule hub.run_inv [OF hub_inv_new])
  then have w: "well_registered v (participants ?h)" and f: "phase_fits ?h (board_after (board_calls ?h))"
    by (simp_all add: hub_inv_def)
  have "list_all (\<lambda>p. rate_for (p_channel p) (PlannedRates ?h) = Some (p_pulse_hz p)) (participants ?h)"
    using rate_of_participant [OF w] by (simp add: list_all_iff)
  note r = this
  from f show ?thesis by (cases rule: phase_cases) (use f r in \<open>simp_all add: Let_def\<close>)
qed

section \<open>The last camera\<close>

fun arm_each :: "(string \<times> nat) list \<Rightarrow> SensorSyncHub \<Rightarrow> (hub_error + bool) list \<times> SensorSyncHub" where
  "arm_each [] h = ([], h)"
| "arm_each ((own, now) # os) h =
     (let (r, h) = Arm own now None h; (rs, h) = arm_each os h in (r # rs, h))"

definition unarmed :: "SensorSyncHub \<Rightarrow> string list" where
  "unarmed h = map p_owner [p \<leftarrow> participants h. \<not> p_armed p]"

lemma index_of_member: "own \<in> set (map p_owner ps) \<Longrightarrow> \<exists>i. index_of own ps = Some i"
  by (induction ps) auto

lemma unarmed_armed:
  "\<lbrakk> distinct (map p_owner ps); index_of own ps = Some i \<rbrakk> \<Longrightarrow>
   map p_owner [p \<leftarrow> ps[i := (ps ! i)\<lparr>p_armed := True\<rparr>]. \<not> p_armed p] = removeAll own (map p_owner [p \<leftarrow> ps. \<not> p_armed p])"
proof (induction own ps arbitrary: i rule: index_of.induct)
  case (2 own p ps)
  have "removeAll own (map p_owner [p \<leftarrow> ps. \<not> p_armed p]) = map p_owner [p \<leftarrow> ps. \<not> p_armed p]" if "own \<notin> p_owner ` set ps"
    using that by (intro removeAll_id) auto
  then show ?case using 2 by (auto split: if_splits)
qed simp

lemma arm_each_starts:
  assumes "distinct (map p_owner (participants h))" "\<not> started h" "\<not> ended h" "\<not> hub_failed h" "os \<noteq> []"
    "distinct (map fst os)" "set (map fst os) = set (unarmed h)"
  shows "fst (arm_each os h) = replicate (length os - 1) (Inr False) @ [Inr True] \<and>
         board_calls (snd (arm_each os h)) = board_calls h @ [BStart (hub_log_path h) (PlannedRates h) None] \<and>
         started (snd (arm_each os h))"
  using assms
proof (induction os arbitrary: h)
  case (Cons a os)
  obtain own now where a: "a = (own, now)" by (cases a)
  have "own \<in> set (unarmed h)" using Cons.prems(7) a by auto
  then obtain i where i: "index_of own (participants h) = Some i"
    using index_of_member [of own "participants h"] by (auto simp: unarmed_def)
  let ?k = "armed i now h"
  have u: "unarmed ?k = removeAll own (unarmed h)"
    using unarmed_armed [OF Cons.prems(1) i] by (simp add: unarmed_def)
  have su: "set (unarmed ?k) = set (map fst os)" using Cons.prems(6,7) a u by auto
  have d: "distinct (map p_owner (participants ?k))"
  proof -
    have "(map p_owner (participants h))[i := own] = map p_owner (participants h)"
      using index_of_Some [OF i] by (metis list_update_id nth_map)
    then show ?thesis using Cons.prems(1) index_of_Some [OF i] by (simp add: map_update)
  qed
  have al: "list_all p_armed (participants ?k) = (unarmed ?k = [])"
    unfolding unarmed_def by (auto simp: list_all_iff filter_empty_conv simp del: armed_simps)
  show ?case
  proof (cases "os = []")
    case True
    then have "list_all p_armed (participants ?k)" using su al by simp
    with True i a Cons.prems show ?thesis by (simp add: Arm_armed Let_def call_board_def)
  next
    case False
    then have "\<not> list_all p_armed (participants ?k)" using su al by auto
    then have s: "Arm own now None h = (Inr False, ?k)" using i Cons.prems by (simp add: Arm_armed Let_def)
    have "fst (arm_each os ?k) = replicate (length os - 1) (Inr False) @ [Inr True] \<and>
        board_calls (snd (arm_each os ?k)) = board_calls ?k @ [BStart (hub_log_path ?k) (PlannedRates ?k) None] \<and>
        started (snd (arm_each os ?k))"
      by (rule Cons.IH) (use Cons.prems d su False in simp_all)
    moreover have "Inr False # replicate (length os - 1) (Inr False) = replicate (length os) (Inr False)"
      using False by (cases os) simp_all
    ultimately show ?thesis using a s by (simp add: Let_def split_beta)
  qed
qed simp

text \<open>
  C38: when the cameras of a hub have registered and each of them arms, in whatever order, every call but the last one is
  told to wait, the last one is told that the pulses run, and the board gets its one START with the planned rates at that
  moment, as long as the board does not refuse it.
\<close>

theorem last_arm_starts_pulses:
  assumes "well_registered v (participants h)" "\<not> started h" "\<not> ended h" "\<not> hub_failed h" "os \<noteq> []"
    and "list_all (\<lambda>p. \<not> p_armed p) (participants h)" "mset (map fst os) = mset (map p_owner (participants h))"
  shows "fst (arm_each os h) = replicate (length os - 1) (Inr False) @ [Inr True] \<and>
         board_calls (snd (arm_each os h)) = board_calls h @ [BStart (hub_log_path h) (PlannedRates h) None] \<and>
         started (snd (arm_each os h))"
proof (rule arm_each_starts)
  show d: "distinct (map p_owner (participants h))" using assms(1) by (simp add: well_registered_def)
  show "distinct (map fst os)" using d assms(7) mset_eq_imp_distinct_iff by blast
  have "unarmed h = map p_owner (participants h)"
    using assms(6) by (simp add: unarmed_def list_all_iff)
  then show "set (map fst os) = set (unarmed h)" using assms(7) mset_eq_setD by metis
qed (use assms in simp_all)

definition example_hub :: SensorSyncHub where
  "example_hub = hub_run (\<lambda>g hz. True)
     [EvRegister ''FX10'' 0 50 None, EvRegister ''GoX left'' 2 5 None, EvRegister ''GoX right'' 3 5 None]
     (new_SensorSyncHub ''trigger.csv'' ''/dev/ttyACM0'')"

theorem last_arm_starts_pulses_witness:
  "fst (arm_each [(''GoX right'', 1), (''FX10'', 2), (''GoX left'', 3)] example_hub) = [Inr False, Inr False, Inr True] \<and>
   started (snd (arm_each [(''GoX right'', 1), (''FX10'', 2), (''GoX left'', 3)] example_hub))"
proof -
  have e: "participants example_hub =
      [\<lparr>p_owner = ''FX10'', p_channel = 0, p_pulse_hz = 50, p_armed = False\<rparr>,
       \<lparr>p_owner = ''GoX left'', p_channel = 2, p_pulse_hz = 5, p_armed = False\<rparr>,
       \<lparr>p_owner = ''GoX right'', p_channel = 3, p_pulse_hz = 5, p_armed = False\<rparr>]"
    "\<not> started example_hub" "\<not> ended example_hub" "\<not> hub_failed example_hub"
    by (simp_all add: example_hub_def hub_run_def Register_def new_SensorSyncHub_def kChannelCount_def call_board_def Let_def)
  have w: "well_registered (\<lambda>_ _. True) (participants example_hub)"
    unfolding e well_registered_def pair_agrees_def by simp
  show ?thesis
    using last_arm_starts_pulses [OF w e(2-4), of "[(''GoX right'', 1), (''FX10'', 2), (''GoX left'', 3)]"]
    by (simp add: e numeral_2_eq_2)
qed

end
