(* ===== verification/Session_Runner.thy ===== *)
theory Session_Runner
  imports Run_Guards Sensor_Sync_Hub String_Util
begin

text \<open>
  \<^verbatim>\<open>common/src/session_runner.cpp\<close>: one run of the rig, from the first Init to the final manifest. The drivers, the
  file system, the clock and the signals are outside: before every access of the coordinator to something shared, any
  events of theirs may happen, and a call that is answered gets its answer with them. Both come from a \<open>world\<close>, a
  function from the number of the access. What the coordinator calls is collected in order. Reading the flags of all
  drivers in a row is one access, since no flag is ever cleared. Log lines are left out.
\<close>

section \<open>The drivers and the world\<close>

datatype run_thread = NoThread | Running | Returned | Joined

record app =
  app_failed :: bool
  app_terminate :: bool
  app_thread :: run_thread

definition joinable :: "app \<Rightarrow> bool" where
  "joinable a = (app_thread a = Running \<or> app_thread a = Returned)"

record DriverSlot =
  slot_name :: string
  slot_key :: string

record Config =
  cfg_guards :: GuardConfig
  cfg_sensor_sync :: bool

text \<open>What happens outside between two accesses.\<close>

datatype world_event =
    Signal int
  | MarksFailed nat
  | RequestsFailure nat
  | SetsTerminate nat
  | RunEnds nat bool
  | Camera hub_event

datatype silence = SilenceThrows | Silence "u64 option"
datatype init_result = InitReturns bool | InitThrows
datatype stats_result = StatsObject string | StatsNoObject | StatsThrow string | StatsThrowUnknown
datatype statistics = Statistics string | StatisticsError string

record answer =
  ans_ok :: bool
  ans_throws :: bool
  ans_now :: nat
  ans_available :: "nat option"
  ans_silence :: silence
  ans_init :: init_result
  ans_stats :: stats_result

type_synonym world = "nat \<Rightarrow> world_event list \<times> answer"

datatype run_call =
    CInit nat
  | CSpawn nat
  | CJoin nat
  | CShutdown nat
  | CStatistics nat
  | CResult nat bool statistics
  | CLifecycle string bool "(string \<times> string) option list"
  | CDisarm string
  | CFinalize string bool

record run_state =
  tick :: nat
  apps :: "app list"
  g_terminate :: bool
  signal_received :: int
  hub :: SensorSyncHub
  guards :: RunGuards
  next_disk_check :: nat
  initialized :: nat
  lifecycle_ok :: bool
  sensor_states :: "string \<rightharpoonup> string \<times> string"
  first_to_terminate :: string
  driver_requested_stop :: bool
  stopped :: bool
  published :: "bool list"
  calls :: "run_call list"

definition set_app :: "nat \<Rightarrow> (app \<Rightarrow> app) \<Rightarrow> run_state \<Rightarrow> run_state" where
  "set_app i f s = (if i < length (apps s) then s\<lparr>apps := (apps s)[i := f (apps s ! i)]\<rparr> else s)"

definition MarkFailed :: "nat \<Rightarrow> run_state \<Rightarrow> run_state" where
  "MarkFailed i = set_app i (\<lambda>a. a\<lparr>app_failed := True\<rparr>)"

definition SetTerminate :: "nat \<Rightarrow> run_state \<Rightarrow> run_state" where
  "SetTerminate i = set_app i (\<lambda>a. a\<lparr>app_terminate := True\<rparr>)"

definition RequestFailure :: "nat \<Rightarrow> run_state \<Rightarrow> run_state" where
  "RequestFailure i s = SetTerminate i (MarkFailed i s)"

definition HasFailed :: "nat \<Rightarrow> run_state \<Rightarrow> bool" where
  "HasFailed i s = (i < length (apps s) \<and> app_failed (apps s ! i))"

text \<open>The body of a driver's thread comes to its end.\<close>

definition run_ends :: "nat \<Rightarrow> bool \<Rightarrow> run_state \<Rightarrow> run_state" where
  "run_ends i threw s =
     (if i < length (apps s) \<and> app_thread (apps s ! i) = Running then
        let s = (if threw then RequestFailure i s else s)
        in set_app i (\<lambda>a. a\<lparr>app_thread := Returned\<rparr>) (SetTerminate i s)
      else s)"

text \<open>\<^verbatim>\<open>SignalHandler::Handler\<close>, and the calls of the drivers.\<close>

definition Handler :: "int \<Rightarrow> run_state \<Rightarrow> run_state" where
  "Handler sig s = s\<lparr>g_terminate := True, signal_received := sig\<rparr>"

fun happens :: "(int \<Rightarrow> rat \<Rightarrow> bool) \<Rightarrow> run_state \<Rightarrow> world_event \<Rightarrow> run_state" where
  "happens v s (Signal sig) = Handler sig s"
| "happens v s (MarksFailed i) = MarkFailed i s"
| "happens v s (RequestsFailure i) = RequestFailure i s"
| "happens v s (SetsTerminate i) = SetTerminate i s"
| "happens v s (RunEnds i threw) = run_ends i threw s"
| "happens v s (Camera e) = s\<lparr>hub := hub_step v (hub s) e\<rparr>"

definition ask :: "(int \<Rightarrow> rat \<Rightarrow> bool) \<Rightarrow> world \<Rightarrow> run_state \<Rightarrow> answer \<times> run_state" where
  "ask v w s = (case w (tick s) of (es, a) \<Rightarrow> (a, (foldl (happens v) s es)\<lparr>tick := tick s + 1\<rparr>))"

definition call :: "run_call \<Rightarrow> run_state \<Rightarrow> run_state" where
  "call c s = s\<lparr>calls := calls s @ [c]\<rparr>"

section \<open>Cleanup\<close>

fun set_all :: "nat list \<Rightarrow> run_state \<Rightarrow> run_state" where
  "set_all [] s = s"
| "set_all (i # is) s = set_all is (SetTerminate i s)"

text \<open>A join returns when the thread has ended, at the latest now.\<close>

fun join_all :: "(int \<Rightarrow> rat \<Rightarrow> bool) \<Rightarrow> world \<Rightarrow> nat list \<Rightarrow> run_state \<Rightarrow> run_state" where
  "join_all v w [] s = s"
| "join_all v w (i # is) s =
     join_all v w is
       (if joinable (apps s ! i) then
          let (a, s) = ask v w s; s = run_ends i (ans_throws a) s
          in call (CJoin i) (set_app i (\<lambda>a. a\<lparr>app_thread := Joined\<rparr>) s)
        else s)"

fun shutdown_all :: "(int \<Rightarrow> rat \<Rightarrow> bool) \<Rightarrow> world \<Rightarrow> nat list \<Rightarrow> run_state \<Rightarrow> run_state" where
  "shutdown_all v w [] s = s"
| "shutdown_all v w (i # is) s =
     (let (a, s) = ask v w (call (CShutdown i) s)
      in shutdown_all v w is (if ans_throws a then RequestFailure i s else s))"

definition disarm :: "(int \<Rightarrow> rat \<Rightarrow> bool) \<Rightarrow> world \<Rightarrow> string \<Rightarrow> run_state \<Rightarrow> run_state" where
  "disarm v w who s =
     (let (a, s) = ask v w (call (CDisarm who) s) in s\<lparr>hub := Disarm (ans_ok a) (hub s)\<rparr>)"

definition Stop :: "(int \<Rightarrow> rat \<Rightarrow> bool) \<Rightarrow> world \<Rightarrow> Config \<Rightarrow> run_state \<Rightarrow> run_state" where
  "Stop v w c s =
     (if stopped s then s
      else
        let s = s\<lparr>stopped := True\<rparr>; n = length (apps s);
            s = set_all [0..<n] s;
            s = join_all v w [0..<n] s;
            s = shutdown_all v w (rev [0..<n]) s
        in if cfg_sensor_sync c then disarm v w ''session'' s else s)"

section \<open>Results\<close>

fun collect :: "(int \<Rightarrow> rat \<Rightarrow> bool) \<Rightarrow> world \<Rightarrow> (nat \<times> DriverSlot) list \<Rightarrow> string \<Rightarrow> run_state \<Rightarrow> string \<times> run_state" where
  "collect v w [] failed s = (failed, s)"
| "collect v w ((i, d) # ds) failed s =
     (let s =
        (if \<not> published s ! i then
           let (a, s) = ask v w (call (CStatistics i) s);
               (st, s) =
                 (case ans_stats a of
                    StatsObject x \<Rightarrow> (Statistics x, s)
                  | StatsNoObject \<Rightarrow> (StatisticsError ''FinalStatistics must return an object'', RequestFailure i s)
                  | StatsThrow x \<Rightarrow> (StatisticsError x, RequestFailure i s)
                  | StatsThrowUnknown \<Rightarrow> (StatisticsError ''Final driver statistics unavailable'', RequestFailure i s));
               s = call (CResult i (HasFailed i s) st) s
           in s\<lparr>published := (published s)[i := True]\<rparr>
         else s);
       failed = (if HasFailed i s then (if failed \<noteq> [] then failed @ '', '' else failed) @ slot_key d else failed)
      in collect v w ds failed s)"

definition CollectResults :: "(int \<Rightarrow> rat \<Rightarrow> bool) \<Rightarrow> world \<Rightarrow> DriverSlot list \<Rightarrow> run_state \<Rightarrow> string \<times> run_state" where
  "CollectResults v w slots s = collect v w (enumerate 0 slots) [] s"

section \<open>The run\<close>

definition set_state :: "string \<Rightarrow> string \<Rightarrow> run_state \<Rightarrow> run_state" where
  "set_state key x s =
     s\<lparr>sensor_states := (sensor_states s)(key \<mapsto> (x, case sensor_states s key of None \<Rightarrow> [] | Some (_, e) \<Rightarrow> e))\<rparr>"

definition set_error :: "string \<Rightarrow> string \<Rightarrow> run_state \<Rightarrow> run_state" where
  "set_error key e s =
     s\<lparr>sensor_states := (sensor_states s)(key \<mapsto> (case sensor_states s key of None \<Rightarrow> [] | Some (x, _) \<Rightarrow> x, e))\<rparr>"

definition failure_text :: string where
  "failure_text = ''Driver reported a failure; see session log''"

fun note_failed :: "(nat \<times> DriverSlot) list \<Rightarrow> run_state \<Rightarrow> run_state" where
  "note_failed [] s = s"
| "note_failed ((i, d) # ds) s =
     note_failed ds
       (if HasFailed i s then
          let s = set_state (slot_key d) ''failed'' s
          in if map_option snd (sensor_states s (slot_key d)) = Some [] then set_error (slot_key d) failure_text s else s
        else s)"

definition publish_lifecycle ::
  "(int \<Rightarrow> rat \<Rightarrow> bool) \<Rightarrow> world \<Rightarrow> DriverSlot list \<Rightarrow> string \<Rightarrow> bool \<Rightarrow> run_state \<Rightarrow> run_state" where
  "publish_lifecycle v w slots phase read s =
     (let (_, s) = ask v w s;
          s = note_failed (enumerate 0 slots) s;
          (a, s) = ask v w (call (CLifecycle phase read (map (\<lambda>d. sensor_states s (slot_key d)) slots)) s)
      in if \<not> ans_ok a then s\<lparr>lifecycle_ok := False, g_terminate := True\<rparr> else s)"

definition external_stop :: "run_state \<Rightarrow> bool" where
  "external_stop s = (g_terminate s \<or> list_ex app_failed (apps s))"

fun init_loop :: "(int \<Rightarrow> rat \<Rightarrow> bool) \<Rightarrow> world \<Rightarrow> DriverSlot list \<Rightarrow> (nat \<times> DriverSlot) list \<Rightarrow> run_state \<Rightarrow> run_state" where
  "init_loop v w slots [] s = s"
| "init_loop v w slots ((i, d) # ds) s =
     (let (_, s) = ask v w s in
      if external_stop s then s\<lparr>g_terminate := True\<rparr>
      else
        let (a, s) = ask v w (call (CInit i) s);
            (ready, s) =
              (case ans_init a of InitReturns b \<Rightarrow> (b, s) | InitThrows \<Rightarrow> (False, RequestFailure i s)) in
        if \<not> ready then
          let (_, s) = ask v w s in
          if external_stop s then s\<lparr>g_terminate := True\<rparr> else (RequestFailure i s)\<lparr>g_terminate := True\<rparr>
        else
          let s = s\<lparr>initialized := initialized s + 1\<rparr>;
              s = set_state (slot_key d) ''running'' s
          in init_loop v w slots ds (publish_lifecycle v w slots ''initializing'' (initialized s = length slots) s))"

fun spawn_loop :: "(int \<Rightarrow> rat \<Rightarrow> bool) \<Rightarrow> world \<Rightarrow> nat list \<Rightarrow> run_state \<Rightarrow> run_state" where
  "spawn_loop v w [] s = s"
| "spawn_loop v w (i # is) s =
     (let (a, s) = ask v w s in
      if g_terminate s then s
      else if ans_throws a then (RequestFailure i s)\<lparr>g_terminate := True\<rparr>
      else spawn_loop v w is (call (CSpawn i) (set_app i (\<lambda>a. a\<lparr>app_thread := Running\<rparr>) s)))"

definition kDiskGuardName :: string where "kDiskGuardName = ''disk''"

definition guard_key :: "nat \<Rightarrow> DriverSlot \<Rightarrow> string" where
  "guard_key i d = slot_name d @ CHR ''#'' # nat_text i"

text \<open>The message of the watchdog, with the numbers written elsewhere.\<close>

definition watchdog_text :: string where "watchdog_text = ''silent, watchdog abort threshold reached''"

text \<open>The no-data watchdog: \<open>None\<close> for an exception, otherwise whether it has tripped.\<close>

fun watch :: "(int \<Rightarrow> rat \<Rightarrow> bool) \<Rightarrow> world \<Rightarrow> (nat \<times> DriverSlot) list \<Rightarrow> run_state \<Rightarrow> bool option \<times> run_state" where
  "watch v w [] s = (Some False, s)"
| "watch v w ((i, d) # ds) s =
     (let (a, s) = ask v w s in
      case ans_silence a of
        SilenceThrows \<Rightarrow> (None, s)
      | Silence us \<Rightarrow>
          (case CheckSensor (guard_key i d) us (guards s) of
             ((verdict, _), g) \<Rightarrow>
               let s = s\<lparr>guards := g\<rparr> in
               if verdict = kStop then
                 let s = s\<lparr>first_to_terminate := slot_name d\<rparr>; s = set_error (slot_key d) watchdog_text s
                 in (Some True, RequestFailure i s)
               else watch v w ds s))"

text \<open>The disk check of a tick: whether it stops the run.\<close>

definition check_disk :: "answer \<Rightarrow> run_state \<Rightarrow> bool \<times> run_state" where
  "check_disk a s =
     (if ans_now a \<ge> next_disk_check s then
        let s = s\<lparr>next_disk_check := ans_now a + 10 ^ 9\<rparr> in
        (case CheckDisk (FreeSpaceGiB (ans_available a)) (guards s) of
           ((verdict, _), g) \<Rightarrow>
             let s = s\<lparr>guards := g\<rparr> in
             if verdict = kStop then (True, s\<lparr>first_to_terminate := kDiskGuardName\<rparr>) else (False, s))
      else (False, s))"

fun find_terminated :: "(nat \<times> DriverSlot) list \<Rightarrow> run_state \<Rightarrow> string option" where
  "find_terminated [] s = None"
| "find_terminated ((i, d) # ds) s =
     (if i < length (apps s) \<and> app_terminate (apps s ! i) then Some (slot_name d) else find_terminated ds s)"

text \<open>\<open>None\<close>: the fuel is used up; otherwise whether the loop was left without an exception.\<close>

fun monitor_loop :: "nat \<Rightarrow> (int \<Rightarrow> rat \<Rightarrow> bool) \<Rightarrow> world \<Rightarrow> DriverSlot list \<Rightarrow> run_state \<Rightarrow> (bool \<times> run_state) option" where
  "monitor_loop 0 v w slots s = None"
| "monitor_loop (Suc n) v w slots s =
     (let (_, s) = ask v w s in
      if g_terminate s then Some (True, s)
      else let (a, s) = ask v w s in
        case find_terminated (enumerate 0 slots) s of
          Some name \<Rightarrow> Some (True, s\<lparr>first_to_terminate := name, driver_requested_stop := True\<rparr>)
        | None \<Rightarrow>
            (case check_disk a s of
               (True, s) \<Rightarrow> Some (True, s)
             | (False, s) \<Rightarrow>
                 (case watch v w (enumerate 0 (take (initialized s) slots)) s of
                    (None, s) \<Rightarrow> Some (False, s)
                  | (Some True, s) \<Rightarrow> Some (True, s)
                  | (Some False, s) \<Rightarrow> monitor_loop n v w slots s)))"

definition Finalize :: "(int \<Rightarrow> rat \<Rightarrow> bool) \<Rightarrow> world \<Rightarrow> string \<Rightarrow> run_state \<Rightarrow> bool \<times> run_state" where
  "Finalize v w status s = (let (a, s) = ask v w s in (ans_ok a, call (CFinalize status (ans_ok a)) s))"

definition before_monitor :: "(int \<Rightarrow> rat \<Rightarrow> bool) \<Rightarrow> world \<Rightarrow> DriverSlot list \<Rightarrow> run_state \<Rightarrow> run_state" where
  "before_monitor v w slots s =
     (let s = s\<lparr>sensor_states := fold (\<lambda>d m. m(slot_key d \<mapsto> (''waiting'', []))) slots Map.empty\<rparr>;
          s = publish_lifecycle v w slots ''initializing'' False s;
          s = init_loop v w slots (enumerate 0 slots) s;
          s = spawn_loop v w [0..<initialized s] s;
          (_, s) = ask v w s;
          s = (if \<not> g_terminate s then publish_lifecycle v w slots ''running'' True s else s);
          (a, s) = ask v w s
      in s\<lparr>next_disk_check := ans_now a\<rparr>)"

fun final_states :: "(nat \<times> DriverSlot) list \<Rightarrow> run_state \<Rightarrow> run_state" where
  "final_states [] s = s"
| "final_states ((i, d) # ds) s =
     final_states ds (set_state (slot_key d) (if HasFailed i s then ''failed'' else ''stopped'') s)"

definition after_monitor ::
  "(int \<Rightarrow> rat \<Rightarrow> bool) \<Rightarrow> world \<Rightarrow> Config \<Rightarrow> DriverSlot list \<Rightarrow> run_state \<Rightarrow> string \<times> run_state" where
  "after_monitor v w c slots s =
     (let s = publish_lifecycle v w slots ''stopping'' (initialized s = length slots) s;
          s = set_all [0..<length (apps s)] s;
          s = Stop v w c s;
          (_, s) = ask v w s;
          s = final_states (enumerate 0 slots) s;
          s = publish_lifecycle v w slots ''stopping'' (initialized s = length slots) s;
          s = (if cfg_sensor_sync c \<and> HasParticipants (hub s) then disarm v w ''main'' s else s);
          (failed, s) = CollectResults v w slots s
      in (failed, publish_lifecycle v w slots ''stopping'' (initialized s = length slots) s))"

text \<open>The final status of a run and its exit code, as long as the manifest can be written.\<close>

definition final_status :: "string \<Rightarrow> run_state \<Rightarrow> string \<times> nat" where
  "final_status failed s =
     (if \<not> lifecycle_ok s then (''failed (status persistence)'', 1)
      else if failed \<noteq> [] then (''failed ('' @ failed @ '')'', 1)
      else if first_to_terminate s \<noteq> [] \<and> \<not> driver_requested_stop s then (''failed ('' @ first_to_terminate s @ '')'', 1)
      else if signal_received s \<noteq> 0 then (''interrupted (signal '' @ int_text (signal_received s) @ '')'', 0)
      else (''completed'', 0))"

definition conclude :: "(int \<Rightarrow> rat \<Rightarrow> bool) \<Rightarrow> world \<Rightarrow> string \<Rightarrow> run_state \<Rightarrow> nat \<times> run_state" where
  "conclude v w failed s =
     (let (_, s) = ask v w s; (status, code) = final_status failed s; (ok, s) = Finalize v w status s
      in (if ok then code else 1, s))"

text \<open>\<open>None\<close>: out of fuel; \<open>Some (None, s)\<close>: an exception.\<close>

definition Execute ::
  "nat \<Rightarrow> (int \<Rightarrow> rat \<Rightarrow> bool) \<Rightarrow> world \<Rightarrow> Config \<Rightarrow> DriverSlot list \<Rightarrow> run_state \<Rightarrow> (nat option \<times> run_state) option" where
  "Execute n v w c slots s =
     (let (a, s) = ask v w s in
      case CheckDisk (FreeSpaceGiB (ans_available a)) (guards s) of
        ((verdict, _), g) \<Rightarrow>
          let s = s\<lparr>guards := g\<rparr> in
          if verdict = kStop then
            let (_, s) = Finalize v w ''failed (disk)'' s in Some (Some 1, s)
          else
            (case monitor_loop n v w slots (before_monitor v w slots s) of
               None \<Rightarrow> None
             | Some (False, s) \<Rightarrow> Some (None, s)
             | Some (True, s) \<Rightarrow>
                 let (failed, s) = after_monitor v w c slots s; (code, s) = conclude v w failed s
                 in Some (Some code, s)))"

definition new_run_state :: "Config \<Rightarrow> SensorSyncHub \<Rightarrow> DriverSlot list \<Rightarrow> bool \<Rightarrow> int \<Rightarrow> run_state" where
  "new_run_state c h slots term sig =
     \<lparr>tick = 0,
      apps = map (\<lambda>_. \<lparr>app_failed = False, app_terminate = False, app_thread = NoThread\<rparr>) slots,
      g_terminate = term, signal_received = sig, hub = h, guards = new_RunGuards (cfg_guards c), next_disk_check = 0,
      initialized = 0, lifecycle_ok = True, sensor_states = Map.empty, first_to_terminate = [],
      driver_requested_stop = False, stopped = False, published = map (\<lambda>_. False) slots, calls = []\<rparr>"

definition RunSession ::
  "nat \<Rightarrow> (int \<Rightarrow> rat \<Rightarrow> bool) \<Rightarrow> world \<Rightarrow> Config \<Rightarrow> DriverSlot list \<Rightarrow> run_state \<Rightarrow> (nat \<times> run_state) option" where
  "RunSession n v w c slots s =
     (case Execute n v w c slots s of
        None \<Rightarrow> None
      | Some (Some code, s) \<Rightarrow> Some (code, Stop v w c s)
      | Some (None, s) \<Rightarrow>
          let s = Stop v w c s;
              (_, s) = CollectResults v w slots s;
              (_, s) = Finalize v w ''failed (session coordinator)'' s
          in Some (1, Stop v w c s))"

end
