(* ===== verification/Session_Runner_Facts.thy ===== *)
theory Session_Runner_Facts
  imports Session_Runner
begin

text \<open>
  What every run of the rig does, whatever its drivers, the signals and the file system do: its order, its result and
  that it ends.
\<close>

section \<open>Steps that leave no mark\<close>

fun marks :: "run_call \<Rightarrow> bool" where
  "marks (CLifecycle phase read st) = False"
| "marks (CDisarm who) = False"
| "marks _ = True"

definition marked :: "run_call list \<Rightarrow> run_call list" where
  "marked cs = filter marks cs"

lemma marked_simps [simp]: "marked [] = []" "marked (c # cs) = (if marks c then c # marked cs else marked cs)"
  "marked (cs @ ds) = marked cs @ marked ds"
  by (simp_all add: marked_def)

text \<open>
  From \<open>s\<close> the run gets to \<open>t\<close> with the marked calls \<open>ms\<close>: flags are never cleared, a signal that came is seen, the
  session of the trigger board is never reopened.
\<close>

definition leads :: "(int \<Rightarrow> rat \<Rightarrow> bool) \<Rightarrow> world \<Rightarrow> run_call list \<Rightarrow> run_state \<Rightarrow> run_state \<Rightarrow> bool" where
  "leads v w ms s t =
     (marked (calls t) = marked (calls s) @ ms \<and> tick s \<le> tick t \<and> length (apps t) = length (apps s) \<and>
      (g_terminate s \<longrightarrow> g_terminate t) \<and> (\<forall>i. HasFailed i s \<longrightarrow> HasFailed i t) \<and>
      (\<forall>k sig. tick s \<le> k \<and> k < tick t \<and> Signal sig \<in> set (fst (w k)) \<longrightarrow> g_terminate t) \<and>
      (ended (hub s) \<longrightarrow> ended (hub t)) \<and> (hub_inv v (hub s) \<longrightarrow> hub_inv v (hub t)))"

definition frame :: "run_state \<Rightarrow> bool list \<times> bool \<times> bool list" where
  "frame s = (map joinable (apps s), stopped s, published s)"

definition quiet_run :: "(int \<Rightarrow> rat \<Rightarrow> bool) \<Rightarrow> world \<Rightarrow> run_state \<Rightarrow> run_state \<Rightarrow> bool" where
  "quiet_run v w s t = (leads v w [] s t \<and> frame t = frame s)"

lemma leads_refl [simp]: "leads v w [] s s"
  by (auto simp: leads_def)

lemma leads_trans: "\<lbrakk> leads v w ms s t; leads v w ks t u \<rbrakk> \<Longrightarrow> leads v w (ms @ ks) s u"
proof -
  assume st: "leads v w ms s t" and tu: "leads v w ks t u"
  have "g_terminate u" if "tick s \<le> k \<and> k < tick u \<and> Signal sig \<in> set (fst (w k))" for k sig
    using that st tu unfolding leads_def by (cases "k < tick t") (blast, metis not_le)
  with st tu show ?thesis unfolding leads_def by (simp; blast)
qed

lemma quiet_run_refl [simp]: "quiet_run v w s s"
  by (simp add: quiet_run_def)

lemma quiet_run_trans: "\<lbrakk> quiet_run v w s t; quiet_run v w t u \<rbrakk> \<Longrightarrow> quiet_run v w s u"
  unfolding quiet_run_def using leads_trans [of v w "[]" s t "[]" u] by simp

lemma leads_quiet: "\<lbrakk> leads v w ms s t; quiet_run v w t u \<rbrakk> \<Longrightarrow> leads v w ms s u"
  unfolding quiet_run_def using leads_trans [of v w ms s t "[]" u] by simp

lemma quiet_leads: "\<lbrakk> quiet_run v w s t; leads v w ms t u \<rbrakk> \<Longrightarrow> leads v w ms s u"
  unfolding quiet_run_def using leads_trans [of v w "[]" s t ms u] by simp

named_theorems quiet_steps \<open>what may be done after a quiet piece of a run and leaves it quiet\<close>

lemma quiet_then: "quiet_run v w t u \<Longrightarrow> quiet_run v w s t \<Longrightarrow> quiet_run v w s u"
  by (rule quiet_run_trans)

lemma quiet_same:
  "\<lbrakk> marked (calls t) = marked (calls s); tick t = tick s; apps t = apps s; g_terminate s \<longrightarrow> g_terminate t; hub t = hub s;
     stopped t = stopped s; published t = published s \<rbrakk> \<Longrightarrow> quiet_run v w s t"
  by (auto simp: quiet_run_def leads_def frame_def HasFailed_def)

text \<open>Fields the relation does not look at.\<close>

lemma quiet_run_fields [quiet_steps]:
  "quiet_run v w s t \<Longrightarrow> quiet_run v w s (t\<lparr>initialized := n\<rparr>)"
  "quiet_run v w s t \<Longrightarrow> quiet_run v w s (t\<lparr>lifecycle_ok := b\<rparr>)"
  "quiet_run v w s t \<Longrightarrow> quiet_run v w s (t\<lparr>g_terminate := True\<rparr>)"
  "quiet_run v w s t \<Longrightarrow> quiet_run v w s (t\<lparr>sensor_states := m\<rparr>)"
  "quiet_run v w s t \<Longrightarrow> quiet_run v w s (t\<lparr>guards := g\<rparr>)"
  "quiet_run v w s t \<Longrightarrow> quiet_run v w s (t\<lparr>next_disk_check := n\<rparr>)"
  "quiet_run v w s t \<Longrightarrow> quiet_run v w s (t\<lparr>first_to_terminate := name\<rparr>)"
  "quiet_run v w s t \<Longrightarrow> quiet_run v w s (t\<lparr>driver_requested_stop := b\<rparr>)"
  by (rule quiet_then, rule quiet_same; simp)+

lemma set_app_leads:
  assumes "\<And>a. app_failed a \<Longrightarrow> app_failed (f a)"
  shows "leads v w [] s (set_app i f s)"
  using assms by (auto simp: leads_def set_app_def HasFailed_def nth_list_update)

lemma set_app_quiet:
  assumes "\<And>a. app_failed a \<Longrightarrow> app_failed (f a)" "\<And>a. joinable (f a) = joinable a"
  shows "quiet_run v w s (set_app i f s)"
proof -
  have "map joinable (apps (set_app i f s)) = map joinable (apps s)"
    using assms(2) by (cases "i < length (apps s)") (simp_all add: set_app_def map_update list_update_same_conv)
  moreover have "stopped (set_app i f s) = stopped s" "published (set_app i f s) = published s"
    by (simp_all add: set_app_def)
  ultimately show ?thesis using set_app_leads [of f v w s i, OF assms(1)] by (simp add: quiet_run_def frame_def)
qed

lemma quiet_flags [quiet_steps]:
  "quiet_run v w s t \<Longrightarrow> quiet_run v w s (MarkFailed i t)"
  "quiet_run v w s t \<Longrightarrow> quiet_run v w s (SetTerminate i t)"
  by (rule quiet_then; auto simp: MarkFailed_def SetTerminate_def joinable_def intro!: set_app_quiet)+

lemma quiet_RequestFailure [quiet_steps]: "quiet_run v w s t \<Longrightarrow> quiet_run v w s (RequestFailure i t)"
  unfolding RequestFailure_def by (intro quiet_steps)

lemma quiet_states [quiet_steps]:
  "quiet_run v w s t \<Longrightarrow> quiet_run v w s (set_state k x t)" "quiet_run v w s t \<Longrightarrow> quiet_run v w s (set_error k e t)"
  unfolding set_state_def set_error_def by (intro quiet_steps; assumption)+

lemma quiet_call [quiet_steps]:
  "quiet_run v w s t \<Longrightarrow> quiet_run v w s (call (CLifecycle ph rd st) t)"
  "quiet_run v w s t \<Longrightarrow> quiet_run v w s (call (CDisarm who) t)"
  by (rule quiet_then, rule quiet_same; simp add: call_def)+

text \<open>The world between two accesses.\<close>

lemma run_ends_quiet: "quiet_run v w s (run_ends i b s)"
proof (cases "i < length (apps s) \<and> app_thread (apps s ! i) = Running")
  case True
  let ?t = "SetTerminate i (if b then RequestFailure i s else s)"
  have q: "quiet_run v w s ?t" by (auto intro!: quiet_steps)
  have r: "app_thread (apps ?t ! i) = Running"
    using True by (auto simp: RequestFailure_def SetTerminate_def MarkFailed_def set_app_def)
  have "leads v w [] ?t (set_app i (\<lambda>a. a\<lparr>app_thread := Returned\<rparr>) ?t)" by (rule set_app_leads) simp
  moreover have "frame (set_app i (\<lambda>a. a\<lparr>app_thread := Returned\<rparr>) ?t) = frame ?t"
    using r by (auto simp: frame_def set_app_def map_update joinable_def list_update_same_conv)
  ultimately have "quiet_run v w ?t (set_app i (\<lambda>a. a\<lparr>app_thread := Returned\<rparr>) ?t)" by (simp add: quiet_run_def)
  moreover have "run_ends i b s = set_app i (\<lambda>a. a\<lparr>app_thread := Returned\<rparr>) ?t"
    unfolding run_ends_def Let_def using True by (rule if_P)
  ultimately show ?thesis using q quiet_run_trans by metis
next
  case False
  then show ?thesis unfolding run_ends_def by (simp only: if_False quiet_run_refl)
qed

lemma hub_step_ended: "ended h \<Longrightarrow> ended (hub_step v h e)"
  by (cases e) (auto simp: Register_def Arm_def Disarm_def Let_def split: option.splits)

lemma happens_quiet: "quiet_run v w s (happens v s e)"
proof (cases e)
  case (Camera c)
  then show ?thesis using hub.step_inv [of v "hub s" c]
    by (auto simp: quiet_run_def leads_def frame_def HasFailed_def hub_step_ended)
next
  case (Signal sig)
  then show ?thesis by (auto simp: Handler_def intro!: quiet_same)
qed (auto intro!: quiet_steps run_ends_quiet)

lemma happen_quiet: "quiet_run v w s (foldl (happens v) s es)"
  by (induction es arbitrary: s) (auto intro: quiet_run_trans happens_quiet)

lemma happen_tick: "tick (foldl (happens v) s es) = tick s"
proof (induction es arbitrary: s)
  case (Cons e es)
  have "tick (happens v s e) = tick s"
    by (cases e) (simp_all add: Handler_def MarkFailed_def RequestFailure_def SetTerminate_def set_app_def run_ends_def Let_def)
  with Cons show ?case by simp
qed simp

lemma happen_signal: "Signal sig \<in> set es \<Longrightarrow> g_terminate (foldl (happens v) s es)"
proof (induction es arbitrary: s)
  case (Cons e es)
  show ?case
  proof (cases "e = Signal sig")
    case True
    then have "g_terminate (happens v s e)" by (simp add: Handler_def)
    then show ?thesis using happen_quiet [of v undefined "happens v s e" es] by (simp add: quiet_run_def leads_def)
  qed (use Cons in simp)
qed simp

definition answered :: "world \<Rightarrow> run_state \<Rightarrow> answer" where
  "answered w s = snd (w (tick s))"

definition asked :: "(int \<Rightarrow> rat \<Rightarrow> bool) \<Rightarrow> world \<Rightarrow> run_state \<Rightarrow> run_state" where
  "asked v w s = snd (ask v w s)"

lemma ask_pair: "ask v w s = (answered w s, asked v w s)"
  by (simp add: ask_def answered_def asked_def split: prod.splits)

lemma quiet_asked [quiet_steps]: "quiet_run v w s t \<Longrightarrow> quiet_run v w s (asked v w t)"
proof (rule quiet_then)
  let ?u = "foldl (happens v) t (fst (w (tick t)))"
  have a: "asked v w t = ?u\<lparr>tick := tick t + 1\<rparr>" by (simp add: asked_def ask_def split: prod.splits)
  have q: "quiet_run v w t ?u" by (rule happen_quiet)
  have "g_terminate ?u" if "Signal sig \<in> set (fst (w (tick t)))" for sig using that by (rule happen_signal)
  then show "quiet_run v w t (asked v w t)"
    using q unfolding a quiet_run_def leads_def frame_def HasFailed_def by (auto simp: less_Suc_eq_le)
qed

lemma asked_tick: "tick (asked v w s) = Suc (tick s)"
  by (simp add: asked_def ask_def split: prod.splits)

section \<open>The pieces of a run\<close>

lemma quiet_note_failed [quiet_steps]: "quiet_run v w s t \<Longrightarrow> quiet_run v w s (note_failed ds t)"
  by (induction ds t rule: note_failed.induct) (simp, simp only: note_failed.simps Let_def, erule meta_mp, auto intro!: quiet_steps)

lemma quiet_publish [quiet_steps]: "quiet_run v w s t \<Longrightarrow> quiet_run v w s (publish_lifecycle v w slots ph rd t)"
  by (auto simp: publish_lifecycle_def ask_pair Let_def intro!: quiet_steps)

lemma quiet_set_all [quiet_steps]: "quiet_run v w s t \<Longrightarrow> quiet_run v w s (set_all is t)"
  by (induction "is" t rule: set_all.induct) (auto intro!: quiet_steps)

lemma quiet_final_states [quiet_steps]: "quiet_run v w s t \<Longrightarrow> quiet_run v w s (final_states ds t)"
  by (induction ds t rule: final_states.induct) (simp, simp only: final_states.simps, erule meta_mp, intro quiet_steps)

lemma quiet_watch: "quiet_run v w s t \<Longrightarrow> quiet_run v w s (snd (watch v w ds t))"
proof (induction ds arbitrary: t)
  case (Cons d ds)
  then show ?case
    by (cases d) (auto simp: ask_pair Let_def intro!: Cons.IH quiet_steps split: silence.splits prod.splits)
qed simp

lemma quiet_check_disk: "quiet_run v w s t \<Longrightarrow> quiet_run v w s (snd (check_disk a t))"
  by (auto simp: check_disk_def Let_def intro!: quiet_steps split: prod.splits)

lemma quiet_monitor: "\<lbrakk> monitor_loop n v w slots t = Some (b, u); quiet_run v w s t \<rbrakk> \<Longrightarrow> quiet_run v w s u"
proof (induction n arbitrary: t)
  case (Suc n)
  let ?k = "asked v w (asked v w t)"
  have q: "quiet_run v w s ?k" using Suc.prems(2) by (intro quiet_steps)
  have m: "monitor_loop (Suc n) v w slots t =
      (if g_terminate (asked v w t) then Some (True, asked v w t)
       else case find_terminated (enumerate 0 slots) ?k of
          Some name \<Rightarrow> Some (True, ?k\<lparr>first_to_terminate := name, driver_requested_stop := True\<rparr>)
        | None \<Rightarrow>
            (case check_disk (answered w (asked v w t)) ?k of
               (True, s) \<Rightarrow> Some (True, s)
             | (False, s) \<Rightarrow>
                 (case watch v w (enumerate 0 (take (initialized s) slots)) s of
                    (None, s) \<Rightarrow> Some (False, s)
                  | (Some True, s) \<Rightarrow> Some (True, s)
                  | (Some False, s) \<Rightarrow> monitor_loop n v w slots s)))"
    by (simp add: ask_pair)
  show ?case
  proof (cases "g_terminate (asked v w t)")
    case True
    moreover have "quiet_run v w s (asked v w t)" using Suc.prems(2) by (intro quiet_steps)
    ultimately show ?thesis using Suc.prems(1) m by simp
  next
    case f: False
    obtain r x where c: "check_disk (answered w (asked v w t)) ?k = (r, x)" by fastforce
    obtain z y where z: "watch v w (enumerate 0 (take (initialized x) slots)) x = (z, y)" by fastforce
    have x: "quiet_run v w s x" using quiet_check_disk [OF q, of "answered w (asked v w t)"] c by simp
    have y: "quiet_run v w s y" using quiet_watch [OF x, of "enumerate 0 (take (initialized x) slots)"] z by simp
    have k: "quiet_run v w s (?k\<lparr>first_to_terminate := name, driver_requested_stop := True\<rparr>)" for name
      using Suc.prems(2) by (intro quiet_steps)
    show ?thesis
      using Suc.prems(1) m f c z x y k Suc.IH [OF _ y]
      by (auto split: option.splits bool.splits)
  qed
qed simp

section \<open>The pieces that leave marks\<close>

lemma leads_call: "marks c \<Longrightarrow> leads v w [c] s (call c s) \<and> frame (call c s) = frame s"
  by (auto simp: leads_def frame_def HasFailed_def call_def)

lemma leads_marked_call: "\<lbrakk> quiet_run v w s t; marks c; quiet_run v w (call c t) u \<rbrakk> \<Longrightarrow> leads v w [c] s u \<and> frame u = frame s"
  using leads_call [of c v w t] quiet_leads leads_quiet unfolding quiet_run_def by metis

text \<open>What an Init leaves: a driver that is ready, or a run that stops.\<close>

definition init_one :: "(int \<Rightarrow> rat \<Rightarrow> bool) \<Rightarrow> world \<Rightarrow> nat \<Rightarrow> run_state \<Rightarrow> bool \<times> run_state" where
  "init_one v w i s =
     (let t = asked v w (call (CInit i) s) in
      case ans_init (answered w (call (CInit i) s)) of InitReturns b \<Rightarrow> (b, t) | InitThrows \<Rightarrow> (False, RequestFailure i t))"

lemma init_loop_Cons:
  "init_loop v w slots ((i, d) # ds) s =
     (let s = asked v w s in
      if external_stop s then s\<lparr>g_terminate := True\<rparr>
      else
        let (ready, s) = init_one v w i s in
        if \<not> ready then
          let s = asked v w s in
          if external_stop s then s\<lparr>g_terminate := True\<rparr> else (RequestFailure i s)\<lparr>g_terminate := True\<rparr>
        else
          let s = s\<lparr>initialized := initialized s + 1\<rparr>; s = set_state (slot_key d) ''running'' s
          in init_loop v w slots ds (publish_lifecycle v w slots ''initializing'' (initialized s = length slots) s))"
  unfolding init_loop.simps ask_pair init_one_def Let_def prod.case by (rule refl)

declare init_loop.simps(2) [simp del]

lemma initialized_simps [simp]:
  "initialized (set_state k x s) = initialized s" "initialized (set_error k x s) = initialized s"
  "initialized (call c s) = initialized s" "initialized (set_app i f s) = initialized s"
  "initialized (MarkFailed i s) = initialized s" "initialized (SetTerminate i s) = initialized s"
  "initialized (RequestFailure i s) = initialized s"
  by (simp_all add: set_state_def set_error_def call_def set_app_def MarkFailed_def SetTerminate_def RequestFailure_def)

lemma initialized_asked [simp]: "initialized (asked v w s) = initialized s"
proof -
  have "initialized (happens v s e) = initialized s" for s e
    by (cases e) (simp_all add: Handler_def run_ends_def Let_def)
  then have "initialized (foldl (happens v) s es) = initialized s" for es s by (induction es arbitrary: s) simp_all
  then show ?thesis by (simp add: asked_def ask_def split: prod.splits)
qed

lemma initialized_publish [simp]: "initialized (publish_lifecycle v w slots ph rd s) = initialized s"
proof -
  have "initialized (note_failed ds s) = initialized s" for ds s
    by (induction ds s rule: note_failed.induct) (auto simp: Let_def)
  then show ?thesis by (simp add: publish_lifecycle_def ask_pair Let_def)
qed

lemma init_one_leads: "leads v w [CInit i] s (snd (init_one v w i s)) \<and> frame (snd (init_one v w i s)) = frame s \<and>
    initialized (snd (init_one v w i s)) = initialized s"
proof -
  have "quiet_run v w (call (CInit i) s) (snd (init_one v w i s))"
    by (auto simp: init_one_def Let_def intro!: quiet_steps split: init_result.splits)
  then show ?thesis using leads_marked_call [of v w s s "CInit i"] by (auto simp: init_one_def Let_def split: init_result.splits)
qed

lemma init_loop_leads:
  "\<exists>m. leads v w (map CInit [k..<m]) s (init_loop v w slots (enumerate k ds) s) \<and>
       frame (init_loop v w slots (enumerate k ds) s) = frame s \<and> k \<le> m \<and> m \<le> k + length ds \<and>
       (initialized s = k \<longrightarrow> initialized (init_loop v w slots (enumerate k ds) s) \<le> m)"
proof (induction ds arbitrary: k s)
  case Nil
  show ?case by (rule exI [of _ k]) simp
next
  case (Cons d ds)
  let ?s = "asked v w s"
  have q: "quiet_run v w s ?s" by (intro quiet_steps quiet_run_refl)
  show ?case
  proof (cases "external_stop ?s")
    case True
    have "quiet_run v w s (?s\<lparr>g_terminate := True\<rparr>)" by (intro quiet_steps quiet_run_refl)
    then show ?thesis using True by (intro exI [of _ k]) (simp add: init_loop_Cons quiet_run_def)
  next
    case False
    obtain ready t where t: "init_one v w k ?s = (ready, t)" by fastforce
    have l: "leads v w [CInit k] s t" "frame t = frame s" "initialized t = initialized s"
      using init_one_leads [of v w k ?s] t q quiet_leads by (auto simp: quiet_run_def)
    show ?thesis
    proof (cases ready)
      case True
      let ?u = "set_state (slot_key d) ''running'' (t\<lparr>initialized := initialized t + 1\<rparr>)"
      let ?x = "publish_lifecycle v w slots ''initializing'' (initialized ?u = length slots) ?u"
      have x: "quiet_run v w t ?x" by (intro quiet_steps quiet_run_refl)
      obtain m where m: "leads v w (map CInit [Suc k..<m]) ?x (init_loop v w slots (enumerate (Suc k) ds) ?x)"
        "frame (init_loop v w slots (enumerate (Suc k) ds) ?x) = frame ?x" "Suc k \<le> m" "m \<le> Suc k + length ds"
        "initialized ?x = Suc k \<longrightarrow> initialized (init_loop v w slots (enumerate (Suc k) ds) ?x) \<le> m"
        using Cons.IH [of "Suc k" ?x] by blast
      have "leads v w [CInit k] s ?x" by (rule leads_quiet [OF l(1) x])
      note leads_trans [OF this m(1)]
      moreover have "[CInit k] @ map CInit [Suc k..<m] = map CInit [k..<m]" using m(3) by (simp add: upt_conv_Cons)
      ultimately show ?thesis
        using False t True m l x by (intro exI [of _ m]) (simp add: init_loop_Cons Let_def quiet_run_def)
    next
      case no: False
      have "quiet_run v w t ((asked v w t)\<lparr>g_terminate := True\<rparr>)"
        "quiet_run v w t ((RequestFailure k (asked v w t))\<lparr>g_terminate := True\<rparr>)"
        by (intro quiet_steps quiet_run_refl)+
      then show ?thesis using False t no l leads_quiet [OF l(1)]
        by (intro exI [of _ "Suc k"]) (auto simp: init_loop_Cons Let_def quiet_run_def)
    qed
  qed
qed

text \<open>A thread that starts or is joined changes what can be joined.\<close>

lemma set_thread:
  "leads v w [] s (set_app i (\<lambda>a. a\<lparr>app_thread := x\<rparr>) s)"
  "i < length (apps s) \<Longrightarrow>
   frame (set_app i (\<lambda>a. a\<lparr>app_thread := x\<rparr>) s) =
     ((fst (frame s))[i := (x = Running \<or> x = Returned)], stopped s, published s)"
  by (rule set_app_leads) (simp_all add: frame_def set_app_def map_update joinable_def)

lemma frame_parts: "frame s = (js, b, ps) \<longleftrightarrow> map joinable (apps s) = js \<and> stopped s = b \<and> published s = ps"
  by (simp add: frame_def)

lemma frame_length: "frame s = (js, b, ps) \<Longrightarrow> length (apps s) = length js"
  by (auto simp: frame_def)

lemma update_below: "k < n \<Longrightarrow> (map (\<lambda>i. i < k) [0..<n])[k := True] = map (\<lambda>i. i < Suc k) [0..<n]"
  by (rule nth_equalityI) (auto simp: nth_list_update)

lemma update_between: "k < n \<Longrightarrow> (map (\<lambda>i. k \<le> i \<and> i < j) [0..<n])[k := False] = map (\<lambda>i. Suc k \<le> i \<and> i < j) [0..<n]"
  by (rule nth_equalityI) (auto simp: nth_list_update)

lemma spawn_loop_leads:
  "\<lbrakk> frame s = (map (\<lambda>i. i < k) [0..<n], b, ps); k \<le> l; l \<le> n \<rbrakk> \<Longrightarrow>
   \<exists>j. leads v w (map CSpawn [k..<j]) s (spawn_loop v w [k..<l] s) \<and>
       frame (spawn_loop v w [k..<l] s) = (map (\<lambda>i. i < j) [0..<n], b, ps) \<and> k \<le> j \<and> j \<le> l"
proof (induction "l - k" arbitrary: k s)
  case 0
  then show ?case by (intro exI [of _ k]) simp
next
  case (Suc x)
  have u: "[k..<l] = k # [Suc k..<l]" using Suc.hyps(2) by (simp add: upt_conv_Cons)
  let ?s = "asked v w s"
  have q: "quiet_run v w s ?s" by (intro quiet_steps quiet_run_refl)
  then have f: "frame ?s = (map (\<lambda>i. i < k) [0..<n], b, ps)" using Suc.prems(1) by (simp add: quiet_run_def)
  have fail: "quiet_run v w s ((RequestFailure k ?s)\<lparr>g_terminate := True\<rparr>)" by (intro quiet_steps quiet_run_refl)
  let ?t = "set_app k (\<lambda>a. a\<lparr>app_thread := Running\<rparr>) ?s"
  have kn: "k < length (apps ?s)" using frame_length [OF f] Suc.hyps(2) Suc.prems(3) by simp
  have t: "leads v w [] s ?t" using quiet_leads [OF q set_thread(1)] .
  have ft: "frame ?t = (map (\<lambda>i. i < Suc k) [0..<n], b, ps)"
    using set_thread(2) [OF kn, of Running] f update_below [of k n] kn frame_length [OF f] by (simp add: frame_parts frame_def)
  let ?u = "call (CSpawn k) ?t"
  have uu: "leads v w [CSpawn k] s ?u" "frame ?u = (map (\<lambda>i. i < Suc k) [0..<n], b, ps)"
    using leads_trans [OF t, of "[CSpawn k]" ?u] leads_call [of "CSpawn k" v w ?t] ft by simp_all
  obtain j where j: "leads v w (map CSpawn [Suc k..<j]) ?u (spawn_loop v w [Suc k..<l] ?u)"
    "frame (spawn_loop v w [Suc k..<l] ?u) = (map (\<lambda>i. i < j) [0..<n], b, ps)" "Suc k \<le> j" "j \<le> l"
  proof -
    have "x = l - Suc k" "Suc k \<le> l" "l \<le> n" using Suc.hyps(2) Suc.prems(3) by simp_all
    from Suc.hyps(1) [OF this(1) uu(2) this(2,3)] show ?thesis using that by blast
  qed
  have c: "[CSpawn k] @ map CSpawn [Suc k..<j] = map CSpawn [k..<j]" using j(3) by (simp add: upt_conv_Cons)
  have ok: "leads v w (map CSpawn [k..<j]) s (spawn_loop v w [Suc k..<l] ?u)"
    using leads_trans [OF uu(1) j(1)] unfolding c .
  show ?case
  proof (cases "g_terminate ?s \<or> ans_throws (answered w s)")
    case True
    then show ?thesis using q fail f Suc.prems unfolding u by (intro exI [of _ k]) (auto simp: ask_pair quiet_run_def)
  next
    case False
    then show ?thesis using ok j unfolding u by (intro exI [of _ j]) (simp add: ask_pair)
  qed
qed

lemma join_all_leads:
  "\<lbrakk> frame s = (map (\<lambda>i. k \<le> i \<and> i < j) [0..<n], b, ps); k \<le> n; j \<le> n \<rbrakk> \<Longrightarrow>
   leads v w (map CJoin [k..<j]) s (join_all v w [k..<n] s) \<and> frame (join_all v w [k..<n] s) = (replicate n False, b, ps)"
proof (induction "n - k" arbitrary: k s)
  case 0
  then have "map (\<lambda>i. k \<le> i \<and> i < j) [0..<n] = replicate n False" by (auto intro: nth_equalityI)
  with 0 show ?case by simp
next
  case (Suc x)
  have kn: "k < n" using Suc.hyps(2) by simp
  then have u: "[k..<n] = k # [Suc k..<n]" by (simp add: upt_conv_Cons)
  have "map joinable (apps s) ! k = (k < j)" using Suc.prems(1) kn by (simp add: frame_parts)
  then have jk: "joinable (apps s ! k) = (k < j)" using frame_length [OF Suc.prems(1)] kn by simp
  show ?case
  proof (cases "k < j")
    case True
    let ?s = "run_ends k (ans_throws (answered w s)) (asked v w s)"
    let ?t = "set_app k (\<lambda>a. a\<lparr>app_thread := Joined\<rparr>) ?s"
    have q: "quiet_run v w s ?s" by (rule quiet_run_trans [OF _ run_ends_quiet]) (intro quiet_steps quiet_run_refl)
    then have f: "frame ?s = (map (\<lambda>i. k \<le> i \<and> i < j) [0..<n], b, ps)" using Suc.prems(1) by (simp add: quiet_run_def)
    have ft: "frame ?t = (map (\<lambda>i. Suc k \<le> i \<and> i < j) [0..<n], b, ps)"
      using set_thread(2) [of k ?s Joined] f update_between [OF kn, of j] kn frame_length [OF f]
      by (simp add: frame_parts frame_def)
    let ?u = "call (CJoin k) ?t"
    have t: "leads v w [] s ?t" by (rule quiet_leads [OF q set_thread(1)])
    have uu: "leads v w [CJoin k] s ?u" "frame ?u = (map (\<lambda>i. Suc k \<le> i \<and> i < j) [0..<n], b, ps)"
      using leads_trans [OF t, of "[CJoin k]" ?u] leads_call [of "CJoin k" v w ?t] ft by simp_all
    have IH: "leads v w (map CJoin [Suc k..<j]) ?u (join_all v w [Suc k..<n] ?u)"
      "frame (join_all v w [Suc k..<n] ?u) = (replicate n False, b, ps)"
      using Suc.hyps(1) [OF _ uu(2)] Suc.hyps(2) Suc.prems(3) kn by simp_all
    have "[CJoin k] @ map CJoin [Suc k..<j] = map CJoin [k..<j]" using True by (simp add: upt_conv_Cons)
    with leads_trans [OF uu(1) IH(1)] IH(2) jk True show ?thesis unfolding u by (simp add: ask_pair)
  next
    case False
    have "map (\<lambda>i. Suc k \<le> i \<and> i < j) [0..<n] = map (\<lambda>i. k \<le> i \<and> i < j) [0..<n]" using False by auto
    then have f: "frame s = (map (\<lambda>i. Suc k \<le> i \<and> i < j) [0..<n], b, ps)" using Suc.prems(1) by simp
    show ?thesis
      using Suc.hyps(1) [OF _ f] Suc.hyps(2) Suc.prems(2,3) kn jk False unfolding u by simp
  qed
qed

lemma shutdown_all_leads:
  "leads v w (map CShutdown is) s (shutdown_all v w is s) \<and> frame (shutdown_all v w is s) = frame s"
proof (induction "is" arbitrary: s)
  case (Cons i "is")
  let ?t = "let t = asked v w (call (CShutdown i) s) in if ans_throws (answered w (call (CShutdown i) s)) then RequestFailure i t else t"
  have t: "leads v w [CShutdown i] s ?t \<and> frame ?t = frame s"
    by (rule leads_marked_call [OF quiet_run_refl]) (auto simp: Let_def intro!: quiet_steps)
  have "shutdown_all v w (i # is) s = shutdown_all v w is ?t" by (simp add: ask_pair Let_def)
  then show ?case using Cons.IH [of ?t] t leads_trans [of v w "[CShutdown i]" s ?t] by simp
qed simp

lemma quiet_disarm [quiet_steps]: "quiet_run v w s t \<Longrightarrow> quiet_run v w s (disarm v w who t)"
proof (rule quiet_then)
  let ?t = "asked v w (call (CDisarm who) t)"
  have "quiet_run v w t ?t" by (intro quiet_steps quiet_run_refl)
  moreover have "quiet_run v w ?t (?t\<lparr>hub := Disarm b (hub ?t)\<rparr>)" for b
    using Disarm_inv by (auto simp: quiet_run_def leads_def frame_def HasFailed_def Disarm_def Let_def)
  ultimately show "quiet_run v w t (disarm v w who t)"
    unfolding disarm_def ask_pair Let_def prod.case by (rule quiet_run_trans)
qed

lemma disarm_ends: "ended (hub (disarm v w who s))"
  by (auto simp: disarm_def Disarm_def Let_def split: prod.splits)

lemma Stop_leads:
  assumes f: "frame s = (map (\<lambda>i. i < j) [0..<n], False, ps)" and j: "j \<le> n"
  shows "leads v w (map CJoin [0..<j] @ map CShutdown (rev [0..<n])) s (Stop v w c s)"
    "frame (Stop v w c s) = (replicate n False, True, ps)" "cfg_sensor_sync c \<Longrightarrow> ended (hub (Stop v w c s))"
proof -
  let ?s = "set_all [0..<n] (s\<lparr>stopped := True\<rparr>)"
  have n: "length (apps s) = n" "\<not> stopped s" using frame_length [OF f] f by (simp_all add: frame_parts)
  have q: "quiet_run v w (s\<lparr>stopped := True\<rparr>) ?s" by (intro quiet_steps quiet_run_refl)
  have "leads v w [] s (s\<lparr>stopped := True\<rparr>)" by (auto simp: leads_def HasFailed_def)
  then have l: "leads v w [] s ?s" using q by (rule leads_quiet)
  have "frame ?s = frame (s\<lparr>stopped := True\<rparr>)" using q by (simp add: quiet_run_def)
  then have fs: "frame ?s = (map (\<lambda>i. 0 \<le> i \<and> i < j) [0..<n], True, ps)" using f by (simp add: frame_parts frame_def)
  let ?t = "join_all v w [0..<n] ?s"
  let ?u = "shutdown_all v w (rev [0..<n]) ?t"
  note jn = join_all_leads [OF fs le0 j, of v w]
  have u: "leads v w (map CJoin [0..<j] @ map CShutdown (rev [0..<n])) s ?u" "frame ?u = (replicate n False, True, ps)"
    using leads_trans [OF leads_trans [OF l conjunct1 [OF jn]], of "map CShutdown (rev [0..<n])" ?u]
      shutdown_all_leads [of v w "rev [0..<n]" ?t] jn by simp_all
  have e: "Stop v w c s = (if cfg_sensor_sync c then disarm v w ''session'' ?u else ?u)"
    using n by (simp add: Stop_def Let_def)
  have d: "quiet_run v w ?u (disarm v w ''session'' ?u)" by (intro quiet_steps quiet_run_refl)
  show "leads v w (map CJoin [0..<j] @ map CShutdown (rev [0..<n])) s (Stop v w c s)"
    using u(1) leads_quiet [OF u(1) d] by (simp add: e)
  show "frame (Stop v w c s) = (replicate n False, True, ps)" using u(2) d by (simp add: e quiet_run_def)
  show "cfg_sensor_sync c \<Longrightarrow> ended (hub (Stop v w c s))" by (simp add: e disarm_ends)
qed

lemma Stop_again: "stopped s \<Longrightarrow> Stop v w c s = s"
  by (simp add: Stop_def)

text \<open>The results of the drivers from the one with number \<open>k\<close> on.\<close>

definition reports :: "nat \<Rightarrow> (bool \<times> statistics) list \<Rightarrow> run_call list" where
  "reports k rs = concat (map (\<lambda>(i, f, st). [CStatistics i, CResult i f st]) (enumerate k rs))"

definition report_one :: "(int \<Rightarrow> rat \<Rightarrow> bool) \<Rightarrow> world \<Rightarrow> nat \<Rightarrow> run_state \<Rightarrow> statistics \<times> run_state" where
  "report_one v w i s =
     (let t = asked v w (call (CStatistics i) s) in
      case ans_stats (answered w (call (CStatistics i) s)) of
        StatsObject x \<Rightarrow> (Statistics x, t)
      | StatsNoObject \<Rightarrow> (StatisticsError ''FinalStatistics must return an object'', RequestFailure i t)
      | StatsThrow x \<Rightarrow> (StatisticsError x, RequestFailure i t)
      | StatsThrowUnknown \<Rightarrow> (StatisticsError ''Final driver statistics unavailable'', RequestFailure i t))"

definition join_keys :: "string \<Rightarrow> bool \<Rightarrow> string \<Rightarrow> string" where
  "join_keys failed b key = (if b then (if failed \<noteq> [] then failed @ '', '' else failed) @ key else failed)"

lemma collect_Cons:
  "collect v w ((i, d) # ds) failed s =
     (let s =
        (if \<not> published s ! i then
           let (st, s) = report_one v w i s; s = call (CResult i (HasFailed i s) st) s
           in s\<lparr>published := (published s)[i := True]\<rparr>
         else s)
      in collect v w ds (join_keys failed (HasFailed i s) (slot_key d)) s)"
  unfolding collect.simps ask_pair report_one_def join_keys_def Let_def prod.case by (rule refl)

declare collect.simps(2) [simp del]

lemma report_one_leads:
  "leads v w [CStatistics i] s (snd (report_one v w i s)) \<and> frame (snd (report_one v w i s)) = frame s"
proof -
  have "quiet_run v w (call (CStatistics i) s) (snd (report_one v w i s))"
    by (auto simp: report_one_def Let_def intro!: quiet_steps split: stats_result.splits)
  then show ?thesis using leads_marked_call [of v w s s "CStatistics i"] by simp
qed

lemma collect_leads:
  "\<lbrakk> frame s = (js, b, ps); \<forall>i. k \<le> i \<and> i < k + length ds \<longrightarrow> \<not> ps ! i; k + length ds = length ps \<rbrakk> \<Longrightarrow>
   \<exists>rs qs. length rs = length ds \<and> leads v w (reports k rs) s (snd (collect v w (enumerate k ds) acc s)) \<and>
     frame (snd (collect v w (enumerate k ds) acc s)) = (js, b, qs) \<and>
     fst (collect v w (enumerate k ds) acc s) = foldl (\<lambda>t (d, r). join_keys t (fst r) (slot_key d)) acc (zip ds rs)"
proof (induction ds arbitrary: k s acc ps)
  case Nil
  then show ?case by (intro exI [of _ "[]"] exI [of _ ps]) (simp add: reports_def)
next
  case (Cons d ds)
  obtain st t where t: "report_one v w k s = (st, t)" by fastforce
  have l: "leads v w [CStatistics k] s t" "frame t = (js, b, ps)"
    using report_one_leads [of v w k s] t Cons.prems(1) by simp_all
  let ?u = "call (CResult k (HasFailed k t) st) t"
  let ?x = "?u\<lparr>published := (published ?u)[k := True]\<rparr>"
  have x: "leads v w [] ?u ?x" by (auto simp: leads_def HasFailed_def)
  have lx: "leads v w [CStatistics k, CResult k (HasFailed k t) st] s ?x"
    using leads_trans [OF leads_trans [OF l(1), of "[CResult k (HasFailed k t) st]" ?u] x]
      leads_call [of "CResult k (HasFailed k t) st" v w t] by simp
  have fx: "frame ?x = (js, b, ps[k := True])" using l(2) by (simp add: frame_parts frame_def call_def)
  have np: "\<not> published s ! k" using Cons.prems by (auto simp: frame_parts)
  have hx: "HasFailed k ?x = HasFailed k t" by (simp add: HasFailed_def call_def)
  let ?acc = "join_keys acc (HasFailed k t) (slot_key d)"
  obtain rs qs where r: "length rs = length ds"
    "leads v w (reports (Suc k) rs) ?x (snd (collect v w (enumerate (Suc k) ds) ?acc ?x))"
    "frame (snd (collect v w (enumerate (Suc k) ds) ?acc ?x)) = (js, b, qs)"
    "fst (collect v w (enumerate (Suc k) ds) ?acc ?x) = foldl (\<lambda>t (d, r). join_keys t (fst r) (slot_key d)) ?acc (zip ds rs)"
    using Cons.IH [OF fx, of "Suc k" ?acc] Cons.prems(2,3) by (auto simp: nth_list_update)
  have c: "collect v w (enumerate k (d # ds)) acc s = collect v w (enumerate (Suc k) ds) ?acc ?x"
    using np t hx by (simp add: collect_Cons Let_def)
  have "reports k ((HasFailed k t, st) # rs) = [CStatistics k, CResult k (HasFailed k t) st] @ reports (Suc k) rs"
    by (simp add: reports_def)
  then have "leads v w (reports k ((HasFailed k t, st) # rs)) s (snd (collect v w (enumerate (Suc k) ds) ?acc ?x))"
    using leads_trans [OF lx r(2)] by simp
  then show ?case
    unfolding c using r by (intro exI [of _ "(HasFailed k t, st) # rs"] exI [of _ qs]) simp
qed

lemma join_keys_empty:
  "\<lbrakk> length rs = length ds; list_all (\<lambda>d. slot_key d \<noteq> []) ds \<rbrakk> \<Longrightarrow>
   (foldl (\<lambda>t (d, r). join_keys t (fst r) (slot_key d)) acc (zip ds rs) = []) = (acc = [] \<and> list_all (\<lambda>r. \<not> fst r) rs)"
  by (induction rs ds arbitrary: acc rule: list_induct2) (auto simp: join_keys_def)

lemma CollectResults_leads:
  assumes "frame s = (js, b, map (\<lambda>_. False) slots)"
  shows "\<exists>rs qs. length rs = length slots \<and> leads v w (reports 0 rs) s (snd (CollectResults v w slots s)) \<and>
     frame (snd (CollectResults v w slots s)) = (js, b, qs) \<and>
     (list_all (\<lambda>d. slot_key d \<noteq> []) slots \<longrightarrow> (fst (CollectResults v w slots s) = []) = list_all (\<lambda>r. \<not> fst r) rs)"
proof -
  obtain rs qs where "length rs = length slots" "leads v w (reports 0 rs) s (snd (collect v w (enumerate 0 slots) [] s))"
    "frame (snd (collect v w (enumerate 0 slots) [] s)) = (js, b, qs)"
    "fst (collect v w (enumerate 0 slots) [] s) = foldl (\<lambda>t (d, r). join_keys t (fst r) (slot_key d)) [] (zip slots rs)"
    using collect_leads [OF assms, of 0 slots v w "[]"] by auto
  then show ?thesis using join_keys_empty [of rs slots "[]"]
    by (intro exI [of _ rs] exI [of _ qs]) (simp add: CollectResults_def)
qed

section \<open>The whole run\<close>

text \<open>A status that says the recording has failed, as the manifest reads it.\<close>

definition recording_failed :: "string \<Rightarrow> bool" where
  "recording_failed status = (take 6 status = ''failed'')"

lemma final_status_code:
  "snd (final_status failed s) = (if recording_failed (fst (final_status failed s)) then 1 else 0)"
  "\<not> recording_failed (fst (final_status failed s)) \<Longrightarrow> failed = []"
  by (auto simp: final_status_def recording_failed_def split: if_splits)

text \<open>A driver that ends on its own, without having marked a failure, does not make the run fail.\<close>

lemma driver_stop_is_completed:
  "\<lbrakk> lifecycle_ok s; first_to_terminate s \<noteq> []; driver_requested_stop s; signal_received s = 0 \<rbrakk> \<Longrightarrow>
   final_status [] s = (''completed'', 0)"
  by (simp add: final_status_def)

lemma Finalize_leads: "\<exists>ok. fst (Finalize v w x s) = ok \<and> leads v w [CFinalize x ok] s (snd (Finalize v w x s)) \<and>
    frame (snd (Finalize v w x s)) = frame s"
proof -
  have "quiet_run v w s (asked v w s)" by (intro quiet_steps quiet_run_refl)
  then show ?thesis using leads_marked_call [of v w s "asked v w s" "CFinalize x (ans_ok (answered w s))"]
    by (simp add: Finalize_def ask_pair)
qed

lemma conclude_leads:
  "\<exists>status ok. leads v w [CFinalize status ok] s (snd (conclude v w failed s)) \<and> frame (snd (conclude v w failed s)) = frame s \<and>
     fst (conclude v w failed s) = (if ok \<and> \<not> recording_failed status then 0 else 1) \<and>
     (\<not> recording_failed status \<longrightarrow> failed = [])"
proof -
  let ?s = "asked v w s"
  obtain status code where st: "final_status failed ?s = (status, code)" by fastforce
  have c: "code = (if recording_failed status then 1 else 0)" "\<not> recording_failed status \<longrightarrow> failed = []"
    using final_status_code [of failed ?s] st by auto
  have q: "quiet_run v w s ?s" by (intro quiet_steps quiet_run_refl)
  obtain ok where ok: "fst (Finalize v w status ?s) = ok" "leads v w [CFinalize status ok] ?s (snd (Finalize v w status ?s))"
    "frame (snd (Finalize v w status ?s)) = frame ?s"
    using Finalize_leads [of v w status ?s] by blast
  have e: "conclude v w failed s = (if ok then code else 1, snd (Finalize v w status ?s))"
    using st ok(1) by (simp add: conclude_def ask_pair split_def Let_def)
  show ?thesis
    using quiet_leads [OF q ok(2)] ok(3) q c unfolding e by (intro exI [of _ status] exI [of _ ok]) (simp add: quiet_run_def)
qed

lemma before_monitor_leads:
  assumes f: "frame s = (replicate n False, False, ps)" and i: "initialized s = 0" and n: "n = length slots"
  shows "\<exists>m j. leads v w (map CInit [0..<m] @ map CSpawn [0..<j]) s (before_monitor v w slots s) \<and>
     frame (before_monitor v w slots s) = (map (\<lambda>i. i < j) [0..<n], False, ps) \<and> j \<le> m \<and> m \<le> n"
proof -
  define M where "M = fold (\<lambda>d m. m(slot_key d \<mapsto> (''waiting'', [] :: string))) slots Map.empty"
  let ?s = "publish_lifecycle v w slots ''initializing'' False (s\<lparr>sensor_states := M\<rparr>)"
  have q: "quiet_run v w s ?s" by (intro quiet_steps quiet_run_refl)
  have z: "initialized ?s = 0" using i by simp
  define t where "t = init_loop v w slots (enumerate 0 slots) ?s"
  obtain m where m: "leads v w (map CInit [0..<m]) ?s t" "frame t = frame ?s" "m \<le> length slots" "initialized t \<le> m"
    using init_loop_leads [of v w 0 ?s slots slots] z unfolding t_def by auto
  have "map (\<lambda>i. i < 0) [0..<n] = replicate n False" by (auto intro: nth_equalityI)
  then have ft: "frame t = (map (\<lambda>i. i < 0) [0..<n], False, ps)" using m(2) q f by (simp add: quiet_run_def)
  define u where "u = spawn_loop v w [0..<initialized t] t"
  obtain j where j: "leads v w (map CSpawn [0..<j]) t u" "frame u = (map (\<lambda>i. i < j) [0..<n], False, ps)" "j \<le> initialized t"
    using spawn_loop_leads [OF ft, of "initialized t" v w] m(3,4) n unfolding u_def by auto
  define x where "x = (let s = asked v w u in if \<not> g_terminate s then publish_lifecycle v w slots ''running'' True s else s)"
  have "quiet_run v w u x" by (auto simp: x_def Let_def intro!: quiet_steps)
  then have "quiet_run v w u ((asked v w x)\<lparr>next_disk_check := k\<rparr>)" for k by (intro quiet_steps)
  moreover have "before_monitor v w slots s = (asked v w x)\<lparr>next_disk_check := ans_now (answered w x)\<rparr>"
    unfolding before_monitor_def ask_pair Let_def prod.case x_def u_def t_def M_def by (rule refl)
  ultimately have b: "quiet_run v w u (before_monitor v w slots s)" by simp
  have "leads v w (map CInit [0..<m] @ map CSpawn [0..<j]) s (before_monitor v w slots s)"
    using leads_quiet [OF leads_trans [OF quiet_leads [OF q m(1)] j(1)] b] .
  then show ?thesis using b j m n by (intro exI [of _ m] exI [of _ j]) (simp add: quiet_run_def)
qed

lemma after_monitor_leads:
  assumes f: "frame s = (map (\<lambda>i. i < j) [0..<length slots], False, map (\<lambda>_. False) slots)" and j: "j \<le> length slots"
  shows "\<exists>rs qs. leads v w (map CJoin [0..<j] @ map CShutdown (rev [0..<length slots]) @ reports 0 rs) s (snd (after_monitor v w c slots s)) \<and>
     frame (snd (after_monitor v w c slots s)) = (replicate (length slots) False, True, qs) \<and> length rs = length slots \<and>
     (list_all (\<lambda>d. slot_key d \<noteq> []) slots \<longrightarrow> (fst (after_monitor v w c slots s) = []) = list_all (\<lambda>r. \<not> fst r) rs) \<and>
     (cfg_sensor_sync c \<longrightarrow> ended (hub (snd (after_monitor v w c slots s))))"
proof -
  let ?p = "\<lambda>s. publish_lifecycle v w slots ''stopping'' (initialized s = length slots) s"
  define s1 where "s1 = set_all [0..<length (apps (?p s))] (?p s)"
  have q1: "quiet_run v w s s1" unfolding s1_def by (intro quiet_steps quiet_run_refl)
  then have f1: "frame s1 = (map (\<lambda>i. i < j) [0..<length slots], False, map (\<lambda>_. False) slots)"
    using f by (simp add: quiet_run_def)
  define s2 where "s2 = Stop v w c s1"
  note s2 = Stop_leads [OF f1 j, where v = v and w = w and c = c, folded s2_def]
  define s3 where "s3 = ?p (final_states (enumerate 0 slots) (asked v w s2))"
  define s4 where "s4 = (if cfg_sensor_sync c \<and> HasParticipants (hub s3) then disarm v w ''main'' s3 else s3)"
  have "quiet_run v w s2 s3" unfolding s3_def by (intro quiet_steps quiet_run_refl)
  then have q4: "quiet_run v w s2 s4" by (auto simp: s4_def intro!: quiet_steps)
  have f4: "frame s4 = (replicate (length slots) False, True, map (\<lambda>_. False) slots)"
    using q4 s2(2) by (simp add: quiet_run_def)
  define s5 where "s5 = snd (CollectResults v w slots s4)"
  obtain rs qs where r: "length rs = length slots" "leads v w (reports 0 rs) s4 s5" "frame s5 = (replicate (length slots) False, True, qs)"
    "list_all (\<lambda>d. slot_key d \<noteq> []) slots \<longrightarrow> (fst (CollectResults v w slots s4) = []) = list_all (\<lambda>r. \<not> fst r) rs"
    using CollectResults_leads [OF f4, of v w] unfolding s5_def by blast
  have q6: "quiet_run v w s5 (?p s5)" by (intro quiet_steps quiet_run_refl)
  have e: "after_monitor v w c slots s = (fst (CollectResults v w slots s4), ?p s5)"
    unfolding after_monitor_def ask_pair Let_def prod.case s5_def s4_def s3_def s2_def s1_def
    by (simp add: case_prod_unfold)
  have l: "leads v w ((map CJoin [0..<j] @ map CShutdown (rev [0..<length slots])) @ reports 0 rs) s (?p s5)"
    using leads_quiet [OF leads_trans [OF leads_quiet [OF quiet_leads [OF q1 s2(1)] q4] r(2)] q6] .
  moreover have "ended (hub (?p s5))" if "cfg_sensor_sync c"
    using s2(3) [OF that] q4 r(2) q6 by (simp add: leads_def quiet_run_def)
  ultimately show ?thesis unfolding e using r q6 by (intro exI [of _ rs] exI [of _ qs]) (simp add: quiet_run_def)
qed

lemma new_run_frame: "frame (new_run_state c h slots term sig) = (replicate (length slots) False, False, map (\<lambda>_. False) slots)"
  by (simp add: frame_def new_run_state_def joinable_def comp_def map_replicate_const)

lemma quiet_begin:
  "quiet_run v w s ((asked v w s)\<lparr>guards := g\<rparr>)" "initialized ((asked v w s)\<lparr>guards := g\<rparr>) = initialized s"
  by (intro quiet_steps quiet_run_refl) simp

text \<open>What a run that returns has done, in one statement.\<close>

lemma run_script:
  assumes "RunSession n v w c slots (new_run_state c h slots term sig) = Some (code, s)"
  shows "\<exists>status ok ms ks.
    marked (calls s) = ms @ CFinalize status ok # ks \<and> code = (if ok \<and> \<not> recording_failed status then 0 else 1) \<and>
    (ms = [] \<and> ks = map CShutdown (rev [0..<length slots]) \<and> recording_failed status \<or>
     (\<exists>m j rs. j \<le> m \<and> m \<le> length slots \<and> length rs = length slots \<and> ks = [] \<and>
        ms = map CInit [0..<m] @ map CSpawn [0..<j] @ map CJoin [0..<j] @ map CShutdown (rev [0..<length slots]) @ reports 0 rs \<and>
        (list_all (\<lambda>d. slot_key d \<noteq> []) slots \<and> \<not> recording_failed status \<longrightarrow> list_all (\<lambda>r. \<not> fst r) rs))) \<and>
    list_all (\<lambda>a. \<not> joinable a) (apps s) \<and> (cfg_sensor_sync c \<longrightarrow> ended (hub s)) \<and> (hub_inv v h \<longrightarrow> hub_inv v (hub s))"
proof -
  let ?n = "length slots"
  let ?s0 = "new_run_state c h slots term sig"
  let ?r = "CheckDisk (FreeSpaceGiB (ans_available (answered w ?s0))) (guards (asked v w ?s0))"
  let ?s1 = "(asked v w ?s0)\<lparr>guards := snd ?r\<rparr>"
  have q: "quiet_run v w ?s0 ?s1" by (rule quiet_begin)
  have f1: "frame ?s1 = (replicate ?n False, False, map (\<lambda>_. False) slots)" using q new_run_frame by (simp add: quiet_run_def)
  have c0: "marked (calls ?s0) = []" "hub ?s0 = h" by (simp_all add: new_run_state_def)
  have nj: "list_all (\<lambda>a. \<not> joinable a) (apps t)" if "frame t = (replicate ?n False, b, ps)" for t b ps
  proof -
    have "map joinable (apps t) = replicate ?n False" using that by (simp add: frame_parts)
    then have "set (map joinable (apps t)) \<subseteq> {False}" by (metis set_replicate_conv_if empty_subsetI subset_refl)
    then show ?thesis by (auto simp: list_all_iff)
  qed
  have E: "Execute n v w c slots ?s0 =
      (if fst (fst ?r) = kStop then Some (Some 1, snd (Finalize v w ''failed (disk)'' ?s1))
       else case monitor_loop n v w slots (before_monitor v w slots ?s1) of
          None \<Rightarrow> None
        | Some (False, s) \<Rightarrow> Some (None, s)
        | Some (True, s) \<Rightarrow>
            Some (Some (fst (conclude v w (fst (after_monitor v w c slots s)) (snd (after_monitor v w c slots s)))),
                  snd (conclude v w (fst (after_monitor v w c slots s)) (snd (after_monitor v w c slots s)))))"
    by (simp add: Execute_def ask_pair split_def Let_def split: option.split bool.split)
  show ?thesis
  proof (cases "fst (fst ?r) = kStop")
    case True
    let ?t = "snd (Finalize v w ''failed (disk)'' ?s1)"
    obtain ok where ok: "leads v w [CFinalize ''failed (disk)'' ok] ?s1 ?t" "frame ?t = frame ?s1"
      using Finalize_leads [of v w "''failed (disk)''" ?s1] by blast
    have "map (\<lambda>i. i < 0) [0..<?n] = replicate ?n False" by (auto intro: nth_equalityI)
    then have ft: "frame ?t = (map (\<lambda>i. i < 0) [0..<?n], False, map (\<lambda>_. False) slots)" using ok(2) f1 by simp
    have r: "code = 1" "s = Stop v w c ?t" using assms True E by (simp_all add: RunSession_def)
    note st = Stop_leads [OF ft le0, where v = v and w = w and c = c, folded r(2)]
    have "leads v w ([CFinalize ''failed (disk)'' ok] @ map CJoin [0..<0] @ map CShutdown (rev [0..<?n])) ?s0 s"
      using leads_trans [OF quiet_leads [OF q ok(1)] st(1)] .
    note l = this
    have mk: "marked (calls s) = [] @ CFinalize ''failed (disk)'' ok # map CShutdown (rev [0..<?n])"
      using l c0 by (simp add: leads_def)
    have h: "cfg_sensor_sync c \<longrightarrow> ended (hub s)" "hub_inv v h \<longrightarrow> hub_inv v (hub s)"
      using st(3) l c0 by (simp_all add: leads_def)
    have x: "recording_failed ''failed (disk)''" by (simp add: recording_failed_def)
    show ?thesis
      using mk r(1) x h nj [OF st(2)]
      by (intro exI [of _ "''failed (disk)''"] exI [of _ ok] exI [of _ "[]"] exI [of _ "map CShutdown (rev [0..<?n])"])
        (intro conjI disjI1, simp_all)
  next
    case False
    let ?b = "before_monitor v w slots ?s1"
    have i0: "initialized ?s1 = 0" unfolding quiet_begin(2) by (simp add: new_run_state_def)
    obtain m j where b: "leads v w (map CInit [0..<m] @ map CSpawn [0..<j]) ?s1 ?b"
      "frame ?b = (map (\<lambda>i. i < j) [0..<?n], False, map (\<lambda>_. False) slots)" "j \<le> m" "m \<le> ?n"
      using before_monitor_leads [OF f1 i0 refl, of v w] by blast
    obtain normal t where t: "monitor_loop n v w slots ?b = Some (normal, t)"
      using assms False E by (auto simp: RunSession_def split: option.splits)
    have qt: "quiet_run v w ?b t" by (rule quiet_monitor [OF t quiet_run_refl])
    have lt: "leads v w (map CInit [0..<m] @ map CSpawn [0..<j]) ?s0 t"
      by (rule quiet_leads [OF q leads_quiet [OF b(1) qt]])
    have ft: "frame t = (map (\<lambda>i. i < j) [0..<?n], False, map (\<lambda>_. False) slots)"
      using qt b(2) by (simp add: quiet_run_def)
    have jn: "j \<le> ?n" using b(3,4) by simp
    show ?thesis
    proof (cases normal)
      case True
      let ?f = "fst (after_monitor v w c slots t)" and ?a = "snd (after_monitor v w c slots t)"
      let ?z = "snd (conclude v w ?f ?a)"
      obtain rs qs where a: "leads v w (map CJoin [0..<j] @ map CShutdown (rev [0..<?n]) @ reports 0 rs) t ?a"
        "frame ?a = (replicate ?n False, True, qs)" "length rs = ?n"
        "list_all (\<lambda>d. slot_key d \<noteq> []) slots \<longrightarrow> (?f = []) = list_all (\<lambda>r. \<not> fst r) rs"
        "cfg_sensor_sync c \<longrightarrow> ended (hub ?a)"
        using after_monitor_leads [OF ft jn, of v w c] by blast
      obtain status ok where z: "leads v w [CFinalize status ok] ?a ?z" "frame ?z = frame ?a"
        "fst (conclude v w ?f ?a) = (if ok \<and> \<not> recording_failed status then 0 else 1)" "\<not> recording_failed status \<longrightarrow> ?f = []"
        using conclude_leads [of v w ?a ?f] by blast
      have "stopped ?z" using z(2) a(2) by (simp add: frame_parts)
      then have r: "s = ?z" "code = (if ok \<and> \<not> recording_failed status then 0 else 1)"
        using assms False E t True z(3) by (simp_all add: RunSession_def Stop_again)
      note l = leads_trans [OF lt leads_trans [OF a(1) z(1)]]
      let ?ms = "map CInit [0..<m] @ map CSpawn [0..<j] @ map CJoin [0..<j] @ map CShutdown (rev [0..<?n]) @ reports 0 rs"
      have mk: "marked (calls s) = ?ms @ CFinalize status ok # []" using l c0 r(1) by (simp add: leads_def)
      have h: "cfg_sensor_sync c \<longrightarrow> ended (hub s)" "hub_inv v h \<longrightarrow> hub_inv v (hub s)"
        using a(5) z(1) l c0 r(1) by (simp_all add: leads_def)
      have fs: "frame s = (replicate ?n False, True, qs)" using z(2) a(2) r(1) by simp
      have k: "list_all (\<lambda>d. slot_key d \<noteq> []) slots \<and> \<not> recording_failed status \<longrightarrow> list_all (\<lambda>r. \<not> fst r) rs"
        using a(4) z(4) by blast
      show ?thesis
        using mk r(2) b(3,4) a(3) k h nj [OF fs]
        by (intro exI [of _ status] exI [of _ ok] exI [of _ ?ms] exI [of _ "[]"]) blast
    next
      case no: False
      let ?t = "Stop v w c t"
      note st = Stop_leads [OF ft jn, where v = v and w = w and c = c]
      let ?a = "snd (CollectResults v w slots ?t)"
      obtain rs qs where a: "length rs = ?n" "leads v w (reports 0 rs) ?t ?a" "frame ?a = (replicate ?n False, True, qs)"
        using CollectResults_leads [OF st(2), of v w] by blast
      let ?x = "''failed (session coordinator)''"
      let ?z = "snd (Finalize v w ?x ?a)"
      obtain ok where z: "leads v w [CFinalize ?x ok] ?a ?z" "frame ?z = frame ?a"
        using Finalize_leads [of v w ?x ?a] by blast
      have "stopped ?z" using z(2) a(3) by (simp add: frame_parts)
      then have r: "s = ?z" "code = 1"
        using assms False E t no by (simp_all add: RunSession_def Stop_again split_def Let_def)
      note l = leads_trans [OF lt leads_trans [OF st(1) leads_trans [OF a(2) z(1)]]]
      let ?ms = "map CInit [0..<m] @ map CSpawn [0..<j] @ map CJoin [0..<j] @ map CShutdown (rev [0..<?n]) @ reports 0 rs"
      have mk: "marked (calls s) = ?ms @ CFinalize ?x ok # []" using l c0 r(1) by (simp add: leads_def)
      have h: "cfg_sensor_sync c \<longrightarrow> ended (hub s)" "hub_inv v h \<longrightarrow> hub_inv v (hub s)"
        using st(3) a(2) z(1) l c0 r(1) by (auto simp add: leads_def)
      have fs: "frame s = (replicate ?n False, True, qs)" using z(2) a(3) r(1) by simp
      have x: "recording_failed ?x" by (simp add: recording_failed_def)
      show ?thesis
        using mk r(2) b(3,4) a(1) x h nj [OF fs]
        by (intro exI [of _ ?x] exI [of _ ok] exI [of _ ?ms] exI [of _ "[]"]) auto
    qed
  qed
qed

section \<open>A run ends\<close>

lemma monitor_returns:
  "\<lbrakk> Signal sig \<in> set (fst (w k)); k \<le> tick s + n; k < tick s \<longrightarrow> g_terminate s \<rbrakk> \<Longrightarrow> monitor_loop (Suc n) v w slots s \<noteq> None"
proof (induction n arbitrary: s)
  case (0 s)
  have "leads v w [] s (asked v w s)" using quiet_asked [OF quiet_run_refl] by (simp add: quiet_run_def)
  then have "g_terminate (asked v w s)"
    using 0 asked_tick [of v w s] unfolding leads_def by (cases "k < tick s") auto
  then show ?case by (simp add: ask_pair)
next
  case (Suc n s)
  let ?s = "asked v w s" and ?k = "asked v w (asked v w s)"
  obtain r x where c: "check_disk (answered w ?s) ?k = (r, x)" by fastforce
  obtain z y where z: "watch v w (enumerate 0 (take (initialized x) slots)) x = (z, y)" by fastforce
  have k: "quiet_run v w s ?k" by (intro quiet_steps quiet_run_refl)
  have x: "quiet_run v w s x" using quiet_check_disk [OF k, of "answered w ?s"] c by simp
  have y: "quiet_run v w s y" using quiet_watch [OF x, of "enumerate 0 (take (initialized x) slots)"] z by simp
  have "quiet_run v w ?s y"
  proof -
    have "quiet_run v w ?s ?k" by (intro quiet_steps quiet_run_refl)
    from quiet_check_disk [OF this, of "answered w ?s"] c have "quiet_run v w ?s x" by simp
    from quiet_watch [OF this, of "enumerate 0 (take (initialized x) slots)"] z show ?thesis by simp
  qed
  then have t: "Suc (tick s) \<le> tick y" using asked_tick [of v w s] by (simp add: quiet_run_def leads_def)
  have "k < tick y \<longrightarrow> g_terminate y" using y Suc.prems(1,3) unfolding quiet_run_def leads_def by (metis not_le)
  moreover have "k \<le> tick y + n" using Suc.prems(2) t by simp
  ultimately have "monitor_loop (Suc n) v w slots y \<noteq> None" by (intro Suc.IH [OF Suc.prems(1)])
  then show ?case
    using c z by (subst monitor_loop.simps) (auto simp: ask_pair split: option.splits bool.splits simp del: monitor_loop.simps)
qed

lemma signal_returns:
  assumes "Signal sig \<in> set (fst (w k))"
  shows "RunSession (Suc k) v w c slots (new_run_state c h slots term sig0) \<noteq> None"
proof -
  let ?s0 = "new_run_state c h slots term sig0"
  let ?r = "CheckDisk (FreeSpaceGiB (ans_available (answered w ?s0))) (guards (asked v w ?s0))"
  let ?s1 = "(asked v w ?s0)\<lparr>guards := snd ?r\<rparr>"
  have q: "quiet_run v w ?s0 ?s1" by (rule quiet_begin)
  have f1: "frame ?s1 = (replicate (length slots) False, False, map (\<lambda>_. False) slots)"
    using q new_run_frame by (simp add: quiet_run_def)
  have i0: "initialized ?s1 = 0" unfolding quiet_begin(2) by (simp add: new_run_state_def)
  let ?b = "before_monitor v w slots ?s1"
  obtain ms where "leads v w ms ?s1 ?b" using before_monitor_leads [OF f1 i0 refl, of v w] by blast
  then have "leads v w ms ?s0 ?b" by (rule quiet_leads [OF q])
  moreover have "tick ?s0 = 0" by (simp add: new_run_state_def)
  ultimately have "k < tick ?b \<longrightarrow> g_terminate ?b" using assms unfolding leads_def by auto
  then have "monitor_loop (Suc k) v w slots ?b \<noteq> None" using monitor_returns [of sig w k ?b k v slots] assms by simp
  then show ?thesis
    by (auto simp: RunSession_def Execute_def ask_pair split_def Let_def split: option.splits bool.splits simp del: monitor_loop.simps)
qed

section \<open>An example\<close>

text \<open>
  Two drivers that start well and run; the operator stops the run, and the shutdowns throw when \<open>bad\<close> says so.
\<close>

definition example_slots :: "DriverSlot list" where
  "example_slots = [\<lparr>slot_name = ''AsteRx'', slot_key = ''asterx''\<rparr>, \<lparr>slot_name = ''LiDAR'', slot_key = ''lms1''\<rparr>]"

definition example_config :: Config where
  "example_config = \<lparr>cfg_guards = default_GuardConfig, cfg_sensor_sync = True\<rparr>"

definition example_world :: "bool \<Rightarrow> world" where
  "example_world bad k =
     (if k = 17 then [Signal 2] else [],
      \<lparr>ans_ok = True, ans_throws = (bad \<and> 22 \<le> k), ans_now = k, ans_available = None, ans_silence = Silence None,
       ans_init = InitReturns True, ans_stats = StatsObject []\<rparr>)"

definition example_run :: "bool \<Rightarrow> (nat \<times> run_state) option" where
  "example_run bad =
     RunSession 18 (\<lambda>_ _. True) (example_world bad) example_config example_slots
       (new_run_state example_config (new_SensorSyncHub [] []) example_slots False 0)"

lemma example_returns: "\<exists>code s. example_run bad = Some (code, s)"
proof -
  have "Signal 2 \<in> set (fst (example_world bad 17))" by (simp add: example_world_def)
  then show ?thesis
    using signal_returns [of 2 "example_world bad" 17 "\<lambda>_ _. True" example_config example_slots
        "new_SensorSyncHub [] []" False 0]
    by (auto simp: example_run_def)
qed

section \<open>Order, result and end of a run\<close>

fun device_call :: "run_call \<Rightarrow> bool" where
  "device_call (CInit i) = True"
| "device_call (CSpawn i) = True"
| "device_call (CJoin i) = True"
| "device_call (CShutdown i) = True"
| "device_call _ = False"

lemma device_calls_marked: "filter device_call cs = filter device_call (marked cs)"
proof -
  have "device_call c \<Longrightarrow> marks c" for c by (cases c) simp_all
  then have "filter device_call cs = filter (\<lambda>c. marks c \<and> device_call c) cs" by (metis (full_types))
  then show ?thesis by (simp add: marked_def)
qed

lemma device_calls_simps [simp]:
  "filter device_call (map CInit is) = map CInit is" "filter device_call (map CSpawn is) = map CSpawn is"
  "filter device_call (map CJoin is) = map CJoin is" "filter device_call (map CShutdown is) = map CShutdown is"
  "filter device_call (reports k rs) = []"
  by (induction "is") (auto simp: reports_def filter_concat)

text \<open>
  C2: however a run goes, and whatever fails in it, it has one order: the drivers are initialised one after the other, the
  threads of the first ones are started, every started thread is joined, and only then every driver, initialised or not,
  is shut down exactly once, in the reverse order; nothing is initialised or started after that. When the run returns, no
  thread is left and the trigger board, if there is one, has ended its session and gives no pulses.
\<close>

theorem every_run_cleans_up:
  assumes "RunSession n v w c slots (new_run_state c (new_SensorSyncHub path port) slots term sig) = Some (code, s)"
  shows "(\<exists>m j. j \<le> m \<and> m \<le> length slots \<and>
            filter device_call (calls s) =
              map CInit [0..<m] @ map CSpawn [0..<j] @ map CJoin [0..<j] @ map CShutdown (rev [0..<length slots])) \<and>
         list_all (\<lambda>a. \<not> joinable a) (apps s) \<and>
         (if cfg_sensor_sync c then ended (hub s) \<and> board_after (board_calls (hub s)) \<noteq> Some Pulsing else True)"
proof -
  obtain status ok ms ks where a: "marked (calls s) = ms @ CFinalize status ok # ks"
    "ms = [] \<and> ks = map CShutdown (rev [0..<length slots]) \<and> recording_failed status \<or>
     (\<exists>m j rs. j \<le> m \<and> m \<le> length slots \<and> length rs = length slots \<and> ks = [] \<and>
        ms = map CInit [0..<m] @ map CSpawn [0..<j] @ map CJoin [0..<j] @ map CShutdown (rev [0..<length slots]) @ reports 0 rs \<and>
        (list_all (\<lambda>d. slot_key d \<noteq> []) slots \<and> \<not> recording_failed status \<longrightarrow> list_all (\<lambda>r. \<not> fst r) rs))"
    "list_all (\<lambda>a. \<not> joinable a) (apps s)" "cfg_sensor_sync c \<longrightarrow> ended (hub s)" "hub_inv v (hub s)"
    using run_script [OF assms] hub_inv_new [of v path port] by blast
  have "filter device_call (calls s) = filter device_call (ms @ CFinalize status ok # ks)"
    using device_calls_marked [of "calls s"] a(1) by simp
  with a(2) have "\<exists>m j. j \<le> m \<and> m \<le> length slots \<and>
      filter device_call (calls s) =
        map CInit [0..<m] @ map CSpawn [0..<j] @ map CJoin [0..<j] @ map CShutdown (rev [0..<length slots])"
  proof (elim disjE exE conjE)
    assume "ms = []" "ks = map CShutdown (rev [0..<length slots])"
      "filter device_call (calls s) = filter device_call (ms @ CFinalize status ok # ks)"
    then show ?thesis by (intro exI [of _ 0]) simp
  next
    fix m j rs
    assume "j \<le> m" "m \<le> length slots" "ks = []"
      "ms = map CInit [0..<m] @ map CSpawn [0..<j] @ map CJoin [0..<j] @ map CShutdown (rev [0..<length slots]) @ reports 0 rs"
      "filter device_call (calls s) = filter device_call (ms @ CFinalize status ok # ks)"
    then show ?thesis by (intro exI [of _ m] exI [of _ j]) simp
  qed
  moreover have "board_after (board_calls (hub s)) \<noteq> Some Pulsing" if "ended (hub s)"
    using a(5) that by (auto simp: hub_inv_def)
  ultimately show ?thesis using a(3,4) by simp
qed

fun final_call :: "run_call \<Rightarrow> bool" where
  "final_call (CFinalize status ok) = True"
| "final_call _ = False"

definition results :: "run_call list \<Rightarrow> (nat \<times> bool) list" where
  "results cs = List.map_filter (\<lambda>c. case c of CResult i failed st \<Rightarrow> Some (i, failed) | _ \<Rightarrow> None) cs"

lemma results_simps [simp]:
  "results [] = []" "results (c # cs) = (case c of CResult i failed st \<Rightarrow> (i, failed) # results cs | _ \<Rightarrow> results cs)"
  "results (cs @ ds) = results cs @ results ds"
  by (auto simp: results_def map_filter_def split: run_call.splits)

lemma results_marked: "results (marked cs) = results cs"
  by (induction cs) (auto split: run_call.splits)

lemma results_none [simp]:
  "results (map CInit is) = []" "results (map CSpawn is) = []" "results (map CJoin is) = []" "results (map CShutdown is) = []"
  by (induction "is") auto

lemma results_reports: "results (reports k rs) = zip [k..<k + length rs] (map fst rs)"
proof (induction rs arbitrary: k)
  case (Cons r rs)
  have "results (reports k (r # rs)) = (k, fst r) # results (reports (Suc k) rs)"
    by (cases r) (simp add: reports_def)
  moreover have "[k..<k + length (r # rs)] = k # [Suc k..<Suc k + length rs]" by (simp add: upt_conv_Cons del: upt_Suc)
  ultimately show ?case using Cons.IH [of "Suc k"] by (simp del: upt_Suc)
qed (simp add: reports_def)

lemma zip_all_ok: "list_all (\<lambda>r. \<not> fst r) rs \<Longrightarrow> length rs = n \<Longrightarrow> zip [0..<n] (map fst rs) = map (\<lambda>i. (i, False)) [0..<n]"
  by (rule nth_equalityI) (auto simp: list_all_length)

lemma final_calls_marked: "filter final_call cs = filter final_call (marked cs)"
proof -
  have "final_call c \<Longrightarrow> marks c" for c by (cases c) simp_all
  then have "filter final_call cs = filter (\<lambda>c. marks c \<and> final_call c) cs" by (metis (full_types))
  then show ?thesis by (simp add: marked_def)
qed

lemma final_calls_simps [simp]:
  "filter final_call (map CInit is) = []" "filter final_call (map CSpawn is) = []"
  "filter final_call (map CJoin is) = []" "filter final_call (map CShutdown is) = []"
  "filter final_call (reports k rs) = []"
  by (induction "is") (auto simp: reports_def filter_concat)

theorem every_run_cleans_up_witness:
  "\<exists>code s. example_run True = Some (code, s) \<and>
     (\<exists>m j. j \<le> m \<and> m \<le> 2 \<and>
        filter device_call (calls s) = map CInit [0..<m] @ map CSpawn [0..<j] @ map CJoin [0..<j] @ [CShutdown 1, CShutdown 0]) \<and>
     ended (hub s)"
proof -
  obtain code s where e: "example_run True = Some (code, s)" using example_returns by blast
  from every_run_cleans_up [OF this [unfolded example_run_def]] e show ?thesis
    by (simp add: example_slots_def example_config_def numeral_2_eq_2)
qed

text \<open>
  C6: every run that returns writes its final status exactly once, and its exit code is 0 exactly when that status was
  written and does not say that the recording failed; such a status is only written when the results of all drivers, each
  published once and in order, are without failure.
\<close>

theorem exit_code_is_the_verdict:
  assumes "RunSession n v w c slots (new_run_state c h slots term sig) = Some (code, s)"
    and "list_all (\<lambda>d. slot_key d \<noteq> []) slots"
  shows "\<exists>status ok. filter final_call (calls s) = [CFinalize status ok] \<and>
           code = (if ok \<and> \<not> recording_failed status then 0 else 1) \<and>
           (if recording_failed status then True else results (calls s) = map (\<lambda>i. (i, False)) [0..<length slots])"
proof -
  obtain status ok ms ks where a: "marked (calls s) = ms @ CFinalize status ok # ks"
    "code = (if ok \<and> \<not> recording_failed status then 0 else 1)"
    "ms = [] \<and> ks = map CShutdown (rev [0..<length slots]) \<and> recording_failed status \<or>
     (\<exists>m j rs. j \<le> m \<and> m \<le> length slots \<and> length rs = length slots \<and> ks = [] \<and>
        ms = map CInit [0..<m] @ map CSpawn [0..<j] @ map CJoin [0..<j] @ map CShutdown (rev [0..<length slots]) @ reports 0 rs \<and>
        (list_all (\<lambda>d. slot_key d \<noteq> []) slots \<and> \<not> recording_failed status \<longrightarrow> list_all (\<lambda>r. \<not> fst r) rs))"
    using run_script [OF assms(1)] by blast
  have f: "filter final_call (calls s) = filter final_call (ms @ CFinalize status ok # ks)"
    and r: "results (calls s) = results (ms @ CFinalize status ok # ks)"
    using final_calls_marked [of "calls s"] results_marked [of "calls s"] a(1) by simp_all
  from a(3) show ?thesis
  proof (elim disjE exE conjE)
    assume "ms = []" "ks = map CShutdown (rev [0..<length slots])" "recording_failed status"
    then show ?thesis using f a(2) by (intro exI [of _ status] exI [of _ ok]) simp
  next
    fix m j rs
    assume m: "length rs = length slots" "ks = []"
      "ms = map CInit [0..<m] @ map CSpawn [0..<j] @ map CJoin [0..<j] @ map CShutdown (rev [0..<length slots]) @ reports 0 rs"
      "list_all (\<lambda>d. slot_key d \<noteq> []) slots \<and> \<not> recording_failed status \<longrightarrow> list_all (\<lambda>r. \<not> fst r) rs"
    then have "\<not> recording_failed status \<Longrightarrow> results (calls s) = map (\<lambda>i. (i, False)) [0..<length slots]"
      using r assms(2) zip_all_ok [of rs "length slots"] by (simp add: results_reports)
    then show ?thesis using f a(2) m(2,3) by (intro exI [of _ status] exI [of _ ok]) simp
  qed
qed

theorem exit_code_is_the_verdict_witness:
  "\<exists>code s. example_run False = Some (code, s) \<and>
     (\<exists>status ok. filter final_call (calls s) = [CFinalize status ok] \<and>
        code = (if ok \<and> \<not> recording_failed status then 0 else 1))"
proof -
  obtain code s where e: "example_run False = Some (code, s)" using example_returns by blast
  have "list_all (\<lambda>d. slot_key d \<noteq> []) example_slots" by (simp add: example_slots_def)
  from exit_code_is_the_verdict [OF e [unfolded example_run_def] this] e show ?thesis by blast
qed



end
