(* ===== verification/Drivers_Json.thy ===== *)
theory Drivers_Json
  imports Session_Runner_Facts
begin

text \<open>
  \<^verbatim>\<open>common/src/drivers_json.cpp\<close>: the manifest of a run and how its file is replaced. The system calls are answered
  from a list; where the list ends, the process has died. Every change of the file system is kept, since a reader may
  look at any moment. The text of a document comes from the JSON library and is a parameter; the fields of the document
  that hold a time or describe the process are left out.
\<close>

section \<open>Replacing a file\<close>

type_synonym files = "string \<rightharpoonup> bytes"

text \<open>The answer of a system call: a number that is not negative, or an error, of which only EINTR matters.\<close>

datatype io = Done nat | Eintr | Err

datatype write_error =
    OpenTmp | WriteFailed | NoProgress | SyncFailed | RenameFailed | OpenDirectory | SyncDirectory

text \<open>\<open>None\<close>: the process died. The file systems seen on the way, and the answers left.\<close>

type_synonym 'r io_run = "'r option \<times> files list \<times> io list"

definition die :: "files list \<Rightarrow> 'r io_run" where
  "die hist = (None, hist, [])"

text \<open>The loop of \<^verbatim>\<open>write\<close>; the kernel takes at most what it is given.\<close>

fun write_json_loop :: "string \<Rightarrow> bytes \<Rightarrow> files list \<Rightarrow> files \<Rightarrow> io list \<Rightarrow> (write_error + unit) io_run" where
  "write_json_loop tmp left hist fs as =
     (if left = [] then (Some (Inr ()), hist, as)
      else case as of
        [] \<Rightarrow> die hist
      | Eintr # as \<Rightarrow> write_json_loop tmp left hist fs as
      | Err # as \<Rightarrow> (Some (Inl WriteFailed), hist, as)
      | Done n # as \<Rightarrow>
          if n = 0 then (Some (Inl NoProgress), hist, as)
          else
            let fs = fs(tmp \<mapsto> (case fs tmp of None \<Rightarrow> [] | Some old \<Rightarrow> old) @ take n left)
            in write_json_loop tmp (drop n left) (hist @ [fs]) fs as)"

declare write_json_loop.simps [simp del]

lemma write_json_loop_simps [simp]:
  "write_json_loop tmp [] hist fs as = (Some (Inr ()), hist, as)"
  "left \<noteq> [] \<Longrightarrow> write_json_loop tmp left hist fs [] = die hist"
  "left \<noteq> [] \<Longrightarrow> write_json_loop tmp left hist fs (Eintr # as) = write_json_loop tmp left hist fs as"
  "left \<noteq> [] \<Longrightarrow> write_json_loop tmp left hist fs (Err # as) = (Some (Inl WriteFailed), hist, as)"
  "left \<noteq> [] \<Longrightarrow> write_json_loop tmp left hist fs (Done n # as) =
     (if n = 0 then (Some (Inl NoProgress), hist, as)
      else
        let fs = fs(tmp \<mapsto> (case fs tmp of None \<Rightarrow> [] | Some old \<Rightarrow> old) @ take n left)
        in write_json_loop tmp (drop n left) (hist @ [fs]) fs as)"
  by (subst write_json_loop.simps; simp)+

text \<open>What follows the writes: sync, rename, and sync of the directory.\<close>

definition publish :: "string \<Rightarrow> string \<Rightarrow> files list \<Rightarrow> files \<Rightarrow> io list \<Rightarrow> (write_error + unit) io_run" where
  "publish tmp path hist fs as =
     (case as of
        [] \<Rightarrow> die hist
      | Done _ # as \<Rightarrow>
          (case as of
             [] \<Rightarrow> die hist
           | Done _ # as \<Rightarrow>
               let fs = (fs(path := fs tmp))(tmp := None); hist = hist @ [fs] in
               (case as of
                  [] \<Rightarrow> die hist
                | Done _ # as \<Rightarrow>
                    (case as of
                       [] \<Rightarrow> die hist
                     | Done _ # as \<Rightarrow> (Some (Inr ()), hist, as)
                     | _ # as \<Rightarrow> (Some (Inl SyncDirectory), hist, as))
                | _ # as \<Rightarrow> (Some (Inl OpenDirectory), hist, as))
           | _ # as \<Rightarrow> (Some (Inl RenameFailed), hist, as))
      | _ # as \<Rightarrow> (Some (Inl SyncFailed), hist, as))"

definition WriteJsonAtomic :: "string \<Rightarrow> bytes \<Rightarrow> files list \<Rightarrow> io list \<Rightarrow> (write_error + unit) io_run" where
  "WriteJsonAtomic path content hist as =
     (let tmp = path @ ''.tmp''; fs = last hist in
      case as of
        [] \<Rightarrow> die hist
      | Done _ # as \<Rightarrow>
          let fs = fs(tmp \<mapsto> []) in
          (case write_json_loop tmp (content @ [10]) (hist @ [fs]) fs as of
             (Some (Inr _), hist, as) \<Rightarrow> publish tmp path hist (last hist) as
           | r \<Rightarrow> r)
      | _ # as \<Rightarrow> (Some (Inl OpenTmp), hist, as))"

section \<open>The document\<close>

record driver_entry =
  de_enabled :: bool
  de_config :: string

record manifest =
  m_phase :: string
  m_configuration_read :: bool
  m_sensors :: "(string \<times> string \<times> string) list"
  m_revision :: u32
  m_operator :: "string option"
  m_field :: "string option"
  m_timestamp :: "string option"
  m_output_directory :: "string option"
  m_version :: "string option"
  m_git_sha :: "string option"
  m_status :: string
  m_recording_failed :: "bool option"
  m_drivers :: "(string \<times> driver_entry) list"
  m_results :: "(string \<times> bool \<times> statistics) list"

record DriversJson =
  json_path :: string
  control_path :: string
  json_doc :: manifest

definition new_DriversJson :: "string \<Rightarrow> string \<Rightarrow> DriversJson" where
  "new_DriversJson path control =
     \<lparr>json_path = path, control_path = control,
      json_doc = \<lparr>m_phase = ''initializing'', m_configuration_read = False, m_sensors = [], m_revision = 0,
        m_operator = None, m_field = None, m_timestamp = None, m_output_directory = None, m_version = None,
        m_git_sha = None, m_status = ''running'', m_recording_failed = None, m_drivers = [], m_results = []\<rparr>\<rparr>"

definition edit :: "(manifest \<Rightarrow> manifest) \<Rightarrow> DriversJson \<Rightarrow> DriversJson" where
  "edit f d = d\<lparr>json_doc := f (json_doc d)\<rparr>"

definition SetMeta :: "string \<Rightarrow> string \<Rightarrow> DriversJson \<Rightarrow> DriversJson" where
  "SetMeta who field = edit (\<lambda>m. m\<lparr>m_operator := Some who, m_field := Some field\<rparr>)"

definition SetRun :: "string \<Rightarrow> string \<Rightarrow> DriversJson \<Rightarrow> DriversJson" where
  "SetRun ts dir = edit (\<lambda>m. m\<lparr>m_timestamp := Some ts, m_output_directory := Some dir\<rparr>)"

definition SetVersion :: "string \<Rightarrow> string \<Rightarrow> DriversJson \<Rightarrow> DriversJson" where
  "SetVersion version sha = edit (\<lambda>m. m\<lparr>m_version := Some version, m_git_sha := Some sha\<rparr>)"

text \<open>The entry of a name keeps its place.\<close>

fun put_entry :: "string \<Rightarrow> 'a \<Rightarrow> (string \<times> 'a) list \<Rightarrow> (string \<times> 'a) list" where
  "put_entry k x [] = [(k, x)]"
| "put_entry k x ((l, y) # es) = (if l = k then (k, x) # es else (l, y) # put_entry k x es)"

definition AddDriver :: "string \<Rightarrow> bool \<Rightarrow> string \<Rightarrow> DriversJson \<Rightarrow> DriversJson" where
  "AddDriver name enabled config =
     edit (\<lambda>m. m\<lparr>m_drivers := put_entry name \<lparr>de_enabled = enabled, de_config = config\<rparr> (m_drivers m)\<rparr>)"

definition AddDriverResult :: "string \<Rightarrow> bool \<Rightarrow> statistics \<Rightarrow> DriversJson \<Rightarrow> DriversJson" where
  "AddDriverResult name failed st = edit (\<lambda>m. m\<lparr>m_results := m_results m @ [(name, failed, st)]\<rparr>)"

text \<open>\<open>None\<close>: the process died.\<close>

definition WriteDoc :: "(manifest \<Rightarrow> bytes) \<Rightarrow> DriversJson \<Rightarrow> files list \<Rightarrow> io list \<Rightarrow> bool io_run" where
  "WriteDoc dump d hist as =
     (case WriteJsonAtomic (json_path d) (dump (json_doc d)) hist as of
        (Some (Inr _), hist, as) \<Rightarrow>
          if control_path d = [] then (Some True, hist, as)
          else
            (case WriteJsonAtomic (control_path d) (dump (json_doc d)) hist as of
               (Some (Inr _), hist, as) \<Rightarrow> (Some True, hist, as)
             | (Some (Inl e), hist, as) \<Rightarrow> (Some False, hist, as)
             | (None, hist, as) \<Rightarrow> (None, hist, as))
      | (Some (Inl e), hist, as) \<Rightarrow> (Some False, hist, as)
      | (None, hist, as) \<Rightarrow> (None, hist, as))"

definition WriteRunning :: "(manifest \<Rightarrow> bytes) \<Rightarrow> DriversJson \<Rightarrow> files list \<Rightarrow> io list \<Rightarrow> DriversJson \<times> bool io_run" where
  "WriteRunning dump d hist as =
     (let d = edit (\<lambda>m. m\<lparr>m_status := ''running''\<rparr>) d in (d, WriteDoc dump d hist as))"

definition UpdateLifecycle ::
  "(manifest \<Rightarrow> bytes) \<Rightarrow> string \<Rightarrow> bool \<Rightarrow> (string \<times> string \<times> string) list \<Rightarrow> DriversJson \<Rightarrow> files list \<Rightarrow> io list \<Rightarrow>
   DriversJson \<times> bool io_run" where
  "UpdateLifecycle dump phase read sensors d hist as =
     (let d = edit (\<lambda>m. m\<lparr>m_phase := phase, m_configuration_read := read, m_sensors := sensors,
                        m_revision := m_revision m + 1\<rparr>) d
      in (d, WriteDoc dump d hist as))"

definition Finalize_doc ::
  "(manifest \<Rightarrow> bytes) \<Rightarrow> string \<Rightarrow> DriversJson \<Rightarrow> files list \<Rightarrow> io list \<Rightarrow> DriversJson \<times> bool io_run" where
  "Finalize_doc dump status d hist as =
     (let d = edit (\<lambda>m. m\<lparr>m_phase := ''finished'', m_revision := m_revision m + 1, m_status := status,
                        m_recording_failed := Some (recording_failed status)\<rparr>) d
      in (d, WriteDoc dump d hist as))"

section \<open>What a reader sees\<close>

text \<open>Every file but the temporary one is as before, or it is the target and holds the new content.\<close>

definition sees :: "string \<Rightarrow> bytes \<Rightarrow> files \<Rightarrow> files \<Rightarrow> bool" where
  "sees path content before after =
     (\<forall>q. q \<noteq> path @ ''.tmp'' \<longrightarrow> after q = before q \<or> q = path \<and> after q = Some (content @ [10]))"

lemma write_json_loop_hist:
  assumes "hist \<noteq> []" "last hist = fs" "fs tmp = Some done" "write_json_loop tmp left hist fs as = (r, hist', as')"
  shows "\<exists>new. hist' = hist @ new \<and> (\<forall>f\<in>set new. \<forall>q. q \<noteq> tmp \<longrightarrow> f q = fs q) \<and>
    (r = Some (Inr ()) \<longrightarrow> last hist' tmp = Some (done @ left))"
  using assms
proof (induction tmp left hist fs as arbitrary: "done" rule: write_json_loop.induct)
  case (1 tmp left hist fs as)
  note w = 1(6)
  show ?case
  proof (cases "left = [] \<or> as = []")
    case True
    then show ?thesis using w 1(3-5) by (cases "left = []") (auto simp: die_def)
  next
    case False
    then obtain a bs where a: "left \<noteq> []" "as = a # bs" by (cases as) auto
    show ?thesis
    proof (cases a)
      case (Done n)
      show ?thesis
      proof (cases "n = 0")
        case True
        then show ?thesis using w a Done by auto
      next
        case n: False
        let ?fs = "fs(tmp \<mapsto> done @ take n left)"
        have w': "write_json_loop tmp (drop n left) (hist @ [?fs]) ?fs bs = (r, hist', as')"
          using w a Done n 1(5) by (simp add: Let_def)
        have "\<exists>new. hist' = (hist @ [?fs]) @ new \<and> (\<forall>f\<in>set new. \<forall>q. q \<noteq> tmp \<longrightarrow> f q = ?fs q) \<and>
            (r = Some (Inr ()) \<longrightarrow> last hist' tmp = Some ((done @ take n left) @ drop n left))"
          by (rule 1(1) [OF a(1) a(2) Done n]) (use w' 1(5) in \<open>simp_all add: fun_upd_def\<close>)
        then obtain new where "hist' = (hist @ [?fs]) @ new" "\<forall>f\<in>set new. \<forall>q. q \<noteq> tmp \<longrightarrow> f q = ?fs q"
          "r = Some (Inr ()) \<longrightarrow> last hist' tmp = Some (done @ left)" by auto
        then show ?thesis by (intro exI [of _ "?fs # new"]) auto
      qed
    next
      case Eintr
      then show ?thesis using 1(2) [OF a(1) a(2) Eintr 1(3-5)] w a by simp
    next
      case Err
      then show ?thesis using w a by auto
    qed
  qed
qed

lemma publish_hist:
  assumes "publish tmp path hist fs as = (r, hist', as')" "hist \<noteq> []" "last hist = fs" "fs tmp = Some c" "tmp \<noteq> path"
  shows "\<exists>new. hist' = hist @ new \<and> (\<forall>f\<in>set new. \<forall>q. q \<noteq> tmp \<longrightarrow> f q = fs q \<or> q = path \<and> f q = Some c) \<and>
    (r = Some (Inr ()) \<longrightarrow> last hist' path = Some c)"
  using assms by (auto simp: publish_def die_def Let_def split: list.splits io.splits)

lemma tmp_differs: "path @ ''.tmp'' \<noteq> path"
  by simp

lemma WriteJsonAtomic_hist:
  assumes "WriteJsonAtomic path content hist as = (r, hist', as')" "hist \<noteq> []"
  shows "\<exists>new. hist' = hist @ new \<and> (\<forall>f\<in>set new. sees path content (last hist) f) \<and>
    (r = Some (Inr ()) \<longrightarrow> last hist' path = Some (content @ [10]))"
proof (cases "\<exists>n bs. as = Done n # bs")
  case False
  show ?thesis
  proof (cases as)
    case Nil
    then show ?thesis using assms by (simp add: WriteJsonAtomic_def die_def Let_def)
  next
    case (Cons a bs)
    then show ?thesis using assms False by (cases a) (auto simp: WriteJsonAtomic_def Let_def)
  qed
next
  case True
  then obtain n bs where a: "as = Done n # bs" by blast
  let ?tmp = "path @ ''.tmp''"
  let ?fs = "(last hist)(?tmp \<mapsto> [])"
  obtain r1 h1 b1 where w: "write_json_loop ?tmp (content @ [10]) (hist @ [?fs]) ?fs bs = (r1, h1, b1)" by (metis surj_pair)
  obtain new where n: "h1 = (hist @ [?fs]) @ new" "\<forall>f\<in>set new. \<forall>q. q \<noteq> ?tmp \<longrightarrow> f q = ?fs q"
    "r1 = Some (Inr ()) \<longrightarrow> last h1 ?tmp = Some (content @ [10])"
    using write_json_loop_hist [OF _ _ _ w, of "[]"] by auto
  have first: "\<forall>f\<in>set (?fs # new). sees path content (last hist) f" using n(2) by (auto simp: sees_def)
  have l: "q \<noteq> ?tmp \<Longrightarrow> last h1 q = last hist q" for q using n(1,2) by (cases new rule: rev_cases) auto
  show ?thesis
  proof (cases "r1 = Some (Inr ())")
    case False
    then have "r = r1" "hist' = h1" using assms(1) a w by (auto simp: WriteJsonAtomic_def split: option.splits sum.splits)
    then show ?thesis using first n(1) False by (intro exI [of _ "?fs # new"]) simp
  next
    case True
    then have p: "publish ?tmp path h1 (last h1) b1 = (r, hist', as')"
      using assms(1) a w by (simp add: WriteJsonAtomic_def Let_def)
    have "h1 \<noteq> []" using n(1) by simp
    from publish_hist [OF p this refl _ tmp_differs] n(3) True obtain new2 where
      n2: "hist' = h1 @ new2" "\<forall>f\<in>set new2. \<forall>q. q \<noteq> ?tmp \<longrightarrow> f q = last h1 q \<or> q = path \<and> f q = Some (content @ [10])"
      "r = Some (Inr ()) \<longrightarrow> last hist' path = Some (content @ [10])" by blast
    have "\<forall>f\<in>set new2. sees path content (last hist) f" using n2(2) l by (simp add: sees_def)
    then show ?thesis using first n(1) n2 by (intro exI [of _ "?fs # new @ new2"]) auto
  qed
qed

lemma result_cases:
  fixes r :: "(write_error + unit) option"
  obtains "r = None" | e where "r = Some (Inl e)" | "r = Some (Inr ())"
  by (metis (full_types) not_None_eq old.unit.exhaust sum.exhaust_sel)

lemma sees_other: "\<lbrakk> sees control content before after; path \<noteq> control @ ''.tmp'' \<rbrakk> \<Longrightarrow>
    after path = before path \<or> after path = Some (content @ [10])"
  by (auto simp: sees_def)

text \<open>
  C39: a reader never sees a truncated manifest: whenever the manifest is written, and whatever the system calls do, with
  a process that may die at any of them, at every moment the file holds what it held before or the whole new document;
  when the write is reported as done, it holds the new one, and so does the file of the controller if there is one. The
  one thing relied on is that the controller's file is not called like the temporary file of the manifest or the other
  way round.
\<close>

theorem manifest_is_replaced_whole:
  assumes "json_path d \<noteq> control_path d @ ''.tmp''" "control_path d \<noteq> json_path d @ ''.tmp''" "hist \<noteq> []"
    and "WriteDoc dump d hist as = (r, hist', as')"
  shows "\<exists>new. hist' = hist @ new \<and>
    list_all (\<lambda>f. f (json_path d) \<in> {last hist (json_path d), Some (dump (json_doc d) @ [10])}) new \<and>
    (if r = Some True
     then last hist' (json_path d) = Some (dump (json_doc d) @ [10]) \<and>
          (control_path d = [] \<or> last hist' (control_path d) = Some (dump (json_doc d) @ [10]))
     else True)"
proof -
  let ?c = "dump (json_doc d)"
  obtain r1 h1 a1 where w: "WriteJsonAtomic (json_path d) ?c hist as = (r1, h1, a1)" by (metis surj_pair)
  obtain new where n: "h1 = hist @ new" "\<forall>f\<in>set new. sees (json_path d) ?c (last hist) f"
    "r1 = Some (Inr ()) \<longrightarrow> last h1 (json_path d) = Some (?c @ [10])"
    using WriteJsonAtomic_hist [OF w assms(3)] by blast
  have s: "\<forall>f\<in>set new. f (json_path d) \<in> {last hist (json_path d), Some (?c @ [10])}"
    using n(2) by (auto simp: sees_def)
  show ?thesis
  proof (cases "r1 = Some (Inr ()) \<and> control_path d \<noteq> []")
    case False
    then have e: "hist' = h1 \<and> (r = Some True \<longrightarrow> r1 = Some (Inr ()) \<and> control_path d = [])"
      using assms(4) w False by (cases r1 rule: result_cases) (auto simp: WriteDoc_def)
    have "r = Some True \<Longrightarrow> last hist' (json_path d) = Some (?c @ [10])" using e n(3) by simp
    then show ?thesis using n(1) s e by (intro exI [of _ new]) (simp add: list_all_iff)
  next
    case True
    obtain r2 h2 a2 where v: "WriteJsonAtomic (control_path d) ?c h1 a1 = (r2, h2, a2)" by (metis surj_pair)
    have h1: "h1 \<noteq> []" using n(1) assms(3) by simp
    obtain new2 where n2: "h2 = h1 @ new2" "\<forall>f\<in>set new2. sees (control_path d) ?c (last h1) f"
      "r2 = Some (Inr ()) \<longrightarrow> last h2 (control_path d) = Some (?c @ [10])"
      using WriteJsonAtomic_hist [OF v h1] by blast
    have w': "WriteJsonAtomic (json_path d) ?c hist as = (Some (Inr ()), h1, a1)" using w True by simp
    have e: "hist' = h2 \<and> (r = Some True \<longrightarrow> r2 = Some (Inr ()))"
      using assms(4) w' v True by (cases r2 rule: result_cases) (auto simp: WriteDoc_def)
    have s2: "\<forall>f\<in>set new2. f (json_path d) = Some (?c @ [10])"
    proof
      fix f assume "f \<in> set new2"
      with n2(2) have "sees (control_path d) ?c (last h1) f" by blast
      from sees_other [OF this assms(1)] show "f (json_path d) = Some (?c @ [10])" using n(3) True by metis
    qed
    then have l: "last h2 (json_path d) = Some (?c @ [10])"
      using n2(1) n(3) True by (cases new2 rule: rev_cases) auto
    show ?thesis
      using s s2 l n(1) n2(1,3) e by (intro exI [of _ "new @ new2"]) (simp add: list_all_iff ball_Un)
  qed
qed

theorem manifest_is_replaced_whole_witness:
  "\<exists>hist'. WriteDoc (\<lambda>m. [7, 8]) (new_DriversJson ''a'' []) [[''a'' \<mapsto> [1]]]
      [Done 3, Done 1, Eintr, Done 2, Done 0, Done 0, Done 3, Done 0] = (Some True, hist', []) \<and>
    last hist' ''a'' = Some [7, 8, 10] \<and> list_all (\<lambda>f. f ''a'' \<in> {Some [1], Some [7, 8, 10]}) (tl hist')"
proof -
  obtain hist' where w: "WriteDoc (\<lambda>m. [7, 8]) (new_DriversJson ''a'' []) [[''a'' \<mapsto> [1]]]
      [Done 3, Done 1, Eintr, Done 2, Done 0, Done 0, Done 3, Done 0] = (Some True, hist', [])"
    by (simp add: WriteDoc_def WriteJsonAtomic_def publish_def new_DriversJson_def Let_def)
  have "json_path (new_DriversJson ''a'' []) \<noteq> control_path (new_DriversJson ''a'' []) @ ''.tmp''"
    "control_path (new_DriversJson ''a'' []) \<noteq> json_path (new_DriversJson ''a'' []) @ ''.tmp''"
    by (simp_all add: new_DriversJson_def)
  from manifest_is_replaced_whole [OF this _ w] show ?thesis
    using w by (auto simp: new_DriversJson_def)
qed

end
